(* ===== verification/Prelude.thy ===== *)
theory Prelude
  imports Main "HOL-Library.Word" "HOL-Library.Monad_Syntax"
begin

unbundle bit_operations_syntax

text \<open>
  Shared vocabulary of the development: machine integers, the C view of memory (byte buffers
  written through a moving pointer, NUL-terminated strings), the outcome of a run of stateful
  code, and the lemma collections the component theories rely on.

  \<^item> An \<open>unsigned char\<close> buffer is a list of \<open>8 word\<close>; a pointer into it is an index. A cursor
    \<open>(b, p)\<close> is a buffer with the pointer the C code moves along it. A store outside the
    buffer is undefined behaviour in C and is \<open>None\<close> here, so "returns \<open>Some\<close>" is memory safety.
  \<^item> A C string is the list of its bytes before the terminator; its memory is \<open>s @ [0]\<close>.
  \<^item> Code that loops on the environment (network, clock) runs with fuel and returns a \<open>run\<close>:
    \<open>Done\<close> with its results, \<open>Fault\<close> for an out-of-bounds access, \<open>NoFuel\<close> when the fuel ran out.
\<close>

type_synonym byte = "8 word"
type_synonym u8 = "8 word"
type_synonym u16 = "16 word"
type_synonym u32 = "32 word"
type_synonym size_t = "64 word"
type_synonym cstring = "byte list"
type_synonym cursor = "byte list \<times> nat"

named_theorems codec \<open>equations that turn pointer-moving code into list expressions\<close>
named_theorems keeps_size \<open>a writer keeps the length of its buffer\<close>

subsection \<open>Stores through a moving pointer\<close>

definition store :: "byte \<Rightarrow> cursor \<Rightarrow> cursor option" where
  "store c bp = (if snd bp < length (fst bp) then Some ((fst bp)[snd bp := c], Suc (snd bp)) else None)"

text \<open>\<open>memcpy(ptr, src, n); ptr += n\<close>: all bytes or, when they do not fit, undefined.\<close>

definition put :: "byte list \<Rightarrow> cursor \<Rightarrow> cursor option" where
  "put bs bp = (let b = fst bp; p = snd bp in
     if p + length bs \<le> length b
     then Some (take p b @ bs @ drop (p + length bs) b, p + length bs) else None)"

text \<open>\<open>n\<close> bytes read from the start of the memory of the C string \<open>s\<close> (terminator included).\<close>

definition cstr_read :: "cstring \<Rightarrow> nat \<Rightarrow> byte list option" where
  "cstr_read s n = (if n \<le> length s + 1 then Some (take n (s @ [0])) else None)"

definition byte_at :: "byte list \<Rightarrow> nat \<Rightarrow> byte option" where
  "byte_at b i = (if i < length b then Some (b ! i) else None)"

definition bytes_of :: "string \<Rightarrow> byte list" where
  "bytes_of s = map of_char s"

subsection \<open>Outcomes of runs\<close>

datatype 'a run = Done 'a | Fault | NoFuel

fun bnd :: "'a run \<Rightarrow> ('a \<Rightarrow> 'b run) \<Rightarrow> 'b run" where
  "bnd (Done x) f = f x"
| "bnd Fault f = Fault"
| "bnd NoFuel f = NoFuel"

definition of_opt :: "'a option \<Rightarrow> 'a run" where
  "of_opt m = (case m of None \<Rightarrow> Fault | Some x \<Rightarrow> Done x)"

text \<open>
  Partial correctness of a run, and absence of memory faults: the results of every completed run
  satisfy \<open>P\<close>; \<open>safe\<close> also excludes \<open>Fault\<close>.
\<close>

definition post :: "'a run \<Rightarrow> ('a \<Rightarrow> bool) \<Rightarrow> bool" where
  "post m P = (case m of Done x \<Rightarrow> P x | _ \<Rightarrow> True)"

definition safe :: "'a run \<Rightarrow> ('a \<Rightarrow> bool) \<Rightarrow> bool" where
  "safe m P = (case m of Done x \<Rightarrow> P x | Fault \<Rightarrow> False | NoFuel \<Rightarrow> True)"

text \<open>Total correctness: the run completes and its result satisfies \<open>P\<close>.\<close>

definition ends :: "'a run \<Rightarrow> ('a \<Rightarrow> bool) \<Rightarrow> bool" where
  "ends m P \<longleftrightarrow> (\<exists>x. m = Done x \<and> P x)"

subsection \<open>Lemmas on stores\<close>

lemma put_Nil [codec]: "snd bp \<le> length (fst bp) \<Longrightarrow> put [] bp = Some bp"
  by (cases bp) (simp add: put_def)

lemma store_put [codec]: "store c bp = put [c] bp"
proof (cases bp)
  case (Pair b p)
  show ?thesis
    by (auto simp: Pair store_def put_def upd_conv_take_nth_drop Suc_le_eq)
qed

lemma put_put: "Option.bind (put xs bp) (put ys) = put (xs @ ys) bp"
proof (cases bp)
  case (Pair b p)
  have "p + length xs \<le> length b \<Longrightarrow> min (length b) p = p" by simp
  then show ?thesis
    by (auto simp: Pair put_def Let_def ac_simps)
qed

lemma put_SomeD: "put bs bp = Some bp' \<Longrightarrow>
    length (fst bp') = length (fst bp) \<and> snd bp' = snd bp + length bs \<and> snd bp' \<le> length (fst bp')"
  by (auto simp: put_def Let_def split: if_splits)

lemma put_bind [codec]:
  "Option.bind (put xs bp) (\<lambda>bp'. Option.bind (put ys bp') f) = Option.bind (put (xs @ ys) bp) f"
  by (simp add: put_put [symmetric] Option.bind_assoc)

lemma put_eq_Some:
  "put bs (b, p) = (if p + length bs \<le> length b
     then Some (take p b @ bs @ drop (p + length bs) b, p + length bs) else None)"
  by (simp add: put_def)

lemma cstr_read_le [simp]: "n \<le> length s \<Longrightarrow> cstr_read s n = Some (take n s)"
  by (simp add: cstr_read_def)

lemma cstr_read_length: "cstr_read s n = Some bs \<Longrightarrow> length bs = n"
  by (auto simp: cstr_read_def split: if_splits)

lemma byte_at_Some [simp]: "i < length b \<Longrightarrow> byte_at b i = Some (b ! i)"
  by (simp add: byte_at_def)

lemma byte_at_append [codec]:
  "byte_at (xs @ ys) i = (if i < length xs then Some (xs ! i) else byte_at ys (i - length xs))"
  by (auto simp: byte_at_def nth_append)

subsection \<open>Lemmas on lists\<close>

lemma list_all_update: "list_all P xs \<Longrightarrow> (i < length xs \<Longrightarrow> P x) \<Longrightarrow> list_all P (xs[i := x])"
  by (cases "i < length xs") (auto simp: list_all_length nth_list_update list_update_beyond)

lemma list_all_nth: "list_all P xs \<Longrightarrow> i < length xs \<Longrightarrow> P (xs ! i)"
  by (simp add: list_all_length)

subsection \<open>Lemmas on runs\<close>

lemma bnd_Done_iff [simp]: "bnd m f = Done y \<longleftrightarrow> (\<exists>x. m = Done x \<and> f x = Done y)"
  by (cases m) auto

lemma bnd_Fault_iff: "bnd m f = Fault \<longleftrightarrow> m = Fault \<or> (\<exists>x. m = Done x \<and> f x = Fault)"
  by (cases m) auto

lemma bnd_NoFuel_iff: "bnd m f = NoFuel \<longleftrightarrow> m = NoFuel \<or> (\<exists>x. m = Done x \<and> f x = NoFuel)"
  by (cases m) auto

lemma bnd_assoc: "bnd (bnd m f) g = bnd m (\<lambda>x. bnd (f x) g)"
  by (cases m) auto

lemma of_opt_simps [simp]: "of_opt None = Fault" "of_opt (Some x) = Done x"
  by (simp_all add: of_opt_def)

lemma of_opt_iff [simp]:
  "of_opt m = Done x \<longleftrightarrow> m = Some x" "of_opt m = Fault \<longleftrightarrow> m = None" "of_opt m \<noteq> NoFuel"
  by (cases m; simp)+

lemma post_simps [simp]: "post (Done x) P = P x" "post Fault P" "post NoFuel P"
  by (simp_all add: post_def)

lemma safe_simps [simp]: "safe (Done x) P = P x" "\<not> safe Fault P" "safe NoFuel P"
  by (simp_all add: safe_def)

lemma post_bnd [simp]: "post (bnd m f) P = post m (\<lambda>x. post (f x) P)"
  by (cases m) simp_all

lemma safe_bnd [simp]: "safe (bnd m f) P = safe m (\<lambda>x. safe (f x) P)"
  by (cases m) simp_all

lemma post_of_opt [simp]: "post (of_opt m) P \<longleftrightarrow> (\<forall>x. m = Some x \<longrightarrow> P x)"
  by (cases m) simp_all

lemma safe_of_opt [simp]: "safe (of_opt m) P \<longleftrightarrow> (\<exists>x. m = Some x \<and> P x)"
  by (cases m) simp_all

lemma postD: "post m P \<Longrightarrow> m = Done x \<Longrightarrow> P x"
  by simp

lemma postI: "(\<And>x. m = Done x \<Longrightarrow> P x) \<Longrightarrow> post m P"
  by (cases m) simp_all

lemma post_mono: "post m P \<Longrightarrow> (\<And>x. P x \<Longrightarrow> Q x) \<Longrightarrow> post m Q"
  by (cases m) simp_all

lemma safe_mono: "safe m P \<Longrightarrow> (\<And>x. P x \<Longrightarrow> Q x) \<Longrightarrow> safe m Q"
  by (cases m) simp_all

lemma safe_post: "safe m P \<Longrightarrow> post m P"
  by (cases m) simp_all

lemma post_conj: "post m P \<Longrightarrow> post m Q \<Longrightarrow> post m (\<lambda>x. P x \<and> Q x)"
  by (cases m) simp_all

lemma ends_simps [simp]: "ends (Done x) P = P x" "\<not> ends Fault P" "\<not> ends NoFuel P"
  "ends (bnd m f) P = ends m (\<lambda>x. ends (f x) P)"
  by (auto simp: ends_def)

lemma ends_mono: "ends m P \<Longrightarrow> (\<And>x. P x \<Longrightarrow> Q x) \<Longrightarrow> ends m Q"
  by (auto simp: ends_def)

lemma ends_post: "ends m P \<Longrightarrow> post m P"
  by (auto simp: ends_def)

text \<open>Elimination rules for the option monad; the second for results that carry an error.\<close>

lemma bind_SomeE: "Option.bind m f = Some x \<Longrightarrow> (\<And>y. m = Some y \<Longrightarrow> f y = Some x \<Longrightarrow> P) \<Longrightarrow> P"
  by (cases m) auto

lemma bind_sumE:
  "Option.bind m f = Some x \<Longrightarrow> (\<And>e. m = Some (Inl e) \<Longrightarrow> f (Inl e) = Some x \<Longrightarrow> P) \<Longrightarrow>
     (\<And>v. m = Some (Inr v) \<Longrightarrow> f (Inr v) = Some x \<Longrightarrow> P) \<Longrightarrow> P"
  by (cases m) (auto, metis sumE)

lemmas bind_byteE = bind_SomeE [where m = "m :: byte option" for m]

subsection \<open>Lemmas on words\<close>

lemma unat_less_2p: "unat (w :: 'a::len word) < 2 ^ LENGTH('a)"
  by (rule unsigned_less)

lemma unat_u16_less: "unat (w :: u16) < 65536"
  using unat_less_2p [of w] by simp

lemma unat_u8_less: "unat (w :: byte) < 256"
  using unat_less_2p [of w] by simp

lemma size_t_add:
  fixes k :: size_t
  assumes "0 \<le> r" and "int (unat k) + r < 2 ^ 64"
  shows "unat (k + of_int r) = unat k + nat r"
proof -
  have "r = int (nat r)" using assms(1) by simp
  then have e: "(of_int r :: size_t) = of_nat (nat r)" by (metis of_int_of_nat_eq)
  have "int (unat k + nat r) < int (2 ^ 64)" using assms by simp
  then have b: "unat k + nat r < 2 ^ 64" by (simp only: of_nat_less_iff)
  have "unat (of_nat (nat r) :: size_t) = nat r"
    unfolding unat_of_nat using b by (intro mod_less) simp
  then show ?thesis
    unfolding e using b by (subst unat_word_ariths(1)) simp
qed

end
