(* ===== verification/Iot_Error.thy ===== *)
theory Iot_Error
  imports Prelude
begin

text \<open>
  The return codes of the SDK (include/aws_iot_error.h) as a datatype with the source's
  enumerators, in the source's order. Only the plugins the development uses are generated.
\<close>

datatype (plugins only: code size) IoT_Error_t =
    NETWORK_PHYSICAL_LAYER_CONNECTED
  | NETWORK_MANUALLY_DISCONNECTED
  | NETWORK_ATTEMPTING_RECONNECT
  | NETWORK_RECONNECTED
  | MQTT_NOTHING_TO_READ
  | MQTT_CONNACK_CONNECTION_ACCEPTED
  | SUCCESS
  | FAILURE
  | NULL_VALUE_ERROR
  | TCP_CONNECTION_ERROR
  | SSL_CONNECTION_ERROR
  | TCP_SETUP_ERROR
  | NETWORK_SSL_CONNECT_TIMEOUT_ERROR
  | NETWORK_SSL_WRITE_ERROR
  | NETWORK_SSL_INIT_ERROR
  | NETWORK_SSL_CERT_ERROR
  | NETWORK_SSL_WRITE_TIMEOUT_ERROR
  | NETWORK_SSL_READ_TIMEOUT_ERROR
  | NETWORK_SSL_READ_ERROR
  | NETWORK_DISCONNECTED_ERROR
  | NETWORK_RECONNECT_TIMED_OUT_ERROR
  | NETWORK_ALREADY_CONNECTED_ERROR
  | NETWORK_MBEDTLS_ERR_CTR_DRBG_ENTROPY_SOURCE_FAILED
  | NETWORK_SSL_UNKNOWN_ERROR
  | NETWORK_PHYSICAL_LAYER_DISCONNECTED
  | NETWORK_X509_ROOT_CRT_PARSE_ERROR
  | NETWORK_X509_DEVICE_CRT_PARSE_ERROR
  | NETWORK_PK_PRIVATE_KEY_PARSE_ERROR
  | NETWORK_ERR_NET_SOCKET_FAILED
  | NETWORK_ERR_NET_UNKNOWN_HOST
  | NETWORK_ERR_NET_CONNECT_FAILED
  | NETWORK_SSL_NOTHING_TO_READ
  | MQTT_CONNECTION_ERROR
  | MQTT_CONNECT_TIMEOUT_ERROR
  | MQTT_REQUEST_TIMEOUT_ERROR
  | MQTT_UNEXPECTED_CLIENT_STATE_ERROR
  | MQTT_CLIENT_NOT_IDLE_ERROR
  | MQTT_RX_MESSAGE_PACKET_TYPE_INVALID_ERROR
  | MQTT_RX_BUFFER_TOO_SHORT_ERROR
  | MQTT_TX_BUFFER_TOO_SHORT_ERROR
  | MQTT_MAX_SUBSCRIPTIONS_REACHED_ERROR
  | MQTT_DECODE_REMAINING_LENGTH_ERROR
  | MQTT_CONNACK_UNKNOWN_ERROR
  | MQTT_CONNACK_UNACCEPTABLE_PROTOCOL_VERSION_ERROR
  | MQTT_CONNACK_IDENTIFIER_REJECTED_ERROR
  | MQTT_CONNACK_SERVER_UNAVAILABLE_ERROR
  | MQTT_CONNACK_BAD_USERDATA_ERROR
  | MQTT_CONNACK_NOT_AUTHORIZED_ERROR
  | JSON_PARSE_ERROR
  | SHADOW_WAIT_FOR_PUBLISH
  | SHADOW_JSON_BUFFER_TRUNCATED
  | SHADOW_JSON_ERROR
  | MUTEX_INIT_ERROR
  | MUTEX_LOCK_ERROR
  | MUTEX_UNLOCK_ERROR
  | MUTEX_DESTROY_ERROR

end
