(* ===== verification/Packet_Codec.thy ===== *)
theory Packet_Codec
  imports Iot_Error
begin

text \<open>
  The wire primitives of src/aws_iot_mqtt_client_common_internal.c and the types of
  include/aws_iot_mqtt_client_common_internal.h: message types, the fixed-header bit fields,
  the variable-length remaining-length field, 16-bit integers and length-prefixed strings.
  Writers move a cursor over the transmit buffer, readers an index over the receive buffer;
  an access outside the buffer is \<open>None\<close>.
\<close>

datatype MessageTypes = UNKNOWN | CONNECT | CONNACK | PUBLISH | PUBACK | PUBREC | PUBREL
  | PUBCOMP | SUBSCRIBE | SUBACK | UNSUBSCRIBE | UNSUBACK | PINGREQ | PINGRESP | DISCONNECT

fun msg_code :: "MessageTypes \<Rightarrow> int" where
  "msg_code UNKNOWN = - 1"
| "msg_code CONNECT = 1"
| "msg_code CONNACK = 2"
| "msg_code PUBLISH = 3"
| "msg_code PUBACK = 4"
| "msg_code PUBREC = 5"
| "msg_code PUBREL = 6"
| "msg_code PUBCOMP = 7"
| "msg_code SUBSCRIBE = 8"
| "msg_code SUBACK = 9"
| "msg_code UNSUBSCRIBE = 10"
| "msg_code UNSUBACK = 11"
| "msg_code PINGREQ = 12"
| "msg_code PINGRESP = 13"
| "msg_code DISCONNECT = 14"

text \<open>
  The C enum \<open>QoS\<close> also holds whatever a cast puts into it (2 or 3 from the header bits, any byte
  from a SUBACK), so it is a number with two named values.
\<close>

type_synonym QoS = nat

abbreviation (input) QOS0 :: QoS where "QOS0 \<equiv> 0"
abbreviation (input) QOS1 :: QoS where "QOS1 \<equiv> 1"

text \<open>
  The union \<open>MQTTHeader\<close>: the bit fields with their widths, and the byte they share
  (layout of the build without \<open>REVERSED\<close>: \<open>retain\<close> is the lowest bit).
\<close>

record MQTTHeader =
  h_retain :: "1 word"
  h_qos :: "2 word"
  h_dup :: "1 word"
  h_type :: "4 word"

definition header_byte :: "MQTTHeader \<Rightarrow> byte" where
  "header_byte h = push_bit 4 (ucast (h_type h)) OR push_bit 3 (ucast (h_dup h))
     OR push_bit 1 (ucast (h_qos h)) OR ucast (h_retain h)"

definition header_of_byte :: "byte \<Rightarrow> MQTTHeader" where
  "header_of_byte b = \<lparr>h_retain = ucast b, h_qos = ucast (drop_bit 1 b),
     h_dup = ucast (drop_bit 3 b), h_type = ucast (drop_bit 4 b)\<rparr>"

abbreviation hdr0 :: MQTTHeader where "hdr0 \<equiv> \<lparr>h_retain = 0, h_qos = 0, h_dup = 0, h_type = 0\<rparr>"

subsection \<open>Remaining length\<close>

text \<open>\<open>aws_iot_mqtt_internal_write_len_to_buffer\<close>: the do-while loop, one byte per turn.\<close>

function write_len_loop :: "u32 \<Rightarrow> cursor \<Rightarrow> cursor option" where
  "write_len_loop len bp =
     (let encodedByte = (ucast (len mod 128) :: byte); len' = len div 128;
          encodedByte = (if 0 < len' then encodedByte OR 0x80 else encodedByte)
      in do {
        bp' \<leftarrow> store encodedByte bp;
        if 0 < len' then write_len_loop len' bp' else Some bp'
      })"
  by pat_completeness auto
termination
proof (relation "measure (\<lambda>(len, bp). unat len)", goal_cases)
  case (2 len bp x xa xb)
  then have "0 < unat (len div 128)" by (simp add: word_gt_0 unat_gt_0)
  then have "unat len div 128 \<noteq> 0" by (simp add: unat_div)
  then have "unat len div 128 < unat len" by (simp add: div_eq_0_iff)
  then show ?case by (simp add: 2 unat_div)
qed simp

definition aws_iot_mqtt_internal_write_len_to_buffer :: "u32 \<Rightarrow> cursor \<Rightarrow> (cursor \<times> nat) option" where
  "aws_iot_mqtt_internal_write_len_to_buffer len bp =
     do { bp' \<leftarrow> write_len_loop len bp; Some (bp', snd bp' - snd bp) }"

definition MAX_NO_OF_REMAINING_LENGTH_BYTES :: u32 where
  "MAX_NO_OF_REMAINING_LENGTH_BYTES = 4"

text \<open>\<open>aws_iot_mqtt_internal_decode_remaining_length_from_buffer\<close>: returns the code, \<open>*decodedLen\<close>
  and \<open>*readBytesLen\<close> (left at 0 on the error path, as all callers initialise it).\<close>

function decode_len_loop :: "byte list \<Rightarrow> nat \<Rightarrow> u32 \<Rightarrow> u32 \<Rightarrow> u32 \<Rightarrow> (IoT_Error_t \<times> u32 \<times> u32) option" where
  "decode_len_loop buf p multiplier len decodedLen =
     (let len = len + 1 in
      if MAX_NO_OF_REMAINING_LENGTH_BYTES < len then Some (MQTT_DECODE_REMAINING_LENGTH_ERROR, decodedLen, 0)
      else do {
        encodedByte \<leftarrow> byte_at buf p;
        let decodedLen = decodedLen + ucast (encodedByte AND 127) * multiplier;
        let multiplier = multiplier * 128;
        if encodedByte AND 128 \<noteq> 0 then decode_len_loop buf (Suc p) multiplier len decodedLen
        else Some (SUCCESS, decodedLen, len)
      })"
  by pat_completeness auto
termination
  by (relation "measure (\<lambda>(buf, p, m, len, d). length buf - p)") (auto simp: byte_at_def split: if_splits)

definition aws_iot_mqtt_internal_decode_remaining_length_from_buffer ::
    "byte list \<Rightarrow> nat \<Rightarrow> (IoT_Error_t \<times> u32 \<times> u32) option" where
  "aws_iot_mqtt_internal_decode_remaining_length_from_buffer buf p = decode_len_loop buf p 1 0 0"

definition aws_iot_mqtt_internal_get_final_packet_length_from_remaining_length :: "u32 \<Rightarrow> u32" where
  "aws_iot_mqtt_internal_get_final_packet_length_from_remaining_length rem_len =
     (let rem_len = rem_len + 1 in
      if rem_len < 128 then rem_len + 1
      else if rem_len < 16384 then rem_len + 2
      else if rem_len < 2097152 then rem_len + 3
      else rem_len + 4)"

subsection \<open>Integers, characters, strings\<close>

definition aws_iot_mqtt_internal_read_uint16_t :: "byte list \<Rightarrow> nat \<Rightarrow> (u16 \<times> nat) option" where
  "aws_iot_mqtt_internal_read_uint16_t buf p = do {
     firstByte \<leftarrow> byte_at buf p;
     secondByte \<leftarrow> byte_at buf (p + 1);
     Some (ucast secondByte + 256 * ucast firstByte, p + 2)
   }"

definition aws_iot_mqtt_internal_write_uint_16 :: "u16 \<Rightarrow> cursor \<Rightarrow> cursor option" where
  "aws_iot_mqtt_internal_write_uint_16 anInt bp = do {
     bp \<leftarrow> store (ucast (anInt div 256)) bp;
     store (ucast (anInt mod 256)) bp
   }"

definition aws_iot_mqtt_internal_read_char :: "byte list \<Rightarrow> nat \<Rightarrow> (byte \<times> nat) option" where
  "aws_iot_mqtt_internal_read_char buf p = do { c \<leftarrow> byte_at buf p; Some (c, p + 1) }"

definition aws_iot_mqtt_internal_write_char :: "byte \<Rightarrow> cursor \<Rightarrow> cursor option" where
  "aws_iot_mqtt_internal_write_char c bp = store c bp"

text \<open>The string pointer may be NULL (\<open>None\<close>); copying from it is then undefined.\<close>

definition aws_iot_mqtt_internal_write_utf8_string :: "cstring option \<Rightarrow> u16 \<Rightarrow> cursor \<Rightarrow> cursor option" where
  "aws_iot_mqtt_internal_write_utf8_string s stringLen bp = do {
     bp \<leftarrow> aws_iot_mqtt_internal_write_uint_16 stringLen bp;
     if 0 < stringLen then do { str \<leftarrow> s; src \<leftarrow> cstr_read str (unat stringLen); put src bp }
     else Some bp
   }"

subsection \<open>Fixed header\<close>

definition aws_iot_mqtt_internal_init_header ::
    "MessageTypes \<Rightarrow> QoS \<Rightarrow> u8 \<Rightarrow> u8 \<Rightarrow> IoT_Error_t \<times> MQTTHeader" where
  "aws_iot_mqtt_internal_init_header message_type qos dup retained =
     (if message_type = UNKNOWN then (FAILURE, hdr0)
      else (SUCCESS, \<lparr>h_retain = (if retained = 1 then 1 else 0),
         h_qos = (if qos = QOS0 then 0 else if qos = QOS1 then 1 else 0),
         h_dup = (if dup = 1 then 1 else 0),
         h_type = of_int (msg_code message_type)\<rparr>))"

text \<open>
  The transmit buffer and the length out-parameter are the client's array and a local variable at
  every call, so their NULL checks are not modelled.
\<close>

definition aws_iot_mqtt_internal_serialize_zero ::
    "byte list \<Rightarrow> nat \<Rightarrow> MessageTypes \<Rightarrow> (IoT_Error_t \<times> byte list \<times> nat) option" where
  "aws_iot_mqtt_internal_serialize_zero pTxBuf txBufLen packetType =
     (if txBufLen < 4 then Some (MQTT_TX_BUFFER_TOO_SHORT_ERROR, pTxBuf, 0)
      else case aws_iot_mqtt_internal_init_header packetType QOS0 0 0 of (rc, header) \<Rightarrow>
      if rc \<noteq> SUCCESS then Some (rc, pTxBuf, 0)
      else do {
        bp \<leftarrow> aws_iot_mqtt_internal_write_char (header_byte header) (pTxBuf, 0);
        (bp, n) \<leftarrow> aws_iot_mqtt_internal_write_len_to_buffer 0 bp;
        Some (SUCCESS, fst bp, snd bp)
      })"

subsection \<open>Reference encodings\<close>

text \<open>
  The MQTT encodings as lists (MQTT 3.1.1, 2.2.3, 1.5.2 and 1.5.3), against which the
  pointer-moving writers are proved.
\<close>

fun encode_len :: "nat \<Rightarrow> byte list" where
  "encode_len n = (if n < 128 then [of_nat n] else of_nat (128 + n mod 128) # encode_len (n div 128))"

definition u16_bytes :: "u16 \<Rightarrow> byte list" where
  "u16_bytes n = [ucast (n div 256), ucast (n mod 256)]"

definition utf8_bytes :: "cstring \<Rightarrow> u16 \<Rightarrow> byte list" where
  "utf8_bytes s n = u16_bytes n @ take (unat n) s"

declare encode_len.simps [simp del] write_len_loop.simps [simp del] decode_len_loop.simps [simp del]



subsection \<open>The header byte\<close>

lemma header_of_byte_byte [simp]: "header_of_byte (header_byte h) = h"
proof -
  have "ucast (header_byte h) = h_retain h"
    by (rule bit_word_eqI) (simp add: header_byte_def bit_simps, simp add: bit_0)
  moreover have "ucast (drop_bit 1 (header_byte h)) = h_qos h"
    by (rule bit_word_eqI) (auto simp: header_byte_def bit_simps simp del: push_bit_Suc dest: bit_imp_le_length)
  moreover have "ucast (drop_bit 3 (header_byte h)) = h_dup h"
    by (rule bit_word_eqI) (auto simp: header_byte_def bit_simps simp del: push_bit_Suc dest: bit_imp_le_length)
  moreover have "ucast (drop_bit 4 (header_byte h)) = h_type h"
    by (rule bit_word_eqI) (auto simp: header_byte_def bit_simps simp del: push_bit_Suc dest: bit_imp_le_length)
  ultimately show ?thesis by (simp add: header_of_byte_def)
qed

lemma byte_low7: "k < 128 \<Longrightarrow> (of_nat k :: byte) AND 127 = of_nat k"
proof -
  assume k: "k < 128"
  have "(of_nat k :: byte) AND mask 7 = take_bit 7 (of_nat k)" by (simp add: take_bit_eq_mask)
  also have "\<dots> = of_nat (take_bit 7 k)" by (simp add: of_nat_take_bit)
  also have "take_bit 7 k = k" using k by (simp add: take_bit_nat_eq_self_iff)
  finally show ?thesis by (simp add: mask_numeral)
qed

lemma byte_top_clear: "k < 128 \<Longrightarrow> (of_nat k :: byte) AND 128 = 0"
proof -
  assume k: "k < 128"
  have "(of_nat k :: byte) AND 128 = (of_nat k AND 127) AND 128" using byte_low7 [OF k] by simp
  then show ?thesis by (simp add: and.assoc)
qed

lemma byte_set_top: "k < 128 \<Longrightarrow> (of_nat k :: byte) OR 128 = of_nat (128 + k)"
  using byte_top_clear [of k] disjunctive_add_eq_or [of "of_nat k :: byte" 128]
  by (simp add: add.commute)

lemma byte_top_set: "k < 128 \<Longrightarrow> (of_nat (128 + k) :: byte) AND 128 = 128"
proof -
  assume k: "k < 128"
  have "(of_nat (128 + k) :: byte) AND 128 = (of_nat k OR 128) AND 128"
    using k by (simp only: byte_set_top)
  then show ?thesis by (simp add: word_ao_absorbs)
qed

lemma byte_top_low7: "k < 128 \<Longrightarrow> (of_nat (128 + k) :: byte) AND 127 = of_nat k"
proof -
  assume k: "k < 128"
  have "(of_nat (128 + k) :: byte) AND 127 = (of_nat k OR 128) AND 127"
    using k by (simp only: byte_set_top)
  then show ?thesis using byte_low7 [OF k] by (simp add: word_ao_dist)
qed

lemma ucast_mod128: "(ucast (len mod 128 :: u32) :: byte) = of_nat (unat len mod 128)"
  by (simp add: word_unat_eq_iff unsigned_ucast_eq unat_mod unat_of_nat take_bit_eq_mod)

lemma write_len_loop_put [codec]: "write_len_loop len bp = put (encode_len (unat len)) bp"
proof (induction "unat len" arbitrary: len bp rule: less_induct)
  case less
  have gt: "0 < len div 128 \<longleftrightarrow> \<not> unat len < 128"
    by (simp add: word_gt_0 unat_eq_0 [symmetric] unat_div div_eq_0_iff)
  note unfold = write_len_loop.simps [of len] encode_len.simps [of "unat len"] gt store_put ucast_mod128 Let_def
  show ?case
  proof (cases "unat len < 128")
    case True
    then show ?thesis by (simp add: unfold)
  next
    case False
    then have "unat (len div 128) < unat len" by (simp add: unat_div)
    then have "write_len_loop (len div 128) = put (encode_len (unat len div 128))"
      using less by (simp add: fun_eq_iff unat_div)
    with False show ?thesis
      by (simp add: unfold byte_set_top put_put)
  qed
qed

lemma encode_len_cases:
  "length (encode_len n) = (if n < 128 then 1 else if n < 16384 then 2 else if n < 2097152 then 3
     else if n < 268435456 then 4 else length (encode_len n))"
  by (simp add: encode_len.simps div_less_iff_less_mult)

lemma encode_len_u32: "n < 2 ^ 32 \<Longrightarrow> length (encode_len n) \<le> 5"
  by (simp add: encode_len.simps div_less_iff_less_mult)

lemma encode_len_ne [simp]: "encode_len n \<noteq> []"
  by (simp add: encode_len.simps [of n])

lemma header_byte_of_byte [simp]: "header_byte (header_of_byte b) = b"
  by (rule bit_word_eqI)
    (auto simp: header_byte_def header_of_byte_def bit_simps numeral_eq_Suc less_Suc_eq simp del: push_bit_Suc)

lemma byte_at_mid [simp]: "byte_at (xs @ y # ys) (length xs) = Some y"
  by (simp add: byte_at_def)

lemma decode_encode_step:
  assumes "n < 128 ^ k" and "0 < k" and "k \<le> 4" and "k + unat len = 4"
  shows "decode_len_loop (xs @ encode_len n @ ys) (length xs) m len d =
     Some (SUCCESS, d + of_nat n * m, len + of_nat (length (encode_len n)))"
  using assms
proof (induction k arbitrary: n xs m len d)
  case 0
  then show ?case by simp
next
  case (Suc k)
  have le: "\<not> MAX_NO_OF_REMAINING_LENGTH_BYTES < len + 1"
    using Suc.prems(4) by (simp add: MAX_NO_OF_REMAINING_LENGTH_BYTES_def word_less_nat_alt unat_word_ariths)
  have low: "(ucast (of_nat j :: byte) :: u32) = of_nat j" if "j < 128" for j
    using that by (simp add: word_unat_eq_iff unsigned_ucast_eq unat_of_nat take_bit_eq_mod)
  show ?case
  proof (cases "n < 128")
    case True
    then show ?thesis
      by (simp add: decode_len_loop.simps encode_len.simps [of n] le Let_def byte_low7 byte_top_clear low)
  next
    case False
    have k: "0 < k" using False Suc.prems(1) by (cases k) auto
    let ?b = "of_nat (128 + n mod 128) :: byte"
    have "decode_len_loop ((xs @ [?b]) @ encode_len (n div 128) @ ys) (length (xs @ [?b])) (m * 128) (len + 1)
            (d + of_nat (n mod 128) * m) =
          Some (SUCCESS, d + of_nat (n mod 128) * m + of_nat (n div 128) * (m * 128),
             (len + 1) + of_nat (length (encode_len (n div 128))))"
      using Suc.prems k by (intro Suc.IH) (auto simp: less_mult_imp_div_less mult.commute unat_word_ariths)
    moreover have "of_nat (n mod 128) * m + of_nat (n div 128) * (m * 128) = (of_nat n :: u32) * m"
    proof -
      have "(of_nat n :: u32) = of_nat (n mod 128 + n div 128 * 128)" by simp
      then show ?thesis by (simp only: of_nat_add of_nat_mult of_nat_numeral) (simp add: algebra_simps)
    qed
    ultimately show ?thesis
      using False
      by (simp add: decode_len_loop.simps [of "xs @ _"] encode_len.simps [of n] le Let_def
          byte_top_low7 byte_top_set low add.assoc del: of_nat_add)
  qed
qed

lemma decode_encode_len:
  assumes "n < 268435456"
  shows "aws_iot_mqtt_internal_decode_remaining_length_from_buffer (xs @ encode_len n @ ys) (length xs) =
     Some (SUCCESS, of_nat n, of_nat (length (encode_len n)))"
  using decode_encode_step [of n 4 0 xs ys 1 0] assms
  by (simp add: aws_iot_mqtt_internal_decode_remaining_length_from_buffer_def)

lemma read_write_uint16 [simp]:
  "aws_iot_mqtt_internal_read_uint16_t (xs @ ucast (n div 256) # ucast (n mod 256) # ys) (length xs) = Some (n, length xs + 2)"
proof -
  have "unat (ucast (n mod 256) :: byte) + 256 * unat (ucast (n div 256) :: byte) = unat n"
    using unat_u16_less [of n] by (simp add: unsigned_ucast_eq unat_mod unat_div take_bit_eq_mod div_less_iff_less_mult)
  then have "(ucast (ucast (n mod 256) :: byte) + 256 * ucast (ucast (n div 256) :: byte)) = n"
    by (simp add: word_unat_eq_iff unat_word_ariths unsigned_ucast_eq take_bit_eq_mod)
  then show ?thesis by (simp add: aws_iot_mqtt_internal_read_uint16_t_def byte_at_def nth_append)
qed

lemma final_length_bounds:
  assumes "unat rem_len < 268435456"
  shows "1 + length (encode_len (unat rem_len)) + unat rem_len
           \<le> unat (aws_iot_mqtt_internal_get_final_packet_length_from_remaining_length rem_len)"
    and "unat (aws_iot_mqtt_internal_get_final_packet_length_from_remaining_length rem_len)
           \<le> 2 + length (encode_len (unat rem_len)) + unat rem_len"
proof -
  let ?n = "unat rem_len"
  have add: "unat (rem_len + w) = ?n + unat w" if "?n + unat w < 2 ^ 32" for w
    using that by (simp add: unat_word_ariths)
  have eq: "unat (aws_iot_mqtt_internal_get_final_packet_length_from_remaining_length rem_len) =
      (if ?n + 1 < 128 then ?n + 2 else if ?n + 1 < 16384 then ?n + 3
       else if ?n + 1 < 2097152 then ?n + 4 else ?n + 5)"
    using assms
    by (simp add: aws_iot_mqtt_internal_get_final_packet_length_from_remaining_length_def Let_def
        word_less_nat_alt add add.assoc)
  show "1 + length (encode_len ?n) + ?n \<le> unat (aws_iot_mqtt_internal_get_final_packet_length_from_remaining_length rem_len)"
    and "unat (aws_iot_mqtt_internal_get_final_packet_length_from_remaining_length rem_len) \<le> 2 + length (encode_len ?n) + ?n"
    using encode_len_cases [of ?n] assms unfolding eq by (auto split: if_splits)
qed

lemma decode_len_loop_SUCCESS:
  "decode_len_loop buf p m len d = Some (SUCCESS, d', l') \<Longrightarrow> unat len \<le> 4 \<Longrightarrow>
     unat len < unat l' \<and> unat l' \<le> 4 \<and> p + (unat l' - unat len) \<le> length buf"
proof (induction "length buf - p" arbitrary: p m len d)
  case 0
  then show ?case
    by (subst (asm) decode_len_loop.simps) (auto simp: Let_def byte_at_def split: if_splits)
next
  case (Suc x)
  have len1: "unat (len + 1) = unat len + 1" using Suc.prems(2) by (simp add: unat_word_ariths)
  from Suc.prems(1) show ?case
  proof (subst (asm) decode_len_loop.simps, cases "buf ! p AND 128 = 0", goal_cases)
    case 1
    then show ?case using Suc.prems(2) len1
      by (auto simp: Let_def MAX_NO_OF_REMAINING_LENGTH_BYTES_def word_less_nat_alt byte_at_def split: if_splits)
  next
    case 2
    then have "\<not> 4 < unat (len + 1)" and p: "p < length buf"
      and rec: "decode_len_loop buf (Suc p) (m * 128) (len + 1) (d + ucast (buf ! p AND 127) * m) = Some (SUCCESS, d', l')"
      by (auto simp: Let_def MAX_NO_OF_REMAINING_LENGTH_BYTES_def word_less_nat_alt byte_at_def split: if_splits)
    have "x = length buf - Suc p" using Suc.hyps(2) by simp
    from Suc.hyps(1) [OF this rec] \<open>\<not> 4 < unat (len + 1)\<close> len1 p show ?case by auto
  qed
qed

lemma decode_len_loop_defined:
  "p + 4 \<le> length buf + unat len \<Longrightarrow> unat len \<le> 4 \<Longrightarrow> \<exists>r. decode_len_loop buf p m len d = Some r"
proof (induction buf p m len d rule: decode_len_loop.induct)
  case (1 buf p m len d)
  have len1: "unat (len + 1) = unat len + 1" using 1(3) by (simp add: unat_word_ariths)
  show ?case
    using 1(2,3) 1(1) [OF refl] len1
    by (subst decode_len_loop.simps)
      (auto simp: Let_def MAX_NO_OF_REMAINING_LENGTH_BYTES_def word_less_nat_alt byte_at_def not_less)
qed

lemma decode_len_SUCCESS:
  "aws_iot_mqtt_internal_decode_remaining_length_from_buffer buf p = Some (SUCCESS, d, l) \<Longrightarrow>
     0 < unat l \<and> unat l \<le> 4 \<and> p + unat l \<le> length buf"
  using decode_len_loop_SUCCESS [of buf p 1 0 0 d l]
  by (simp add: aws_iot_mqtt_internal_decode_remaining_length_from_buffer_def)

lemma decode_len_defined:
  "p + 4 \<le> length buf \<Longrightarrow> \<exists>r. aws_iot_mqtt_internal_decode_remaining_length_from_buffer buf p = Some r"
  using decode_len_loop_defined [of p buf 0]
  by (simp add: aws_iot_mqtt_internal_decode_remaining_length_from_buffer_def)

subsection \<open>The writers as list operations\<close>

lemma write_len_put [codec]:
  "aws_iot_mqtt_internal_write_len_to_buffer len bp =
     Option.bind (put (encode_len (unat len)) bp) (\<lambda>bp'. Some (bp', snd bp' - snd bp))"
  by (simp add: aws_iot_mqtt_internal_write_len_to_buffer_def write_len_loop_put)

lemma write_char_put [codec]: "aws_iot_mqtt_internal_write_char c bp = put [c] bp"
  by (simp add: aws_iot_mqtt_internal_write_char_def store_put)

lemma write_uint_16_put [codec]: "aws_iot_mqtt_internal_write_uint_16 n bp = put (u16_bytes n) bp"
  by (simp add: aws_iot_mqtt_internal_write_uint_16_def store_put put_put u16_bytes_def)

lemma u16_bytes_0 [simp]: "u16_bytes 0 = [0, 0]"
  by (simp add: u16_bytes_def)

lemma length_u16_bytes [simp]: "length (u16_bytes n) = 2"
  by (simp add: u16_bytes_def)

lemma length_utf8_bytes [simp]: "unat n \<le> length s \<Longrightarrow> length (utf8_bytes s n) = 2 + unat n"
  by (simp add: utf8_bytes_def)

lemma write_utf8_put [codec]:
  assumes "unat n \<le> length s"
  shows "aws_iot_mqtt_internal_write_utf8_string (Some s) n bp = put (utf8_bytes s n) bp"
proof (cases "n = 0")
  case True
  then show ?thesis
    by (simp add: aws_iot_mqtt_internal_write_utf8_string_def write_uint_16_put utf8_bytes_def)
next
  case False
  with assms show ?thesis
    by (simp add: aws_iot_mqtt_internal_write_utf8_string_def write_uint_16_put utf8_bytes_def
        put_put word_gt_0)
qed

lemma read_u16_bytes [simp]:
  "aws_iot_mqtt_internal_read_uint16_t (xs @ u16_bytes n @ ys) (length xs) = Some (n, length xs + 2)"
  by (simp add: u16_bytes_def read_write_uint16)

subsection \<open>Properties\<close>

text \<open>
  The remaining-length field: writing any length that MQTT allows (below 2^28) at a position of
  a buffer with room for it stores at most four bytes there, and decoding at that position reads
  back the same length and the same number of bytes.
\<close>

theorem remaining_length_round_trip:
  fixes len :: u32
  assumes "unat len < 268435456" and "p + length (encode_len (unat len)) \<le> length buf"
  shows "\<exists>buf' n. aws_iot_mqtt_internal_write_len_to_buffer len (buf, p) = Some ((buf', p + n), n)
     \<and> 1 \<le> n \<and> n \<le> 4 \<and> length buf' = length buf
     \<and> take p buf' = take p buf \<and> drop (p + n) buf' = drop (p + n) buf
     \<and> aws_iot_mqtt_internal_decode_remaining_length_from_buffer buf' p = Some (SUCCESS, len, of_nat n)"
proof -
  let ?e = "encode_len (unat len)"
  have "aws_iot_mqtt_internal_write_len_to_buffer len (buf, p) =
      Some ((take p buf @ ?e @ drop (p + length ?e) buf, p + length ?e), length ?e)"
    using assms(2) by (simp add: write_len_put put_eq_Some)
  moreover have "length ?e \<le> 4" and "1 \<le> length ?e"
    using encode_len_cases [of "unat len"] assms(1) by (auto split: if_splits)
  moreover have "length (take p buf) = p" using assms(2) by simp
  moreover have "aws_iot_mqtt_internal_decode_remaining_length_from_buffer
      (take p buf @ ?e @ drop (p + length ?e) buf) (length (take p buf)) = Some (SUCCESS, len, of_nat (length ?e))"
    using decode_encode_len [OF assms(1), of "take p buf"] by simp
  ultimately show ?thesis
    using assms(2) by (intro exI [of _ "take p buf @ ?e @ drop (p + length ?e) buf"] exI [of _ "length ?e"]) auto
qed

theorem remaining_length_round_trip_witness:
  "\<exists>buf' n. aws_iot_mqtt_internal_write_len_to_buffer 321 ([7, 0, 0, 9], 1) = Some ((buf', 1 + n), n)
     \<and> 1 \<le> n \<and> n \<le> 4 \<and> length buf' = length [7, 0, 0, 9 :: byte]
     \<and> take 1 buf' = take 1 [7, 0, 0, 9] \<and> drop (1 + n) buf' = drop (1 + n) [7, 0, 0, 9]
     \<and> aws_iot_mqtt_internal_decode_remaining_length_from_buffer buf' 1 = Some (SUCCESS, 321, of_nat n)"
  by (rule remaining_length_round_trip) (simp_all add: encode_len.simps)

text \<open>
  The size check before serialising is sound and almost exact: for every length that MQTT
  allows the computed packet length covers header byte, length field and body, and exceeds their
  sum by at most one byte.
\<close>

theorem final_packet_length_covers:
  assumes "unat rem_len < 268435456"
  shows "let real = 1 + length (encode_len (unat rem_len)) + unat rem_len;
             computed = unat (aws_iot_mqtt_internal_get_final_packet_length_from_remaining_length rem_len)
         in real \<le> computed \<and> computed \<le> real + 1"
  using final_length_bounds [OF assms] by (simp add: Let_def)

theorem final_packet_length_covers_witness:
  "unat (aws_iot_mqtt_internal_get_final_packet_length_from_remaining_length 127) = 130
   \<and> 1 + length (encode_len (unat (127 :: u32))) + unat (127 :: u32)
       \<le> unat (aws_iot_mqtt_internal_get_final_packet_length_from_remaining_length 127)"
  using final_packet_length_covers [of 127]
  by (simp add: Let_def encode_len.simps aws_iot_mqtt_internal_get_final_packet_length_from_remaining_length_def)

end
