(* ===== verification/Timers.thy ===== *)
theory Timers
  imports Prelude
begin

text \<open>
  The Linux timer (platform/linux/common/timer.c): a timer is the wall-clock time at which it
  expires. The reading of \<open>gettimeofday\<close> is the argument \<open>now\<close>; \<open>timeradd\<close> and \<open>timersub\<close> are the
  macros of \<open><sys/time.h>\<close>. The locale \<open>timer_interface\<close> states what the MQTT client relies on
  (include/timer_interface.h); the Linux timer is its interpretation.
\<close>

record timeval =
  tv_sec :: int
  tv_usec :: int

record Timer =
  end_time :: timeval

definition timeradd :: "timeval \<Rightarrow> timeval \<Rightarrow> timeval" where
  "timeradd a b = (let s = tv_sec a + tv_sec b; u = tv_usec a + tv_usec b in
     if 1000000 \<le> u then \<lparr>tv_sec = s + 1, tv_usec = u - 1000000\<rparr> else \<lparr>tv_sec = s, tv_usec = u\<rparr>)"

definition timersub :: "timeval \<Rightarrow> timeval \<Rightarrow> timeval" where
  "timersub a b = (let s = tv_sec a - tv_sec b; u = tv_usec a - tv_usec b in
     if u < 0 then \<lparr>tv_sec = s - 1, tv_usec = u + 1000000\<rparr> else \<lparr>tv_sec = s, tv_usec = u\<rparr>)"

definition has_timer_expired :: "timeval \<Rightarrow> Timer \<Rightarrow> bool" where
  "has_timer_expired now timer =
     (let res = timersub (end_time timer) now
      in tv_sec res < 0 \<or> (tv_sec res = 0 \<and> tv_usec res \<le> 0))"

definition countdown_ms :: "timeval \<Rightarrow> u32 \<Rightarrow> Timer" where
  "countdown_ms now timeout =
     (let interval = \<lparr>tv_sec = uint (timeout div 1000), tv_usec = uint ((timeout mod 1000) * 1000)\<rparr>
      in \<lparr>end_time = timeradd now interval\<rparr>)"

definition left_ms :: "timeval \<Rightarrow> Timer \<Rightarrow> u32" where
  "left_ms now timer =
     (let res = timersub (end_time timer) now
      in if 0 \<le> tv_sec res then of_int (tv_sec res * 1000 + tv_usec res div 1000) else 0)"

definition countdown_sec :: "timeval \<Rightarrow> u32 \<Rightarrow> Timer" where
  "countdown_sec now timeout = \<lparr>end_time = timeradd now \<lparr>tv_sec = uint timeout, tv_usec = 0\<rparr>\<rparr>"

definition init_timer :: Timer where
  "init_timer = \<lparr>end_time = \<lparr>tv_sec = 0, tv_usec = 0\<rparr>\<rparr>"

text \<open>A normalised clock reading, and its value in microseconds.\<close>

definition tv_ok :: "timeval \<Rightarrow> bool" where
  "tv_ok t \<longleftrightarrow> 0 \<le> tv_usec t \<and> tv_usec t < 1000000"

definition usecs :: "timeval \<Rightarrow> int" where
  "usecs t = tv_sec t * 1000000 + tv_usec t"

subsection \<open>The contract of a timer\<close>

locale timer_interface =
  fixes valid :: "'now \<Rightarrow> bool"
    and micros :: "'now \<Rightarrow> int"
    and expired :: "'now \<Rightarrow> 't \<Rightarrow> bool"
    and set_ms :: "'now \<Rightarrow> u32 \<Rightarrow> 't"
    and set_sec :: "'now \<Rightarrow> u32 \<Rightarrow> 't"
  assumes expired_set_ms:
      "valid now \<Longrightarrow> valid later \<Longrightarrow>
         expired later (set_ms now ms) \<longleftrightarrow> micros now + 1000 * uint ms \<le> micros later"
    and expired_set_sec:
      "valid now \<Longrightarrow> valid later \<Longrightarrow>
         expired later (set_sec now s) \<longleftrightarrow> micros now + 1000000 * uint s \<le> micros later"
begin

lemma set_ms_zero: "valid now \<Longrightarrow> expired now (set_ms now 0)"
  by (simp add: expired_set_ms)

lemma set_ms_pending: "valid now \<Longrightarrow> 0 < ms \<Longrightarrow> \<not> expired now (set_ms now ms)"
  by (simp add: expired_set_ms word_gt_0 unsigned_eq_0_iff)

lemma expired_mono:
  "valid now \<Longrightarrow> valid t1 \<Longrightarrow> valid t2 \<Longrightarrow> micros t1 \<le> micros t2 \<Longrightarrow>
     expired t1 (set_ms now ms) \<Longrightarrow> expired t2 (set_ms now ms)"
  by (simp add: expired_set_ms)

lemma sec_is_1000_ms:
  "valid now \<Longrightarrow> valid t \<Longrightarrow> uint s * 1000 < 2 ^ 32 \<Longrightarrow>
     expired t (set_sec now s) \<longleftrightarrow> expired t (set_ms now (s * 1000))"
  by (simp add: expired_set_ms expired_set_sec uint_word_ariths)

end

subsection \<open>The Linux timer meets it\<close>

lemma usecs_timeradd: "usecs (timeradd a b) = usecs a + usecs b"
  by (simp add: usecs_def timeradd_def Let_def)

lemma usecs_timersub: "usecs (timersub a b) = usecs a - usecs b"
  by (simp add: usecs_def timersub_def Let_def)

lemma tv_ok_timersub: "tv_ok a \<Longrightarrow> tv_ok b \<Longrightarrow> tv_ok (timersub a b)"
  by (auto simp: tv_ok_def timersub_def Let_def)

lemma tv_ok_timeradd: "tv_ok a \<Longrightarrow> tv_ok b \<Longrightarrow> tv_ok (timeradd a b)"
  by (auto simp: tv_ok_def timeradd_def Let_def)

lemma expired_iff_usecs:
  assumes "tv_ok now" and "tv_ok (end_time t)"
  shows "has_timer_expired now t \<longleftrightarrow> usecs (end_time t) \<le> usecs now"
proof -
  let ?r = "timersub (end_time t) now"
  have ok: "tv_ok ?r" using assms by (simp add: tv_ok_timersub)
  have "usecs (end_time t) \<le> usecs now \<longleftrightarrow> usecs ?r \<le> 0" by (simp add: usecs_timersub)
  also have "\<dots> \<longleftrightarrow> tv_sec ?r < 0 \<or> (tv_sec ?r = 0 \<and> tv_usec ?r \<le> 0)"
    using ok by (auto simp: usecs_def tv_ok_def)
  finally show ?thesis by (simp add: has_timer_expired_def Let_def)
qed

lemma ms_interval:
  defines "iv (ms :: u32) \<equiv> \<lparr>tv_sec = uint (ms div 1000), tv_usec = uint ((ms mod 1000) * 1000)\<rparr>"
  shows "tv_ok (iv ms)" and "usecs (iv ms) = 1000 * uint ms"
proof -
  have "uint ((ms mod 1000) * 1000) = uint ms mod 1000 * 1000"
    by (simp add: uint_word_ariths uint_mod)
  moreover have "uint ms div 1000 * 1000000 + uint ms mod 1000 * 1000 = 1000 * uint ms"
    using div_mult_mod_eq [of "uint ms" 1000] by linarith
  ultimately show "tv_ok (iv ms)" and "usecs (iv ms) = 1000 * uint ms"
    by (simp_all add: iv_def tv_ok_def usecs_def uint_div)
qed

lemma left_ms_usecs:
  assumes "tv_ok now" and "tv_ok (end_time t)"
  shows "left_ms now t = (if usecs now \<le> usecs (end_time t)
           then of_int ((usecs (end_time t) - usecs now) div 1000) else 0)"
proof -
  let ?r = "timersub (end_time t) now"
  have ok: "tv_ok ?r" using assms by (simp add: tv_ok_timersub)
  have d: "usecs (end_time t) - usecs now = tv_sec ?r * 1000000 + tv_usec ?r"
    using usecs_timersub [of "end_time t" now] by (simp add: usecs_def [of ?r])
  then have "0 \<le> tv_sec ?r \<longleftrightarrow> usecs now \<le> usecs (end_time t)"
    using ok by (auto simp: tv_ok_def)
  moreover have "(tv_sec ?r * 1000000 + tv_usec ?r) div 1000 = tv_sec ?r * 1000 + tv_usec ?r div 1000"
    by linarith
  ultimately show ?thesis by (simp add: left_ms_def Let_def d)
qed

lemma expired_later:
  assumes "tv_ok n1" and "tv_ok n2" and "usecs n1 \<le> usecs n2" and "has_timer_expired n1 t"
  shows "has_timer_expired n2 t"
proof -
  let ?S = "tv_sec (end_time t)" and ?U = "tv_usec (end_time t)"
  have lex: "tv_sec n1 < tv_sec n2 \<or> (tv_sec n1 = tv_sec n2 \<and> tv_usec n1 \<le> tv_usec n2)"
    using assms(1-3) by (auto simp: tv_ok_def usecs_def)
  show ?thesis
    using assms(1,2,4) lex by (auto simp: has_timer_expired_def timersub_def Let_def tv_ok_def split: if_splits)
qed

lemma left_ms_pending: "tv_ok now \<Longrightarrow> tv_ok (end_time T) \<Longrightarrow> 0 < left_ms now T \<Longrightarrow> \<not> has_timer_expired now T"
  by (auto simp: left_ms_usecs expired_iff_usecs split: if_splits)

interpretation linux_timer: timer_interface tv_ok usecs has_timer_expired countdown_ms countdown_sec
proof (unfold_locales, goal_cases)
  case (1 now later ms)
  then show ?case
    by (simp add: countdown_ms_def Let_def expired_iff_usecs tv_ok_timeradd ms_interval usecs_timeradd)
next
  case (2 now later s)
  then show ?case
    by (subst expired_iff_usecs)
      (auto simp: countdown_sec_def usecs_timeradd usecs_def [of "\<lparr>tv_sec = _, tv_usec = 0\<rparr>"] tv_ok_timeradd
        tv_ok_def [of "\<lparr>tv_sec = _, tv_usec = 0\<rparr>"])
qed

subsection \<open>Properties\<close>

text \<open>
  The Linux timer: with normalised clock readings, a timer set for \<open>ms\<close> milliseconds has expired
  at a reading exactly when that many milliseconds have passed since it was set, and \<open>left_ms\<close> is
  the whole milliseconds that remain (0 once expired) whenever they fit 32 bits.
\<close>

theorem linux_timer_correct:
  assumes "tv_ok now" and "tv_ok later" and "usecs now \<le> usecs later"
  shows "(has_timer_expired later (countdown_ms now ms) \<longleftrightarrow> usecs now + 1000 * uint ms \<le> usecs later)
     \<and> uint (left_ms later (countdown_ms now ms)) =
         max 0 ((usecs now + 1000 * uint ms - usecs later) div 1000)"
proof -
  have e: "usecs (end_time (countdown_ms now ms)) = usecs now + 1000 * uint ms"
    "tv_ok (end_time (countdown_ms now ms))"
    using assms(1) by (simp_all add: countdown_ms_def Let_def usecs_timeradd ms_interval tv_ok_timeradd)
  have b: "uint ms < 2 ^ 32" using uint_lt2p [of ms] by simp
  let ?d = "usecs now + 1000 * uint ms - usecs later"
  have "uint (left_ms later (countdown_ms now ms)) = max 0 (?d div 1000)"
  proof (cases "0 \<le> ?d")
    case True
    have "?d div 1000 \<le> uint ms" using assms(3) by linarith
    with b have "?d div 1000 < 2 ^ 32" by linarith
    then have "uint (of_int (?d div 1000) :: u32) = ?d div 1000"
      using True by (simp add: uint_word_of_int)
    then show ?thesis using True by (simp add: left_ms_usecs [OF assms(2) e(2)] e(1))
  next
    case False
    then have "?d div 1000 < 0" by linarith
    with False show ?thesis by (simp add: left_ms_usecs [OF assms(2) e(2)] e(1))
  qed
  then show ?thesis using linux_timer.expired_set_ms [OF assms(1,2)] by blast
qed

theorem linux_timer_correct_witness:
  "\<not> has_timer_expired \<lparr>tv_sec = 11, tv_usec = 400000\<rparr> (countdown_ms \<lparr>tv_sec = 10, tv_usec = 900000\<rparr> 501)
   \<and> uint (left_ms \<lparr>tv_sec = 11, tv_usec = 400000\<rparr> (countdown_ms \<lparr>tv_sec = 10, tv_usec = 900000\<rparr> 501)) = 1"
  using linux_timer_correct [of "\<lparr>tv_sec = 10, tv_usec = 900000\<rparr>" "\<lparr>tv_sec = 11, tv_usec = 400000\<rparr>" 501]
  by (simp add: tv_ok_def usecs_def)

end
