(* ===== verification/Topic_Match.thy ===== *)
theory Topic_Match
  imports Prelude
begin

text \<open>
  Matching of a received topic name against a subscription: \<open>strncmp\<close> and
  \<open>_aws_iot_mqtt_internal_is_topic_matched\<close> of src/aws_iot_mqtt_client_common_internal.c.
  The pointers \<open>curf\<close> and \<open>curn\<close> are the rest of the filter (up to its terminator) and the rest of
  the name (up to \<open>curn_end\<close>). The specification splits both at the separators and compares level
  by level; the lemmas relate the two and the code to the matching rule of MQTT 3.1.1 (4.7).
\<close>

definition slash :: byte where "slash = 47"
definition plus_sign :: byte where "plus_sign = 43"
definition hash_sign :: byte where "hash_sign = 35"

lemmas topic_chars = slash_def plus_sign_def hash_sign_def

text \<open>\<open>0 == strncmp(a, b, n)\<close> for \<open>n\<close> readable bytes at \<open>a\<close> and the C string \<open>b\<close>.\<close>

fun strncmp_eq :: "byte list \<Rightarrow> byte list \<Rightarrow> bool" where
  "strncmp_eq [] bs = True"
| "strncmp_eq (a # as) [] = (a = 0)"
| "strncmp_eq (a # as) (b # bs) = (a = b \<and> (a = 0 \<or> strncmp_eq as bs))"

text \<open>The \<open>while(*curf && (curn < curn_end))\<close> loop and the test after it.\<close>

function topic_match_loop :: "byte list \<Rightarrow> byte list \<Rightarrow> bool" where
  "topic_match_loop curf curn =
     (case (curf, curn) of
        (f # fs, n # ns) \<Rightarrow>
          if n = slash \<and> f \<noteq> slash then False
          else if f \<noteq> plus_sign \<and> f \<noteq> hash_sign \<and> f \<noteq> n then False
          else if f = plus_sign then topic_match_loop fs (dropWhile (\<lambda>c. c \<noteq> slash) ns)
          else if f = hash_sign then topic_match_loop fs []
          else topic_match_loop fs ns
      | _ \<Rightarrow> curn = [] \<and> curf = [])"
  by pat_completeness auto
termination
  by (relation "measure (\<lambda>(f, n). length f)") auto

declare topic_match_loop.simps [simp del]

definition aws_iot_mqtt_internal_is_topic_matched :: "cstring \<Rightarrow> byte list \<Rightarrow> bool" where
  "aws_iot_mqtt_internal_is_topic_matched pTopicFilter pTopicName = topic_match_loop pTopicFilter pTopicName"

subsection \<open>Specification by topic levels\<close>

fun levels :: "byte list \<Rightarrow> byte list list" where
  "levels [] = [[]]"
| "levels (c # cs) = (if c = slash then [] # levels cs
     else case levels cs of l # ls \<Rightarrow> (c # l) # ls | [] \<Rightarrow> [[c]])"

text \<open>MQTT 3.1.1, 4.7.1: \<open>+\<close> matches one level, a final \<open>#\<close> the parent and any number of levels.\<close>

fun mqtt_match :: "byte list list \<Rightarrow> byte list list \<Rightarrow> bool" where
  "mqtt_match [] ns = (ns = [])"
| "mqtt_match (f # fs) ns =
     (if f = [hash_sign] \<and> fs = [] then True
      else case ns of [] \<Rightarrow> False
        | n # ns' \<Rightarrow> (f = [plus_sign] \<or> f = n) \<and> mqtt_match fs ns')"

text \<open>What the code decides: as above, except that a wildcard needs a first level that is not empty.\<close>

fun level_match :: "byte list list \<Rightarrow> byte list list \<Rightarrow> bool" where
  "level_match [] ns = (ns = [])"
| "level_match (f # fs) [] = False"
| "level_match (f # fs) (n # ns) =
     (if f = [hash_sign] \<and> fs = [] then n \<noteq> []
      else (if f = [plus_sign] then n \<noteq> [] else f = n) \<and> level_match fs ns)"

definition plain_level :: "byte list \<Rightarrow> bool" where
  "plain_level l \<longleftrightarrow> plus_sign \<notin> set l \<and> hash_sign \<notin> set l"

text \<open>A well-formed filter: wildcards fill a whole level and \<open>#\<close> is the last level.\<close>

fun valid_levels :: "byte list list \<Rightarrow> bool" where
  "valid_levels [] = True"
| "valid_levels (l # ls) =
     ((if l = [hash_sign] then ls = [] else l = [plus_sign] \<or> plain_level l) \<and> valid_levels ls)"

definition valid_filter :: "byte list \<Rightarrow> bool" where
  "valid_filter f = valid_levels (levels f)"

subsection \<open>Lemmas\<close>

lemma strncmp_eq_self: "0 \<notin> set a \<Longrightarrow> 0 \<notin> set b \<Longrightarrow> strncmp_eq a b \<longleftrightarrow> take (length a) b = a"
  by (induction a b rule: strncmp_eq.induct) (auto simp: take_Cons split: nat.splits)

lemma levels_not_Nil [simp]: "levels s \<noteq> []"
  by (induction s) (auto split: list.splits)

lemma levels_append_slash: "slash \<notin> set l \<Longrightarrow> levels (l @ slash # s) = l # levels s"
  by (induction l) auto

lemma levels_single: "slash \<notin> set l \<Longrightarrow> levels l = [l]"
  by (induction l) auto

lemma level_split:
  obtains (last) "slash \<notin> set s" "levels s = [s]"
  | (more) l r where "slash \<notin> set l" "s = l @ slash # r" "levels s = l # levels r"
proof (cases "slash \<in> set s")
  case True
  then obtain l r where "s = l @ slash # r" "slash \<notin> set l" by (metis split_list_first)
  then show thesis using more levels_append_slash by simp
next
  case False
  then show thesis using last levels_single by simp
qed

lemma topic_chars_distinct [simp]:
  "slash \<noteq> plus_sign" "slash \<noteq> hash_sign" "plus_sign \<noteq> hash_sign"
  "plus_sign \<noteq> slash" "hash_sign \<noteq> slash" "hash_sign \<noteq> plus_sign"
  by (simp_all add: topic_chars)

lemma loop_simps [simp]:
  "topic_match_loop [] ns = (ns = [])"
  "topic_match_loop (f # fs) [] = False"
  "topic_match_loop (f # fs) (n # ns) =
     (if n = slash \<and> f \<noteq> slash then False
      else if f \<noteq> plus_sign \<and> f \<noteq> hash_sign \<and> f \<noteq> n then False
      else if f = plus_sign then topic_match_loop fs (dropWhile (\<lambda>c. c \<noteq> slash) ns)
      else if f = hash_sign then topic_match_loop fs []
      else topic_match_loop fs ns)"
  by (auto simp: topic_match_loop.simps split: list.splits)

text \<open>A plain level is compared character by character up to the separator or the end.\<close>

lemma loop_plain_slash:
  assumes "plain_level l" and "slash \<notin> set l"
  shows "topic_match_loop (l @ slash # fs) n \<longleftrightarrow>
     (\<exists>r. n = l @ slash # r \<and> topic_match_loop fs r)"
  using assms
proof (induction l arbitrary: n)
  case Nil
  show ?case by (cases n) auto
next
  case (Cons c l)
  then show ?case by (cases n) (auto simp: plain_level_def)
qed

lemma loop_plain_end:
  assumes "plain_level l" and "slash \<notin> set l"
  shows "topic_match_loop l n \<longleftrightarrow> n = l"
  using assms
proof (induction l arbitrary: n)
  case (Cons c l)
  then show ?case by (cases n) (auto simp: plain_level_def)
qed simp

text \<open>\<open>+\<close> skips to the next separator or to the end; \<open>#\<close> to the end.\<close>

lemma split_unique:
  "slash \<notin> set l \<Longrightarrow> slash \<notin> set l' \<Longrightarrow> l' @ slash # r' = l @ slash # r \<longleftrightarrow> l' = l \<and> r' = r"
  by (induction l arbitrary: l') (auto simp: Cons_eq_append_conv append_eq_Cons_conv)

lemma dropWhile_no_slash: "slash \<notin> set xs \<Longrightarrow> dropWhile (\<lambda>c. c \<noteq> slash) xs = []"
  by (induction xs) auto

lemma loop_plus_slash:
  "topic_match_loop (plus_sign # slash # fs) n \<longleftrightarrow>
     (\<exists>r. n = hd (levels n) @ slash # r \<and> hd (levels n) \<noteq> [] \<and> topic_match_loop fs r)"
proof (cases n rule: level_split)
  case last
  show ?thesis using last by (cases n) (auto simp: dropWhile_no_slash)
next
  case (more l r)
  show ?thesis
    unfolding more(3) unfolding more(2) using more(1) by (cases l) (auto simp: dropWhile_append3 dropWhile_no_slash)
qed

lemma loop_plus_end:
  "topic_match_loop [plus_sign] n \<longleftrightarrow> n \<noteq> [] \<and> slash \<notin> set n"
  by (cases n) auto

lemma loop_hash_end:
  "topic_match_loop [hash_sign] n \<longleftrightarrow> hd (levels n) \<noteq> []"
  by (cases n) (auto split: list.splits)

lemma level_append_slash_iff:
  "slash \<notin> set l \<Longrightarrow> (\<exists>r. n = l @ slash # r \<and> P (levels r)) \<longleftrightarrow> (\<exists>ls. levels n = l # ls \<and> ls \<noteq> [] \<and> P ls)"
  by (cases n rule: level_split) (auto simp: levels_append_slash split_unique)

lemma level_match_Cons:
  "fs \<noteq> [] \<Longrightarrow> level_match (f # fs) ns \<longleftrightarrow>
     (\<exists>n ns'. ns = n # ns' \<and> ns' \<noteq> [] \<and> (if f = [plus_sign] then n \<noteq> [] else f = n) \<and> level_match fs ns')"
  by (cases ns; cases fs) auto

lemma level_end: "slash \<notin> set l \<Longrightarrow> levels n = [l] \<longleftrightarrow> n = l"
  by (cases n rule: level_split) (auto simp: levels_single)

lemma is_topic_matched_levels:
  assumes "valid_filter f"
  shows "aws_iot_mqtt_internal_is_topic_matched f n = level_match (levels f) (levels n)"
  unfolding aws_iot_mqtt_internal_is_topic_matched_def
  using assms unfolding valid_filter_def
proof (induction "length f" arbitrary: f n rule: less_induct)
  case less
  show ?case
  proof (cases f rule: level_split)
    case last
    with less.prems consider "f = [hash_sign]" | "f = [plus_sign]" | "plain_level f" "f \<noteq> [plus_sign]" "f \<noteq> [hash_sign]"
      by (auto split: if_splits)
    then show ?thesis
      using last by cases (cases n rule: level_split; auto simp: loop_plus_end loop_hash_end loop_plain_end)+
  next
    case (more l r)
    then have IH: "topic_match_loop r n' = level_match (levels r) (levels n')" for n'
      using less by auto
    from more less.prems consider "l = [plus_sign]" | "plain_level l" "l \<noteq> [plus_sign]"
      by (auto simp: plain_level_def split: if_splits)
    then show ?thesis
    proof cases
      case 1
      then show ?thesis
        using level_match_Cons [of "levels r" "[plus_sign]" "levels n"]
        by (cases n rule: level_split) (simp_all add: more loop_plus_slash IH)
    next
      case 2
      then show ?thesis
        using level_append_slash_iff [OF more(1), of n "level_match (levels r)"]
        unfolding more(3) unfolding more(2) by (simp add: loop_plain_slash [OF _ more(1)] IH level_match_Cons)
    qed
  qed
qed

lemma level_match_mqtt: "level_match fs ns \<Longrightarrow> mqtt_match fs ns"
  by (induction fs ns rule: level_match.induct) (auto split: if_splits)

lemma mqtt_match_level:
  "mqtt_match fs ns \<Longrightarrow> [] \<notin> set ns \<Longrightarrow> (last fs = [hash_sign] \<longrightarrow> length fs \<le> length ns) \<Longrightarrow> level_match fs ns"
proof (induction fs ns rule: level_match.induct)
  case (2 f fs)
  then show ?case by (auto split: if_splits)
next
  case (3 f fs n ns)
  then show ?case by (cases "fs = []") (auto split: if_splits)
qed simp

subsection \<open>Properties\<close>

text \<open>
  C8. For a well-formed filter the scan of \<open>is_topic_matched\<close> decides exactly the comparison level
  by level; it never matches a name that the MQTT rule rejects, and it agrees with the MQTT rule on
  every name whose levels are not empty, unless only the parent level could match a final \<open>#\<close>.
\<close>

theorem is_topic_matched_correct:
  assumes "valid_filter f"
  shows "aws_iot_mqtt_internal_is_topic_matched f n = level_match (levels f) (levels n)
    \<and> (aws_iot_mqtt_internal_is_topic_matched f n \<longrightarrow> mqtt_match (levels f) (levels n))
    \<and> ([] \<notin> set (levels n) \<and> (last (levels f) = [hash_sign] \<longrightarrow> length (levels f) \<le> length (levels n)) \<longrightarrow>
         aws_iot_mqtt_internal_is_topic_matched f n = mqtt_match (levels f) (levels n))"
  using is_topic_matched_levels [OF assms] level_match_mqtt mqtt_match_level by blast

theorem is_topic_matched_correct_witness:
  "aws_iot_mqtt_internal_is_topic_matched (bytes_of ''a/+/#'') (bytes_of ''a/b/c/d'')
   \<and> \<not> aws_iot_mqtt_internal_is_topic_matched (bytes_of ''a/+/#'') (bytes_of ''a/b'')
   \<and> mqtt_match (levels (bytes_of ''a/+/#'')) (levels (bytes_of ''a/b''))"
proof -
  have v: "valid_filter (bytes_of ''a/+/#'')"
    by (simp add: valid_filter_def bytes_of_def of_char_def topic_chars plain_level_def)
  show ?thesis
    using is_topic_matched_correct [OF v, of "bytes_of ''a/b/c/d''"]
      is_topic_matched_correct [OF v, of "bytes_of ''a/b''"]
    by (simp add: bytes_of_def of_char_def topic_chars)
qed

end
