(* ===== verification/Mqtt_Types.thy ===== *)
theory Mqtt_Types
  imports Packet_Codec Timers
begin

text \<open>
  The data model of include/aws_iot_mqtt_client.h and of the Linux sample's aws_iot_config.h.
  Function pointers and \<open>void *\<close> data are numbers (\<open>None\<close> is NULL) that the environment interprets.
  The nested structs \<open>ClientStatus\<close>, \<open>ClientData\<close> and \<open>Network\<close> of \<open>AWS_IoT_Client\<close> are one flat
  record with the source's field names. The arrays \<open>struct_id\<close> are never read and are left out.
  The build modelled is the Linux sample's: \<open>_ENABLE_THREAD_SUPPORT_\<close> and \<open>REVERSED\<close> are not defined.
\<close>

definition AWS_IOT_MQTT_TX_BUF_LEN :: nat where "AWS_IOT_MQTT_TX_BUF_LEN = 512"
definition AWS_IOT_MQTT_RX_BUF_LEN :: nat where "AWS_IOT_MQTT_RX_BUF_LEN = 512"
definition AWS_IOT_MQTT_NUM_SUBSCRIBE_HANDLERS :: nat where "AWS_IOT_MQTT_NUM_SUBSCRIBE_HANDLERS = 5"
definition AWS_IOT_MQTT_MIN_RECONNECT_WAIT_INTERVAL :: u32 where "AWS_IOT_MQTT_MIN_RECONNECT_WAIT_INTERVAL = 1000"
definition AWS_IOT_MQTT_MAX_RECONNECT_WAIT_INTERVAL :: u32 where "AWS_IOT_MQTT_MAX_RECONNECT_WAIT_INTERVAL = 128000"
definition MAX_PACKET_ID :: u16 where "MAX_PACKET_ID = 65535"

lemmas config_defs = AWS_IOT_MQTT_TX_BUF_LEN_def AWS_IOT_MQTT_RX_BUF_LEN_def
  AWS_IOT_MQTT_NUM_SUBSCRIBE_HANDLERS_def AWS_IOT_MQTT_MIN_RECONNECT_WAIT_INTERVAL_def
  AWS_IOT_MQTT_MAX_RECONNECT_WAIT_INTERVAL_def MAX_PACKET_ID_def

text \<open>A message to publish; \<open>payload\<close> is the memory the caller's pointer refers to.\<close>

record IoT_Publish_Message_Params =
  pub_qos :: QoS
  pub_isRetained :: u8
  pub_isDup :: u8
  pub_id :: u16
  pub_payload :: "byte list option"
  pub_payloadLen :: size_t

text \<open>A received message: the same struct, whose payload pointer is an index into \<open>readBuf\<close>.\<close>

record Rx_Message =
  rx_qos :: QoS
  rx_isRetained :: u8
  rx_isDup :: u8
  rx_id :: u16
  rx_payload :: nat
  rx_payloadLen :: size_t

text \<open>\<open>MQTT_Ver_t\<close>: the enumerator 4; the field can hold other values by a cast.\<close>

definition MQTT_3_1_1 :: u8 where "MQTT_3_1_1 = 4"

record IoT_MQTT_Will_Options =
  will_pTopicName :: "cstring option"
  will_topicNameLen :: u16
  will_pMessage :: "cstring option"
  will_msgLen :: u16
  will_isRetained :: bool
  will_qos :: QoS

definition iotMqttWillOptionsDefault :: IoT_MQTT_Will_Options where
  "iotMqttWillOptionsDefault = \<lparr>will_pTopicName = None, will_topicNameLen = 0, will_pMessage = None,
     will_msgLen = 0, will_isRetained = False, will_qos = QOS0\<rparr>"

record IoT_Client_Connect_Params =
  MQTTVersion :: u8
  pClientID :: "cstring option"
  clientIDLen :: u16
  keepAliveIntervalInSec :: u16
  isCleanSession :: bool
  isWillMsgPresent :: bool
  will :: IoT_MQTT_Will_Options
  pUsername :: "cstring option"
  usernameLen :: u16
  pPassword :: "cstring option"
  passwordLen :: u16

definition iotClientConnectParamsDefault :: IoT_Client_Connect_Params where
  "iotClientConnectParamsDefault = \<lparr>MQTTVersion = MQTT_3_1_1, pClientID = None, clientIDLen = 0,
     keepAliveIntervalInSec = 60, isCleanSession = True, isWillMsgPresent = False,
     will = iotMqttWillOptionsDefault, pUsername = None, usernameLen = 0,
     pPassword = None, passwordLen = 0\<rparr>"

record IoT_Client_Init_Params =
  enableAutoReconnect :: bool
  pHostURL :: "cstring option"
  port :: u16
  pRootCALocation :: "cstring option"
  pDeviceCertLocation :: "cstring option"
  pDevicePrivateKeyLocation :: "cstring option"
  mqttCommandTimeout_ms :: u32
  tlsHandshakeTimeout_ms :: u32
  isSSLHostnameVerify :: bool
  init_disconnectHandler :: "nat option"
  init_disconnectHandlerData :: "nat option"

definition iotClientInitParamsDefault :: IoT_Client_Init_Params where
  "iotClientInitParamsDefault = \<lparr>enableAutoReconnect = True, pHostURL = None, port = 0,
     pRootCALocation = None, pDeviceCertLocation = None, pDevicePrivateKeyLocation = None,
     mqttCommandTimeout_ms = 20000, tlsHandshakeTimeout_ms = 5000, isSSLHostnameVerify = True,
     init_disconnectHandler = None, init_disconnectHandlerData = None\<rparr>"

datatype ClientState =
    CLIENT_STATE_INVALID
  | CLIENT_STATE_INITIALIZED
  | CLIENT_STATE_CONNECTING
  | CLIENT_STATE_CONNECTED_IDLE
  | CLIENT_STATE_CONNECTED_YIELD_IN_PROGRESS
  | CLIENT_STATE_CONNECTED_PUBLISH_IN_PROGRESS
  | CLIENT_STATE_CONNECTED_SUBSCRIBE_IN_PROGRESS
  | CLIENT_STATE_CONNECTED_UNSUBSCRIBE_IN_PROGRESS
  | CLIENT_STATE_CONNECTED_RESUBSCRIBE_IN_PROGRESS
  | CLIENT_STATE_CONNECTED_WAIT_FOR_CB_RETURN
  | CLIENT_STATE_DISCONNECTING
  | CLIENT_STATE_DISCONNECTED_ERROR
  | CLIENT_STATE_DISCONNECTED_MANUALLY
  | CLIENT_STATE_PENDING_RECONNECT

record MessageHandlers =
  topicName :: "cstring option"
  topicNameLen :: u16
  mh_qos :: QoS
  pApplicationHandler :: "nat option"
  pApplicationHandlerData :: "nat option"

record TLSConnectParams =
  tls_pRootCALocation :: "cstring option"
  tls_pDeviceCertLocation :: "cstring option"
  tls_pDevicePrivateKeyLocation :: "cstring option"
  tls_pDestinationURL :: "cstring option"
  tls_DestinationPort :: u16
  tls_timeout_ms :: u32
  tls_ServerVerificationFlag :: bool

text \<open>
  \<open>Network\<close>: its function pointers are the fields of the environment (theory \<open>Mqtt_Client\<close>); of
  \<open>tlsDataParams\<close> the field \<open>flags\<close> is kept here, the library contexts belong to the world state.
\<close>

record Network =
  tlsConnectParams :: TLSConnectParams
  tls_flags :: u32

record AWS_IoT_Client =
  pingTimer :: Timer
  reconnectDelayTimer :: Timer
  clientState :: ClientState
  isPingOutstanding :: bool
  isAutoReconnectEnabled :: bool
  nextPacketId :: u16
  commandTimeoutMs :: u32
  keepAliveInterval :: u16
  currentReconnectWaitInterval :: u32
  counterNetworkDisconnected :: u32
  writeBufSize :: nat
  readBufSize :: nat
  writeBuf :: "byte list"
  readBuf :: "byte list"
  options :: IoT_Client_Connect_Params
  messageHandlers :: "MessageHandlers list"
  disconnectHandler :: "nat option"
  disconnectHandlerData :: "nat option"
  networkStack :: Network

end
