(* ===== verification/Mqtt_Serialize.thy ===== *)
theory Mqtt_Serialize
  imports Mqtt_Types
begin

text \<open>
  The packet writers and readers of the MQTT client: CONNECT and CONNACK
  (src/aws_iot_mqtt_client_connect.c), PUBLISH and the acknowledgements
  (src/aws_iot_mqtt_client_publish.c), SUBSCRIBE and SUBACK (src/aws_iot_mqtt_client_subscribe.c),
  UNSUBSCRIBE and UNSUBACK (src/aws_iot_mqtt_client_unsubscribe.c).

  A writer returns the code, the transmit buffer and the serialised length; a reader returns the
  error code on the left or its out-parameters on the right. \<open>None\<close> is an access outside a buffer.
  Out-parameters that a path leaves unassigned are 0. The lemmas show that each writer stays inside
  the buffer and produces the reference encoding, and that the readers invert the writers.
\<close>

definition mem_read :: "byte list \<Rightarrow> nat \<Rightarrow> byte list option" where
  "mem_read m n = (if n \<le> length m then Some (take n m) else None)"

subsection \<open>CONNECT\<close>

text \<open>The union \<open>MQTT_Connect_Header_Flags\<close> (lowest bit unused).\<close>

record MQTT_Connect_Header_Flags =
  f_cleansession :: "1 word"
  f_will :: "1 word"
  f_willQoS :: "2 word"
  f_willRetain :: "1 word"
  f_password :: "1 word"
  f_username :: "1 word"

definition flags_all :: "MQTT_Connect_Header_Flags \<Rightarrow> byte" where
  "flags_all f = push_bit 7 (ucast (f_username f)) OR push_bit 6 (ucast (f_password f))
     OR push_bit 5 (ucast (f_willRetain f)) OR push_bit 3 (ucast (f_willQoS f))
     OR push_bit 2 (ucast (f_will f)) OR push_bit 1 (ucast (f_cleansession f))"

definition connect_flags :: "IoT_Client_Connect_Params \<Rightarrow> MQTT_Connect_Header_Flags" where
  "connect_flags p =
     \<lparr>f_cleansession = (if isCleanSession p then 1 else 0),
      f_will = (if isWillMsgPresent p then 1 else 0),
      f_willQoS = (if isWillMsgPresent p then of_nat (will_qos (will p)) else 0),
      f_willRetain = (if isWillMsgPresent p \<and> will_isRetained (will p) then 1 else 0),
      f_password = (if pPassword p \<noteq> None then 1 else 0),
      f_username = (if pUsername p \<noteq> None then 1 else 0)\<rparr>"

definition aws_iot_get_connect_packet_length :: "IoT_Client_Connect_Params \<Rightarrow> u32" where
  "aws_iot_get_connect_packet_length p =
     (let len = 10;
          len = len + ucast (clientIDLen p) + 2;
          len = (if isWillMsgPresent p
                 then len + ucast (will_topicNameLen (will p)) + 2 + ucast (will_msgLen (will p)) + 2 else len);
          len = (if pUsername p \<noteq> None then len + ucast (usernameLen p) + 2 else len);
          len = (if pPassword p \<noteq> None then len + ucast (passwordLen p) + 2 else len)
      in len)"

definition aws_iot_mqtt_serialize_connect ::
    "byte list \<Rightarrow> nat \<Rightarrow> IoT_Client_Connect_Params \<Rightarrow> (IoT_Error_t \<times> byte list \<times> nat) option" where
  "aws_iot_mqtt_serialize_connect pTxBuf txBufLen p =
     (if (pClientID p = None \<and> clientIDLen p \<noteq> 0) \<or> (pClientID p \<noteq> None \<and> clientIDLen p = 0)
      then Some (NULL_VALUE_ERROR, pTxBuf, 0)
      else if MQTTVersion p \<noteq> MQTT_3_1_1
      then Some (MQTT_CONNACK_UNACCEPTABLE_PROTOCOL_VERSION_ERROR, pTxBuf, 0)
      else
      let len = aws_iot_get_connect_packet_length p in
      if txBufLen < unat (aws_iot_mqtt_internal_get_final_packet_length_from_remaining_length len)
      then Some (MQTT_TX_BUFFER_TOO_SHORT_ERROR, pTxBuf, 0)
      else case aws_iot_mqtt_internal_init_header CONNECT QOS0 0 0 of (rc, header) \<Rightarrow>
      if rc \<noteq> SUCCESS then Some (rc, pTxBuf, 0)
      else do {
        bp \<leftarrow> aws_iot_mqtt_internal_write_char (header_byte header) (pTxBuf, 0);
        (bp, n) \<leftarrow> aws_iot_mqtt_internal_write_len_to_buffer len bp;
        bp \<leftarrow> aws_iot_mqtt_internal_write_utf8_string (Some (bytes_of ''MQTT'')) 4 bp;
        bp \<leftarrow> aws_iot_mqtt_internal_write_char (MQTTVersion p) bp;
        bp \<leftarrow> aws_iot_mqtt_internal_write_char (flags_all (connect_flags p)) bp;
        bp \<leftarrow> aws_iot_mqtt_internal_write_uint_16 (keepAliveIntervalInSec p) bp;
        bp \<leftarrow> (if pClientID p = None then aws_iot_mqtt_internal_write_uint_16 0 bp
               else aws_iot_mqtt_internal_write_utf8_string (pClientID p) (clientIDLen p) bp);
        bp \<leftarrow> (if isWillMsgPresent p then do {
                 bp \<leftarrow> aws_iot_mqtt_internal_write_utf8_string
                         (will_pTopicName (will p)) (will_topicNameLen (will p)) bp;
                 aws_iot_mqtt_internal_write_utf8_string (will_pMessage (will p)) (will_msgLen (will p)) bp
               } else Some bp);
        bp \<leftarrow> (if f_username (connect_flags p) \<noteq> 0
               then aws_iot_mqtt_internal_write_utf8_string (pUsername p) (usernameLen p) bp else Some bp);
        bp \<leftarrow> (if f_password (connect_flags p) \<noteq> 0
               then aws_iot_mqtt_internal_write_utf8_string (pPassword p) (passwordLen p) bp else Some bp);
        Some (SUCCESS, fst bp, snd bp)
      })"

subsection \<open>CONNACK\<close>

definition connack_code :: "byte \<Rightarrow> IoT_Error_t" where
  "connack_code c =
     (if c = 0 then MQTT_CONNACK_CONNECTION_ACCEPTED
      else if c = 1 then MQTT_CONNACK_UNACCEPTABLE_PROTOCOL_VERSION_ERROR
      else if c = 2 then MQTT_CONNACK_IDENTIFIER_REJECTED_ERROR
      else if c = 3 then MQTT_CONNACK_SERVER_UNAVAILABLE_ERROR
      else if c = 4 then MQTT_CONNACK_BAD_USERDATA_ERROR
      else if c = 5 then MQTT_CONNACK_NOT_AUTHORIZED_ERROR
      else MQTT_CONNACK_UNKNOWN_ERROR)"

text \<open>\<open>flags.bits.sessionpresent\<close> is the highest bit of the byte in the layout without \<open>REVERSED\<close>.\<close>

definition aws_iot_mqtt_deserialize_connack ::
    "byte list \<Rightarrow> nat \<Rightarrow> (IoT_Error_t + (byte \<times> IoT_Error_t)) option" where
  "aws_iot_mqtt_deserialize_connack pRxBuf rxBufLen =
     (if rxBufLen < 4 then Some (Inl MQTT_RX_BUFFER_TOO_SHORT_ERROR)
      else do {
        (hb, curdata) \<leftarrow> aws_iot_mqtt_internal_read_char pRxBuf 0;
        if uint (h_type (header_of_byte hb)) \<noteq> msg_code CONNACK then Some (Inl FAILURE)
        else do {
          (rc, decodedLen, readBytesLen) \<leftarrow>
             aws_iot_mqtt_internal_decode_remaining_length_from_buffer pRxBuf curdata;
          if rc \<noteq> SUCCESS then Some (Inl rc)
          else if decodedLen \<noteq> 2 then Some (Inl MQTT_DECODE_REMAINING_LENGTH_ERROR)
          else do {
            (flags, curdata) \<leftarrow> aws_iot_mqtt_internal_read_char pRxBuf (curdata + unat readBytesLen);
            (connack_rc_char, curdata) \<leftarrow> aws_iot_mqtt_internal_read_char pRxBuf curdata;
            Some (Inr (drop_bit 7 flags, connack_code connack_rc_char))
          }
        }
      })"

subsection \<open>PUBLISH and acknowledgements\<close>

definition publish_rem_len :: "u16 \<Rightarrow> size_t \<Rightarrow> QoS \<Rightarrow> u32" where
  "publish_rem_len topicLen payloadLen qos =
     (let rem_len = ucast (ucast topicLen + payloadLen + 2 :: size_t)
      in if 0 < qos then rem_len + 2 else rem_len)"

definition aws_iot_mqtt_internal_serialize_publish ::
    "byte list \<Rightarrow> nat \<Rightarrow> u8 \<Rightarrow> QoS \<Rightarrow> u8 \<Rightarrow> u16 \<Rightarrow> cstring \<Rightarrow> u16 \<Rightarrow> byte list option \<Rightarrow> size_t
       \<Rightarrow> (IoT_Error_t \<times> byte list \<times> nat) option" where
  "aws_iot_mqtt_internal_serialize_publish pTxBuf txBufLen dup qos retained packetId pTopicName topicLen
       pPayload payloadLen =
     (case pPayload of None \<Rightarrow> Some (NULL_VALUE_ERROR, pTxBuf, 0) | Some payload \<Rightarrow>
      let rem_len = publish_rem_len topicLen payloadLen qos in
      if txBufLen < unat (aws_iot_mqtt_internal_get_final_packet_length_from_remaining_length rem_len)
      then Some (MQTT_TX_BUFFER_TOO_SHORT_ERROR, pTxBuf, 0)
      else case aws_iot_mqtt_internal_init_header PUBLISH qos dup retained of (rc, header) \<Rightarrow>
      if rc \<noteq> SUCCESS then Some (rc, pTxBuf, 0)
      else do {
        bp \<leftarrow> aws_iot_mqtt_internal_write_char (header_byte header) (pTxBuf, 0);
        (bp, n) \<leftarrow> aws_iot_mqtt_internal_write_len_to_buffer rem_len bp;
        bp \<leftarrow> aws_iot_mqtt_internal_write_utf8_string (Some pTopicName) topicLen bp;
        bp \<leftarrow> (if 0 < qos then aws_iot_mqtt_internal_write_uint_16 packetId bp else Some bp);
        src \<leftarrow> mem_read payload (unat payloadLen);
        bp \<leftarrow> put src bp;
        Some (SUCCESS, fst bp, snd bp)
      })"

definition aws_iot_mqtt_internal_serialize_ack ::
    "byte list \<Rightarrow> nat \<Rightarrow> MessageTypes \<Rightarrow> u8 \<Rightarrow> u16 \<Rightarrow> (IoT_Error_t \<times> byte list \<times> nat) option" where
  "aws_iot_mqtt_internal_serialize_ack pTxBuf txBufLen msgType dup packetId =
     (if txBufLen < 4 then Some (MQTT_TX_BUFFER_TOO_SHORT_ERROR, pTxBuf, 0)
      else
      let requestQoS = (if msgType = PUBREL then QOS1 else QOS0) in
      case aws_iot_mqtt_internal_init_header msgType requestQoS dup 0 of (rc, header) \<Rightarrow>
      if rc \<noteq> SUCCESS then Some (rc, pTxBuf, 0)
      else do {
        bp \<leftarrow> aws_iot_mqtt_internal_write_char (header_byte header) (pTxBuf, 0);
        (bp, n) \<leftarrow> aws_iot_mqtt_internal_write_len_to_buffer 2 bp;
        bp \<leftarrow> aws_iot_mqtt_internal_write_uint_16 packetId bp;
        Some (SUCCESS, fst bp, snd bp)
      })"

text \<open>\<open>_aws_iot_mqtt_read_string_with_len\<close>: the string's position and length, and the pointer after it.\<close>

definition aws_iot_mqtt_read_string_with_len ::
    "byte list \<Rightarrow> nat \<Rightarrow> nat \<Rightarrow> (IoT_Error_t + (nat \<times> u16 \<times> nat)) option" where
  "aws_iot_mqtt_read_string_with_len buf p enddata =
     (if 1 < int enddata - int p then do {
        (stringLen, p) \<leftarrow> aws_iot_mqtt_internal_read_uint16_t buf p;
        if p + unat stringLen \<le> enddata then Some (Inr (p, stringLen, p + unat stringLen))
        else Some (Inl FAILURE)
      } else Some (Inl FAILURE))"

definition aws_iot_mqtt_internal_deserialize_publish ::
    "byte list \<Rightarrow> nat \<Rightarrow> (IoT_Error_t + (Rx_Message \<times> nat \<times> u16)) option" where
  "aws_iot_mqtt_internal_deserialize_publish pRxBuf rxBufLen =
     (if rxBufLen < 4 then Some (Inl MQTT_RX_BUFFER_TOO_SHORT_ERROR)
      else do {
        (hb, curData) \<leftarrow> aws_iot_mqtt_internal_read_char pRxBuf 0;
        let header = header_of_byte hb;
        if uint (h_type header) \<noteq> msg_code PUBLISH then Some (Inl FAILURE)
        else do {
          let qos = unat (h_qos header);
          (rc, decodedLen, readBytesLen) \<leftarrow>
             aws_iot_mqtt_internal_decode_remaining_length_from_buffer pRxBuf curData;
          if rc \<noteq> SUCCESS then Some (Inl rc)
          else do {
            let curData = curData + unat readBytesLen;
            let endData = curData + unat decodedLen;
            r \<leftarrow> aws_iot_mqtt_read_string_with_len pRxBuf curData endData;
            (case r of Inl e \<Rightarrow> Some (Inl FAILURE) | Inr (topic, topicLen, curData) \<Rightarrow>
             if int endData - int curData < 0 then Some (Inl FAILURE)
             else do {
               (pktId, curData) \<leftarrow> (if qos \<noteq> QOS0 then aws_iot_mqtt_internal_read_uint16_t pRxBuf curData
                                      else Some (0, curData));
               Some (Inr (\<lparr>rx_qos = qos, rx_isRetained = ucast (h_retain header),
                  rx_isDup = ucast (h_dup header), rx_id = pktId, rx_payload = curData,
                  rx_payloadLen = of_int (int endData - int curData)\<rparr>, topic, topicLen))
             })
          }
        }
      })"

definition aws_iot_mqtt_internal_deserialize_ack ::
    "byte list \<Rightarrow> nat \<Rightarrow> (IoT_Error_t + (byte \<times> byte \<times> u16)) option" where
  "aws_iot_mqtt_internal_deserialize_ack pRxBuf rxBuflen =
     (if rxBuflen < 4 then Some (Inl MQTT_RX_BUFFER_TOO_SHORT_ERROR)
      else do {
        (hb, curdata) \<leftarrow> aws_iot_mqtt_internal_read_char pRxBuf 0;
        let header = header_of_byte hb;
        (rc, decodedLen, readBytesLen) \<leftarrow>
           aws_iot_mqtt_internal_decode_remaining_length_from_buffer pRxBuf curdata;
        if rc \<noteq> SUCCESS then Some (Inl rc)
        else if unat decodedLen < 2 then Some (Inl FAILURE)
        else do {
          (packetId, curdata) \<leftarrow> aws_iot_mqtt_internal_read_uint16_t pRxBuf (curdata + unat readBytesLen);
          Some (Inr (ucast (h_type header), ucast (h_dup header), packetId))
        }
      })"

subsection \<open>SUBSCRIBE and SUBACK\<close>

text \<open>
  The parallel arrays \<open>pTopicNameList\<close>, \<open>pTopicNameLenList\<close> and \<open>pRequestedQoSs\<close> of \<open>topicCount\<close>
  entries are one list of triples.
\<close>

fun subscribe_rem_len :: "(cstring option \<times> u16 \<times> QoS) list \<Rightarrow> u32 \<Rightarrow> u32" where
  "subscribe_rem_len [] rem_len = rem_len"
| "subscribe_rem_len ((t, len, q) # ts) rem_len = subscribe_rem_len ts (rem_len + (ucast len + 2 + 1))"

fun subscribe_write :: "(cstring option \<times> u16 \<times> QoS) list \<Rightarrow> cursor \<Rightarrow> cursor option" where
  "subscribe_write [] bp = Some bp"
| "subscribe_write ((t, len, q) # ts) bp = do {
     bp \<leftarrow> aws_iot_mqtt_internal_write_utf8_string t len bp;
     bp \<leftarrow> aws_iot_mqtt_internal_write_char (of_nat q) bp;
     subscribe_write ts bp
   }"

definition aws_iot_mqtt_serialize_subscribe ::
    "byte list \<Rightarrow> nat \<Rightarrow> u8 \<Rightarrow> u16 \<Rightarrow> (cstring option \<times> u16 \<times> QoS) list \<Rightarrow> (IoT_Error_t \<times> byte list \<times> nat) option" where
  "aws_iot_mqtt_serialize_subscribe pTxBuf txBufLen dup packetId topics =
     (let rem_len = subscribe_rem_len topics 2 in
      if txBufLen < unat (aws_iot_mqtt_internal_get_final_packet_length_from_remaining_length rem_len)
      then Some (MQTT_TX_BUFFER_TOO_SHORT_ERROR, pTxBuf, 0)
      else case aws_iot_mqtt_internal_init_header SUBSCRIBE QOS1 dup 0 of (rc, header) \<Rightarrow>
      if rc \<noteq> SUCCESS then Some (rc, pTxBuf, 0)
      else do {
        bp \<leftarrow> aws_iot_mqtt_internal_write_char (header_byte header) (pTxBuf, 0);
        (bp, n) \<leftarrow> aws_iot_mqtt_internal_write_len_to_buffer rem_len bp;
        bp \<leftarrow> aws_iot_mqtt_internal_write_uint_16 packetId bp;
        bp \<leftarrow> subscribe_write topics bp;
        Some (SUCCESS, fst bp, snd bp)
      })"

text \<open>The \<open>while(curData < endData)\<close> loop over the granted QoS bytes.\<close>

function suback_loop :: "byte list \<Rightarrow> nat \<Rightarrow> nat \<Rightarrow> u32 \<Rightarrow> u32 \<Rightarrow> QoS list \<Rightarrow> (IoT_Error_t \<times> u32 \<times> QoS list) option" where
  "suback_loop buf curData endData maxExpectedQoSCount count granted =
     (if curData < endData then
        if maxExpectedQoSCount < count then Some (FAILURE, count, granted)
        else do {
          (c, next) \<leftarrow> aws_iot_mqtt_internal_read_char buf curData;
          if unat count < length granted
          then suback_loop buf (Suc curData) endData maxExpectedQoSCount (count + 1) (granted[unat count := unat c])
          else None
        }
      else Some (SUCCESS, count, granted))"
  by pat_completeness auto
termination
  by (relation "measure (\<lambda>(buf, cur, e, m, c, g). e - cur)") auto

definition aws_iot_mqtt_deserialize_suback ::
    "u32 \<Rightarrow> QoS list \<Rightarrow> byte list \<Rightarrow> nat \<Rightarrow> (IoT_Error_t + (u16 \<times> u32 \<times> QoS list)) option" where
  "aws_iot_mqtt_deserialize_suback maxExpectedQoSCount granted pRxBuf rxBufLen =
     (if rxBufLen < 5 then Some (Inl MQTT_RX_BUFFER_TOO_SHORT_ERROR)
      else do {
        (hb, curData) \<leftarrow> aws_iot_mqtt_internal_read_char pRxBuf 0;
        if uint (h_type (header_of_byte hb)) \<noteq> msg_code SUBACK then Some (Inl FAILURE)
        else do {
          (rc, decodedLen, readBytesLen) \<leftarrow>
             aws_iot_mqtt_internal_decode_remaining_length_from_buffer pRxBuf curData;
          if rc \<noteq> SUCCESS then Some (Inl rc)
          else do {
            let curData = curData + unat readBytesLen;
            let endData = curData + unat decodedLen;
            if unat decodedLen < 2 then Some (Inl FAILURE)
            else do {
              (pPacketId, curData) \<leftarrow> aws_iot_mqtt_internal_read_uint16_t pRxBuf curData;
              (rc, count, granted) \<leftarrow> suback_loop pRxBuf curData endData maxExpectedQoSCount 0 granted;
              Some (if rc \<noteq> SUCCESS then Inl rc else Inr (pPacketId, count, granted))
            }
          }
        }
      })"

subsection \<open>UNSUBSCRIBE and UNSUBACK\<close>

fun unsubscribe_rem_len :: "(cstring option \<times> u16) list \<Rightarrow> u32 \<Rightarrow> u32" where
  "unsubscribe_rem_len [] rem_len = rem_len"
| "unsubscribe_rem_len ((t, len) # ts) rem_len = unsubscribe_rem_len ts (rem_len + (ucast len + 2))"

fun unsubscribe_write :: "(cstring option \<times> u16) list \<Rightarrow> cursor \<Rightarrow> cursor option" where
  "unsubscribe_write [] bp = Some bp"
| "unsubscribe_write ((t, len) # ts) bp = do {
     bp \<leftarrow> aws_iot_mqtt_internal_write_utf8_string t len bp;
     unsubscribe_write ts bp
   }"

definition aws_iot_mqtt_serialize_unsubscribe ::
    "byte list \<Rightarrow> nat \<Rightarrow> u8 \<Rightarrow> u16 \<Rightarrow> (cstring option \<times> u16) list \<Rightarrow> (IoT_Error_t \<times> byte list \<times> nat) option" where
  "aws_iot_mqtt_serialize_unsubscribe pTxBuf txBufLen dup packetId topics =
     (let rem_len = unsubscribe_rem_len topics 2 in
      if txBufLen < unat (aws_iot_mqtt_internal_get_final_packet_length_from_remaining_length rem_len)
      then Some (MQTT_TX_BUFFER_TOO_SHORT_ERROR, pTxBuf, 0)
      else case aws_iot_mqtt_internal_init_header UNSUBSCRIBE QOS1 dup 0 of (rc, header) \<Rightarrow>
      if rc \<noteq> SUCCESS then Some (rc, pTxBuf, 0)
      else do {
        bp \<leftarrow> aws_iot_mqtt_internal_write_char (header_byte header) (pTxBuf, 0);
        (bp, n) \<leftarrow> aws_iot_mqtt_internal_write_len_to_buffer rem_len bp;
        bp \<leftarrow> aws_iot_mqtt_internal_write_uint_16 packetId bp;
        bp \<leftarrow> unsubscribe_write topics bp;
        Some (SUCCESS, fst bp, snd bp)
      })"

definition aws_iot_mqtt_deserialize_unsuback :: "byte list \<Rightarrow> nat \<Rightarrow> (IoT_Error_t + u16) option" where
  "aws_iot_mqtt_deserialize_unsuback pRxBuf rxBufLen = do {
     r \<leftarrow> aws_iot_mqtt_internal_deserialize_ack pRxBuf rxBufLen;
     (case r of Inl rc \<Rightarrow> Some (Inl rc) | Inr (type, dup, packetId) \<Rightarrow>
      if uint type \<noteq> msg_code UNSUBACK then Some (Inl FAILURE) else Some (Inr packetId))
   }"

subsection \<open>Reference encodings\<close>

text \<open>A whole packet is its header byte, the length of its body and the body.\<close>

definition packet :: "byte \<Rightarrow> byte list \<Rightarrow> byte list" where
  "packet h body = h # encode_len (length body) @ body"

definition header_bits :: "MessageTypes \<Rightarrow> QoS \<Rightarrow> u8 \<Rightarrow> u8 \<Rightarrow> MQTTHeader" where
  "header_bits t q dup ret = \<lparr>h_retain = (if ret = 1 then 1 else 0), h_qos = (if q = QOS1 then 1 else 0),
     h_dup = (if dup = 1 then 1 else 0), h_type = of_int (msg_code t)\<rparr>"

definition written :: "byte list \<Rightarrow> byte list \<Rightarrow> IoT_Error_t \<times> byte list \<times> nat" where
  "written pkt buf = (SUCCESS, pkt @ drop (length pkt) buf, length pkt)"

definition publish_body :: "cstring \<Rightarrow> u16 \<Rightarrow> QoS \<Rightarrow> u16 \<Rightarrow> byte list \<Rightarrow> byte list" where
  "publish_body topic len qos pid payload =
     utf8_bytes topic len @ (if 0 < qos then u16_bytes pid else []) @ payload"

definition fits :: "nat \<Rightarrow> u32 \<Rightarrow> bool" where
  "fits txBufLen rem_len \<longleftrightarrow>
     unat (aws_iot_mqtt_internal_get_final_packet_length_from_remaining_length rem_len) \<le> txBufLen"

definition opt_utf8 :: "cstring option \<Rightarrow> u16 \<Rightarrow> byte list" where
  "opt_utf8 s n = (case s of None \<Rightarrow> [] | Some t \<Rightarrow> utf8_bytes t n)"

definition readable :: "cstring option \<Rightarrow> u16 \<Rightarrow> bool" where
  "readable s n \<longleftrightarrow> (case s of None \<Rightarrow> False | Some t \<Rightarrow> unat n \<le> length t)"

definition connect_body :: "IoT_Client_Connect_Params \<Rightarrow> byte list" where
  "connect_body p =
     utf8_bytes (bytes_of ''MQTT'') 4 @ [MQTTVersion p, flags_all (connect_flags p)]
       @ u16_bytes (keepAliveIntervalInSec p)
       @ (case pClientID p of None \<Rightarrow> u16_bytes 0 | Some s \<Rightarrow> utf8_bytes s (clientIDLen p))
       @ (if isWillMsgPresent p then opt_utf8 (will_pTopicName (will p)) (will_topicNameLen (will p))
              @ opt_utf8 (will_pMessage (will p)) (will_msgLen (will p)) else [])
       @ opt_utf8 (pUsername p) (usernameLen p)
       @ opt_utf8 (pPassword p) (passwordLen p)"

text \<open>Every string is at least as long as the length passed with it; the will is complete when present.\<close>

definition connect_params_ok :: "IoT_Client_Connect_Params \<Rightarrow> bool" where
  "connect_params_ok p \<longleftrightarrow>
     (pClientID p = None \<longrightarrow> clientIDLen p = 0) \<and>
     (pClientID p \<noteq> None \<longrightarrow> clientIDLen p \<noteq> 0 \<and> readable (pClientID p) (clientIDLen p)) \<and>
     (isWillMsgPresent p \<longrightarrow> readable (will_pTopicName (will p)) (will_topicNameLen (will p))
        \<and> readable (will_pMessage (will p)) (will_msgLen (will p))) \<and>
     (pUsername p \<noteq> None \<longrightarrow> readable (pUsername p) (usernameLen p)) \<and>
     (pPassword p \<noteq> None \<longrightarrow> readable (pPassword p) (passwordLen p))"

definition subscribe_body :: "u16 \<Rightarrow> (cstring option \<times> u16 \<times> QoS) list \<Rightarrow> byte list" where
  "subscribe_body pid topics = u16_bytes pid @ concat (map (\<lambda>(t, len, q). opt_utf8 t len @ [of_nat q]) topics)"

definition unsubscribe_body :: "u16 \<Rightarrow> (cstring option \<times> u16) list \<Rightarrow> byte list" where
  "unsubscribe_body pid topics = u16_bytes pid @ concat (map (\<lambda>(t, len). opt_utf8 t len) topics)"

subsection \<open>PUBLISH\<close>

declare suback_loop.simps [simp del]

lemma final_length_ge:
  assumes "unat rem_len + 6 \<le> 2 ^ 32"
  shows "unat rem_len < unat (aws_iot_mqtt_internal_get_final_packet_length_from_remaining_length rem_len)"
proof -
  have add: "unat (rem_len + w) = unat rem_len + unat w" if "unat rem_len + unat w < 2 ^ 32" for w
    using that by (simp add: unat_word_ariths)
  show ?thesis
    using assms
    by (simp add: aws_iot_mqtt_internal_get_final_packet_length_from_remaining_length_def Let_def
        word_less_nat_alt add add.assoc)
qed

lemma length_packet: "length (packet h body) = 1 + length (encode_len (length body)) + length body"
  by (simp add: packet_def)

lemma put_packet:
  assumes "unat rem_len = length body" and "unat rem_len + 6 \<le> 2 ^ 32" and "fits txBufLen rem_len"
    and "txBufLen < 268435456" and "txBufLen \<le> length buf"
  shows "put (packet h body) (buf, 0) =
           Some (packet h body @ drop (length (packet h body)) buf, length (packet h body))"
proof -
  have small: "length body < 268435456"
    using assms final_length_ge [of rem_len] by (simp add: fits_def)
  have "length (packet h body) \<le> length buf"
    using final_length_bounds(1) [of rem_len] small assms by (simp add: fits_def length_packet)
  then show ?thesis by (simp add: put_eq_Some)
qed

lemma init_header_eq:
  "t \<noteq> UNKNOWN \<Longrightarrow> aws_iot_mqtt_internal_init_header t q d r = (SUCCESS, header_bits t q d r)"
  by (simp add: aws_iot_mqtt_internal_init_header_def header_bits_def)

lemma mem_read_Some [simp]: "n \<le> length m \<Longrightarrow> mem_read m n = Some (take n m)"
  by (simp add: mem_read_def)

lemma publish_rem_len_body:
  assumes "unat payloadLen + 65550 < 2 ^ 32" and "unat topicLen \<le> length topic" and "unat payloadLen \<le> length payload"
  shows "unat (publish_rem_len topicLen payloadLen qos) = length (publish_body topic topicLen qos pid (take (unat payloadLen) payload))"
    and "unat (publish_rem_len topicLen payloadLen qos) + 6 \<le> 2 ^ 32"
proof -
  note t = unat_u16_less [of topicLen]
  have "unat (ucast (topicLen :: u16) + payloadLen + 2 :: size_t) = unat topicLen + unat payloadLen + 2"
    using assms(1) t by (simp add: unat_word_ariths unsigned_ucast_eq take_bit_eq_mod)
  then have "unat (ucast (ucast topicLen + payloadLen + 2 :: size_t) :: u32) = unat topicLen + unat payloadLen + 2"
    using assms(1) t by (simp add: unsigned_ucast_eq take_bit_eq_mod)
  then show "unat (publish_rem_len topicLen payloadLen qos) = length (publish_body topic topicLen qos pid (take (unat payloadLen) payload))"
    and "unat (publish_rem_len topicLen payloadLen qos) + 6 \<le> 2 ^ 32"
    using assms t by (simp_all add: publish_rem_len_def publish_body_def unat_word_ariths Let_def)
qed

text \<open>What every writer does once the bytes are known: code, buffer and length.\<close>

lemma emit_packet:
  assumes "unat rem_len = length body" and "unat rem_len + 6 \<le> 2 ^ 32" and "fits txBufLen rem_len"
    and "txBufLen < 268435456" and "txBufLen \<le> length buf"
  shows "Option.bind (put (h # encode_len (unat rem_len) @ body) (buf, 0)) (\<lambda>bp. Some (SUCCESS, bp)) =
           Some (written (packet h body) buf)"
  using put_packet [OF assms, of h] by (simp add: packet_def assms(1) written_def)

lemma serialize_publish_eq:
  fixes topicLen :: u16 and payloadLen :: size_t and qos :: QoS and pid :: u16
  assumes "unat topicLen \<le> length topic" and "unat payloadLen \<le> length payload"
    and "unat payloadLen + 65550 < 2 ^ 32" and "txBufLen < 268435456" and "txBufLen \<le> length buf"
  defines "body \<equiv> publish_body topic topicLen qos pid (take (unat payloadLen) payload)"
  shows "aws_iot_mqtt_internal_serialize_publish buf txBufLen dup qos ret pid topic topicLen (Some payload) payloadLen =
     Some (if fits txBufLen (of_nat (length body))
           then written (packet (header_byte (header_bits PUBLISH qos dup ret)) body) buf
           else (MQTT_TX_BUFFER_TOO_SHORT_ERROR, buf, 0))"
proof -
  let ?r = "publish_rem_len topicLen payloadLen qos"
  note r = publish_rem_len_body(1) [OF assms(3,1,2), where qos = qos and pid = pid, folded body_def]
      publish_rem_len_body(2) [OF assms(3,1,2), where qos = qos]
  have rw: "of_nat (length body) = ?r" by (simp add: r(1) [symmetric])
  note unfold = aws_iot_mqtt_internal_serialize_publish_def Let_def fits_def init_header_eq
  show ?thesis
  proof (cases "fits txBufLen ?r")
    case True
    then show ?thesis
      unfolding rw
      using assms(1,2) emit_packet [OF r True assms(4,5), of "header_byte (header_bits PUBLISH qos dup ret)"]
      by (cases "0 < qos") (simp_all add: unfold not_less codec body_def publish_body_def)
  qed (simp add: unfold rw)
qed

subsection \<open>Reading a packet\<close>

lemma read_char_packet [simp]: "aws_iot_mqtt_internal_read_char (packet h body @ ys) 0 = Some (h, 1)"
  by (simp add: aws_iot_mqtt_internal_read_char_def packet_def)

lemma decode_packet:
  "length body < 268435456 \<Longrightarrow>
     aws_iot_mqtt_internal_decode_remaining_length_from_buffer (packet h body @ ys) 1 =
       Some (SUCCESS, of_nat (length body), of_nat (length (encode_len (length body))))"
  using decode_encode_len [of "length body" "[h]" "body @ ys"] by (simp add: packet_def)

lemma decode_packet_unat:
  assumes "length body < 268435456"
  shows "unat (of_nat (length body) :: u32) = length body"
    and "unat (of_nat (length (encode_len (length body))) :: u32) = length (encode_len (length body))"
proof -
  have "length (encode_len (length body)) \<le> 4"
    using assms encode_len_cases [of "length body"] by (auto split: if_splits)
  with assms show "unat (of_nat (length body) :: u32) = length body"
    and "unat (of_nat (length (encode_len (length body))) :: u32) = length (encode_len (length body))"
    by (simp_all add: unat_of_nat)
qed

lemmas decode_packet_simps = decode_packet decode_packet_unat

lemma header_bits_sel [simp]:
  "uint (h_type (header_bits t q d r)) = msg_code t mod 16"
  "unat (h_qos (header_bits t q d r)) = (if q = QOS1 then 1 else 0)"
  by (simp_all add: header_bits_def uint_word_of_int)

lemma header_bits_flags:
  "ucast (h_dup (header_bits t q d r)) = (if d = 1 then 1 else 0 :: byte)"
  "ucast (h_retain (header_bits t q d r)) = (if r = 1 then 1 else 0 :: byte)"
  "ucast (h_type (header_bits t q d r)) = (of_int (msg_code t mod 16) :: byte)"
  by (simp_all add: header_bits_def word_uint_eq_iff uint_word_of_int unsigned_ucast_eq take_bit_eq_mod)

lemma deserialize_publishI:
  assumes "aws_iot_mqtt_internal_read_char buf 0 = Some (hb, 1)" and "uint (h_type (header_of_byte hb)) = 3"
    and "aws_iot_mqtt_internal_decode_remaining_length_from_buffer buf 1 = Some (SUCCESS, dl, rb)"
    and "1 + unat rb = p" and "p + unat dl = e"
    and "aws_iot_mqtt_read_string_with_len buf p e = Some (Inr (t, tlen, cur))"
    and "cur \<le> e" and "4 \<le> rxBufLen" and "unat (h_qos (header_of_byte hb)) = qos"
    and "(if qos \<noteq> 0 then aws_iot_mqtt_internal_read_uint16_t buf cur else Some (0, cur)) = Some (pid, cur')"
  shows "aws_iot_mqtt_internal_deserialize_publish buf rxBufLen =
     Some (Inr (\<lparr>rx_qos = qos, rx_isRetained = ucast (h_retain (header_of_byte hb)),
        rx_isDup = ucast (h_dup (header_of_byte hb)), rx_id = pid, rx_payload = cur',
        rx_payloadLen = of_int (int e - int cur')\<rparr>, t, tlen))"
  unfolding aws_iot_mqtt_internal_deserialize_publish_def
  using assms(2,7,8,10)
  by (cases "qos = 0") (simp_all add: assms(1,3,4,5,6,9) Let_def del: One_nat_def)

lemma deserialize_publish_packet:
  assumes "length (publish_body topic len qos pid payload) < 268435456"
    and "unat len \<le> length topic" and "qos \<le> 1" and "4 \<le> rxBufLen"
  defines "body \<equiv> publish_body topic len qos pid payload"
  defines "off \<equiv> 3 + length (encode_len (length body))"
  shows "aws_iot_mqtt_internal_deserialize_publish
           (packet (header_byte (header_bits PUBLISH qos dup ret)) body @ ys) rxBufLen =
     Some (Inr (\<lparr>rx_qos = qos, rx_isRetained = (if ret = 1 then 1 else 0), rx_isDup = (if dup = 1 then 1 else 0),
        rx_id = (if 0 < qos then pid else 0),
        rx_payload = off + unat len + (if 0 < qos then 2 else 0),
        rx_payloadLen = of_nat (length payload)\<rparr>, off, len))"
proof -
  let ?h = "header_byte (header_bits PUBLISH qos dup ret)" and ?e = "encode_len (length body)"
  let ?buf = "packet ?h body @ ys"
  have body: "length body < 268435456" using assms(1) by (simp add: body_def)
  have len: "length body = 2 + unat len + (if 0 < qos then 2 else 0) + length payload"
    using assms(2) by (simp add: body_def publish_body_def)
  have split1: "(?h # ?e) @ u16_bytes len @ drop 2 body @ ys = ?buf"
    by (simp add: packet_def body_def publish_body_def utf8_bytes_def)
  have r1: "aws_iot_mqtt_internal_read_uint16_t ?buf (1 + length ?e) = Some (len, 1 + length ?e + 2)"
    using read_u16_bytes [of "?h # ?e" len "drop 2 body @ ys"] unfolding split1 by simp
  have "2 + unat len \<le> length body" using len by simp
  then have str: "aws_iot_mqtt_read_string_with_len ?buf (1 + length ?e) (1 + length ?e + length body) =
      Some (Inr (off, len, off + unat len))"
    using r1 by (simp add: aws_iot_mqtt_read_string_with_len_def off_def)
  have pid: "aws_iot_mqtt_internal_read_uint16_t ?buf (off + unat len) = Some (pid, off + unat len + 2)" if "0 < qos"
  proof -
    have "(?h # ?e @ utf8_bytes topic len) @ u16_bytes pid @ payload @ ys = ?buf"
      using that by (simp add: packet_def body_def publish_body_def)
    moreover have "length (?h # ?e @ utf8_bytes topic len) = off + unat len"
      using assms(2) by (simp add: off_def)
    ultimately show ?thesis
      using read_u16_bytes [of "?h # ?e @ utf8_bytes topic len" pid "payload @ ys"] by metis
  qed
  have q: "unat (h_qos (header_bits PUBLISH qos dup ret)) = qos" using assms(3) by simp
  let ?cur = "off + unat len + (if 0 < qos then 2 else 0)"
  have le: "off + unat len \<le> 1 + length ?e + length body" using len by (simp add: off_def)
  have pay: "int (1 + length ?e + length body) - int ?cur = int (length payload)"
    using len by (simp add: off_def)
  have P: "(if qos \<noteq> 0 then aws_iot_mqtt_internal_read_uint16_t ?buf (off + unat len) else Some (0, off + unat len)) =
     Some (if 0 < qos then pid else 0, ?cur)"
    using pid by simp
  have D: "aws_iot_mqtt_internal_deserialize_publish ?buf rxBufLen =
     Some (Inr (\<lparr>rx_qos = qos, rx_isRetained = ucast (h_retain (header_of_byte ?h)),
        rx_isDup = ucast (h_dup (header_of_byte ?h)), rx_id = (if 0 < qos then pid else 0), rx_payload = ?cur,
        rx_payloadLen = of_int (int (1 + length ?e + length body) - int ?cur)\<rparr>, off, len))"
    using q assms(4) by (intro deserialize_publishI [OF read_char_packet _ decode_packet [OF body] _ _ str le _ _ P])
      (simp_all add: decode_packet_unat [OF body])
  show ?thesis
    unfolding D pay header_of_byte_byte header_bits_flags by simp
qed

lemma serialize_ack_eq:
  assumes "4 \<le> txBufLen" and "txBufLen \<le> length buf" and "t \<noteq> UNKNOWN"
  shows "aws_iot_mqtt_internal_serialize_ack buf txBufLen t dup pid =
     Some (written (packet (header_byte (header_bits t (if t = PUBREL then QOS1 else QOS0) dup 0)) (u16_bytes pid)) buf)"
  using assms
  by (simp add: aws_iot_mqtt_internal_serialize_ack_def init_header_eq codec written_def packet_def Let_def
      encode_len.simps put_eq_Some)

lemma deserialize_ack_packet:
  assumes "4 \<le> rxBufLen"
  shows "aws_iot_mqtt_internal_deserialize_ack (packet (header_byte (header_bits t q dup ret)) (u16_bytes pid) @ ys) rxBufLen =
     Some (Inr (of_int (msg_code t mod 16), if dup = 1 then 1 else 0, pid))"
proof -
  let ?h = "header_byte (header_bits t q dup ret)"
  have "aws_iot_mqtt_internal_read_uint16_t ((?h # encode_len 2) @ u16_bytes pid @ ys) (length (?h # encode_len 2)) =
      Some (pid, length (?h # encode_len 2) + 2)"
    by (rule read_u16_bytes)
  then have "aws_iot_mqtt_internal_read_uint16_t (packet ?h (u16_bytes pid) @ ys) 2 = Some (pid, 4)"
    by (simp add: packet_def encode_len.simps numeral_eq_Suc)
  then show ?thesis
    using assms decode_packet [of "u16_bytes pid" ?h ys]
    by (simp add: aws_iot_mqtt_internal_deserialize_ack_def header_bits_flags Let_def
        encode_len.simps [of 2] numeral_2_eq_2 [symmetric] split del: if_split)
qed

subsection \<open>CONNECT\<close>

lemma length_opt_utf8: "readable s n \<Longrightarrow> length (opt_utf8 s n) = 2 + unat n"
  by (auto simp: readable_def opt_utf8_def split: option.splits)

lemma opt_utf8_None [simp]: "opt_utf8 None n = []"
  by (simp add: opt_utf8_def)

lemma write_opt_utf8: "readable s n \<Longrightarrow> aws_iot_mqtt_internal_write_utf8_string s n bp = put (opt_utf8 s n) bp"
  by (cases s) (simp_all add: readable_def opt_utf8_def write_utf8_put)

lemma connect_length:
  assumes "connect_params_ok p"
  shows "unat (aws_iot_get_connect_packet_length p) = length (connect_body p)"
    and "unat (aws_iot_get_connect_packet_length p) + 6 \<le> 2 ^ 32"
proof -
  note b = unat_u16_less [of "clientIDLen p"] unat_u16_less [of "will_topicNameLen (will p)"]
     unat_u16_less [of "will_msgLen (will p)"] unat_u16_less [of "usernameLen p"] unat_u16_less [of "passwordLen p"]
  define cid where "cid = (case pClientID p of None \<Rightarrow> u16_bytes 0 | Some s \<Rightarrow> utf8_bytes s (clientIDLen p))"
  have cid: "length cid = 2 + unat (clientIDLen p)"
    using assms by (cases "pClientID p") (auto simp: connect_params_ok_def readable_def cid_def)
  have len: "unat (aws_iot_get_connect_packet_length p) =
      12 + unat (clientIDLen p)
       + (if isWillMsgPresent p then 4 + unat (will_topicNameLen (will p)) + unat (will_msgLen (will p)) else 0)
       + (if pUsername p \<noteq> None then 2 + unat (usernameLen p) else 0)
       + (if pPassword p \<noteq> None then 2 + unat (passwordLen p) else 0)"
    using b by (simp add: aws_iot_get_connect_packet_length_def Let_def unat_word_ariths unsigned_ucast_eq take_bit_eq_mod)
  show "unat (aws_iot_get_connect_packet_length p) = length (connect_body p)"
    unfolding len
    using assms cid
    by (auto simp: connect_body_def cid_def [symmetric] connect_params_ok_def length_opt_utf8 bytes_of_def)
  show "unat (aws_iot_get_connect_packet_length p) + 6 \<le> 2 ^ 32"
    unfolding len using b by simp
qed

lemma connect_write:
  assumes "connect_params_ok p" and "pClientID p = None \<or> clientIDLen p \<noteq> 0"
  shows "(if pClientID p = None then aws_iot_mqtt_internal_write_uint_16 0 bp
          else aws_iot_mqtt_internal_write_utf8_string (pClientID p) (clientIDLen p) bp) =
      put (case pClientID p of None \<Rightarrow> u16_bytes 0 | Some s \<Rightarrow> utf8_bytes s (clientIDLen p)) bp"
  using assms by (cases "pClientID p") (auto simp: connect_params_ok_def readable_def codec)

lemma serialize_connect_eq:
  assumes "connect_params_ok p" and "MQTTVersion p = MQTT_3_1_1"
    and "txBufLen < 268435456" and "txBufLen \<le> length buf"
  shows "aws_iot_mqtt_serialize_connect buf txBufLen p =
     Some (if fits txBufLen (aws_iot_get_connect_packet_length p)
           then written (packet (header_byte (header_bits CONNECT QOS0 0 0)) (connect_body p)) buf
           else (MQTT_TX_BUFFER_TOO_SHORT_ERROR, buf, 0))"
proof -
  note r = connect_length [OF assms(1)]
  have guard: "\<not> ((pClientID p = None \<and> clientIDLen p \<noteq> 0) \<or> (pClientID p \<noteq> None \<and> clientIDLen p = 0))"
    using assms(1) by (auto simp: connect_params_ok_def)
  note unfold = aws_iot_mqtt_serialize_connect_def Let_def fits_def init_header_eq guard assms(2)
  show ?thesis
  proof (cases "fits txBufLen (aws_iot_get_connect_packet_length p)")
    case True
    have cid: "(if pClientID p = None then aws_iot_mqtt_internal_write_uint_16 0 bp
          else aws_iot_mqtt_internal_write_utf8_string (pClientID p) (clientIDLen p) bp) =
      put (case pClientID p of None \<Rightarrow> u16_bytes 0 | Some s \<Rightarrow> utf8_bytes s (clientIDLen p)) bp" for bp
      using guard by (intro connect_write [OF assms(1)]) auto
    show ?thesis
      using True assms(1) emit_packet [OF r True assms(3,4), of "header_byte (header_bits CONNECT QOS0 0 0)"]
      by (auto simp: unfold not_less cid codec connect_body_def connect_params_ok_def write_opt_utf8
          connect_flags_def bytes_of_def)
  next
    case False
    then show ?thesis using guard by (simp add: unfold)
  qed
qed

subsection \<open>SUBSCRIBE and UNSUBSCRIBE\<close>

lemma subscribe_write_put:
  "\<forall>(t, len, q) \<in> set topics. readable t len \<Longrightarrow> snd bp \<le> length (fst bp) \<Longrightarrow>
     subscribe_write topics bp = put (concat (map (\<lambda>(t, len, q). opt_utf8 t len @ [of_nat q]) topics)) bp"
proof (induction topics arbitrary: bp)
  case Nil
  then show ?case by (simp add: put_Nil)
next
  case (Cons x topics)
  obtain t len q where x: "x = (t, len, q)" by (cases x)
  have *: "snd bp' \<le> length (fst bp')" if "put xs bp = Some bp'" for xs bp'
    using put_SomeD [OF that] by simp
  have IH: "Option.bind (put xs bp) (subscribe_write topics) =
      Option.bind (put xs bp) (put (concat (map (\<lambda>(t, len, q). opt_utf8 t len @ [of_nat q]) topics)))" for xs
    using Cons * by (cases "put xs bp") auto
  show ?case
    using Cons.prems by (simp add: x write_opt_utf8 write_char_put put_bind IH put_put)
qed

lemma unsubscribe_write_put:
  "\<forall>(t, len) \<in> set topics. readable t len \<Longrightarrow> snd bp \<le> length (fst bp) \<Longrightarrow>
     unsubscribe_write topics bp = put (concat (map (\<lambda>(t, len). opt_utf8 t len) topics)) bp"
proof (induction topics arbitrary: bp)
  case Nil
  then show ?case by (simp add: put_Nil)
next
  case (Cons x topics)
  obtain t len where x: "x = (t, len)" by (cases x)
  have IH: "Option.bind (put xs bp) (unsubscribe_write topics) =
      Option.bind (put xs bp) (put (concat (map (\<lambda>(t, len). opt_utf8 t len) topics)))" for xs
    using Cons put_SomeD [of xs bp] by (cases "put xs bp") auto
  show ?case
    using Cons.prems by (simp add: x write_opt_utf8 IH put_put)
qed

lemma subscribe_rem_len_eq:
  assumes "\<forall>(t, len, q) \<in> set topics. readable t len"
    and "unat r + length (concat (map (\<lambda>(t, len, q). opt_utf8 t len @ [of_nat q]) topics)) < 2 ^ 32"
  shows "unat (subscribe_rem_len topics r) = unat r + length (concat (map (\<lambda>(t, len, q). opt_utf8 t len @ [of_nat q]) topics))"
  using assms
proof (induction topics arbitrary: r)
  case (Cons x topics)
  obtain t len q where x: "x = (t, len, q)" by (cases x)
  have l: "length (opt_utf8 t len) = 2 + unat len" using Cons.prems(1) by (simp add: x length_opt_utf8)
  have "unat (r + (ucast len + 2 + 1)) = unat r + (unat len + 3)"
    using Cons.prems(2) l unat_u16_less [of len]
    by (simp add: x unat_word_ariths unsigned_ucast_eq take_bit_eq_mod)
  then show ?case using Cons l by (simp add: x)
qed simp

lemma unsubscribe_rem_len_eq:
  assumes "\<forall>(t, len) \<in> set topics. readable t len"
    and "unat r + length (concat (map (\<lambda>(t, len). opt_utf8 t len) topics)) < 2 ^ 32"
  shows "unat (unsubscribe_rem_len topics r) = unat r + length (concat (map (\<lambda>(t, len). opt_utf8 t len) topics))"
  using assms
proof (induction topics arbitrary: r)
  case (Cons x topics)
  obtain t len where x: "x = (t, len)" by (cases x)
  have l: "length (opt_utf8 t len) = 2 + unat len" using Cons.prems(1) by (simp add: x length_opt_utf8)
  have "unat (r + (ucast len + 2)) = unat r + (unat len + 2)"
    using Cons.prems(2) l unat_u16_less [of len]
    by (simp add: x unat_word_ariths unsigned_ucast_eq take_bit_eq_mod)
  then show ?case using Cons l by (simp add: x)
qed simp

text \<open>
  A writer of the form "header byte, length, then \<open>rest\<close>", where \<open>rest\<close> puts the bytes of \<open>body\<close>.
\<close>

lemma emit_rest:
  assumes "unat rem_len = length body" and "unat rem_len + 6 \<le> 2 ^ 32" and "fits txBufLen rem_len"
    and "txBufLen < 268435456" and "txBufLen \<le> length buf"
    and "\<And>bp. snd bp \<le> length (fst bp) \<Longrightarrow> rest bp = put body bp"
  shows "Option.bind (put (h # encode_len (unat rem_len)) (buf, 0))
      (\<lambda>bp. Option.bind (rest bp) (\<lambda>bp. Some (SUCCESS, bp))) = Some (written (packet h body) buf)"
proof -
  have "Option.bind (put xs (buf, 0)) rest = put (xs @ body) (buf, 0)" for xs
    using assms(6) put_SomeD [of xs "(buf, 0)"] by (cases "put xs (buf, 0)") (auto simp: put_put [symmetric])
  then show ?thesis
    using emit_packet [OF assms(1-5), of h] by (simp add: Option.bind_assoc [symmetric])
qed

lemma serialize_subscribe_eq:
  assumes "\<forall>(t, len, q) \<in> set topics. readable t len"
    and "length (subscribe_body pid topics) + 6 \<le> 2 ^ 32"
    and "txBufLen < 268435456" and "txBufLen \<le> length buf"
  shows "aws_iot_mqtt_serialize_subscribe buf txBufLen dup pid topics =
     Some (if fits txBufLen (of_nat (length (subscribe_body pid topics)))
           then written (packet (header_byte (header_bits SUBSCRIBE QOS1 dup 0)) (subscribe_body pid topics)) buf
           else (MQTT_TX_BUFFER_TOO_SHORT_ERROR, buf, 0))"
proof -
  let ?r = "subscribe_rem_len topics 2" and ?h = "header_byte (header_bits SUBSCRIBE QOS1 dup 0)"
  have r: "unat ?r = length (subscribe_body pid topics)" "unat ?r + 6 \<le> 2 ^ 32"
    using subscribe_rem_len_eq [OF assms(1), of 2] assms(2) by (simp_all add: subscribe_body_def)
  have rw: "of_nat (length (subscribe_body pid topics)) = ?r" by (simp add: r(1) [symmetric])
  have rest: "Option.bind (put (u16_bytes pid) bp) (subscribe_write topics) = put (subscribe_body pid topics) bp" for bp
    using subscribe_write_put [OF assms(1)] put_SomeD [of "u16_bytes pid" bp]
    by (cases "put (u16_bytes pid) bp") (auto simp: subscribe_body_def put_put [symmetric])
  show ?thesis
  proof (cases "fits txBufLen ?r")
    case True
    then show ?thesis
      unfolding rw
      using emit_rest [OF r True assms(3,4) rest, of ?h]
      by (simp add: aws_iot_mqtt_serialize_subscribe_def fits_def not_less init_header_eq Let_def codec Option.bind_assoc)
  qed (simp add: aws_iot_mqtt_serialize_subscribe_def rw fits_def Let_def)
qed

lemma serialize_unsubscribe_eq:
  assumes "\<forall>(t, len) \<in> set topics. readable t len"
    and "length (unsubscribe_body pid topics) + 6 \<le> 2 ^ 32"
    and "txBufLen < 268435456" and "txBufLen \<le> length buf"
  shows "aws_iot_mqtt_serialize_unsubscribe buf txBufLen dup pid topics =
     Some (if fits txBufLen (of_nat (length (unsubscribe_body pid topics)))
           then written (packet (header_byte (header_bits UNSUBSCRIBE QOS1 dup 0)) (unsubscribe_body pid topics)) buf
           else (MQTT_TX_BUFFER_TOO_SHORT_ERROR, buf, 0))"
proof -
  let ?r = "unsubscribe_rem_len topics 2" and ?h = "header_byte (header_bits UNSUBSCRIBE QOS1 dup 0)"
  have r: "unat ?r = length (unsubscribe_body pid topics)" "unat ?r + 6 \<le> 2 ^ 32"
    using unsubscribe_rem_len_eq [OF assms(1), of 2] assms(2) by (simp_all add: unsubscribe_body_def)
  have rw: "of_nat (length (unsubscribe_body pid topics)) = ?r" by (simp add: r(1) [symmetric])
  have rest: "Option.bind (put (u16_bytes pid) bp) (unsubscribe_write topics) = put (unsubscribe_body pid topics) bp" for bp
    using unsubscribe_write_put [OF assms(1)] put_SomeD [of "u16_bytes pid" bp]
    by (cases "put (u16_bytes pid) bp") (auto simp: unsubscribe_body_def put_put [symmetric])
  show ?thesis
  proof (cases "fits txBufLen ?r")
    case True
    then show ?thesis
      unfolding rw
      using emit_rest [OF r True assms(3,4) rest, of ?h]
      by (simp add: aws_iot_mqtt_serialize_unsubscribe_def fits_def not_less init_header_eq Let_def codec Option.bind_assoc)
  qed (simp add: aws_iot_mqtt_serialize_unsubscribe_def rw fits_def Let_def)
qed

subsection \<open>CONNACK, SUBACK and received PUBLISH packets\<close>

lemma deserialize_connack_packet:
  assumes "4 \<le> rxBufLen"
  shows "aws_iot_mqtt_deserialize_connack (packet (header_byte (header_bits CONNACK q d r)) [f, c] @ ys) rxBufLen =
     Some (Inr (drop_bit 7 f, connack_code c))"
proof -
  let ?h = "header_byte (header_bits CONNACK q d r)"
  have "aws_iot_mqtt_internal_read_char (packet ?h [f, c] @ ys) 2 = Some (f, 3)"
    "aws_iot_mqtt_internal_read_char (packet ?h [f, c] @ ys) 3 = Some (c, 4)"
    by (simp_all add: aws_iot_mqtt_internal_read_char_def packet_def encode_len.simps byte_at_def nth_append)
  then show ?thesis
    using assms decode_packet [of "[f, c]" ?h ys]
    by (simp add: aws_iot_mqtt_deserialize_connack_def encode_len.simps [of 2] numeral_2_eq_2 [symmetric])
qed

lemma suback_loop_safe:
  assumes "endData \<le> length buf" and "unat maxE < length granted" and "unat count \<le> unat maxE + 1"
    and "length granted < 2 ^ 32"
  shows "\<exists>rc n g. suback_loop buf curData endData maxE count granted = Some (rc, n, g)
     \<and> length g = length granted \<and> unat n \<le> unat maxE + 1 \<and> (rc = SUCCESS \<or> rc = FAILURE)"
  using assms
proof (induction buf curData endData maxE count granted rule: suback_loop.induct)
  case (1 buf curData endData maxE count granted)
  show ?case
  proof (cases "curData < endData \<and> count \<le> maxE")
    case True
    then have le: "unat count \<le> unat maxE" by (simp add: word_le_nat_alt)
    with "1.prems" have s: "unat (count + 1) = unat count + 1"
      by (simp add: unat_word_ariths)
    have rd: "aws_iot_mqtt_internal_read_char buf curData = Some (buf ! curData, curData + 1)"
      using True "1.prems" by (simp add: aws_iot_mqtt_internal_read_char_def)
    have "\<exists>rc n g. suback_loop buf (Suc curData) endData maxE (count + 1)
        (granted[unat count := unat (buf ! curData)]) = Some (rc, n, g)
     \<and> length g = length (granted[unat count := unat (buf ! curData)]) \<and> unat n \<le> unat maxE + 1 \<and> (rc = SUCCESS \<or> rc = FAILURE)"
      using True le s rd "1.prems" by (intro "1.IH") auto
    then show ?thesis
      using True le rd "1.prems" by (subst suback_loop.simps) (simp add: not_less)
  next
    case False
    then show ?thesis
      using "1.prems" by (subst suback_loop.simps) (auto simp: not_less not_le)
  qed
qed

lemma suback_loop_all:
  assumes "suback_loop buf curData endData maxE count granted = Some (SUCCESS, n, g)"
    and "curData \<le> endData" and "endData - curData + unat count < 2 ^ 32"
  shows "unat n = unat count + (endData - curData)
     \<and> (\<forall>i < length g. g ! i = (if unat count \<le> i \<and> i < unat n then unat (buf ! (curData + (i - unat count))) else granted ! i))"
  using assms
proof (induction buf curData endData maxE count granted rule: suback_loop.induct)
  case (1 buf curData endData maxE count granted)
  show ?case
  proof (cases "curData < endData")
    case True
    from "1.prems"(1) True obtain c nx where rd: "aws_iot_mqtt_internal_read_char buf curData = Some (c, nx)"
      and g: "\<not> maxE < count" and len: "unat count < length granted"
      and rest: "suback_loop buf (Suc curData) endData maxE (count + 1) (granted[unat count := unat c]) = Some (SUCCESS, n, g)"
      by (subst (asm) suback_loop.simps) (auto split: if_splits bind_splits)
    have c: "c = buf ! curData" using rd by (simp add: aws_iot_mqtt_internal_read_char_def byte_at_def split: if_splits)
    have s: "unat (count + 1) = unat count + 1"
      using "1.prems" True by (simp add: unat_word_ariths)
    have idx: "Suc (unat count) \<le> i \<Longrightarrow> Suc (curData + i - Suc (unat count)) = curData + i - unat count" for i
      by arith
    show ?thesis
      using "1.IH" [OF True g rd refl len rest] True s "1.prems" c len
      by (auto simp: nth_list_update Suc_diff_le idx split: if_splits)
  qed (use "1.prems" in \<open>subst (asm) suback_loop.simps, auto\<close>)
qed

lemma deserialize_publish_bounds:
  assumes "aws_iot_mqtt_internal_deserialize_publish buf rxBufLen = Some (Inr (m, topic, tlen))"
  shows "\<exists>dl rb. aws_iot_mqtt_internal_decode_remaining_length_from_buffer buf 1 = Some (SUCCESS, dl, rb)
     \<and> topic = 3 + unat rb \<and> topic + unat tlen \<le> 1 + unat rb + unat dl
     \<and> rx_payload m = topic + unat tlen + (if rx_qos m = 0 then 0 else 2)
     \<and> rx_payloadLen m = of_int (int (1 + unat rb + unat dl) - int (rx_payload m))"
proof -
  obtain hb where h: "aws_iot_mqtt_internal_read_char buf 0 = Some (hb, 1)" and n: "\<not> rxBufLen < 4"
    and t: "\<not> uint (h_type (header_of_byte hb)) \<noteq> msg_code PUBLISH"
    using assms by (auto simp: aws_iot_mqtt_internal_deserialize_publish_def aws_iot_mqtt_internal_read_char_def
        byte_at_def Let_def split: if_splits)
  obtain dl rb where d: "aws_iot_mqtt_internal_decode_remaining_length_from_buffer buf 1 = Some (SUCCESS, dl, rb)"
    using assms by (auto simp: aws_iot_mqtt_internal_deserialize_publish_def h n t Let_def
        simp del: One_nat_def split: if_splits bind_splits)
  obtain cur where str: "aws_iot_mqtt_read_string_with_len buf (1 + unat rb) (1 + unat rb + unat dl) =
      Some (Inr (topic, tlen, cur))"
    using assms by (auto simp: aws_iot_mqtt_internal_deserialize_publish_def h n t d Let_def
        simp del: One_nat_def split: if_splits bind_splits sum.splits)
  have topic: "topic = 3 + unat rb" "cur = topic + unat tlen" "topic + unat tlen \<le> 1 + unat rb + unat dl"
    using str by (auto simp: aws_iot_mqtt_read_string_with_len_def aws_iot_mqtt_internal_read_uint16_t_def
        simp del: One_nat_def split: if_splits bind_splits)
  have "rx_payload m = cur + (if rx_qos m = 0 then 0 else 2)
     \<and> rx_payloadLen m = of_int (int (1 + unat rb + unat dl) - int (rx_payload m))"
    using assms by (auto simp: aws_iot_mqtt_internal_deserialize_publish_def h n t d str Let_def
        aws_iot_mqtt_internal_read_uint16_t_def simp del: One_nat_def split: if_splits bind_splits sum.splits)
  with d topic show ?thesis by auto
qed

subsection \<open>Properties\<close>

text \<open>
  C3. Serialising a PUBLISH message never leaves the transmit buffer (whose size is passed in) and
  has exactly three outcomes: a NULL payload is refused; a packet that the size check finds too long
  is refused with the buffer unchanged; otherwise the buffer starts with the MQTT packet (header
  byte, remaining length, topic, packet id for QoS 1, payload) and the rest of it is unchanged.
\<close>

theorem serialize_publish_exact:
  fixes topicLen :: u16 and payloadLen :: size_t and qos :: QoS and pid :: u16
  assumes "unat topicLen \<le> length topic" and "unat payloadLen \<le> length payload"
    and "unat payloadLen + 65550 < 2 ^ 32" and "txBufLen < 268435456" and "txBufLen \<le> length buf"
  shows "aws_iot_mqtt_internal_serialize_publish buf txBufLen dup qos ret pid topic topicLen None payloadLen =
           Some (NULL_VALUE_ERROR, buf, 0)
     \<and> aws_iot_mqtt_internal_serialize_publish buf txBufLen dup qos ret pid topic topicLen (Some payload) payloadLen =
     Some (let body = publish_body topic topicLen qos pid (take (unat payloadLen) payload);
               pkt = packet (header_byte (header_bits PUBLISH qos dup ret)) body
           in if fits txBufLen (of_nat (length body)) then (SUCCESS, pkt @ drop (length pkt) buf, length pkt)
              else (MQTT_TX_BUFFER_TOO_SHORT_ERROR, buf, 0))"
  using serialize_publish_eq [OF assms]
  by (simp add: aws_iot_mqtt_internal_serialize_publish_def [of _ _ _ _ _ _ _ _ None] Let_def written_def)

theorem serialize_publish_exact_witness:
  "aws_iot_mqtt_internal_serialize_publish [0, 0, 0, 0, 0, 0, 0, 0, 0, 0, 0, 0] 12 0 1 0 10 [97] 1 (Some [5, 6]) 2 =
     Some (SUCCESS, [50, 7, 0, 1, 97, 0, 10, 5, 6, 0, 0, 0], 9)"
  using serialize_publish_exact [of 1 "[97]" 2 "[5, 6]" 12 "[0, 0, 0, 0, 0, 0, 0, 0, 0, 0, 0, 0]" 0 1 0 10]
  by (simp add: Let_def publish_body_def utf8_bytes_def u16_bytes_def packet_def encode_len.simps fits_def
      aws_iot_mqtt_internal_get_final_packet_length_from_remaining_length_def header_byte_def header_bits_def)

text \<open>
  C2. PUBLISH round trip: when serialising succeeds, deserialising the buffer gives back QoS, flags
  and packet id, and the positions it reports hold exactly the topic and the payload, the payload
  ending where the packet ends.
\<close>

theorem publish_round_trip:
  fixes topicLen :: u16 and payloadLen :: size_t
  assumes "unat topicLen \<le> length topic" and "unat payloadLen \<le> length payload"
    and "unat payloadLen + 65550 < 2 ^ 32" and "txBufLen < 268435456" and "txBufLen \<le> length buf"
    and "qos \<le> 1" and "4 \<le> rxBufLen"
    and "aws_iot_mqtt_internal_serialize_publish buf txBufLen dup qos ret pid topic topicLen (Some payload) payloadLen =
           Some (SUCCESS, buf', n)"
  shows "\<exists>m t. aws_iot_mqtt_internal_deserialize_publish buf' rxBufLen = Some (Inr (m, t, topicLen))
     \<and> rx_qos m = qos \<and> rx_isDup m = (if dup = 1 then 1 else 0) \<and> rx_isRetained m = (if ret = 1 then 1 else 0)
     \<and> rx_id m = (if 0 < qos then pid else 0) \<and> rx_payloadLen m = payloadLen
     \<and> take (unat topicLen) (drop t buf') = take (unat topicLen) topic
     \<and> take (unat payloadLen) (drop (rx_payload m) buf') = take (unat payloadLen) payload
     \<and> rx_payload m + unat payloadLen = n \<and> n \<le> txBufLen"
proof -
  define pl where "pl = take (unat payloadLen) payload"
  define body where "body = publish_body topic topicLen qos pid pl"
  define h where "h = header_byte (header_bits PUBLISH qos dup ret)"
  define off where "off = 3 + length (encode_len (length body))"
  have res: "fits txBufLen (of_nat (length body))" "buf' = packet h body @ drop (length (packet h body)) buf"
    "n = length (packet h body)"
    using serialize_publish_eq [OF assms(1-5), of dup qos ret pid] assms(8)
    by (auto simp: written_def h_def body_def pl_def split: if_splits)
  have lenpl: "length pl = unat payloadLen" using assms(2) by (simp add: pl_def)
  have lb: "length body = 2 + unat topicLen + (if 0 < qos then 2 else 0) + unat payloadLen"
    using assms(1) lenpl by (simp add: body_def publish_body_def)
  have small: "length body + 6 \<le> 2 ^ 32" using lb assms(3) unat_u16_less [of topicLen] by simp
  then have "unat (of_nat (length body) :: u32) = length body" by (simp add: unat_of_nat)
  note put = put_packet [OF this, of txBufLen buf h] small res(1)
  then have n: "n \<le> txBufLen" and body: "length body < 268435456"
    using final_length_ge [of "of_nat (length body)"] final_length_bounds(1) [of "of_nat (length body)"]
      assms(4) small res(3) by (auto simp: fits_def unat_of_nat length_packet)
  have d: "aws_iot_mqtt_internal_deserialize_publish buf' rxBufLen =
     Some (Inr (\<lparr>rx_qos = qos, rx_isRetained = (if ret = 1 then 1 else 0), rx_isDup = (if dup = 1 then 1 else 0),
        rx_id = (if 0 < qos then pid else 0), rx_payload = off + unat topicLen + (if 0 < qos then 2 else 0),
        rx_payloadLen = of_nat (length pl)\<rparr>, off, topicLen))"
    unfolding res(2) h_def off_def body_def
    using body by (intro deserialize_publish_packet assms) (simp add: body_def)
  have buf': "buf' = (h # encode_len (length body) @ u16_bytes topicLen) @ take (unat topicLen) topic
      @ (if 0 < qos then u16_bytes pid else []) @ pl @ drop (length (packet h body)) buf"
    unfolding res(2) by (subst packet_def) (simp add: body_def publish_body_def utf8_bytes_def)
  have off: "length (h # encode_len (length body) @ u16_bytes topicLen) = off" by (simp add: off_def)
  have "drop (length (h # encode_len (length body) @ u16_bytes topicLen)) buf' = take (unat topicLen) topic
      @ (if 0 < qos then u16_bytes pid else []) @ pl @ drop (length (packet h body)) buf"
    unfolding buf' by (rule append_eq_conv_conj [THEN iffD1, THEN conjunct2, symmetric, OF refl])
  then have dr: "drop off buf' = take (unat topicLen) topic
      @ (if 0 < qos then u16_bytes pid else []) @ pl @ drop (length (packet h body)) buf"
    unfolding off .
  have add: "drop (off + unat topicLen + k) buf' = drop k (drop (unat topicLen) (drop off buf'))" for k
    by (simp add: ac_simps)
  have "drop (off + unat topicLen + (if 0 < qos then 2 else 0)) buf' = pl @ drop (length (packet h body)) buf"
    unfolding add dr using assms(1) by simp
  then show ?thesis
    using dr d lenpl assms(1) n res(3) lb by (simp add: pl_def off_def length_packet)
qed

theorem publish_round_trip_witness:
  "\<exists>m t. aws_iot_mqtt_internal_deserialize_publish [50, 7, 0, 1, 97, 0, 10, 5, 6, 0, 0, 0] 512 = Some (Inr (m, t, 1))
     \<and> rx_qos m = 1 \<and> rx_isDup m = (if (0::u8) = 1 then 1 else 0) \<and> rx_isRetained m = (if (0::u8) = 1 then 1 else 0)
     \<and> rx_id m = (if 0 < (1::nat) then 10 else 0) \<and> rx_payloadLen m = 2
     \<and> take (unat (1::u16)) (drop t [50, 7, 0, 1, 97, 0, 10, 5, 6, 0, 0, 0]) = take (unat (1::u16)) [97 :: byte]
     \<and> take (unat (2::size_t)) (drop (rx_payload m) [50, 7, 0, 1, 97, 0, 10, 5, 6, 0, 0, 0]) = take (unat (2::size_t)) [5, 6 :: byte]
     \<and> rx_payload m + unat (2::size_t) = 9 \<and> (9::nat) \<le> 12"
  by (rule publish_round_trip [where buf = "[0, 0, 0, 0, 0, 0, 0, 0, 0, 0, 0, 0]" and payload = "[5, 6]"])
    (simp_all add: serialize_publish_eq Let_def publish_body_def utf8_bytes_def u16_bytes_def packet_def written_def
      encode_len.simps fits_def header_byte_def header_bits_def
      aws_iot_mqtt_internal_get_final_packet_length_from_remaining_length_def)



text \<open>
  Serialising SUBSCRIBE and UNSUBSCRIBE for any list of topics stays inside the transmit buffer
  and writes exactly the packet id and the topics in order (with their QoS for SUBSCRIBE), or refuses
  a list that is too long with the buffer unchanged.
\<close>

theorem serialize_subscribe_unsubscribe_exact:
  assumes "\<forall>(t, len, q) \<in> set topics. readable t len"
    and "length (subscribe_body pid topics) + 6 \<le> 2 ^ 32"
    and "txBufLen < 268435456" and "txBufLen \<le> length buf"
  defines "names \<equiv> map (\<lambda>(t, len, q). (t, len)) topics"
  shows "aws_iot_mqtt_serialize_subscribe buf txBufLen dup pid topics =
     Some (if fits txBufLen (of_nat (length (subscribe_body pid topics)))
           then written (packet (header_byte (header_bits SUBSCRIBE QOS1 dup 0)) (subscribe_body pid topics)) buf
           else (MQTT_TX_BUFFER_TOO_SHORT_ERROR, buf, 0))
   \<and> aws_iot_mqtt_serialize_unsubscribe buf txBufLen dup pid names =
     Some (if fits txBufLen (of_nat (length (unsubscribe_body pid names)))
           then written (packet (header_byte (header_bits UNSUBSCRIBE QOS1 dup 0)) (unsubscribe_body pid names)) buf
           else (MQTT_TX_BUFFER_TOO_SHORT_ERROR, buf, 0))"
proof -
  have "length (unsubscribe_body pid names) \<le> length (subscribe_body pid topics)"
    unfolding names_def by (induction topics) (auto simp: subscribe_body_def unsubscribe_body_def)
  then have "length (unsubscribe_body pid names) + 6 \<le> 2 ^ 32" using assms(2) by linarith
  moreover have "\<forall>(t, len) \<in> set names. readable t len" using assms(1) by (auto simp: names_def)
  ultimately show ?thesis
    using serialize_subscribe_eq [OF assms(1-4), of dup] serialize_unsubscribe_eq [OF _ _ assms(3,4), of names pid dup]
    by simp
qed

theorem serialize_subscribe_unsubscribe_exact_witness:
  "aws_iot_mqtt_serialize_subscribe [0, 0, 0, 0, 0, 0, 0, 0, 0, 0] 10 0 7 [(Some [97], 1, 1)] =
     Some (SUCCESS, [130, 6, 0, 7, 0, 1, 97, 1, 0, 0], 8)
   \<and> aws_iot_mqtt_serialize_unsubscribe [0, 0, 0, 0, 0, 0, 0, 0, 0, 0] 10 0 7 [(Some [97], 1)] =
     Some (SUCCESS, [162, 5, 0, 7, 0, 1, 97, 0, 0, 0], 7)"
  using serialize_subscribe_unsubscribe_exact [of "[(Some [97], 1, 1)]" 7 10 "[0, 0, 0, 0, 0, 0, 0, 0, 0, 0]" 0]
  by (simp add: readable_def subscribe_body_def unsubscribe_body_def u16_bytes_def opt_utf8_def utf8_bytes_def
      written_def packet_def encode_len.simps fits_def header_byte_def header_bits_def
      aws_iot_mqtt_internal_get_final_packet_length_from_remaining_length_def)

text \<open>
  Acknowledgement round trip: an acknowledgement of any type serialised into a buffer of at least
  four bytes is read back with its type, duplicate flag and packet id, and the reader of UNSUBACK
  accepts it exactly when it is an UNSUBACK.
\<close>

theorem ack_round_trip:
  assumes "4 \<le> txBufLen" and "txBufLen \<le> length buf" and "t \<noteq> UNKNOWN" and "4 \<le> rxBufLen"
  shows "\<exists>buf'. aws_iot_mqtt_internal_serialize_ack buf txBufLen t dup pid = Some (SUCCESS, buf', 4)
     \<and> length buf' = length buf
     \<and> aws_iot_mqtt_internal_deserialize_ack buf' rxBufLen =
         Some (Inr (of_int (msg_code t), if dup = 1 then 1 else 0, pid))
     \<and> aws_iot_mqtt_deserialize_unsuback buf' rxBufLen =
         Some (if t = UNSUBACK then Inr pid else Inl FAILURE)"
proof -
  let ?pkt = "packet (header_byte (header_bits t (if t = PUBREL then QOS1 else QOS0) dup 0)) (u16_bytes pid)"
  have len: "length ?pkt = 4" by (simp add: length_packet encode_len.simps)
  have code: "msg_code t mod 16 = msg_code t" "uint (word_of_int (msg_code t) :: byte) = msg_code t"
    "msg_code t = msg_code UNSUBACK \<longleftrightarrow> t = UNSUBACK"
    using assms(3) by (cases t; simp add: uint_word_of_int)+
  have "aws_iot_mqtt_internal_serialize_ack buf txBufLen t dup pid = Some (SUCCESS, ?pkt @ drop 4 buf, 4)"
    using serialize_ack_eq [OF assms(1,2,3), of dup pid] by (simp add: written_def len)
  moreover have "aws_iot_mqtt_internal_deserialize_ack (?pkt @ drop 4 buf) rxBufLen =
      Some (Inr (of_int (msg_code t), if dup = 1 then 1 else 0, pid))"
    by (simp add: deserialize_ack_packet [OF assms(4)] code(1))
  ultimately show ?thesis
    using assms(1,2) code len by (auto simp: aws_iot_mqtt_deserialize_unsuback_def)
qed

theorem ack_round_trip_witness:
  "\<exists>buf'. aws_iot_mqtt_internal_serialize_ack [9, 9, 9, 9, 9] 5 PUBACK 0 300 = Some (SUCCESS, buf', 4)
     \<and> length buf' = length [9, 9, 9, 9, 9 :: byte]
     \<and> aws_iot_mqtt_internal_deserialize_ack buf' 512 =
         Some (Inr (of_int (msg_code PUBACK), if (0::u8) = 1 then 1 else 0, 300))
     \<and> aws_iot_mqtt_deserialize_unsuback buf' 512 =
         Some (if PUBACK = UNSUBACK then Inr 300 else Inl FAILURE)"
  by (rule ack_round_trip) simp_all

text \<open>
  CONNACK: a packet with the two bytes that MQTT defines is decoded to the return code the
  broker sent (accepted for 0, the five defined refusals, unknown otherwise); the session-present
  flag is taken from the top bit of the flags byte, so the flag MQTT 3.1.1 puts into the lowest bit
  is never seen.
\<close>

theorem connack_decoded:
  assumes "4 \<le> rxBufLen"
  shows "aws_iot_mqtt_deserialize_connack (packet (header_byte (header_bits CONNACK q d r)) [f, c] @ ys) rxBufLen =
           Some (Inr (drop_bit 7 f, connack_code c))
     \<and> (connack_code c = MQTT_CONNACK_CONNECTION_ACCEPTED \<longleftrightarrow> c = 0)
     \<and> drop_bit 7 (1 :: byte) = 0"
proof -
  have "connack_code c = MQTT_CONNACK_CONNECTION_ACCEPTED \<longleftrightarrow> c = 0"
    by (simp add: connack_code_def)
  then show ?thesis using deserialize_connack_packet [OF assms] by simp
qed

theorem connack_decoded_witness:
  "aws_iot_mqtt_deserialize_connack (packet (header_byte (header_bits CONNACK 0 0 0)) [1, 5] @ []) 512 =
     Some (Inr (drop_bit 7 1, MQTT_CONNACK_NOT_AUTHORIZED_ERROR))"
  using connack_decoded [of 512 0 0 0 1 5 "[]"] by (simp add: connack_code_def)

text \<open>
  SUBACK: the loop over the granted QoS bytes never writes outside the array when it has more
  than \<open>maxExpectedQoSCount\<close> entries and the packet lies inside the receive buffer; it stores at most
  \<open>maxExpectedQoSCount + 1\<close> entries, and when it succeeds it has stored every byte up to the end of
  the packet, in order.
\<close>

theorem suback_granted:
  assumes "endData \<le> length buf" and "unat maxE < length granted" and "length granted < 2 ^ 32"
    and "curData \<le> endData" and "endData < 2 ^ 32"
  shows "\<exists>rc n g. suback_loop buf curData endData maxE 0 granted = Some (rc, n, g)
     \<and> length g = length granted \<and> unat n \<le> unat maxE + 1 \<and> (rc = SUCCESS \<or> rc = FAILURE)
     \<and> (rc = SUCCESS \<longrightarrow> unat n = endData - curData
          \<and> take (unat n) g = map (\<lambda>i. unat (buf ! (curData + i))) [0..<unat n])"
proof -
  obtain rc n g where r: "suback_loop buf curData endData maxE 0 granted = Some (rc, n, g)"
    "length g = length granted" "unat n \<le> unat maxE + 1" "rc = SUCCESS \<or> rc = FAILURE"
    using suback_loop_safe [of endData buf maxE granted 0 curData] assms by auto
  have "take (unat n) g = map (\<lambda>i. unat (buf ! (curData + i))) [0..<unat n] \<and> unat n = endData - curData"
    if "rc = SUCCESS"
    using suback_loop_all [of buf curData endData maxE 0 granted n g] r assms that
    by (auto intro!: nth_equalityI)
  with r show ?thesis by blast
qed

theorem suback_granted_witness:
  "\<exists>rc n g. suback_loop [0x90, 3, 0, 1, 1] 4 5 1 0 [0, 0, 0] = Some (rc, n, g)
     \<and> length g = length [0, 0, 0 :: QoS] \<and> unat n \<le> unat (1 :: u32) + 1 \<and> (rc = SUCCESS \<or> rc = FAILURE)
     \<and> (rc = SUCCESS \<longrightarrow> unat n = 5 - 4
          \<and> take (unat n) g = map (\<lambda>i. unat ([0x90, 3, 0, 1, 1 :: byte] ! (4 + i))) [0..<unat n])"
  by (rule suback_granted) simp_all

text \<open>
  A received PUBLISH: the topic reported lies inside the packet; so does the payload when the QoS
  is 0 or the packet leaves room for the packet id, and then it ends where the packet ends. When a
  QoS 1 packet has no room for the id, the length reported is an underflow close to 2^64.
\<close>

theorem received_publish_bounds:
  assumes "aws_iot_mqtt_internal_deserialize_publish buf rxBufLen = Some (Inr (m, topic, tlen))"
  shows "\<exists>dl rb. aws_iot_mqtt_internal_decode_remaining_length_from_buffer buf 1 = Some (SUCCESS, dl, rb)
     \<and> (let pktEnd = 1 + unat rb + unat dl in
          topic + unat tlen \<le> pktEnd
        \<and> (rx_payload m \<le> pktEnd \<longrightarrow> rx_payload m + unat (rx_payloadLen m) = pktEnd)
        \<and> (rx_qos m = 0 \<longrightarrow> rx_payload m \<le> pktEnd)
        \<and> (pktEnd < rx_payload m \<longrightarrow> 2 ^ 64 - 2 \<le> unat (rx_payloadLen m)))"
proof -
  obtain dl rb where d: "aws_iot_mqtt_internal_decode_remaining_length_from_buffer buf 1 = Some (SUCCESS, dl, rb)"
    and t: "topic + unat tlen \<le> 1 + unat rb + unat dl"
    and p: "rx_payload m = topic + unat tlen + (if rx_qos m = 0 then 0 else 2)"
    and l: "rx_payloadLen m = of_int (int (1 + unat rb + unat dl) - int (rx_payload m))"
    using deserialize_publish_bounds [OF assms] by blast
  define e where "e = 1 + unat rb + unat dl"
  have "unat rb \<le> 4" using decode_len_SUCCESS [OF d] by simp
  then have small: "e < 2 ^ 33" using unat_less_2p [of dl] by (simp add: e_def)
  have "unat (rx_payloadLen m) = e - rx_payload m" if "rx_payload m \<le> e"
  proof -
    have "rx_payloadLen m = of_nat (e - rx_payload m)"
      unfolding l e_def [symmetric] using that by (simp add: of_nat_diff)
    then show ?thesis using small by (simp add: unat_of_nat)
  qed
  moreover have "2 ^ 64 - 2 \<le> unat (rx_payloadLen m)" if "e < rx_payload m"
  proof -
    from that p t have "rx_payload m = e + 1 \<or> rx_payload m = e + 2"
      unfolding e_def [symmetric] by (auto split: if_splits)
    then have "int e - int (rx_payload m) = - 1 \<or> int e - int (rx_payload m) = - 2" by auto
    then have "rx_payloadLen m = - 1 \<or> rx_payloadLen m = - 2"
      unfolding l e_def by (metis of_int_minus of_int_1 of_int_numeral)
    then show ?thesis by (auto simp: unsigned_minus_1_eq_mask mask_eq_exp_minus_1)
  qed
  ultimately show ?thesis
    using d t p unfolding Let_def
    by (intro exI [of _ dl] exI [of _ rb]) (unfold e_def [symmetric], auto)
qed

theorem received_publish_bounds_witness:
  "aws_iot_mqtt_internal_deserialize_publish [50, 3, 0, 1, 97, 0, 0, 0] 512 =
     Some (Inr (\<lparr>rx_qos = 1, rx_isRetained = 0, rx_isDup = 0, rx_id = 0, rx_payload = 7,
       rx_payloadLen = - 2\<rparr>, 4, 1))
   \<and> unat (- 2 :: size_t) \<ge> 2 ^ 64 - 2"
proof -
  let ?b = "[50, 3, 0, 1, 97, 0, 0, 0] :: byte list"
  have d: "aws_iot_mqtt_internal_decode_remaining_length_from_buffer ?b 1 = Some (SUCCESS, 3, 1)"
    by (simp add: aws_iot_mqtt_internal_decode_remaining_length_from_buffer_def decode_len_loop.simps
        MAX_NO_OF_REMAINING_LENGTH_BYTES_def)
  have *: "aws_iot_mqtt_internal_deserialize_publish ?b 512 =
     Some (Inr (\<lparr>rx_qos = 1, rx_isRetained = 0, rx_isDup = 0, rx_id = 0, rx_payload = 7,
       rx_payloadLen = - 2\<rparr>, 4, 1))"
    using d by (simp add: aws_iot_mqtt_internal_deserialize_publish_def aws_iot_mqtt_internal_read_char_def
        header_of_byte_def aws_iot_mqtt_read_string_with_len_def aws_iot_mqtt_internal_read_uint16_t_def)
  show ?thesis using received_publish_bounds [OF *] d * by (simp add: Let_def)
qed

end
