(* ===== verification/Network_Mbedtls.thy ===== *)
theory Network_Mbedtls
  imports Mqtt_Types
begin

text \<open>
  The TLS network layer of platform/linux/mbedtls/network_mbedtls_wrapper.c. mbedTLS and the clock
  are the record \<open>Mbedtls\<close> of functions on an abstract state \<open>'s\<close> (the library contexts, the socket
  and the outside world); the wrapper is modelled call by call. \<open>int\<close> results keep the library's
  values: 0 or a count on success, the negative error constants otherwise.

  What the library documents about reads and writes is built into the result type: a read delivers
  a list of bytes of which at most the requested number is stored, or an error. Loops run on fuel.
\<close>

datatype ssl_read_result = Read_Data "byte list" | Read_Error int

record 's Mbedtls =
  tls_gettimeofday :: "'s \<Rightarrow> timeval \<times> 's"
  tls_contexts_init :: "'s \<Rightarrow> 's"
  ctr_drbg_seed :: "'s \<Rightarrow> int \<times> 's"
  parse_cacert :: "cstring option \<Rightarrow> 's \<Rightarrow> int \<times> 's"
  parse_clicert :: "cstring option \<Rightarrow> 's \<Rightarrow> int \<times> 's"
  pk_parse_keyfile :: "cstring option \<Rightarrow> 's \<Rightarrow> int \<times> 's"
  mbedtls_net_connect :: "cstring option \<Rightarrow> u16 \<Rightarrow> 's \<Rightarrow> int \<times> 's"
  net_set_block :: "'s \<Rightarrow> int \<times> 's"
  ssl_config_defaults :: "'s \<Rightarrow> int \<times> 's"
  ssl_conf_verify :: "'s \<Rightarrow> 's"
  ssl_conf_authmode :: "bool \<Rightarrow> 's \<Rightarrow> 's"
  ssl_conf_rng_ca :: "'s \<Rightarrow> 's"
  ssl_conf_own_cert :: "'s \<Rightarrow> int \<times> 's"
  ssl_conf_read_timeout :: "u32 \<Rightarrow> 's \<Rightarrow> 's"
  ssl_setup :: "'s \<Rightarrow> int \<times> 's"
  ssl_set_hostname :: "cstring option \<Rightarrow> 's \<Rightarrow> int \<times> 's"
  ssl_set_bio :: "'s \<Rightarrow> 's"
  ssl_handshake :: "'s \<Rightarrow> int \<times> 's"
  ssl_get_verify_result :: "'s \<Rightarrow> u32"
  mbedtls_ssl_write :: "byte list \<Rightarrow> 's \<Rightarrow> int \<times> 's"
  mbedtls_ssl_read :: "nat \<Rightarrow> 's \<Rightarrow> ssl_read_result \<times> 's"
  ssl_close_notify :: "'s \<Rightarrow> int \<times> 's"
  tls_contexts_free :: "'s \<Rightarrow> 's"

text \<open>Constants of the mbedTLS headers that the wrapper compares with.\<close>

definition MBEDTLS_ERR_SSL_WANT_READ :: int where "MBEDTLS_ERR_SSL_WANT_READ = - 0x6900"
definition MBEDTLS_ERR_SSL_WANT_WRITE :: int where "MBEDTLS_ERR_SSL_WANT_WRITE = - 0x6880"
definition MBEDTLS_ERR_NET_SOCKET_FAILED :: int where "MBEDTLS_ERR_NET_SOCKET_FAILED = - 0x0042"
definition MBEDTLS_ERR_NET_UNKNOWN_HOST :: int where "MBEDTLS_ERR_NET_UNKNOWN_HOST = - 0x0052"
definition IOT_SSL_READ_TIMEOUT :: u32 where "IOT_SSL_READ_TIMEOUT = 10"

lemmas mbedtls_constants = MBEDTLS_ERR_SSL_WANT_READ_def MBEDTLS_ERR_SSL_WANT_WRITE_def
  MBEDTLS_ERR_NET_SOCKET_FAILED_def MBEDTLS_ERR_NET_UNKNOWN_HOST_def

subsection \<open>Initialisation and connection\<close>

definition iot_tls_set_connect_params ::
    "cstring option \<Rightarrow> cstring option \<Rightarrow> cstring option \<Rightarrow> cstring option \<Rightarrow> u16 \<Rightarrow> u32 \<Rightarrow> bool \<Rightarrow> Network \<Rightarrow> Network" where
  "iot_tls_set_connect_params rootCA deviceCert privateKey url destPort timeout serverVerification pNetwork =
     pNetwork\<lparr>tlsConnectParams := \<lparr>tls_pRootCALocation = rootCA, tls_pDeviceCertLocation = deviceCert,
       tls_pDevicePrivateKeyLocation = privateKey, tls_pDestinationURL = url, tls_DestinationPort = destPort,
       tls_timeout_ms = timeout, tls_ServerVerificationFlag = serverVerification\<rparr>\<rparr>"

definition iot_tls_init ::
    "cstring option \<Rightarrow> cstring option \<Rightarrow> cstring option \<Rightarrow> cstring option \<Rightarrow> u16 \<Rightarrow> u32 \<Rightarrow> bool \<Rightarrow> Network
       \<Rightarrow> IoT_Error_t \<times> Network" where
  "iot_tls_init rootCA deviceCert privateKey url destPort timeout serverVerification pNetwork =
     (SUCCESS, (iot_tls_set_connect_params rootCA deviceCert privateKey url destPort timeout serverVerification
        pNetwork)\<lparr>tls_flags := 0\<rparr>)"

definition iot_tls_is_connected :: "'s \<Rightarrow> IoT_Error_t \<times> 's" where
  "iot_tls_is_connected s = (NETWORK_PHYSICAL_LAYER_CONNECTED, s)"

text \<open>\<open>while((ret = mbedtls_ssl_handshake(...)) != 0)\<close>: the code the loop leaves with.\<close>

fun tls_handshake_loop :: "nat \<Rightarrow> 's Mbedtls \<Rightarrow> 's \<Rightarrow> (int \<times> 's) run" where
  "tls_handshake_loop 0 M s = NoFuel"
| "tls_handshake_loop (Suc n) M s =
     (case ssl_handshake M s of (ret, s) \<Rightarrow>
      if ret \<noteq> 0 then
        if ret \<noteq> MBEDTLS_ERR_SSL_WANT_READ \<and> ret \<noteq> MBEDTLS_ERR_SSL_WANT_WRITE then Done (ret, s)
        else tls_handshake_loop n M s
      else Done (0, s))"

definition tls_net_connect_error :: "int \<Rightarrow> IoT_Error_t" where
  "tls_net_connect_error ret =
     (if ret = MBEDTLS_ERR_NET_SOCKET_FAILED then NETWORK_ERR_NET_SOCKET_FAILED
      else if ret = MBEDTLS_ERR_NET_UNKNOWN_HOST then NETWORK_ERR_NET_UNKNOWN_HOST
      else NETWORK_ERR_NET_CONNECT_FAILED)"

definition iot_tls_connect ::
    "nat \<Rightarrow> 's Mbedtls \<Rightarrow> Network \<Rightarrow> TLSConnectParams option \<Rightarrow> 's \<Rightarrow> (IoT_Error_t \<times> Network \<times> 's) run" where
  "iot_tls_connect fuel M pNetwork params s =
     (let pNetwork = (case params of None \<Rightarrow> pNetwork | Some p \<Rightarrow>
            iot_tls_set_connect_params (tls_pRootCALocation p) (tls_pDeviceCertLocation p)
              (tls_pDevicePrivateKeyLocation p) (tls_pDestinationURL p) (tls_DestinationPort p)
              (tls_timeout_ms p) (tls_ServerVerificationFlag p) pNetwork);
          cp = tlsConnectParams pNetwork;
          s = tls_contexts_init M s;
          (ret, s) = ctr_drbg_seed M s
      in if ret \<noteq> 0 then Done (NETWORK_MBEDTLS_ERR_CTR_DRBG_ENTROPY_SOURCE_FAILED, pNetwork, s) else
      let (ret, s) = parse_cacert M (tls_pRootCALocation cp) s
      in if ret < 0 then Done (NETWORK_X509_ROOT_CRT_PARSE_ERROR, pNetwork, s) else
      let (ret, s) = parse_clicert M (tls_pDeviceCertLocation cp) s
      in if ret \<noteq> 0 then Done (NETWORK_X509_DEVICE_CRT_PARSE_ERROR, pNetwork, s) else
      let (ret, s) = pk_parse_keyfile M (tls_pDevicePrivateKeyLocation cp) s
      in if ret \<noteq> 0 then Done (NETWORK_PK_PRIVATE_KEY_PARSE_ERROR, pNetwork, s) else
      let (ret, s) = mbedtls_net_connect M (tls_pDestinationURL cp) (tls_DestinationPort cp) s
      in if ret \<noteq> 0 then Done (tls_net_connect_error ret, pNetwork, s) else
      let (ret, s) = net_set_block M s
      in if ret \<noteq> 0 then Done (SSL_CONNECTION_ERROR, pNetwork, s) else
      let (ret, s) = ssl_config_defaults M s
      in if ret \<noteq> 0 then Done (SSL_CONNECTION_ERROR, pNetwork, s) else
      let s = ssl_conf_verify M s;
          s = ssl_conf_authmode M (tls_ServerVerificationFlag cp) s;
          s = ssl_conf_rng_ca M s;
          (ret, s) = ssl_conf_own_cert M s
      in if ret \<noteq> 0 then Done (SSL_CONNECTION_ERROR, pNetwork, s) else
      let s = ssl_conf_read_timeout M (tls_timeout_ms cp) s;
          (ret, s) = ssl_setup M s
      in if ret \<noteq> 0 then Done (SSL_CONNECTION_ERROR, pNetwork, s) else
      let (ret, s) = ssl_set_hostname M (tls_pDestinationURL cp) s
      in if ret \<noteq> 0 then Done (SSL_CONNECTION_ERROR, pNetwork, s) else
      bnd (tls_handshake_loop fuel M (ssl_set_bio M s)) (\<lambda>(ret, s).
      if ret \<noteq> 0 then Done (SSL_CONNECTION_ERROR, pNetwork, s) else
      let (rc, pNetwork) =
            (if tls_ServerVerificationFlag cp
             then let pNetwork = pNetwork\<lparr>tls_flags := ssl_get_verify_result M s\<rparr>
                  in (if tls_flags pNetwork \<noteq> 0 then SSL_CONNECTION_ERROR else SUCCESS, pNetwork)
             else (SUCCESS, pNetwork))
      in Done (rc, pNetwork, ssl_conf_read_timeout M IOT_SSL_READ_TIMEOUT s)))"

subsection \<open>Writing\<close>

text \<open>The clock reading that \<open>has_timer_expired\<close> and \<open>left_ms\<close> take.\<close>

definition tls_expired :: "'s Mbedtls \<Rightarrow> Timer \<Rightarrow> 's \<Rightarrow> bool \<times> 's" where
  "tls_expired M timer s = (case tls_gettimeofday M s of (now, s) \<Rightarrow> (has_timer_expired now timer, s))"

definition tls_left_ms :: "'s Mbedtls \<Rightarrow> Timer \<Rightarrow> 's \<Rightarrow> u32 \<times> 's" where
  "tls_left_ms M timer s = (case tls_gettimeofday M s of (now, s) \<Rightarrow> (left_ms now timer, s))"

text \<open>
  The inner \<open>while\<close> of \<open>iot_tls_write\<close>: \<open>isErrorFlag\<close>, the value left in \<open>ret\<close> (unchanged when the
  timer has expired before the first call) and the state.
\<close>

fun tls_write_inner :: "nat \<Rightarrow> 's Mbedtls \<Rightarrow> byte list \<Rightarrow> Timer \<Rightarrow> int \<Rightarrow> 's \<Rightarrow> (bool \<times> int \<times> 's) run" where
  "tls_write_inner 0 M msg timer ret s = NoFuel"
| "tls_write_inner (Suc n) M msg timer ret s =
     (case tls_expired M timer s of (expired, s) \<Rightarrow>
      if expired then Done (False, ret, s)
      else case mbedtls_ssl_write M msg s of (ret, s) \<Rightarrow>
        if 0 < ret then Done (False, ret, s)
        else if ret \<noteq> MBEDTLS_ERR_SSL_WANT_READ \<and> ret \<noteq> MBEDTLS_ERR_SSL_WANT_WRITE then Done (True, ret, s)
        else tls_write_inner n M msg timer ret s)"

text \<open>The outer \<open>for\<close>: \<open>written_so_far\<close> is a \<open>size_t\<close>, \<open>pMsg + written_so_far\<close> the rest of the message.\<close>

fun tls_write_loop :: "nat \<Rightarrow> 's Mbedtls \<Rightarrow> byte list \<Rightarrow> Timer \<Rightarrow> size_t \<Rightarrow> int \<Rightarrow> 's \<Rightarrow> (bool \<times> size_t \<times> 's) run" where
  "tls_write_loop 0 M msg timer written_so_far ret s = NoFuel"
| "tls_write_loop (Suc n) M msg timer written_so_far ret s =
     (if unat written_so_far < length msg then
        case tls_expired M timer s of (expired, s) \<Rightarrow>
        if expired then Done (False, written_so_far, s)
        else bnd (tls_write_inner n M (drop (unat written_so_far) msg) timer ret s) (\<lambda>(isErrorFlag, ret, s).
          if isErrorFlag then Done (True, written_so_far, s)
          else tls_write_loop n M msg timer (written_so_far + of_int ret) ret s)
      else Done (False, written_so_far, s))"

text \<open>\<open>ret\<close> is not initialised in the source: \<open>junk\<close> is what it happens to hold.\<close>

definition iot_tls_write ::
    "nat \<Rightarrow> int \<Rightarrow> 's Mbedtls \<Rightarrow> byte list \<Rightarrow> Timer \<Rightarrow> 's \<Rightarrow> (IoT_Error_t \<times> nat \<times> 's) run" where
  "iot_tls_write fuel junk M pMsg timer s =
     bnd (tls_write_loop fuel M pMsg timer 0 junk s) (\<lambda>(isErrorFlag, written_so_far, s).
       if isErrorFlag then Done (NETWORK_SSL_WRITE_ERROR, unat written_so_far, s)
       else case tls_expired M timer s of (expired, s) \<Rightarrow>
         if expired \<and> unat written_so_far \<noteq> length pMsg
         then Done (NETWORK_SSL_WRITE_TIMEOUT_ERROR, unat written_so_far, s)
         else Done (SUCCESS, unat written_so_far, s))"

subsection \<open>Reading\<close>

text \<open>
  The loop of \<open>iot_tls_read\<close>: every call stores at \<open>pMsg\<close>, so later data overlays earlier data; \<open>mem\<close>
  is what the loop has stored there so far.
\<close>

definition overlay :: "byte list \<Rightarrow> byte list \<Rightarrow> byte list" where
  "overlay new old = new @ drop (length new) old"

fun tls_read_loop :: "nat \<Rightarrow> 's Mbedtls \<Rightarrow> nat \<Rightarrow> Timer \<Rightarrow> nat \<Rightarrow> byte list \<Rightarrow> 's
    \<Rightarrow> (bool \<times> bool \<times> nat \<times> byte list \<times> 's) run" where
  "tls_read_loop 0 M len timer rxLen mem s = NoFuel"
| "tls_read_loop (Suc n) M len timer rxLen mem s =
     (case mbedtls_ssl_read M len s of (r, s) \<Rightarrow>
      let (rxLen, mem, isErrorFlag) =
            (case r of Read_Data d \<Rightarrow> (rxLen + length (take len d), overlay (take len d) mem, False)
             | Read_Error ret \<Rightarrow> (rxLen, mem, ret \<noteq> MBEDTLS_ERR_SSL_WANT_READ));
          isCompleteFlag = (len \<le> rxLen);
          (timerLeftVal, s) = tls_left_ms M timer s
      in if \<not> isErrorFlag \<and> \<not> isCompleteFlag \<and> 0 < timerLeftVal
         then tls_read_loop n M len timer rxLen mem s
         else Done (isErrorFlag, isCompleteFlag, rxLen, mem, s))"

definition iot_tls_read ::
    "nat \<Rightarrow> 's Mbedtls \<Rightarrow> nat \<Rightarrow> Timer \<Rightarrow> 's \<Rightarrow> (IoT_Error_t \<times> byte list \<times> nat \<times> 's) run" where
  "iot_tls_read fuel M len timer s =
     (case tls_left_ms M timer s of (timerLeftVal, s) \<Rightarrow>
      bnd (tls_read_loop fuel M len timer 0 [] s) (\<lambda>(isErrorFlag, isCompleteFlag, rxLen, mem, s).
        if rxLen = 0 \<and> isErrorFlag then Done (NETWORK_SSL_NOTHING_TO_READ, mem, rxLen, s)
        else case tls_expired M timer s of (expired, s) \<Rightarrow>
          if expired \<and> \<not> isCompleteFlag then Done (NETWORK_SSL_READ_TIMEOUT_ERROR, mem, rxLen, s)
          else Done (SUCCESS, mem, rxLen, s)))"

subsection \<open>Disconnecting\<close>

fun tls_close_loop :: "nat \<Rightarrow> 's Mbedtls \<Rightarrow> 's \<Rightarrow> 's run" where
  "tls_close_loop 0 M s = NoFuel"
| "tls_close_loop (Suc n) M s =
     (case ssl_close_notify M s of (ret, s) \<Rightarrow>
      if ret = MBEDTLS_ERR_SSL_WANT_WRITE then tls_close_loop n M s else Done s)"

definition iot_tls_disconnect :: "nat \<Rightarrow> 's Mbedtls \<Rightarrow> 's \<Rightarrow> (IoT_Error_t \<times> 's) run" where
  "iot_tls_disconnect fuel M s = bnd (tls_close_loop fuel M s) (\<lambda>s. Done (SUCCESS, s))"

definition iot_tls_destroy :: "'s Mbedtls \<Rightarrow> 's \<Rightarrow> (IoT_Error_t \<times> 's) run" where
  "iot_tls_destroy M s = Done (SUCCESS, tls_contexts_free M s)"

subsection \<open>Specification vocabulary\<close>

text \<open>The clock, in microseconds, at which the next reading is taken.\<close>

definition tls_clock :: "'s Mbedtls \<Rightarrow> 's \<Rightarrow> int" where
  "tls_clock M s = usecs (fst (tls_gettimeofday M s))"

text \<open>
  What is relied on: clock readings are normalised and advance, the library does not turn the clock
  back, and a write reports no more bytes than it was given.
\<close>

definition clock_runs :: "'s Mbedtls \<Rightarrow> bool" where
  "clock_runs M \<longleftrightarrow>
     (\<forall>s. tv_ok (fst (tls_gettimeofday M s)) \<and> tls_clock M s < tls_clock M (snd (tls_gettimeofday M s))) \<and>
     (\<forall>bs s. tls_clock M s \<le> tls_clock M (snd (mbedtls_ssl_write M bs s))) \<and>
     (\<forall>k s. tls_clock M s \<le> tls_clock M (snd (mbedtls_ssl_read M k s)))"

definition honest_writes :: "'s Mbedtls \<Rightarrow> bool" where
  "honest_writes M \<longleftrightarrow> (\<forall>bs s. fst (mbedtls_ssl_write M bs s) \<le> int (length bs))"

text \<open>Microseconds until a timer runs out.\<close>

definition time_left :: "'s Mbedtls \<Rightarrow> Timer \<Rightarrow> 's \<Rightarrow> nat" where
  "time_left M T s = nat (usecs (end_time T) - tls_clock M s)"

text \<open>A library for examples: a clock that ticks once a second when read; one byte is taken at a time.\<close>

definition sim_tls :: "(int \<times> byte list) Mbedtls" where
  "sim_tls = \<lparr>
     tls_gettimeofday = (\<lambda>(c, out). (\<lparr>tv_sec = c, tv_usec = 0\<rparr>, (c + 1, out))),
     tls_contexts_init = (\<lambda>s. s), ctr_drbg_seed = (\<lambda>s. (0, s)), parse_cacert = (\<lambda>f s. (0, s)),
     parse_clicert = (\<lambda>f s. (0, s)), pk_parse_keyfile = (\<lambda>f s. (0, s)), mbedtls_net_connect = (\<lambda>h p s. (0, s)),
     net_set_block = (\<lambda>s. (0, s)), ssl_config_defaults = (\<lambda>s. (0, s)), ssl_conf_verify = (\<lambda>s. s),
     ssl_conf_authmode = (\<lambda>b s. s), ssl_conf_rng_ca = (\<lambda>s. s), ssl_conf_own_cert = (\<lambda>s. (0, s)),
     ssl_conf_read_timeout = (\<lambda>t s. s), ssl_setup = (\<lambda>s. (0, s)), ssl_set_hostname = (\<lambda>h s. (0, s)),
     ssl_set_bio = (\<lambda>s. s), ssl_handshake = (\<lambda>s. (0, s)), ssl_get_verify_result = (\<lambda>s. 0),
     mbedtls_ssl_write = (\<lambda>bs (c, out). (int (length (take 1 bs)), (c, out @ take 1 bs))),
     mbedtls_ssl_read = (\<lambda>k s. (Read_Data [7], s)),
     ssl_close_notify = (\<lambda>s. (0, s)), tls_contexts_free = (\<lambda>s. s)\<rparr>"

subsection \<open>The clock\<close>

text \<open>Every step of the wrapper moves the clock forward.\<close>

lemma clock_steps:
  assumes "clock_runs M"
  shows "tls_expired M T s = (x, s') \<Longrightarrow> tls_clock M s < tls_clock M s' \<and> (x \<longleftrightarrow> has_timer_expired (fst (tls_gettimeofday M s)) T)"
    and "tls_left_ms M T s = (v, s') \<Longrightarrow> tls_clock M s < tls_clock M s' \<and> v = left_ms (fst (tls_gettimeofday M s)) T"
    and "mbedtls_ssl_write M bs s = (r, s') \<Longrightarrow> tls_clock M s \<le> tls_clock M s'"
    and "mbedtls_ssl_read M k s = (d, s') \<Longrightarrow> tls_clock M s \<le> tls_clock M s'"
  using assms unfolding clock_runs_def tls_expired_def tls_left_ms_def
  by (auto split: prod.splits) (metis snd_conv)+

lemma stays_expired:
  assumes "clock_runs M" and "has_timer_expired (fst (tls_gettimeofday M s)) T" and "tls_clock M s \<le> tls_clock M s'"
  shows "has_timer_expired (fst (tls_gettimeofday M s')) T"
  using assms expired_later unfolding clock_runs_def tls_clock_def by blast

lemma time_left_step:
  assumes "clock_runs M" and "tv_ok (end_time T)"
  shows "tls_clock M s \<le> tls_clock M s' \<Longrightarrow> time_left M T s' \<le> time_left M T s"
    and "\<not> has_timer_expired (fst (tls_gettimeofday M s)) T \<Longrightarrow> tls_clock M s < tls_clock M s' \<Longrightarrow>
       time_left M T s' < time_left M T s"
  using assms expired_iff_usecs [OF _ assms(2)] unfolding clock_runs_def
  by (auto simp: time_left_def tls_clock_def)

subsection \<open>Writing\<close>

lemma write_inner_ends:
  assumes "clock_runs M" and "tv_ok (end_time T)"
  shows "time_left M T s < n \<Longrightarrow> ends (tls_write_inner n M msg T ret s) (\<lambda>(e, r, s'). tls_clock M s \<le> tls_clock M s')"
proof (induction n arbitrary: ret s)
  case (Suc n)
  obtain x s1 where x: "tls_expired M T s = (x, s1)" by fastforce
  note c1 = clock_steps(1) [OF assms(1) x]
  show ?case
  proof (cases x)
    case False
    obtain r s2 where w: "mbedtls_ssl_write M msg s1 = (r, s2)" by fastforce
    have c2: "tls_clock M s < tls_clock M s2" using c1 clock_steps(3) [OF assms(1) w] by simp
    have "time_left M T s2 < n" using Suc.prems time_left_step(2) [OF assms, of s s2] c1 c2 False by simp
    from Suc.IH [OF this, of r] show ?thesis using False c2 by (auto simp: x w elim!: ends_mono)
  qed (use c1 x in simp)
qed simp

lemma write_loop_ends:
  assumes "clock_runs M" and "tv_ok (end_time T)"
  shows "time_left M T s < n \<Longrightarrow> ends (tls_write_loop n M msg T k ret s) (\<lambda>r. True)"
proof (induction n arbitrary: k ret s)
  case (Suc n)
  obtain x s1 where x: "tls_expired M T s = (x, s1)" by fastforce
  note c1 = clock_steps(1) [OF assms(1) x]
  show ?case
  proof (cases x)
    case False
    then have l: "time_left M T s1 < n" using Suc.prems time_left_step(2) [OF assms, of s s1] c1 by simp
    have "time_left M T s2 < n" if "tls_clock M s1 \<le> tls_clock M s2" for s2
      using l time_left_step(1) [OF assms that] by simp
    then show ?thesis
      using False by (auto simp: x intro!: ends_mono [OF write_inner_ends [OF assms l]] Suc.IH)
  qed (use x in simp)
qed simp

text \<open>Either the bytes counted are exact, or the timer has run out.\<close>

lemma write_inner_post:
  assumes "clock_runs M" and "honest_writes M"
  shows "post (tls_write_inner n M msg T ret s) (\<lambda>(e, r, s'). tls_clock M s \<le> tls_clock M s' \<and>
     (e \<or> (0 < r \<and> r \<le> int (length msg)) \<or> has_timer_expired (fst (tls_gettimeofday M s')) T))"
proof (induction n arbitrary: ret s)
  case (Suc n)
  obtain x s1 where x: "tls_expired M T s = (x, s1)" by fastforce
  note c1 = clock_steps(1) [OF assms(1) x]
  obtain r s2 where w: "mbedtls_ssl_write M msg s1 = (r, s2)" by fastforce
  have c2: "tls_clock M s < tls_clock M s2" using c1 clock_steps(3) [OF assms(1) w] by simp
  have r: "r \<le> int (length msg)" using assms(2) w unfolding honest_writes_def by (metis fst_conv)
  show ?case
    using c1 c2 r stays_expired [OF assms(1), of s T s1]
    by (auto simp: x w intro!: post_mono [OF Suc.IH])
qed simp

lemma write_loop_post:
  fixes k :: size_t
  assumes "clock_runs M" and "honest_writes M" and "length msg < 2 ^ 64"
  shows "unat k \<le> length msg \<or> has_timer_expired (fst (tls_gettimeofday M s)) T \<Longrightarrow>
     post (tls_write_loop n M msg T k ret s) (\<lambda>(e, k', s').
       e \<or> unat k' = length msg \<or> has_timer_expired (fst (tls_gettimeofday M s')) T)"
proof (induction n arbitrary: k ret s)
  case (Suc n)
  obtain x s1 where x: "tls_expired M T s = (x, s1)" by fastforce
  note c1 = clock_steps(1) [OF assms(1) x]
  have late: "x \<Longrightarrow> has_timer_expired (fst (tls_gettimeofday M s1)) T"
    using c1 stays_expired [OF assms(1), of s T s1] by simp
  have add: "unat (k + of_int r) \<le> length msg"
    if "unat k < length msg" "0 < r" "r \<le> int (length (drop (unat k) msg))" for r
  proof -
    have "int (unat k) + r < 2 ^ 64" using that assms(3) by auto
    moreover have "nat r \<le> length (drop (unat k) msg)" using that(3) by (simp only: nat_le_iff)
    ultimately show ?thesis using size_t_add [of r k] that(1,2) by simp
  qed
  show ?case
  proof (cases "unat k < length msg")
    case True
    then show ?thesis
      using late
      by (auto simp: x intro!: post_mono [OF write_inner_post [OF assms(1,2)]] Suc.IH add)
  qed (use Suc.prems in auto)
qed simp

lemma write_post:
  assumes "clock_runs M" and "honest_writes M" and "length msg < 2 ^ 64"
  shows "post (iot_tls_write n junk M msg T s) (\<lambda>(rc, k, s'). rc = SUCCESS \<longrightarrow> k = length msg)"
proof -
  have "post (tls_write_loop n M msg T 0 junk s) (\<lambda>(e, k', s').
       e \<or> unat k' = length msg \<or> has_timer_expired (fst (tls_gettimeofday M s')) T)"
    by (rule write_loop_post [OF assms]) simp
  then show ?thesis
    unfolding iot_tls_write_def post_bnd
    by (rule post_mono) (auto split: prod.splits dest!: clock_steps(1) [OF assms(1)])
qed

subsection \<open>Reading\<close>

lemma length_overlay: "length new \<le> n \<Longrightarrow> length old \<le> n \<Longrightarrow> length (overlay new old) \<le> n"
  by (simp add: overlay_def)

lemma read_loop_ends:
  assumes "clock_runs M" and "tv_ok (end_time T)"
  shows "time_left M T s < n \<Longrightarrow> ends (tls_read_loop n M len T k mem s) (\<lambda>r. True)"
proof (induction n arbitrary: k mem s)
  case (Suc n)
  obtain d s1 where d: "mbedtls_ssl_read M len s = (d, s1)" by fastforce
  obtain v s2 where v: "tls_left_ms M T s1 = (v, s2)" by fastforce
  note c = clock_steps(4) [OF assms(1) d] clock_steps(2) [OF assms(1) v]
  have "time_left M T s2 < n" if "0 < v"
  proof -
    have "\<not> has_timer_expired (fst (tls_gettimeofday M s1)) T"
      using left_ms_pending [OF _ assms(2)] c that assms(1) by (auto simp: clock_runs_def)
    then have "time_left M T s2 < time_left M T s1" using time_left_step(2) [OF assms] c by simp
    then show ?thesis using time_left_step(1) [OF assms, of s s1] c Suc.prems by simp
  qed
  then show ?case by (auto simp: d v Let_def Suc.IH split: ssl_read_result.splits)
qed simp

lemma read_loop_post:
  "length mem \<le> min len k \<Longrightarrow> post (tls_read_loop n M len T k mem s) (\<lambda>(e, full, k', mem', s').
     length mem' \<le> len \<and> length mem' \<le> k' \<and> (full \<longleftrightarrow> len \<le> k'))"
proof (induction n arbitrary: k mem s)
  case (Suc n)
  have "length (overlay (take len d) mem) \<le> len" "length (overlay d mem) \<le> k + length d"
    "length (overlay (take len d) mem) \<le> k + min (length d) len" for d
    using Suc.prems by (auto intro!: length_overlay)
  then show ?case
    using Suc.prems by (auto simp: Let_def split: prod.splits ssl_read_result.splits intro!: Suc.IH)
qed simp

lemma read_post:
  "post (iot_tls_read n M len T s) (\<lambda>(rc, mem, k, s').
     rc \<in> {SUCCESS, NETWORK_SSL_NOTHING_TO_READ, NETWORK_SSL_READ_TIMEOUT_ERROR} \<and> length mem \<le> len \<and> length mem \<le> k \<and>
     (rc = NETWORK_SSL_NOTHING_TO_READ \<longrightarrow> k = 0 \<and> mem = []) \<and> (rc = NETWORK_SSL_READ_TIMEOUT_ERROR \<longrightarrow> k < len))"
  unfolding iot_tls_read_def
  by (auto split: prod.splits intro!: post_mono [OF read_loop_post])

subsection \<open>Connecting\<close>

lemma handshake_post:
  "post (tls_handshake_loop n M s) (\<lambda>(ret, s'). ret = 0 \<longrightarrow> (\<exists>s1. ssl_handshake M s1 = (0, s')))"
  by (induction n arbitrary: s) (auto split: prod.splits)

lemma tls_connect_post:
  "post (iot_tls_connect n M net p s) (\<lambda>(rc, net', s'). rc = SUCCESS \<longrightarrow>
     (\<exists>s1 s2. ssl_handshake M s1 = (0, s2) \<and> s' = ssl_conf_read_timeout M IOT_SSL_READ_TIMEOUT s2 \<and>
       (tls_ServerVerificationFlag (tlsConnectParams net') \<longrightarrow> ssl_get_verify_result M s2 = 0)))"
  unfolding iot_tls_connect_def tls_net_connect_error_def
  by (auto simp: Let_def split: prod.splits intro!: post_mono [OF handshake_post])

lemma sim_tls_laws: "clock_runs sim_tls" "honest_writes sim_tls"
  by (auto simp: clock_runs_def honest_writes_def sim_tls_def tls_clock_def tv_ok_def usecs_def)

subsection \<open>Properties\<close>

text \<open>
  C34. TLS connection: it is reported as established only if a handshake of the library has returned 0
  and, when server verification is asked for, the library's verification result after that handshake
  is 0 (no certificate problem); the read time-out is then set to the short one.
\<close>

theorem tls_connect_verified:
  "post (iot_tls_connect n M net p s) (\<lambda>(rc, net', s'). rc = SUCCESS \<longrightarrow>
     (\<exists>s1 s2. ssl_handshake M s1 = (0, s2) \<and> s' = ssl_conf_read_timeout M IOT_SSL_READ_TIMEOUT s2 \<and>
       (tls_ServerVerificationFlag (tlsConnectParams net') \<longrightarrow> ssl_get_verify_result M s2 = 0)))"
  by (rule tls_connect_post)

theorem tls_connect_verified_witness:
  "post (iot_tls_connect 1 sim_tls \<lparr>tlsConnectParams = \<lparr>tls_pRootCALocation = None, tls_pDeviceCertLocation = None,
        tls_pDevicePrivateKeyLocation = None, tls_pDestinationURL = None, tls_DestinationPort = 0,
        tls_timeout_ms = 0, tls_ServerVerificationFlag = True\<rparr>, tls_flags = 0\<rparr> None (0, [])) (\<lambda>(rc, net', s'). rc = SUCCESS \<longrightarrow>
     (\<exists>s1 s2. ssl_handshake sim_tls s1 = (0, s2) \<and> s' = ssl_conf_read_timeout sim_tls IOT_SSL_READ_TIMEOUT s2 \<and>
       (tls_ServerVerificationFlag (tlsConnectParams net') \<longrightarrow> ssl_get_verify_result sim_tls s2 = 0)))"
  by (rule tls_connect_verified)

text \<open>
  TLS write: with a clock that advances and a library that reports no more bytes than it was
  given, the write loop ends within as many turns as there are microseconds left on the timer; it
  returns one of three codes and reports success only with the full number of bytes.
\<close>

theorem tls_write_contract:
  assumes "clock_runs M" and "honest_writes M" and "tv_ok (end_time T)" and "length msg < 2 ^ 64"
    and "time_left M T s < n"
  shows "\<exists>rc k s'. iot_tls_write n junk M msg T s = Done (rc, k, s') \<and>
     rc \<in> {SUCCESS, NETWORK_SSL_WRITE_ERROR, NETWORK_SSL_WRITE_TIMEOUT_ERROR} \<and> (rc = SUCCESS \<longrightarrow> k = length msg)"
proof -
  have "ends (iot_tls_write n junk M msg T s)
      (\<lambda>(rc, k, s'). rc \<in> {SUCCESS, NETWORK_SSL_WRITE_ERROR, NETWORK_SSL_WRITE_TIMEOUT_ERROR})"
    unfolding iot_tls_write_def ends_simps
    by (rule ends_mono [OF write_loop_ends [OF assms(1,3,5)]]) (auto split: prod.splits)
  with write_post [OF assms(1,2,4), of n junk T s] show ?thesis
    by (auto simp: ends_def)
qed

theorem tls_write_contract_witness:
  "\<exists>rc k s'. iot_tls_write 3000001 0 sim_tls [1, 2] \<lparr>end_time = \<lparr>tv_sec = 3, tv_usec = 0\<rparr>\<rparr> (0, []) = Done (rc, k, s') \<and>
     rc \<in> {SUCCESS, NETWORK_SSL_WRITE_ERROR, NETWORK_SSL_WRITE_TIMEOUT_ERROR} \<and> (rc = SUCCESS \<longrightarrow> k = length [1, 2 :: byte])"
  by (rule tls_write_contract [OF sim_tls_laws])
    (simp_all add: tv_ok_def time_left_def tls_clock_def sim_tls_def usecs_def)

text \<open>
  The byte count of a TLS write is not evidence that the bytes were taken: when the timer runs out
  between the two tests of one round, the count of the round before is added once more. With a library
  that takes one byte per call, writing two bytes succeeds with count 2 although only the first byte
  was handed over.
\<close>

theorem tls_write_counts_stale_bytes:
  "clock_runs sim_tls \<and> honest_writes sim_tls \<and>
   iot_tls_write 9 0 sim_tls [1, 2] \<lparr>end_time = \<lparr>tv_sec = 3, tv_usec = 0\<rparr>\<rparr> (0, []) = Done (SUCCESS, 2, (5, [1]))"
proof -
  let ?T = "\<lparr>end_time = \<lparr>tv_sec = 3, tv_usec = 0\<rparr>\<rparr>"
  have nine: "(9 :: nat) = Suc (Suc (Suc (Suc (Suc (Suc (Suc (Suc (Suc 0))))))))" by simp
  have x: "tls_expired sim_tls ?T (c, out) = (3 \<le> c, (c + 1, out))" for c out
    by (auto simp: tls_expired_def sim_tls_def has_timer_expired_def timersub_def)
  have w: "mbedtls_ssl_write sim_tls (b # bs) (c, out) = (1, (c, out @ [b]))" for b bs c out
    by (simp add: sim_tls_def)
  have "iot_tls_write 9 0 sim_tls [1, 2] ?T (0, []) = Done (SUCCESS, 2, (5, [1]))"
    unfolding iot_tls_write_def nine by (simp add: x w)
  then show ?thesis using sim_tls_laws by blast
qed

text \<open>
  TLS read: with a clock that advances the loop ends within as many turns as there are microseconds
  left on the timer. It never stores more than the bytes asked for, reports "nothing to read" only
  when it stored nothing, and the time-out only when fewer bytes than asked for have arrived.
\<close>

theorem tls_read_contract:
  assumes "clock_runs M" and "tv_ok (end_time T)" and "time_left M T s < n"
  shows "\<exists>rc mem k s'. iot_tls_read n M len T s = Done (rc, mem, k, s') \<and>
     rc \<in> {SUCCESS, NETWORK_SSL_NOTHING_TO_READ, NETWORK_SSL_READ_TIMEOUT_ERROR} \<and> length mem \<le> len \<and> length mem \<le> k \<and>
     (rc = NETWORK_SSL_NOTHING_TO_READ \<longrightarrow> k = 0 \<and> mem = []) \<and> (rc = NETWORK_SSL_READ_TIMEOUT_ERROR \<longrightarrow> k < len)"
proof -
  obtain v s1 where v: "tls_left_ms M T s = (v, s1)" by fastforce
  have "time_left M T s1 < n"
    using clock_steps(2) [OF assms(1) v] time_left_step(1) [OF assms(1,2), of s s1] assms(3) by simp
  from read_loop_ends [OF assms(1,2) this, of len 0 "[]"]
  have "ends (iot_tls_read n M len T s) (\<lambda>r. True)"
    by (auto simp: iot_tls_read_def v split: prod.splits elim!: ends_mono)
  with read_post [of n M len T s] show ?thesis by (auto simp: ends_def)
qed

theorem tls_read_contract_witness:
  "\<exists>rc mem k s'. iot_tls_read 3000001 sim_tls 2 \<lparr>end_time = \<lparr>tv_sec = 3, tv_usec = 0\<rparr>\<rparr> (0, []) = Done (rc, mem, k, s') \<and>
     rc \<in> {SUCCESS, NETWORK_SSL_NOTHING_TO_READ, NETWORK_SSL_READ_TIMEOUT_ERROR} \<and> length mem \<le> 2 \<and> length mem \<le> k \<and>
     (rc = NETWORK_SSL_NOTHING_TO_READ \<longrightarrow> k = 0 \<and> mem = []) \<and> (rc = NETWORK_SSL_READ_TIMEOUT_ERROR \<longrightarrow> k < 2)"
  by (rule tls_read_contract [OF sim_tls_laws(1)])
    (simp_all add: tv_ok_def time_left_def tls_clock_def sim_tls_def usecs_def)

end
