(* ===== verification/Mqtt_Client.thy ===== *)
theory Mqtt_Client
  imports Mqtt_Serialize Topic_Match Network_Mbedtls
begin

text \<open>
  The client object and its accessors (src/aws_iot_mqtt_client.c), the environment the client runs
  in, and the client invariant.

  The environment is a record of functions on an abstract world \<open>'w\<close>: the clock, the function
  pointers of \<open>Network\<close> and the application's callbacks. \<open>net_read len\<close> returns the code, the bytes
  it stored at the destination and \<open>*read_len\<close>; \<open>net_write\<close> gets the bytes its pointer and length
  denote and returns \<open>*written_len\<close>. \<open>uninit_byte\<close> is what an uninitialised local holds. A callback gets the client and may change it. The topic and the
  payload of a received message are positions in \<open>readBuf\<close>, which callbacks may overwrite.
  A pointer to a client is never NULL here; the NULL checks are in \<open>api_call\<close> (theory \<open>Mqtt_Api\<close>).
\<close>

record 'w Env =
  gettimeofday :: "'w \<Rightarrow> timeval \<times> 'w"
  net_connect :: "Network \<Rightarrow> TLSConnectParams option \<Rightarrow> 'w \<Rightarrow> (IoT_Error_t \<times> Network \<times> 'w) run"
  net_read :: "nat \<Rightarrow> Timer \<Rightarrow> 'w \<Rightarrow> (IoT_Error_t \<times> byte list \<times> nat \<times> 'w) run"
  net_write :: "byte list \<Rightarrow> Timer \<Rightarrow> 'w \<Rightarrow> (IoT_Error_t \<times> nat \<times> 'w) run"
  net_disconnect :: "'w \<Rightarrow> (IoT_Error_t \<times> 'w) run"
  net_isConnected :: "('w \<Rightarrow> IoT_Error_t \<times> 'w) option"
  net_destroy :: "'w \<Rightarrow> (IoT_Error_t \<times> 'w) run"
  app_handler :: "nat \<Rightarrow> AWS_IoT_Client \<Rightarrow> nat \<Rightarrow> u16 \<Rightarrow> Rx_Message \<Rightarrow> nat option \<Rightarrow> 'w
                    \<Rightarrow> (AWS_IoT_Client \<times> Rx_Message \<times> 'w) run"
  disc_handler :: "nat \<Rightarrow> AWS_IoT_Client \<Rightarrow> nat option \<Rightarrow> 'w \<Rightarrow> (AWS_IoT_Client \<times> 'w) run"
  uninit_byte :: byte

type_synonym 'w outcome = "(IoT_Error_t \<times> AWS_IoT_Client \<times> 'w) run"

subsection \<open>Accessors\<close>

definition aws_iot_mqtt_get_client_state :: "AWS_IoT_Client \<Rightarrow> ClientState" where
  "aws_iot_mqtt_get_client_state pClient = clientState pClient"

definition aws_iot_mqtt_set_client_state ::
    "AWS_IoT_Client \<Rightarrow> ClientState \<Rightarrow> ClientState \<Rightarrow> IoT_Error_t \<times> AWS_IoT_Client" where
  "aws_iot_mqtt_set_client_state pClient expectedCurrentState newState =
     (if expectedCurrentState = aws_iot_mqtt_get_client_state pClient
      then (SUCCESS, pClient\<lparr>clientState := newState\<rparr>)
      else (MQTT_UNEXPECTED_CLIENT_STATE_ERROR, pClient))"

definition aws_iot_mqtt_set_connect_params ::
    "AWS_IoT_Client \<Rightarrow> IoT_Client_Connect_Params option \<Rightarrow> IoT_Error_t \<times> AWS_IoT_Client" where
  "aws_iot_mqtt_set_connect_params pClient pNewConnectParams =
     (case pNewConnectParams of None \<Rightarrow> (NULL_VALUE_ERROR, pClient)
      | Some new \<Rightarrow> (SUCCESS, pClient\<lparr>options := (options pClient)
          \<lparr>isWillMsgPresent := isWillMsgPresent new,
           MQTTVersion := MQTTVersion new,
           pClientID := pClientID new,
           clientIDLen := clientIDLen new,
           pUsername := pUsername new,
           usernameLen := usernameLen new,
           pPassword := pUsername new,
           passwordLen := passwordLen new,
           will := (will (options pClient))
             \<lparr>will_pTopicName := will_pTopicName (will new),
              will_topicNameLen := will_topicNameLen (will new),
              will_pMessage := will_pMessage (will new),
              will_msgLen := will_msgLen (will new),
              will_qos := will_qos (will new),
              will_isRetained := will_isRetained (will new)\<rparr>,
           keepAliveIntervalInSec := keepAliveIntervalInSec new,
           isCleanSession := isCleanSession new\<rparr>\<rparr>))"

definition aws_iot_mqtt_init ::
    "AWS_IoT_Client \<Rightarrow> IoT_Client_Init_Params option \<Rightarrow> IoT_Error_t \<times> AWS_IoT_Client" where
  "aws_iot_mqtt_init pClient pInitParams =
     (case pInitParams of None \<Rightarrow> (NULL_VALUE_ERROR, pClient) | Some ip \<Rightarrow>
      if pHostURL ip = None \<or> port ip = 0 \<or> pRootCALocation ip = None \<or> pDevicePrivateKeyLocation ip = None
         \<or> pDeviceCertLocation ip = None
      then (NULL_VALUE_ERROR, pClient)
      else
      let c = pClient
           \<lparr>messageHandlers := map (\<lambda>h. h\<lparr>topicName := None, pApplicationHandler := None,
              pApplicationHandlerData := None, mh_qos := QOS0\<rparr>) (messageHandlers pClient),
            commandTimeoutMs := mqttCommandTimeout_ms ip,
            writeBufSize := AWS_IOT_MQTT_TX_BUF_LEN,
            readBufSize := AWS_IOT_MQTT_RX_BUF_LEN,
            counterNetworkDisconnected := 0,
            disconnectHandler := init_disconnectHandler ip,
            disconnectHandlerData := init_disconnectHandlerData ip,
            nextPacketId := 1\<rparr>;
          (rc, c) = aws_iot_mqtt_set_connect_params c (Some iotClientConnectParamsDefault)
      in if rc \<noteq> SUCCESS then (rc, c)
      else
      let c = c\<lparr>isPingOutstanding := False, isAutoReconnectEnabled := enableAutoReconnect ip\<rparr>;
          (rc, net) = iot_tls_init (pRootCALocation ip) (pDeviceCertLocation ip) (pDevicePrivateKeyLocation ip)
             (pHostURL ip) (port ip) (tlsHandshakeTimeout_ms ip) (isSSLHostnameVerify ip) (networkStack c);
          c = c\<lparr>networkStack := net\<rparr>
      in if rc \<noteq> SUCCESS then (rc, c\<lparr>clientState := CLIENT_STATE_INVALID\<rparr>)
      else (SUCCESS, c\<lparr>pingTimer := init_timer, reconnectDelayTimer := init_timer,
                       clientState := CLIENT_STATE_INITIALIZED\<rparr>))"

definition aws_iot_mqtt_get_next_packet_id :: "AWS_IoT_Client \<Rightarrow> u16 \<times> AWS_IoT_Client" where
  "aws_iot_mqtt_get_next_packet_id pClient =
     (let i = (if nextPacketId pClient = MAX_PACKET_ID then 1 else nextPacketId pClient + 1)
      in (i, pClient\<lparr>nextPacketId := i\<rparr>))"

fun connected_state :: "ClientState \<Rightarrow> bool" where
  "connected_state CLIENT_STATE_CONNECTED_IDLE = True"
| "connected_state CLIENT_STATE_CONNECTED_YIELD_IN_PROGRESS = True"
| "connected_state CLIENT_STATE_CONNECTED_PUBLISH_IN_PROGRESS = True"
| "connected_state CLIENT_STATE_CONNECTED_SUBSCRIBE_IN_PROGRESS = True"
| "connected_state CLIENT_STATE_CONNECTED_UNSUBSCRIBE_IN_PROGRESS = True"
| "connected_state CLIENT_STATE_CONNECTED_RESUBSCRIBE_IN_PROGRESS = True"
| "connected_state CLIENT_STATE_CONNECTED_WAIT_FOR_CB_RETURN = True"
| "connected_state _ = False"

definition aws_iot_mqtt_is_client_connected :: "AWS_IoT_Client \<Rightarrow> bool" where
  "aws_iot_mqtt_is_client_connected pClient = connected_state (clientState pClient)"

definition aws_iot_is_autoreconnect_enabled :: "AWS_IoT_Client \<Rightarrow> bool" where
  "aws_iot_is_autoreconnect_enabled pClient = isAutoReconnectEnabled pClient"

definition aws_iot_mqtt_autoreconnect_set_status :: "AWS_IoT_Client \<Rightarrow> bool \<Rightarrow> IoT_Error_t \<times> AWS_IoT_Client" where
  "aws_iot_mqtt_autoreconnect_set_status pClient newStatus =
     (SUCCESS, pClient\<lparr>isAutoReconnectEnabled := newStatus\<rparr>)"

definition aws_iot_mqtt_set_disconnect_handler ::
    "AWS_IoT_Client \<Rightarrow> nat option \<Rightarrow> nat option \<Rightarrow> IoT_Error_t \<times> AWS_IoT_Client" where
  "aws_iot_mqtt_set_disconnect_handler pClient pDisconnectHandler pDisconnectHandlerData =
     (if pDisconnectHandler = None then (NULL_VALUE_ERROR, pClient)
      else (SUCCESS, pClient\<lparr>disconnectHandler := pDisconnectHandler,
                             disconnectHandlerData := pDisconnectHandlerData\<rparr>))"

definition aws_iot_mqtt_get_network_disconnected_count :: "AWS_IoT_Client \<Rightarrow> u32" where
  "aws_iot_mqtt_get_network_disconnected_count pClient = counterNetworkDisconnected pClient"

definition aws_iot_mqtt_reset_network_disconnected_count :: "AWS_IoT_Client \<Rightarrow> AWS_IoT_Client" where
  "aws_iot_mqtt_reset_network_disconnected_count pClient = pClient\<lparr>counterNetworkDisconnected := 0\<rparr>"

subsection \<open>Time\<close>

definition timer_expired :: "'w Env \<Rightarrow> Timer \<Rightarrow> 'w \<Rightarrow> bool \<times> 'w" where
  "timer_expired E t w = (case gettimeofday E w of (now, w) \<Rightarrow> (has_timer_expired now t, w))"

definition start_ms :: "'w Env \<Rightarrow> u32 \<Rightarrow> 'w \<Rightarrow> Timer \<times> 'w" where
  "start_ms E ms w = (case gettimeofday E w of (now, w) \<Rightarrow> (countdown_ms now ms, w))"

definition start_sec :: "'w Env \<Rightarrow> u32 \<Rightarrow> 'w \<Rightarrow> Timer \<times> 'w" where
  "start_sec E s w = (case gettimeofday E w of (now, w) \<Rightarrow> (countdown_sec now s, w))"

subsection \<open>Specification vocabulary\<close>

text \<open>The client invariant: buffers of the configured sizes, a full handler table, usable topics.\<close>

definition handler_ok :: "MessageHandlers \<Rightarrow> bool" where
  "handler_ok h = (case topicName h of None \<Rightarrow> True | Some t \<Rightarrow> unat (topicNameLen h) \<le> length t)"

definition wf_client :: "AWS_IoT_Client \<Rightarrow> bool" where
  "wf_client c \<longleftrightarrow>
     writeBufSize c = AWS_IOT_MQTT_TX_BUF_LEN \<and> length (writeBuf c) = AWS_IOT_MQTT_TX_BUF_LEN \<and>
     readBufSize c = AWS_IOT_MQTT_RX_BUF_LEN \<and> length (readBuf c) = AWS_IOT_MQTT_RX_BUF_LEN \<and>
     length (messageHandlers c) = AWS_IOT_MQTT_NUM_SUBSCRIBE_HANDLERS \<and> nextPacketId c \<noteq> 0 \<and>
     list_all handler_ok (messageHandlers c)"

text \<open>What an application callback may be relied on to keep.\<close>

definition callbacks_keep :: "'w Env \<Rightarrow> (AWS_IoT_Client \<Rightarrow> AWS_IoT_Client \<Rightarrow> bool) \<Rightarrow> bool" where
  "callbacks_keep E R \<longleftrightarrow>
     (\<forall>f c topic len msg d w c' msg' w'. app_handler E f c topic len msg d w = Done (c', msg', w') \<longrightarrow> R c c')"

definition keeps_wf :: "AWS_IoT_Client \<Rightarrow> AWS_IoT_Client \<Rightarrow> bool" where
  "keeps_wf c c' \<longleftrightarrow> (wf_client c \<longrightarrow> wf_client c')"

definition keeps_state :: "AWS_IoT_Client \<Rightarrow> AWS_IoT_Client \<Rightarrow> bool" where
  "keeps_state c c' \<longleftrightarrow> clientState c' = clientState c"

definition keeps_table :: "AWS_IoT_Client \<Rightarrow> AWS_IoT_Client \<Rightarrow> bool" where
  "keeps_table c c' \<longleftrightarrow> messageHandlers c' = messageHandlers c"

text \<open>Callbacks that leave the handler table and the receive buffer alone.\<close>

definition keeps_rx :: "AWS_IoT_Client \<Rightarrow> AWS_IoT_Client \<Rightarrow> bool" where
  "keeps_rx c c' \<longleftrightarrow> messageHandlers c' = messageHandlers c \<and> readBuf c' = readBuf c"

text \<open>An in-memory environment: bytes to receive, bytes sent, a clock that ticks at every reading.\<close>

record Sim =
  sim_in :: "byte list"
  sim_out :: "byte list"
  sim_clock :: int
  sim_calls :: "nat list"

definition sim_env :: "Sim Env" where
  "sim_env = \<lparr>
     gettimeofday = (\<lambda>w. (\<lparr>tv_sec = sim_clock w, tv_usec = 0\<rparr>, w\<lparr>sim_clock := sim_clock w + 1\<rparr>)),
     net_connect = (\<lambda>net p w. Done (SUCCESS, net, w)),
     net_read = (\<lambda>len T w. if length (sim_in w) < len then Done (NETWORK_SSL_NOTHING_TO_READ, [], 0, w)
        else Done (SUCCESS, take len (sim_in w), len, w\<lparr>sim_in := drop len (sim_in w)\<rparr>)),
     net_write = (\<lambda>bs T w. Done (SUCCESS, length bs, w\<lparr>sim_out := sim_out w @ bs\<rparr>)),
     net_disconnect = (\<lambda>w. Done (SUCCESS, w)),
     net_isConnected = Some (\<lambda>w. (NETWORK_PHYSICAL_LAYER_CONNECTED, w)),
     net_destroy = (\<lambda>w. Done (SUCCESS, w)),
     app_handler = (\<lambda>f c topic len msg d w. Done (c, msg, w\<lparr>sim_calls := sim_calls w @ [f]\<rparr>)),
     disc_handler = (\<lambda>f c d w. Done (c, w)),
     uninit_byte = 0\<rparr>"

definition sim_client :: AWS_IoT_Client where
  "sim_client = \<lparr>pingTimer = init_timer, reconnectDelayTimer = init_timer,
     clientState = CLIENT_STATE_CONNECTED_IDLE, isPingOutstanding = False, isAutoReconnectEnabled = True,
     nextPacketId = 1, commandTimeoutMs = 20000, keepAliveInterval = 60, currentReconnectWaitInterval = 0,
     counterNetworkDisconnected = 0, writeBufSize = 512, readBufSize = 512,
     writeBuf = replicate 512 0, readBuf = replicate 512 0, options = iotClientConnectParamsDefault,
     messageHandlers = replicate 5 \<lparr>topicName = None, topicNameLen = 0, mh_qos = 0, pApplicationHandler = None,
        pApplicationHandlerData = None\<rparr>,
     disconnectHandler = None, disconnectHandlerData = None,
     networkStack = \<lparr>tlsConnectParams = \<lparr>tls_pRootCALocation = None, tls_pDeviceCertLocation = None,
        tls_pDevicePrivateKeyLocation = None, tls_pDestinationURL = None, tls_DestinationPort = 0,
        tls_timeout_ms = 0, tls_ServerVerificationFlag = True\<rparr>, tls_flags = 0\<rparr>\<rparr>"

definition callbacks_keep_msg :: "'w Env \<Rightarrow> bool" where
  "callbacks_keep_msg E \<longleftrightarrow>
     (\<forall>f c topic len msg d w c' msg' w'. app_handler E f c topic len msg d w = Done (c', msg', w') \<longrightarrow> msg' = msg)"

subsection \<open>Lemmas\<close>

lemma callbacks_keepD:
  "callbacks_keep E R \<Longrightarrow> app_handler E f c topic len msg d w = Done (c', msg', w') \<Longrightarrow> R c c'"
  unfolding callbacks_keep_def by blast

lemma wf_client_update:
  "wf_client c \<Longrightarrow> length b = length (readBuf c) \<Longrightarrow> wf_client (c\<lparr>readBuf := b\<rparr>)"
  "wf_client c \<Longrightarrow> length b = length (writeBuf c) \<Longrightarrow> wf_client (c\<lparr>writeBuf := b\<rparr>)"
  "wf_client (c\<lparr>isPingOutstanding := p\<rparr>) = wf_client c"
  "wf_client (c\<lparr>pingTimer := t\<rparr>) = wf_client c"
  "wf_client (c\<lparr>clientState := s\<rparr>) = wf_client c"
  by (simp_all add: wf_client_def)

lemma next_packet_id_pos: "fst (aws_iot_mqtt_get_next_packet_id c) \<noteq> 0"
proof -
  have "MAX_PACKET_ID = - 1" by (simp add: MAX_PACKET_ID_def)
  moreover have "i + 1 = 0 \<longleftrightarrow> i = - 1" for i :: u16 by (metis eq_neg_iff_add_eq_0)
  ultimately show ?thesis by (simp add: aws_iot_mqtt_get_next_packet_id_def Let_def)
qed

lemma sim_client_wf: "wf_client sim_client"
  by (simp add: wf_client_def sim_client_def config_defs list_all_iff handler_ok_def)

lemma sim_env_sel [simp]:
  "gettimeofday sim_env w = (\<lparr>tv_sec = sim_clock w, tv_usec = 0\<rparr>, w\<lparr>sim_clock := sim_clock w + 1\<rparr>)"
  "net_connect sim_env net p w = Done (SUCCESS, net, w)"
  "net_read sim_env len T w = (if length (sim_in w) < len then Done (NETWORK_SSL_NOTHING_TO_READ, [], 0, w)
     else Done (SUCCESS, take len (sim_in w), len, w\<lparr>sim_in := drop len (sim_in w)\<rparr>))"
  "net_write sim_env bs T w = Done (SUCCESS, length bs, w\<lparr>sim_out := sim_out w @ bs\<rparr>)"
  "net_disconnect sim_env w = Done (SUCCESS, w)" "net_destroy sim_env w = Done (SUCCESS, w)"
  "net_isConnected sim_env = Some (\<lambda>w. (NETWORK_PHYSICAL_LAYER_CONNECTED, w))"
  "app_handler sim_env f c topic tlen msg d w = Done (c, msg, w\<lparr>sim_calls := sim_calls w @ [f]\<rparr>)"
  "disc_handler sim_env f c d' w = Done (c, w)" "uninit_byte sim_env = 0"
  by (simp_all add: sim_env_def)

lemma sim_client_sel [simp]:
  "clientState sim_client = CLIENT_STATE_CONNECTED_IDLE" "isPingOutstanding sim_client = False"
  "isAutoReconnectEnabled sim_client = True" "nextPacketId sim_client = 1" "commandTimeoutMs sim_client = 20000"
  "keepAliveInterval sim_client = 60" "writeBufSize sim_client = 512" "readBufSize sim_client = 512"
  "writeBuf sim_client = replicate 512 0" "readBuf sim_client = replicate 512 0"
  "options sim_client = iotClientConnectParamsDefault" "pingTimer sim_client = init_timer"
  "messageHandlers sim_client = replicate 5 \<lparr>topicName = None, topicNameLen = 0, mh_qos = 0,
     pApplicationHandler = None, pApplicationHandlerData = None\<rparr>"
  "disconnectHandler sim_client = None" "currentReconnectWaitInterval sim_client = 0"
  by (simp_all add: sim_client_def)

subsection \<open>Properties\<close>

text \<open>
  Packet identifiers: starting from an identifier that is not 0, the identifiers run through
  1, 2, ..., 65535 cyclically, so none of them is 0 and 65535 successive ones are distinct.
\<close>

theorem packet_ids_cyclic:
  fixes c :: AWS_IoT_Client
  assumes "nextPacketId c \<noteq> 0"
  defines "step \<equiv> \<lambda>c. snd (aws_iot_mqtt_get_next_packet_id c)"
  shows "unat (nextPacketId ((step ^^ n) c)) = (unat (nextPacketId c) - 1 + n) mod 65535 + 1"
proof (induction n)
  case 0
  have "unat (nextPacketId c) \<le> 65535" using unat_u16_less [of "nextPacketId c"] by simp
  moreover have "0 < unat (nextPacketId c)" using assms(1) by (simp add: unat_gt_0)
  ultimately show ?case by simp
next
  case (Suc n)
  let ?i = "nextPacketId ((step ^^ n) c)" and ?k = "unat (nextPacketId c) - 1 + n"
  have s: "nextPacketId ((step ^^ Suc n) c) = (if ?i = MAX_PACKET_ID then 1 else ?i + 1)"
    by (simp add: step_def aws_iot_mqtt_get_next_packet_id_def Let_def)
  have max: "?i = MAX_PACKET_ID \<longleftrightarrow> ?k mod 65535 = 65534"
    using Suc by (simp add: word_unat_eq_iff MAX_PACKET_ID_def)
  show ?case
  proof (cases "?k mod 65535 = 65534")
    case True
    then have "Suc ?k mod 65535 = 0" by (simp add: mod_Suc)
    with True show ?thesis using max unfolding s by simp
  next
    case False
    then have "Suc ?k mod 65535 = Suc (?k mod 65535)" "?k mod 65535 < 65534"
      using mod_less_divisor [of 65535 ?k] by (simp_all add: mod_Suc)
    with False Suc max show ?thesis unfolding s by (simp add: unat_word_ariths)
  qed
qed

theorem packet_ids_cyclic_witness:
  "unat (nextPacketId (((\<lambda>c. snd (aws_iot_mqtt_get_next_packet_id c)) ^^ 65535) sim_client)) = 1"
  using packet_ids_cyclic [of sim_client 65535] by simp

text \<open>
  Initialisation either refuses incomplete parameters with the client unchanged, or succeeds with
  the client in the initialised state, satisfying the invariant whenever its arrays have their
  declared sizes, with no subscription, no ping outstanding, default connection options, and the
  network set to the addresses given.
\<close>

theorem init_establishes:
  assumes "length (writeBuf c) = AWS_IOT_MQTT_TX_BUF_LEN" and "length (readBuf c) = AWS_IOT_MQTT_RX_BUF_LEN"
    and "length (messageHandlers c) = AWS_IOT_MQTT_NUM_SUBSCRIBE_HANDLERS"
  shows "case aws_iot_mqtt_init c p of (rc, c') \<Rightarrow>
     (case p of None \<Rightarrow> rc = NULL_VALUE_ERROR \<and> c' = c
      | Some ip \<Rightarrow>
        if pHostURL ip = None \<or> port ip = 0 \<or> pRootCALocation ip = None \<or> pDevicePrivateKeyLocation ip = None
           \<or> pDeviceCertLocation ip = None
        then rc = NULL_VALUE_ERROR \<and> c' = c
        else rc = SUCCESS \<and> wf_client c' \<and> clientState c' = CLIENT_STATE_INITIALIZED
          \<and> (\<forall>h \<in> set (messageHandlers c'). topicName h = None) \<and> \<not> isPingOutstanding c'
          \<and> options c' = iotClientConnectParamsDefault
          \<and> tls_pDestinationURL (tlsConnectParams (networkStack c')) = pHostURL ip)"
proof (cases p)
  case None
  then show ?thesis by (simp add: aws_iot_mqtt_init_def)
next
  case (Some ip)
  show ?thesis
    using assms unfolding Some aws_iot_mqtt_init_def
    by (auto simp: Let_def aws_iot_mqtt_set_connect_params_def iot_tls_init_def iot_tls_set_connect_params_def
        wf_client_def list_all_iff handler_ok_def iotClientConnectParamsDefault_def iotMqttWillOptionsDefault_def)
qed

theorem init_establishes_witness:
  "clientState (snd (aws_iot_mqtt_init sim_client (Some (iotClientInitParamsDefault
     \<lparr>pHostURL := Some [104], port := 8883, pRootCALocation := Some [97], pDeviceCertLocation := Some [98],
      pDevicePrivateKeyLocation := Some [99]\<rparr>)))) = CLIENT_STATE_INITIALIZED"
  using init_establishes [of sim_client "Some (iotClientInitParamsDefault
     \<lparr>pHostURL := Some [104], port := 8883, pRootCALocation := Some [97], pDeviceCertLocation := Some [98],
      pDevicePrivateKeyLocation := Some [99]\<rparr>)"]
  by (simp add: config_defs iotClientInitParamsDefault_def split: prod.splits)

end
