(* ===== verification/Mqtt_Transport.thy ===== *)
theory Mqtt_Transport
  imports Mqtt_Client
begin

unbundle bit_operations_syntax

text \<open>
  The packet transport of src/aws_iot_mqtt_client_common_internal.c: sending a packet, reading one,
  delivering a received message to the subscription handlers, one read cycle, waiting for a reply.
  The locale \<open>client_relation\<close> collects what the transport may do to a client; its interpretations
  give preservation of the invariant, of the client state and of the handler table. The lemmas on
  streams say what reading does when the network delivers the bytes of MQTT packets.
\<close>

subsection \<open>Sending\<close>

text \<open>
  The \<open>while\<close> loop of \<open>aws_iot_mqtt_internal_send_packet\<close>; every turn hands over \<open>len\<close> bytes from
  \<open>writeBuf[sent]\<close> (undefined when they leave the buffer). It returns \<open>sent\<close>.
\<close>

primrec send_packet_loop :: "'w Env \<Rightarrow> nat \<Rightarrow> byte list \<Rightarrow> nat \<Rightarrow> nat \<Rightarrow> Timer \<Rightarrow> 'w \<Rightarrow> (nat \<times> 'w) run" where
  "send_packet_loop E 0 buf len sent pTimer w = NoFuel"
| "send_packet_loop E (Suc n) buf len sent pTimer w =
     (if sent < len then
        case timer_expired E pTimer w of (expired, w) \<Rightarrow>
        if expired then Done (sent, w)
        else if length buf < sent + len then Fault
        else bnd (net_write E (take len (drop sent buf)) pTimer w) (\<lambda>(rc, sentLen, w).
          if rc \<noteq> SUCCESS then Done (sent, w)
          else send_packet_loop E n buf len (sent + sentLen) pTimer w)
      else Done (sent, w))"

definition aws_iot_mqtt_internal_send_packet ::
    "'w Env \<Rightarrow> nat \<Rightarrow> AWS_IoT_Client \<Rightarrow> nat \<Rightarrow> Timer \<Rightarrow> 'w \<Rightarrow> (IoT_Error_t \<times> 'w) run" where
  "aws_iot_mqtt_internal_send_packet E n pClient len pTimer w =
     (if writeBufSize pClient \<le> len then Done (MQTT_TX_BUFFER_TOO_SHORT_ERROR, w)
      else bnd (send_packet_loop E n (writeBuf pClient) len 0 pTimer w) (\<lambda>(sent, w).
        Done (if sent = len then SUCCESS else FAILURE, w)))"

subsection \<open>Receiving a packet\<close>

text \<open>
  \<open>_aws_iot_mqtt_internal_decode_packet_remaining_len\<close>: \<open>len\<close> is passed to the network as the
  out-parameter \<open>read_len\<close>, so each read overwrites it. \<open>encodedByte\<close> keeps its value when a read
  stores nothing; \<open>*rem_len\<close> and \<open>multiplier\<close> are \<open>size_t\<close>.
\<close>

primrec remaining_len_loop ::
    "'w Env \<Rightarrow> nat \<Rightarrow> nat \<Rightarrow> byte \<Rightarrow> size_t \<Rightarrow> size_t \<Rightarrow> Timer \<Rightarrow> 'w \<Rightarrow> (IoT_Error_t \<times> size_t \<times> 'w) run" where
  "remaining_len_loop E 0 len encodedByte multiplier rem_len pTimer w = NoFuel"
| "remaining_len_loop E (Suc n) len encodedByte multiplier rem_len pTimer w =
     (if unat MAX_NO_OF_REMAINING_LENGTH_BYTES < len + 1
      then Done (MQTT_DECODE_REMAINING_LENGTH_ERROR, rem_len, w)
      else bnd (net_read E 1 pTimer w) (\<lambda>(rc, bs, len, w).
        if rc \<noteq> SUCCESS then Done (rc, rem_len, w)
        else if 1 < length bs then Fault
        else
        let encodedByte = (case bs of [] \<Rightarrow> encodedByte | b # _ \<Rightarrow> b);
            rem_len = rem_len + ucast (encodedByte AND 127) * multiplier;
            multiplier = multiplier * 128
        in if encodedByte AND 128 \<noteq> 0 then remaining_len_loop E n len encodedByte multiplier rem_len pTimer w
           else Done (rc, rem_len, w)))"

definition aws_iot_mqtt_internal_decode_packet_remaining_len ::
    "'w Env \<Rightarrow> nat \<Rightarrow> Timer \<Rightarrow> 'w \<Rightarrow> (IoT_Error_t \<times> size_t \<times> 'w) run" where
  "aws_iot_mqtt_internal_decode_packet_remaining_len E n pTimer w =
     remaining_len_loop E n 0 (uninit_byte E) 1 0 pTimer w"

text \<open>Bytes stored at \<open>readBuf + off\<close>.\<close>

definition store_rx :: "AWS_IoT_Client \<Rightarrow> nat \<Rightarrow> byte list \<Rightarrow> AWS_IoT_Client run" where
  "store_rx c off bs = bnd (of_opt (put bs (readBuf c, off))) (\<lambda>(b, p). Done (c\<lparr>readBuf := b\<rparr>))"

text \<open>The loop that drops a packet that is too long, in pieces of at most \<open>readBufSize\<close> bytes.\<close>

primrec drop_packet_loop ::
    "'w Env \<Rightarrow> nat \<Rightarrow> AWS_IoT_Client \<Rightarrow> size_t \<Rightarrow> size_t \<Rightarrow> nat \<Rightarrow> Timer \<Rightarrow> 'w \<Rightarrow> (AWS_IoT_Client \<times> 'w) run" where
  "drop_packet_loop E 0 c rem_len total_bytes_read bytes_to_be_read pTimer w = NoFuel"
| "drop_packet_loop E (Suc n) c rem_len total_bytes_read bytes_to_be_read pTimer w =
     bnd (net_read E bytes_to_be_read pTimer w) (\<lambda>(rc, bs, read_len, w).
     bnd (store_rx c 0 bs) (\<lambda>c.
       if rc = SUCCESS then
         let total_bytes_read = total_bytes_read + of_nat read_len;
             bytes_to_be_read = (if readBufSize c \<le> unat (rem_len - total_bytes_read) then readBufSize c
                                 else unat (rem_len - total_bytes_read))
         in if total_bytes_read < rem_len
            then drop_packet_loop E n c rem_len total_bytes_read bytes_to_be_read pTimer w
            else Done (c, w)
       else Done (c, w)))"

text \<open>
  \<open>_aws_iot_mqtt_internal_read_packet\<close>: the code, the client with the new \<open>readBuf\<close>, and the packet
  type when one was read (\<open>*pPacketType\<close> is not assigned otherwise).
\<close>

definition aws_iot_mqtt_internal_read_packet ::
    "'w Env \<Rightarrow> nat \<Rightarrow> AWS_IoT_Client \<Rightarrow> Timer \<Rightarrow> 'w \<Rightarrow> (IoT_Error_t \<times> u8 option \<times> AWS_IoT_Client \<times> 'w) run" where
  "aws_iot_mqtt_internal_read_packet E n c pTimer w =
     bnd (net_read E 1 pTimer w) (\<lambda>(rc, bs, read_len, w).
     bnd (store_rx c 0 bs) (\<lambda>c.
     if rc = NETWORK_SSL_NOTHING_TO_READ then Done (MQTT_NOTHING_TO_READ, None, c, w)
     else
     bnd (aws_iot_mqtt_internal_decode_packet_remaining_len E n pTimer w) (\<lambda>(rc, rem_len, w).
     if rc \<noteq> SUCCESS then Done (rc, None, c, w)
     else if readBufSize c \<le> unat rem_len then
       bnd (drop_packet_loop E n c rem_len 0 (readBufSize c) pTimer w) (\<lambda>(c, w).
         Done (MQTT_RX_BUFFER_TOO_SHORT_ERROR, None, c, w))
     else
     bnd (of_opt (aws_iot_mqtt_internal_write_len_to_buffer (ucast rem_len) (readBuf c, 1))) (\<lambda>((b, p), k).
     let c = c\<lparr>readBuf := b\<rparr>; len = 1 + k in
     if 0 < rem_len then
       bnd (net_read E (unat rem_len) pTimer w) (\<lambda>(rc, bs, read_len, w).
       bnd (store_rx c len bs) (\<lambda>c.
         if rc \<noteq> SUCCESS \<or> read_len \<noteq> unat rem_len then Done (FAILURE, None, c, w)
         else Done (rc, Some (ucast (h_type (header_of_byte (readBuf c ! 0)))), c, w)))
     else Done (rc, Some (ucast (h_type (header_of_byte (readBuf c ! 0)))), c, w)))))"

subsection \<open>Delivering a received message\<close>

text \<open>The bytes \<open>[off, off + n)\<close> of \<open>readBuf\<close>; reading outside the buffer is undefined.\<close>

definition rx_slice :: "AWS_IoT_Client \<Rightarrow> nat \<Rightarrow> nat \<Rightarrow> byte list run" where
  "rx_slice c off n = (if off + n \<le> length (readBuf c) then Done (take n (drop off (readBuf c))) else Fault)"

text \<open>The test of the \<open>for\<close> loop on one entry of \<open>messageHandlers\<close>.\<close>

definition handler_matches :: "MessageHandlers \<Rightarrow> byte list \<Rightarrow> u16 \<Rightarrow> bool" where
  "handler_matches h name topicNameLen_arg =
     (case topicName h of None \<Rightarrow> False
      | Some t \<Rightarrow> (topicNameLen_arg = topicNameLen h \<and> strncmp_eq name t)
                 \<or> aws_iot_mqtt_internal_is_topic_matched t name)"

text \<open>
  The loop from entry \<open>itr\<close> on: \<open>k\<close> entries are left. Both the handler table and the topic's bytes
  are read from the client as the callbacks left it.
\<close>

primrec deliver_loop ::
    "'w Env \<Rightarrow> nat \<Rightarrow> nat \<Rightarrow> nat \<Rightarrow> u16 \<Rightarrow> AWS_IoT_Client \<Rightarrow> Rx_Message \<Rightarrow> 'w
       \<Rightarrow> (AWS_IoT_Client \<times> Rx_Message \<times> 'w) run" where
  "deliver_loop E 0 itr topic len c msg w = Done (c, msg, w)"
| "deliver_loop E (Suc k) itr topic len c msg w =
     (let h = messageHandlers c ! itr in
      bnd (if topicName h = None then Done False
           else bnd (rx_slice c topic (unat len)) (\<lambda>name. Done (handler_matches h name len))) (\<lambda>matched.
      if matched then
        (case pApplicationHandler h of
           None \<Rightarrow> deliver_loop E k (Suc itr) topic len c msg w
         | Some f \<Rightarrow>
             bnd (app_handler E f c topic len msg (pApplicationHandlerData h) w) (\<lambda>(c, msg, w).
               deliver_loop E k (Suc itr) topic len c msg w))
      else deliver_loop E k (Suc itr) topic len c msg w))"

definition aws_iot_mqtt_internal_deliver_message ::
    "'w Env \<Rightarrow> AWS_IoT_Client \<Rightarrow> nat \<Rightarrow> u16 \<Rightarrow> Rx_Message \<Rightarrow> 'w
       \<Rightarrow> (IoT_Error_t \<times> AWS_IoT_Client \<times> Rx_Message \<times> 'w) run" where
  "aws_iot_mqtt_internal_deliver_message E c topic len msg w =
     (let state = aws_iot_mqtt_get_client_state c;
          c = snd (aws_iot_mqtt_set_client_state c state CLIENT_STATE_CONNECTED_WAIT_FOR_CB_RETURN)
      in bnd (deliver_loop E AWS_IOT_MQTT_NUM_SUBSCRIBE_HANDLERS 0 topic len c msg w) (\<lambda>(c, msg, w).
        case aws_iot_mqtt_set_client_state c CLIENT_STATE_CONNECTED_WAIT_FOR_CB_RETURN state of
          (rc, c) \<Rightarrow> Done (rc, c, msg, w)))"

definition aws_iot_mqtt_internal_handle_publish :: "'w Env \<Rightarrow> nat \<Rightarrow> AWS_IoT_Client \<Rightarrow> Timer \<Rightarrow> 'w \<Rightarrow> 'w outcome" where
  "aws_iot_mqtt_internal_handle_publish E n c pTimer w =
     bnd (of_opt (aws_iot_mqtt_internal_deserialize_publish (readBuf c) (readBufSize c))) (\<lambda>r.
     case r of Inl rc \<Rightarrow> Done (rc, c, w) | Inr (msg, topic, len) \<Rightarrow>
     bnd (aws_iot_mqtt_internal_deliver_message E c topic len msg w) (\<lambda>(rc, c, msg, w).
     if rc \<noteq> SUCCESS then Done (rc, c, w)
     else if rx_qos msg = QOS0 then Done (SUCCESS, c, w)
     else
     bnd (of_opt (aws_iot_mqtt_internal_serialize_ack (writeBuf c) (writeBufSize c) PUBACK 0 (rx_id msg))) (\<lambda>(rc, b, len).
     let c = c\<lparr>writeBuf := b\<rparr> in
     if rc \<noteq> SUCCESS then Done (rc, c, w)
     else bnd (aws_iot_mqtt_internal_send_packet E n c len pTimer w) (\<lambda>(rc, w).
       if rc \<noteq> SUCCESS then Done (rc, c, w) else Done (SUCCESS, c, w)))))"

subsection \<open>One read cycle, and waiting for a reply\<close>

text \<open>\<open>pt\<close> is the value of \<open>*pPacketType\<close> before and after the call.\<close>

definition aws_iot_mqtt_internal_cycle_read ::
    "'w Env \<Rightarrow> nat \<Rightarrow> AWS_IoT_Client \<Rightarrow> Timer \<Rightarrow> u8 \<Rightarrow> 'w \<Rightarrow> (IoT_Error_t \<times> u8 \<times> AWS_IoT_Client \<times> 'w) run" where
  "aws_iot_mqtt_internal_cycle_read E n c pTimer pt w =
     bnd (aws_iot_mqtt_internal_read_packet E n c pTimer w) (\<lambda>(rc, ptype, c, w).
     let pt = (case ptype of None \<Rightarrow> pt | Some t \<Rightarrow> t) in
     if rc = MQTT_NOTHING_TO_READ then Done (SUCCESS, pt, c, w)
     else if rc \<noteq> SUCCESS then Done (rc, pt, c, w)
     else if uint pt \<in> {msg_code CONNACK, msg_code PUBACK, msg_code SUBACK, msg_code UNSUBACK} then Done (rc, pt, c, w)
     else if uint pt = msg_code PUBLISH then
       bnd (aws_iot_mqtt_internal_handle_publish E n c pTimer w) (\<lambda>(rc, c, w). Done (rc, pt, c, w))
     else if uint pt \<in> {msg_code PUBREC, msg_code PUBCOMP} then Done (rc, pt, c, w)
     else if uint pt = msg_code PINGRESP then
       (case start_sec E (ucast (keepAliveInterval c)) w of (t, w) \<Rightarrow>
         Done (rc, pt, c\<lparr>isPingOutstanding := False, pingTimer := t\<rparr>, w))
     else Done (MQTT_RX_MESSAGE_PACKET_TYPE_INVALID_ERROR, pt, c, w))"

text \<open>
  The \<open>do ... while\<close> of \<open>aws_iot_mqtt_internal_wait_for_read\<close>. When the timer has expired it stops
  with the time-out; the code returned is the one after the loop.
\<close>

primrec wait_for_read_loop ::
    "'w Env \<Rightarrow> nat \<Rightarrow> AWS_IoT_Client \<Rightarrow> MessageTypes \<Rightarrow> u8 \<Rightarrow> Timer \<Rightarrow> 'w
       \<Rightarrow> (IoT_Error_t \<times> u8 \<times> AWS_IoT_Client \<times> 'w) run" where
  "wait_for_read_loop E 0 c packetType read_packet_type pTimer w = NoFuel"
| "wait_for_read_loop E (Suc n) c packetType read_packet_type pTimer w =
     (case timer_expired E pTimer w of (expired, w) \<Rightarrow>
      if expired then Done (MQTT_REQUEST_TIMEOUT_ERROR, read_packet_type, c, w)
      else bnd (aws_iot_mqtt_internal_cycle_read E n c pTimer read_packet_type w)
        (\<lambda>(rc, read_packet_type, c, w).
          if rc \<noteq> NETWORK_DISCONNECTED_ERROR \<and> uint read_packet_type \<noteq> msg_code packetType
          then wait_for_read_loop E n c packetType read_packet_type pTimer w
          else Done (rc, read_packet_type, c, w)))"

definition aws_iot_mqtt_internal_wait_for_read ::
    "'w Env \<Rightarrow> nat \<Rightarrow> AWS_IoT_Client \<Rightarrow> MessageTypes \<Rightarrow> Timer \<Rightarrow> 'w \<Rightarrow> 'w outcome" where
  "aws_iot_mqtt_internal_wait_for_read E n c packetType pTimer w =
     bnd (wait_for_read_loop E n c packetType 0 pTimer w) (\<lambda>(rc, read_packet_type, c, w).
       if rc \<noteq> MQTT_REQUEST_TIMEOUT_ERROR \<and> rc \<noteq> NETWORK_DISCONNECTED_ERROR
          \<and> uint read_packet_type \<noteq> msg_code packetType
       then Done (FAILURE, c, w) else Done (rc, c, w))"

subsection \<open>Specification vocabulary\<close>

text \<open>A network that delivers the bytes of a stream: \<open>view w\<close> is what is still to come.\<close>

definition delivers :: "'w Env \<Rightarrow> ('w \<Rightarrow> byte list) \<Rightarrow> bool" where
  "delivers E view \<longleftrightarrow>
     (\<forall>T w bs rest. view w = bs @ rest \<longrightarrow>
        (\<exists>w'. net_read E (length bs) T w = Done (SUCCESS, bs, length bs, w') \<and> view w' = rest))"

text \<open>A network whose writes, of lengths a \<open>size_t\<close> can hold, report all bytes when they succeed.\<close>

definition full_writes :: "'w Env \<Rightarrow> bool" where
  "full_writes E \<longleftrightarrow> (\<forall>bs T w k w'. length bs < 2 ^ 64 \<longrightarrow> net_write E bs T w = Done (SUCCESS, k, w') \<longrightarrow> k = length bs)"

text \<open>The calls that delivering makes: the handlers of a list, one after the other.\<close>

primrec run_handlers :: "'w Env \<Rightarrow> MessageHandlers list \<Rightarrow> nat \<Rightarrow> u16 \<Rightarrow> AWS_IoT_Client \<Rightarrow> Rx_Message \<Rightarrow> 'w
    \<Rightarrow> (AWS_IoT_Client \<times> Rx_Message \<times> 'w) run" where
  "run_handlers E [] topic len c msg w = Done (c, msg, w)"
| "run_handlers E (h # hs) topic len c msg w =
     (case pApplicationHandler h of None \<Rightarrow> run_handlers E hs topic len c msg w
      | Some f \<Rightarrow> bnd (app_handler E f c topic len msg (pApplicationHandlerData h) w)
          (\<lambda>(c, msg, w). run_handlers E hs topic len c msg w))"

subsection \<open>Frame conditions of the transport\<close>

text \<open>
  A relation between the client before and after that allows what the transport itself does: the two
  buffers change (not their sizes), the ping fields change, callbacks run in the callback state.
\<close>

locale client_relation =
  fixes E :: "'w Env" and R :: "AWS_IoT_Client \<Rightarrow> AWS_IoT_Client \<Rightarrow> bool"
  assumes R_refl: "R c c"
    and R_trans: "R c c' \<Longrightarrow> R c' c'' \<Longrightarrow> R c c''"
    and R_rx: "length b = length (readBuf c) \<Longrightarrow> R c (c\<lparr>readBuf := b\<rparr>)"
    and R_tx: "length b = length (writeBuf c) \<Longrightarrow> R c (c\<lparr>writeBuf := b\<rparr>)"
    and R_ping: "R c (c\<lparr>isPingOutstanding := p, pingTimer := t\<rparr>)"
    and R_app: "app_handler E f c topic len msg d w = Done (c', msg', w') \<Longrightarrow> R c c'"
    and R_deliver: "R (c\<lparr>clientState := CLIENT_STATE_CONNECTED_WAIT_FOR_CB_RETURN\<rparr>) c' \<Longrightarrow>
       R c (snd (aws_iot_mqtt_set_client_state c' CLIENT_STATE_CONNECTED_WAIT_FOR_CB_RETURN (clientState c)))"
begin

lemma store_rx_R: "post (store_rx c off bs) (R c)"
  by (auto simp: store_rx_def split: prod.splits dest!: put_SomeD intro!: R_rx)

lemma store_rx_R': "R c0 c \<Longrightarrow> (\<And>c'. R c0 c' \<Longrightarrow> Q c') \<Longrightarrow> post (store_rx c off bs) Q"
  by (rule post_mono [OF store_rx_R]) (blast intro: R_trans)

lemma drop_packet_R: "R c0 c \<Longrightarrow> post (drop_packet_loop E n c r t b T w) (\<lambda>(c', w'). R c0 c')"
proof (induction n arbitrary: c t b w)
  case (Suc n)
  show ?case
    by (auto simp: Let_def split: prod.splits intro!: postI [of "net_read E b T w"] store_rx_R' [OF Suc.prems] Suc.IH)
qed simp

lemma read_packet_R: "post (aws_iot_mqtt_internal_read_packet E n c T w) (\<lambda>(rc, pt, c', w'). R c c')"
proof -
  have wl: "R c0 (c'\<lparr>readBuf := b\<rparr>)"
    if "aws_iot_mqtt_internal_write_len_to_buffer l (readBuf c', Suc 0) = Some ((b, p), k)" "R c0 c'" for l c' b p k c0
    using that put_SomeD [of "encode_len (unat l)" "(readBuf c', Suc 0)"]
    by (auto simp: write_len_put Option.bind_eq_Some_conv intro!: R_trans [OF that(2) R_rx])
  show ?thesis
    unfolding aws_iot_mqtt_internal_read_packet_def
    by (auto simp: Let_def split: prod.splits
        intro!: postI [of "net_read _ _ _ _"] postI [of "aws_iot_mqtt_internal_decode_packet_remaining_len _ _ _ _"]
          store_rx_R' [OF R_refl] post_mono [OF drop_packet_R]) (blast intro: R_trans wl)+
qed

lemma deliver_loop_R: "R c0 c \<Longrightarrow> post (deliver_loop E k i topic len c msg w) (\<lambda>(c', r). R c0 c')"
proof (induction k arbitrary: i c msg w)
  case (Suc k)
  have app: "post (app_handler E f c topic len msg d w) (\<lambda>(c', r). R c0 c')" for f d
    by (auto intro!: postI intro: R_trans [OF Suc.prems R_app])
  show ?case
    by (auto simp: Let_def rx_slice_def split: option.splits prod.splits
        intro!: Suc.IH Suc.prems post_mono [OF app])
qed simp

lemma deliver_message_R:
  "post (aws_iot_mqtt_internal_deliver_message E c topic len msg w) (\<lambda>(rc, c', msg', w'). R c c')"
proof -
  have "R c (snd (aws_iot_mqtt_set_client_state c' CLIENT_STATE_CONNECTED_WAIT_FOR_CB_RETURN (clientState c)))"
    if "R (c\<lparr>clientState := CLIENT_STATE_CONNECTED_WAIT_FOR_CB_RETURN\<rparr>) c'" for c'
    using that by (rule R_deliver)
  then show ?thesis
    by (auto simp: aws_iot_mqtt_internal_deliver_message_def Let_def aws_iot_mqtt_get_client_state_def
        aws_iot_mqtt_set_client_state_def [of c] split: prod.splits
        intro!: post_mono [OF deliver_loop_R [OF R_refl]]) (metis snd_conv)
qed

lemma handle_publish_R:
  "post (aws_iot_mqtt_internal_handle_publish E n c T w) (\<lambda>(rc, c', w'). R c c')"
proof -
  have tx: "R c0 (c'\<lparr>writeBuf := b\<rparr>)"
    if "aws_iot_mqtt_internal_serialize_ack (writeBuf c') k PUBACK 0 i = Some (rc, b, m)" "R c0 c'" for c' k i rc b m c0
    using that(1) by (intro R_trans [OF that(2) R_tx])
      (auto simp: aws_iot_mqtt_internal_serialize_ack_def Let_def codec Option.bind_eq_Some_conv
        dest: put_SomeD split: if_splits prod.splits)
  show ?thesis
    unfolding aws_iot_mqtt_internal_handle_publish_def
    by (auto simp: Let_def R_refl split: prod.splits sum.splits
        intro!: post_mono [OF deliver_message_R] postI [of "aws_iot_mqtt_internal_send_packet _ _ _ _ _ _"] dest: tx)
qed

lemma cycle_read_R:
  "post (aws_iot_mqtt_internal_cycle_read E n c T pt w) (\<lambda>(rc, pt', c', w'). R c c')"
proof -
  have ping: "R c c' \<Longrightarrow> R c (c'\<lparr>isPingOutstanding := p, pingTimer := t\<rparr>)" for c' p t
    using R_ping R_trans by blast
  have pub: "R c c' \<Longrightarrow> post (aws_iot_mqtt_internal_handle_publish E n c' T w') (\<lambda>(rc, c'', w''). R c c'')" for c' w'
    by (rule post_mono [OF handle_publish_R]) (auto intro: R_trans)
  show ?thesis
    unfolding aws_iot_mqtt_internal_cycle_read_def
    by (auto simp: Let_def split: prod.splits option.splits intro!: post_mono [OF read_packet_R] post_mono [OF pub] ping)
qed

lemma wait_loop_R: "R c0 c \<Longrightarrow> post (wait_for_read_loop E n c mt pt T w) (\<lambda>(rc, pt', c', w'). R c0 c')"
proof (induction n arbitrary: c pt w)
  case (Suc n)
  have cyc: "post (aws_iot_mqtt_internal_cycle_read E n c T pt w) (\<lambda>(rc, pt', c', w'). R c0 c')" for w
    by (rule post_mono [OF cycle_read_R]) (auto intro: R_trans [OF Suc.prems])
  show ?case
    by (auto simp: Suc.prems split: prod.splits intro!: post_mono [OF cyc] Suc.IH)
qed simp

lemma wait_for_read_R:
  "post (aws_iot_mqtt_internal_wait_for_read E n c mt T w) (\<lambda>(rc, c', w'). R c c')"
  by (auto simp: aws_iot_mqtt_internal_wait_for_read_def split: prod.splits
      intro!: post_mono [OF wait_loop_R [OF R_refl]])

end

lemma client_relationI:
  assumes "\<And>c. R c c" and "\<And>c c' c''. R c c' \<Longrightarrow> R c' c'' \<Longrightarrow> R c c''"
    and "\<And>c b. length b = length (readBuf c) \<Longrightarrow> R c (c\<lparr>readBuf := b\<rparr>)"
    and "\<And>c b. length b = length (writeBuf c) \<Longrightarrow> R c (c\<lparr>writeBuf := b\<rparr>)"
    and "\<And>c p t. R c (c\<lparr>isPingOutstanding := p, pingTimer := t\<rparr>)"
    and "\<And>c c'. R (c\<lparr>clientState := CLIENT_STATE_CONNECTED_WAIT_FOR_CB_RETURN\<rparr>) c' \<Longrightarrow>
       R c (snd (aws_iot_mqtt_set_client_state c' CLIENT_STATE_CONNECTED_WAIT_FOR_CB_RETURN (clientState c)))"
  shows "client_relation E (\<lambda>c c'. callbacks_keep E R \<longrightarrow> R c c')"
  using assms by unfold_locales (blast dest: callbacks_keepD)+

interpretation wf_rel: client_relation E "\<lambda>c c'. callbacks_keep E keeps_wf \<longrightarrow> keeps_wf c c'" for E :: "'w Env"
  by (rule client_relationI)
    (auto simp: keeps_wf_def wf_client_update aws_iot_mqtt_set_client_state_def)

interpretation state_rel: client_relation E "\<lambda>c c'. callbacks_keep E keeps_state \<longrightarrow> keeps_state c c'" for E :: "'w Env"
  by (rule client_relationI)
    (auto simp: keeps_state_def aws_iot_mqtt_set_client_state_def aws_iot_mqtt_get_client_state_def)

interpretation table_rel: client_relation E "\<lambda>c c'. callbacks_keep E keeps_table \<longrightarrow> keeps_table c c'" for E :: "'w Env"
  by (rule client_relationI)
    (auto simp: keeps_table_def aws_iot_mqtt_set_client_state_def)

lemma deliversE:
  assumes "delivers E view" and "view w = bs @ rest"
  obtains w' where "net_read E (length bs) T w = Done (SUCCESS, bs, length bs, w')" and "view w' = rest"
  using assms unfolding delivers_def by blast

subsection \<open>Sending\<close>

lemma send_packet_eq:
  assumes "full_writes E" and "wf_client c"
  shows "aws_iot_mqtt_internal_send_packet E (Suc (Suc n)) c len T w =
     (if AWS_IOT_MQTT_TX_BUF_LEN \<le> len then Done (MQTT_TX_BUFFER_TOO_SHORT_ERROR, w)
      else if len = 0 then Done (SUCCESS, w)
      else case timer_expired E T w of (expired, w) \<Rightarrow>
        if expired then Done (FAILURE, w)
        else bnd (net_write E (take len (writeBuf c)) T w) (\<lambda>(rc, k, w).
          Done (if rc = SUCCESS then SUCCESS else FAILURE, w)))"
proof -
  have "k = len" if "net_write E (take len (writeBuf c)) T w' = Done (SUCCESS, k, w'')" "len < AWS_IOT_MQTT_TX_BUF_LEN" for k w' w''
  proof -
    have l: "length (take len (writeBuf c)) = len" using that(2) assms(2) by (simp add: wf_client_def)
    then have "length (take len (writeBuf c)) < 2 ^ 64" using that(2) by (simp add: config_defs)
    with assms(1) that(1) l show ?thesis unfolding full_writes_def by metis
  qed
  then show ?thesis
    using assms(2)
    by (auto simp: aws_iot_mqtt_internal_send_packet_def wf_client_def split: prod.splits)
       (case_tac "net_write E (take len (writeBuf c)) T x2"; auto)
qed

subsection \<open>Receiving\<close>

lemma remaining_len_step:
  assumes d: "delivers E view" and v: "view w = b # rest" and len: "len \<le> 3"
  shows "\<exists>w'. view w' = rest \<and> remaining_len_loop E (Suc n) len e m r T w =
     (if b AND 128 \<noteq> 0 then remaining_len_loop E n 1 b (m * 128) (r + ucast (b AND 127) * m) T w'
      else Done (SUCCESS, r + ucast (b AND 127) * m, w'))"
proof -
  obtain w' where w': "net_read E (length [b]) T w = Done (SUCCESS, [b], length [b], w')" "view w' = rest"
    using deliversE [OF d, of w "[b]" rest] v by auto
  then show ?thesis using len by (auto simp: MAX_NO_OF_REMAINING_LENGTH_BYTES_def Let_def)
qed

lemma remaining_len_encode:
  assumes "delivers E view"
  shows "view w = encode_len k @ rest \<Longrightarrow> len \<le> 3 \<Longrightarrow> length (encode_len k) \<le> n \<Longrightarrow>
     \<exists>w'. remaining_len_loop E n len e m r T w = Done (SUCCESS, r + of_nat k * m, w') \<and> view w' = rest"
proof (induction k arbitrary: n len e m r w rule: less_induct)
  case (less k)
  obtain n' where n: "n = Suc n'" using less.prems(3) by (cases n) auto
  have low: "(ucast (of_nat j :: byte) :: size_t) = of_nat j" if "j < 128" for j
    using that by (simp add: word_unat_eq_iff unsigned_ucast_eq unat_of_nat take_bit_eq_mod)
  show ?case
  proof (cases "k < 128")
    case True
    then show ?thesis
      using remaining_len_step [OF assms, of w "of_nat k" rest len n' e m r T] less.prems n
      by (auto simp: encode_len.simps [of k] byte_low7 byte_top_clear low simp del: remaining_len_loop.simps)
  next
    case False
    let ?b = "of_nat (128 + k mod 128) :: byte"
    have e: "encode_len k = ?b # encode_len (k div 128)" using False by (simp add: encode_len.simps [of k])
    have b: "?b AND 128 = 128" "?b AND 127 = of_nat (k mod 128)"
      by (rule byte_top_set byte_top_low7; simp)+
    obtain w1 where w1: "view w1 = encode_len (k div 128) @ rest"
      "remaining_len_loop E n len e m r T w =
        remaining_len_loop E n' 1 ?b (m * 128) (r + of_nat (k mod 128) * m) T w1"
      using remaining_len_step [OF assms, of w ?b "encode_len (k div 128) @ rest" len n' e m r T] less.prems(1,2) e b n
      by (auto simp: low simp del: remaining_len_loop.simps)
    have "k div 128 < k" using False by simp
    then obtain w2 where w2: "remaining_len_loop E n' 1 ?b (m * 128) (r + of_nat (k mod 128) * m) T w1 =
        Done (SUCCESS, r + of_nat (k mod 128) * m + of_nat (k div 128) * (m * 128), w2)" "view w2 = rest"
      using less.IH [OF _ w1(1), of 1 n' ?b "m * 128" "r + of_nat (k mod 128) * m"] less.prems(3) e n by (auto simp del: remaining_len_loop.simps)
    have "of_nat (k mod 128) * m + of_nat (k div 128) * (m * 128) = (of_nat k :: size_t) * m"
    proof -
      have "(of_nat k :: size_t) = of_nat (k mod 128 + k div 128 * 128)" by simp
      then show ?thesis by (simp only: of_nat_add of_nat_mult of_nat_numeral) (simp add: algebra_simps)
    qed
    then show ?thesis using w1(2) w2 by (simp add: add.assoc del: remaining_len_loop.simps)
  qed
qed

lemma decode_remaining_diverges:
  assumes "\<And>T w. \<exists>w'. net_read E 1 T w = Done (SUCCESS, [128], 1, w')"
  shows "aws_iot_mqtt_internal_decode_packet_remaining_len E n T w = NoFuel"
proof -
  have "remaining_len_loop E n len e m r T w = NoFuel" if "len \<le> 1" for len e m r w
    using that
  proof (induction n arbitrary: len e m r w)
    case (Suc n)
    obtain w' where "net_read E 1 T w = Done (SUCCESS, [128], 1, w')" using assms by blast
    then show ?case using Suc by (simp add: MAX_NO_OF_REMAINING_LENGTH_BYTES_def Let_def)
  qed simp
  then show ?thesis by (simp add: aws_iot_mqtt_internal_decode_packet_remaining_len_def)
qed

lemma store_rx_eq:
  "off + length bs \<le> length (readBuf c) \<Longrightarrow>
     store_rx c off bs = Done (c\<lparr>readBuf := take off (readBuf c) @ bs @ drop (off + length bs) (readBuf c)\<rparr>)"
  "length (readBuf c) < off + length bs \<Longrightarrow> store_rx c off bs = Fault"
  by (simp_all add: store_rx_def put_eq_Some)

lemma drop_packet_stream:
  assumes "delivers E view" and "readBufSize c = length (readBuf c)" and "0 < length (readBuf c)"
    and "view w = bs @ rest" and "unat rem_len = unat tot + length bs" and "0 < length bs"
    and "b = min (readBufSize c) (length bs)" and "length bs \<le> readBufSize c * n"
  shows "\<exists>buf w'. drop_packet_loop E n c rem_len tot b T w = Done (c\<lparr>readBuf := buf\<rparr>, w') \<and> view w' = rest
     \<and> length buf = length (readBuf c)"
  using assms(2-)
proof (induction n arbitrary: c w bs tot b)
  case 0
  then show ?case by simp
next
  case (Suc n)
  let ?bs = "take b bs" and ?rest = "drop b bs"
  have b: "0 < b" "b \<le> length bs" "b \<le> length (readBuf c)" using Suc.prems by auto
  obtain w1 where w1: "net_read E b T w = Done (SUCCESS, ?bs, b, w1)" "view w1 = ?rest @ rest"
    using deliversE [OF assms(1), of w ?bs "?rest @ rest" T] Suc.prems(3) b by (auto simp: min_absorb2)
  define buf1 where "buf1 = ?bs @ drop b (readBuf c)"
  define c1 where "c1 = c\<lparr>readBuf := buf1\<rparr>"
  have c1: "store_rx c 0 ?bs = Done c1" "length (readBuf c1) = length (readBuf c)" "readBufSize c1 = readBufSize c"
    using b store_rx_eq(1) [of 0 ?bs c] by (simp_all add: c1_def buf1_def min_absorb2)
  have sum: "unat tot + b < 2 ^ 64" using b Suc.prems(4) unat_less_2p [of rem_len] by simp
  then have t1: "unat (tot + of_nat b) = unat tot + b"
    by (simp add: unat_word_ariths unat_of_nat)
  then have left: "unat (rem_len - (tot + of_nat b)) = length ?rest"
    using Suc.prems(4) b by (subst unat_sub) (simp_all add: word_le_nat_alt)
  have lt: "tot + of_nat b < rem_len \<longleftrightarrow> ?rest \<noteq> []"
    using t1 Suc.prems(4) b by (auto simp: word_less_nat_alt)
  have unf: "drop_packet_loop E (Suc n) c rem_len tot b T w =
     (if ?rest \<noteq> [] then drop_packet_loop E n c1 rem_len (tot + of_nat b) (min (readBufSize c1) (length ?rest)) T w1
      else Done (c1, w1))"
    using w1(1) c1 left lt by (simp add: Let_def min_def)
  show ?case
  proof (cases "?rest = []")
    case True
    then show ?thesis
      unfolding unf using w1(2) c1(2) by (intro exI [of _ buf1] exI [of _ w1]) (simp add: c1_def)
  next
    case False
    have "b = readBufSize c" using False Suc.prems(6) by auto
    then have n: "length ?rest \<le> readBufSize c1 * n" using Suc.prems(7) c1(3) by simp
    have "\<exists>buf w'. drop_packet_loop E n c1 rem_len (tot + of_nat b) (min (readBufSize c1) (length ?rest)) T w1
        = Done (c1\<lparr>readBuf := buf\<rparr>, w') \<and> view w' = rest \<and> length buf = length (readBuf c1)"
      using Suc.prems(1,2,4) c1(2,3) t1 False b n by (intro Suc.IH [OF _ _ w1(2)]) simp_all
    then obtain buf w2 where "drop_packet_loop E n c1 rem_len (tot + of_nat b) (min (readBufSize c1) (length ?rest)) T w1
        = Done (c1\<lparr>readBuf := buf\<rparr>, w2)" "view w2 = rest" "length buf = length (readBuf c1)"
      by blast
    then show ?thesis
      unfolding unf using False c1(2) by (intro exI [of _ buf] exI [of _ w2]) (simp add: c1_def)
  qed
qed

text \<open>What reading one packet from the stream does, by the length of its body.\<close>

lemma read_packet_stream:
  assumes "delivers E view" and "wf_client c" and "view w = packet h body @ rest"
    and "length body < 2 ^ 32" and "length (encode_len (length body)) \<le> n"
    and "length body \<le> AWS_IOT_MQTT_RX_BUF_LEN * n"
  shows "length body \<le> 509 \<Longrightarrow>
       \<exists>w'. aws_iot_mqtt_internal_read_packet E n c T w =
           Done (SUCCESS, Some (ucast (h_type (header_of_byte h))),
             c\<lparr>readBuf := packet h body @ drop (length (packet h body)) (readBuf c)\<rparr>, w') \<and> view w' = rest"
    and "510 \<le> length body \<Longrightarrow> length body \<le> 511 \<Longrightarrow> aws_iot_mqtt_internal_read_packet E n c T w = Fault"
    and "512 \<le> length body \<Longrightarrow>
       \<exists>c' w'. aws_iot_mqtt_internal_read_packet E n c T w = Done (MQTT_RX_BUFFER_TOO_SHORT_ERROR, None, c', w')
         \<and> view w' = rest"
proof -
  let ?L = "length body" and ?e = "encode_len (length body)"
  have wf: "readBufSize c = 512" "length (readBuf c) = 512"
    using assms(2) by (simp_all add: wf_client_def config_defs)
  obtain w1 where w1: "net_read E (length [h]) T w = Done (SUCCESS, [h], length [h], w1)" "view w1 = ?e @ body @ rest"
    using deliversE [OF assms(1), of w "[h]" "?e @ body @ rest" T] assms(3) by (auto simp: packet_def)
  define c1 where "c1 = c\<lparr>readBuf := h # tl (readBuf c)\<rparr>"
  have c1: "store_rx c 0 [h] = Done c1" "readBufSize c1 = 512" "length (readBuf c1) = 512"
    using store_rx_eq(1) [of 0 "[h]" c] wf by (simp_all add: c1_def drop_Suc)
  obtain w2 where w2: "aws_iot_mqtt_internal_decode_packet_remaining_len E n T w1 = Done (SUCCESS, of_nat ?L, w2)"
    "view w2 = body @ rest"
    using remaining_len_encode [OF assms(1) w1(2), of 0 n "uninit_byte E" 1 0 T] assms(5)
    by (auto simp: aws_iot_mqtt_internal_decode_packet_remaining_len_def simp del: remaining_len_loop.simps)
  have L: "unat (of_nat ?L :: size_t) = ?L" "unat (ucast (of_nat ?L :: size_t) :: u32) = ?L"
    using assms(4) by (simp_all add: unat_of_nat unsigned_ucast_eq take_bit_eq_mod)
  note step = aws_iot_mqtt_internal_read_packet_def w1(1) [simplified] c1(1,2) w2(1) L(1) Let_def
  show "\<exists>c' w'. aws_iot_mqtt_internal_read_packet E n c T w = Done (MQTT_RX_BUFFER_TOO_SHORT_ERROR, None, c', w')
         \<and> view w' = rest" if "512 \<le> ?L"
  proof -
    have "\<exists>buf w'. drop_packet_loop E n c1 (of_nat ?L) 0 512 T w2 = Done (c1\<lparr>readBuf := buf\<rparr>, w') \<and> view w' = rest
        \<and> length buf = length (readBuf c1)"
    proof (rule drop_packet_stream [OF assms(1) _ _ w2(2)])
      show "unat (of_nat ?L :: size_t) = unat (0 :: size_t) + ?L" unfolding L(1) by simp
      show "length body \<le> readBufSize c1 * n" using assms(6) c1(2) by (simp add: config_defs)
    qed (use that c1 in auto)
    then obtain buf w3 where "drop_packet_loop E n c1 (of_nat ?L) 0 512 T w2 = Done (c1\<lparr>readBuf := buf\<rparr>, w3)"
      "view w3 = rest" by blast
    then show ?thesis
      using that by (intro exI [of _ "c1\<lparr>readBuf := buf\<rparr>"] exI [of _ w3]) (simp add: step del: drop_packet_loop.simps)
  qed
  have len_e: "length ?e \<le> 2" if "?L \<le> 511"
    using that encode_len_cases [of ?L] by (auto split: if_splits)
  define c2 where "c2 = c1\<lparr>readBuf := h # ?e @ drop (1 + length ?e) (readBuf c)\<rparr>"
  have wl: "aws_iot_mqtt_internal_write_len_to_buffer (ucast (of_nat ?L :: size_t)) (readBuf c1, 1) =
      Some ((readBuf c2, 1 + length ?e), length ?e)" if "?L \<le> 511"
    using len_e [OF that] L(2) wf
    by (simp add: write_len_put put_eq_Some c1_def c2_def drop_Suc tl_drop take_Suc)
  obtain w3 where w3: "net_read E ?L T w2 = Done (SUCCESS, body, ?L, w3)" "view w3 = rest"
    using deliversE [OF assms(1) w2(2)] by blast
  have pos: "0 < (of_nat ?L :: size_t) \<longleftrightarrow> 0 < ?L"
    using L(1) by (simp add: word_less_nat_alt)
  have len2: "length (readBuf c2) = 512" if "?L \<le> 511"
    using len_e [OF that] wf by (simp add: c2_def)
  show "aws_iot_mqtt_internal_read_packet E n c T w = Fault" if "510 \<le> ?L" "?L \<le> 511"
  proof -
    have "length ?e = 2" using that encode_len_cases [of ?L] by (auto split: if_splits)
    then have "store_rx (c1\<lparr>readBuf := readBuf c2\<rparr>) 3 body = Fault"
      using that len2 by (intro store_rx_eq(2)) simp
    then show ?thesis
      using that wl [simplified] w3(1) \<open>length ?e = 2\<close> by (auto simp: step pos)
  qed
  show "\<exists>w'. aws_iot_mqtt_internal_read_packet E n c T w =
           Done (SUCCESS, Some (ucast (h_type (header_of_byte h))),
             c\<lparr>readBuf := packet h body @ drop (length (packet h body)) (readBuf c)\<rparr>, w') \<and> view w' = rest"
    if "?L \<le> 509"
  proof -
    have e2: "length ?e \<le> 2" using len_e that by simp
    define c3 where "c3 = c\<lparr>readBuf := packet h body @ drop (length (packet h body)) (readBuf c)\<rparr>"
    have c12: "c1\<lparr>readBuf := readBuf c2\<rparr> = c2" by (simp add: c1_def c2_def)
    have "store_rx c2 (1 + length ?e) body = Done c3"
      using that e2 len2 wf
      by (subst store_rx_eq(1)) (auto simp: c1_def c2_def c3_def packet_def add.commute add.left_commute)
    moreover have "c3 = c2" if "body = []"
      using that by (simp add: c1_def c2_def c3_def packet_def)
    moreover have "readBuf c3 ! 0 = h" by (simp add: c3_def packet_def)
    ultimately show ?thesis
      using that wl w3 w2(2) unfolding c3_def [symmetric]
      by (cases "body = []") (simp_all add: step pos c12)
  qed
qed

subsection \<open>Writers keep the size of the buffer\<close>

lemma put_size [keeps_size]: "put bs bp = Some bp' \<Longrightarrow> length (fst bp') = length (fst bp)"
  by (simp add: put_SomeD)

lemma write_len_size [keeps_size]:
  "aws_iot_mqtt_internal_write_len_to_buffer l bp = Some (bp', k) \<Longrightarrow> length (fst bp') = length (fst bp)"
  by (auto simp: codec Option.bind_eq_Some_conv dest: put_size)

lemma write_char_size [keeps_size]:
  "aws_iot_mqtt_internal_write_char x bp = Some bp' \<Longrightarrow> length (fst bp') = length (fst bp)"
  by (auto simp: codec dest: put_size)

lemma write_uint_16_size [keeps_size]:
  "aws_iot_mqtt_internal_write_uint_16 x bp = Some bp' \<Longrightarrow> length (fst bp') = length (fst bp)"
  by (auto simp: codec dest: put_size)

lemma write_utf8_size [keeps_size]:
  "aws_iot_mqtt_internal_write_utf8_string s l bp = Some bp' \<Longrightarrow> length (fst bp') = length (fst bp)"
  by (auto simp: aws_iot_mqtt_internal_write_utf8_string_def Option.bind_eq_Some_conv
      dest!: keeps_size split: if_splits)

lemma subscribe_write_size [keeps_size]:
  "subscribe_write ts bp = Some bp' \<Longrightarrow> length (fst bp') = length (fst bp)"
  by (induction ts bp rule: subscribe_write.induct) (fastforce simp: Option.bind_eq_Some_conv dest: keeps_size)+

lemma unsubscribe_write_size [keeps_size]:
  "unsubscribe_write ts bp = Some bp' \<Longrightarrow> length (fst bp') = length (fst bp)"
  by (induction ts bp rule: unsubscribe_write.induct) (fastforce simp: Option.bind_eq_Some_conv dest: keeps_size)+

lemma serialize_ack_size [keeps_size]:
  "aws_iot_mqtt_internal_serialize_ack buf n t d i = Some (rc, b, k) \<Longrightarrow> length b = length buf"
  by (auto simp: aws_iot_mqtt_internal_serialize_ack_def Let_def Option.bind_eq_Some_conv
      split: if_splits prod.splits dest!: keeps_size)

lemma serialize_zero_size [keeps_size]:
  "aws_iot_mqtt_internal_serialize_zero buf n t = Some (rc, b, k) \<Longrightarrow> length b = length buf"
  by (auto simp: aws_iot_mqtt_internal_serialize_zero_def Let_def Option.bind_eq_Some_conv
      split: if_splits prod.splits dest!: keeps_size)

lemma serialize_publish_size [keeps_size]:
  "aws_iot_mqtt_internal_serialize_publish buf n d q r i t l p pl = Some (rc, b, k) \<Longrightarrow> length b = length buf"
  by (auto simp: aws_iot_mqtt_internal_serialize_publish_def Let_def Option.bind_eq_Some_conv
      split: if_splits prod.splits option.splits dest!: keeps_size)

lemma serialize_subscribe_size [keeps_size]:
  "aws_iot_mqtt_serialize_subscribe buf n d i ts = Some (rc, b, k) \<Longrightarrow> length b = length buf"
  by (auto simp: aws_iot_mqtt_serialize_subscribe_def Let_def Option.bind_eq_Some_conv
      split: if_splits prod.splits option.splits dest!: keeps_size)

lemma serialize_unsubscribe_size [keeps_size]:
  "aws_iot_mqtt_serialize_unsubscribe buf n d i ts = Some (rc, b, k) \<Longrightarrow> length b = length buf"
  by (auto simp: aws_iot_mqtt_serialize_unsubscribe_def Let_def Option.bind_eq_Some_conv
      split: if_splits prod.splits option.splits dest!: keeps_size)

lemma if_write_size:
  "(if P then aws_iot_mqtt_internal_write_utf8_string s l bp else Some bp) = Some bp' \<Longrightarrow> length (fst bp') = length (fst bp)"
  "(if P then aws_iot_mqtt_internal_write_uint_16 x bp else aws_iot_mqtt_internal_write_utf8_string s l bp) = Some bp' \<Longrightarrow>
     length (fst bp') = length (fst bp)"
  "(if P then Option.bind (aws_iot_mqtt_internal_write_utf8_string s l bp)
      (aws_iot_mqtt_internal_write_utf8_string s' l') else Some bp) = Some bp' \<Longrightarrow> length (fst bp') = length (fst bp)"
  by (auto simp: Option.bind_eq_Some_conv split: if_splits dest!: keeps_size)

lemma refuse_size:
  "(if P then Some (e, buf, 0) else m) = Some (rc, b, k) \<Longrightarrow> (m = Some (rc, b, k) \<Longrightarrow> length b = length buf) \<Longrightarrow>
     length b = length buf"
  by (auto split: if_splits)

lemma serialize_connect_size [keeps_size]:
  "aws_iot_mqtt_serialize_connect buf n p = Some (rc, b, k) \<Longrightarrow> length b = length buf"
  unfolding aws_iot_mqtt_serialize_connect_def Let_def
  by (elim refuse_size)
    (auto simp: init_header_eq Option.bind_eq_Some_conv split del: if_split elim!: refuse_size dest!: keeps_size if_write_size)


lemma sim_env_laws:
  "delivers sim_env sim_in" "full_writes sim_env" "callbacks_keep sim_env keeps_wf"
  "callbacks_keep sim_env keeps_state" "callbacks_keep sim_env keeps_table" "callbacks_keep sim_env keeps_rx"
  by (auto simp: delivers_def full_writes_def callbacks_keep_def sim_env_def keeps_wf_def keeps_state_def
      keeps_table_def keeps_rx_def)

subsection \<open>Delivery and waiting\<close>

lemma deliver_loop_eq:
  assumes "callbacks_keep E keeps_rx" and "topic + unat len \<le> length (readBuf c)"
    and "messageHandlers c = pre @ hs" and "length pre = i" and "length hs = k"
  shows "deliver_loop E k i topic len c msg w =
     run_handlers E (filter (\<lambda>h. handler_matches h (take (unat len) (drop topic (readBuf c))) len) hs) topic len c msg w"
  using assms(2-)
proof (induction hs arbitrary: pre i k c msg w)
  case (Cons h hs)
  let ?name = "take (unat len) (drop topic (readBuf c))"
  have nth: "messageHandlers c ! i = h" using Cons.prems by (simp add: nth_append)
  have slice: "rx_slice c topic (unat len) = Done ?name" using Cons.prems(1) by (simp add: rx_slice_def)
  have test: "(if topicName h = None then Done False
       else bnd (rx_slice c topic (unat len)) (\<lambda>name. Done (handler_matches h name len))) = Done (handler_matches h ?name len)"
    by (simp add: slice handler_matches_def)
  have rest: "deliver_loop E (length hs) (Suc i) topic len c' msg' w' =
     run_handlers E (filter (\<lambda>h. handler_matches h ?name len) hs) topic len c' msg' w'" if "keeps_rx c c'" for c' msg' w'
    using Cons.IH [of c' "pre @ [h]" "Suc i" "length hs" msg' w'] Cons.prems that by (simp add: keeps_rx_def)
  have refl: "keeps_rx c c" by (simp add: keeps_rx_def)
  show ?case
  proof (cases "pApplicationHandler h")
    case None
    then show ?thesis using Cons.prems(4) by (auto simp: nth test rest [OF refl] Let_def)
  next
    case (Some f)
    show ?thesis
      using Cons.prems(4) Some callbacks_keepD [OF assms(1), of f c topic len msg "pApplicationHandlerData h" w]
      by (cases "app_handler E f c topic len msg (pApplicationHandlerData h) w")
        (auto simp: nth test rest [OF refl] rest Let_def)
  qed
qed simp

lemma cycle_read_type:
  assumes "mt \<in> {CONNACK, PUBACK, SUBACK, UNSUBACK}" and "uint pt \<noteq> msg_code mt"
  shows "post (aws_iot_mqtt_internal_cycle_read E n c T pt w) (\<lambda>(rc, pt', c', w').
     uint pt' = msg_code mt \<longrightarrow> rc = SUCCESS \<and> pt' = ucast (h_type (header_of_byte (readBuf c' ! 0))))"
proof -
  have "post (aws_iot_mqtt_internal_read_packet E n c T w) (\<lambda>(rc, ptype, c', w').
     case ptype of None \<Rightarrow> True | Some t \<Rightarrow> rc = SUCCESS \<and> t = ucast (h_type (header_of_byte (readBuf c' ! 0))))"
    unfolding aws_iot_mqtt_internal_read_packet_def by (auto simp: Let_def split: prod.splits intro!: postI)
  then show ?thesis
    unfolding aws_iot_mqtt_internal_cycle_read_def post_bnd
    by (rule post_mono) (use assms in \<open>auto simp: Let_def split: prod.splits option.splits intro!: postI\<close>)
qed

lemma wait_loop_type:
  assumes "mt \<in> {CONNACK, PUBACK, SUBACK, UNSUBACK}"
  shows "uint pt \<noteq> msg_code mt \<Longrightarrow> post (wait_for_read_loop E n c mt pt T w) (\<lambda>(rc, pt', c', w').
     rc = MQTT_REQUEST_TIMEOUT_ERROR \<or> rc = NETWORK_DISCONNECTED_ERROR \<or>
     (rc = SUCCESS \<and> uint pt' = msg_code mt \<and> pt' = ucast (h_type (header_of_byte (readBuf c' ! 0)))))"
proof (induction n arbitrary: c pt w)
  case (Suc n)
  show ?case
    using cycle_read_type [OF assms Suc.prems]
    by (auto split: prod.splits intro!: Suc.IH post_mono [OF cycle_read_type [OF assms Suc.prems]])
qed simp

lemma deliver_msg:
  assumes "callbacks_keep_msg E"
  shows "post (deliver_loop E k i topic len c msg w) (\<lambda>(c', msg', w'). msg' = msg)"
proof (induction k arbitrary: i c w)
  case (Suc k)
  have app: "post (app_handler E f c topic len msg d w) (\<lambda>(c', msg', w'). msg' = msg)" for f c d w
    using assms unfolding callbacks_keep_msg_def by (cases "app_handler E f c topic len msg d w") (auto, blast)
  show ?case
    by (auto simp: Let_def rx_slice_def split: option.splits prod.splits
        intro!: Suc.IH post_mono [OF app])
qed simp

lemma deliver_message_msg:
  assumes "callbacks_keep_msg E"
  shows "post (aws_iot_mqtt_internal_deliver_message E c topic len msg w) (\<lambda>(rc, c', msg', w'). msg' = msg)"
  by (auto simp: aws_iot_mqtt_internal_deliver_message_def Let_def split: prod.splits
      intro!: post_mono [OF deliver_msg [OF assms]])

subsection \<open>Properties\<close>



text \<open>
  C4. Receiving from a stream: a packet with a body of at most 509 bytes is stored whole in the
  receive buffer and its type reported; one of 512 bytes or more is drained and refused; in both cases
  the stream is left at the next packet. A body of 510 or 511 bytes passes the size check and is
  written past the end of the receive buffer.
\<close>

theorem read_packet_from_stream:
  assumes "delivers E view" and "wf_client c" and "view w = packet h body @ rest"
    and "length body < 2 ^ 32" and "length (encode_len (length body)) \<le> n"
    and "length body \<le> AWS_IOT_MQTT_RX_BUF_LEN * n"
  shows "if length body \<le> 509 then
       \<exists>w'. aws_iot_mqtt_internal_read_packet E n c T w =
           Done (SUCCESS, Some (ucast (h_type (header_of_byte h))),
             c\<lparr>readBuf := packet h body @ drop (length (packet h body)) (readBuf c)\<rparr>, w') \<and> view w' = rest
     else if length body \<le> 511 then aws_iot_mqtt_internal_read_packet E n c T w = Fault
     else \<exists>c' w'. aws_iot_mqtt_internal_read_packet E n c T w = Done (MQTT_RX_BUFFER_TOO_SHORT_ERROR, None, c', w')
         \<and> view w' = rest"
  using read_packet_stream [OF assms] by auto

theorem read_packet_from_stream_witness:
  "aws_iot_mqtt_internal_read_packet sim_env 2 sim_client init_timer
     \<lparr>sim_in = packet 48 (replicate 511 7) @ [1, 2], sim_out = [], sim_clock = 0, sim_calls = []\<rparr> = Fault"
  using read_packet_from_stream [OF sim_env_laws(1) sim_client_wf,
      of "\<lparr>sim_in = packet 48 (replicate 511 7) @ [1, 2], sim_out = [], sim_clock = 0, sim_calls = []\<rparr>" 48
        "replicate 511 7" "[1, 2]" 2]
  by (simp add: config_defs encode_len.simps)

text \<open>
  C6. Delivery: when callbacks leave the handler table and the receive buffer alone, delivering a
  message calls exactly the handlers whose subscription matches the topic, each once, in the order of
  the table and with its own data, in the callback state, and puts the state back.
\<close>

theorem deliver_calls_matching:
  assumes "callbacks_keep E keeps_rx" and "topic + unat len \<le> length (readBuf c)" and "wf_client c"
  shows "aws_iot_mqtt_internal_deliver_message E c topic len msg w =
     bnd (run_handlers E
            (filter (\<lambda>h. handler_matches h (take (unat len) (drop topic (readBuf c))) len) (messageHandlers c))
            topic len (c\<lparr>clientState := CLIENT_STATE_CONNECTED_WAIT_FOR_CB_RETURN\<rparr>) msg w)
       (\<lambda>(c', msg', w'). case aws_iot_mqtt_set_client_state c' CLIENT_STATE_CONNECTED_WAIT_FOR_CB_RETURN (clientState c) of
          (rc, c'') \<Rightarrow> Done (rc, c'', msg', w'))"
  using assms deliver_loop_eq [OF assms(1), of topic len
      "c\<lparr>clientState := CLIENT_STATE_CONNECTED_WAIT_FOR_CB_RETURN\<rparr>" "[]" "messageHandlers c" 0]
  by (simp add: aws_iot_mqtt_internal_deliver_message_def Let_def aws_iot_mqtt_set_client_state_def [of c]
      aws_iot_mqtt_get_client_state_def wf_client_def)

text \<open>
  C7. Waiting for a reply ends only with a time-out, a lost connection, or success; success means that
  the packet now in the receive buffer has the type that was waited for.
\<close>

theorem wait_for_read_success:
  assumes "mt \<in> {CONNACK, PUBACK, SUBACK, UNSUBACK}"
    and "aws_iot_mqtt_internal_wait_for_read E n c mt T w = Done (rc, c', w')"
  shows "rc = MQTT_REQUEST_TIMEOUT_ERROR \<or> rc = NETWORK_DISCONNECTED_ERROR \<or>
     (rc = SUCCESS \<and> uint (ucast (h_type (header_of_byte (readBuf c' ! 0))) :: byte) = msg_code mt)"
proof -
  have "uint (0 :: u8) \<noteq> msg_code mt" using assms(1) by auto
  note loop = wait_loop_type [OF assms(1) this, of E n c T w]
  show ?thesis
    using assms(2) loop
    by (cases "wait_for_read_loop E n c mt 0 T w") (auto simp: aws_iot_mqtt_internal_wait_for_read_def split: if_splits)
qed

theorem deliver_calls_matching_witness:
  "\<exists>c' w'. aws_iot_mqtt_internal_deliver_message sim_env
     (sim_client\<lparr>readBuf := 97 # replicate 511 0,
        messageHandlers := \<lparr>topicName = Some [43], topicNameLen = 1, mh_qos = 0, pApplicationHandler = Some 7,
          pApplicationHandlerData = None\<rparr> # replicate 4 \<lparr>topicName = None, topicNameLen = 0, mh_qos = 0,
          pApplicationHandler = None, pApplicationHandlerData = None\<rparr>\<rparr>) 0 1
     \<lparr>rx_qos = 0, rx_isRetained = 0, rx_isDup = 0, rx_id = 0, rx_payload = 2, rx_payloadLen = 0\<rparr>
     \<lparr>sim_in = [], sim_out = [], sim_clock = 5, sim_calls = []\<rparr> =
   Done (SUCCESS, c', \<lparr>rx_qos = 0, rx_isRetained = 0, rx_isDup = 0, rx_id = 0, rx_payload = 2, rx_payloadLen = 0\<rparr>, w')
   \<and> sim_calls w' = [7] \<and> clientState c' = CLIENT_STATE_CONNECTED_IDLE"
  (is "\<exists>c' w'. aws_iot_mqtt_internal_deliver_message sim_env ?c 0 1 ?m ?w = _ c' w' \<and> _ c' w'")
proof -
  have "wf_client ?c" by (simp add: wf_client_def config_defs list_all_iff handler_ok_def)
  moreover have "0 + unat (1 :: u16) \<le> length (readBuf ?c)" by simp
  ultimately show ?thesis
    using deliver_calls_matching [OF sim_env_laws(6), of 0 1 ?c ?m ?w]
    by (simp add: handler_matches_def topic_chars aws_iot_mqtt_internal_is_topic_matched_def
        aws_iot_mqtt_set_client_state_def aws_iot_mqtt_get_client_state_def)
qed

theorem wait_for_read_success_witness:
  "\<exists>c' w'. aws_iot_mqtt_internal_wait_for_read sim_env (Suc (Suc (Suc 0))) sim_client PUBACK \<lparr>end_time = \<lparr>tv_sec = 9, tv_usec = 0\<rparr>\<rparr>
     \<lparr>sim_in = [64, 2, 0, 9], sim_out = [], sim_clock = 5, sim_calls = []\<rparr> = Done (SUCCESS, c', w')
     \<and> uint (ucast (h_type (header_of_byte (readBuf c' ! 0))) :: byte) = msg_code PUBACK"
proof -
  have "\<exists>c' w'. aws_iot_mqtt_internal_wait_for_read sim_env (Suc (Suc (Suc 0))) sim_client PUBACK \<lparr>end_time = \<lparr>tv_sec = 9, tv_usec = 0\<rparr>\<rparr>
     \<lparr>sim_in = [64, 2, 0, 9], sim_out = [], sim_clock = 5, sim_calls = []\<rparr> = Done (SUCCESS, c', w')"
    by (simp add: aws_iot_mqtt_internal_wait_for_read_def timer_expired_def has_timer_expired_def timersub_def
        aws_iot_mqtt_internal_cycle_read_def aws_iot_mqtt_internal_read_packet_def store_rx_eq
        aws_iot_mqtt_internal_decode_packet_remaining_len_def MAX_NO_OF_REMAINING_LENGTH_BYTES_def
        write_len_put put_eq_Some encode_len.simps header_of_byte_def Let_def)
  then show ?thesis using wait_for_read_success [of PUBACK sim_env] by blast
qed



text \<open>
  The guard against a remaining-length field of more than four bytes is ineffective: against a
  peer that keeps sending continuation bytes, reading the remaining length never returns, whatever
  the timer says, because the byte counter is overwritten by every read.
\<close>

theorem remaining_length_unbounded:
  assumes "\<And>T w. \<exists>w'. net_read E 1 T w = Done (SUCCESS, [128], 1, w')"
  shows "aws_iot_mqtt_internal_decode_packet_remaining_len E n T w = NoFuel"
  by (rule decode_remaining_diverges [OF assms])

theorem remaining_length_unbounded_witness:
  "\<forall>n. aws_iot_mqtt_internal_decode_packet_remaining_len
     (sim_env\<lparr>net_read := (\<lambda>len T w. Done (SUCCESS, [128], 1, w))\<rparr>) n init_timer
     \<lparr>sim_in = [], sim_out = [], sim_clock = 5, sim_calls = []\<rparr> = NoFuel"
  by (intro allI remaining_length_unbounded) simp

end
