(* ===== verification/Mqtt_Ops.thy ===== *)
theory Mqtt_Ops
  imports Mqtt_Transport
begin

text \<open>
  The operations of the MQTT client: connect, disconnect and reconnect
  (src/aws_iot_mqtt_client_connect.c), publish (src/aws_iot_mqtt_client_publish.c), subscribe and
  resubscribe (src/aws_iot_mqtt_client_subscribe.c), unsubscribe
  (src/aws_iot_mqtt_client_unsubscribe.c), keep-alive and yield (src/aws_iot_mqtt_client_yield.c).
  Each takes the environment, the fuel of its loops, the client and the world.
\<close>

subsection \<open>Connect\<close>

fun aws_iot_mqtt_is_client_state_valid_for_connect :: "ClientState \<Rightarrow> bool" where
  "aws_iot_mqtt_is_client_state_valid_for_connect CLIENT_STATE_INITIALIZED = True"
| "aws_iot_mqtt_is_client_state_valid_for_connect CLIENT_STATE_DISCONNECTED_ERROR = True"
| "aws_iot_mqtt_is_client_state_valid_for_connect CLIENT_STATE_DISCONNECTED_MANUALLY = True"
| "aws_iot_mqtt_is_client_state_valid_for_connect CLIENT_STATE_PENDING_RECONNECT = True"
| "aws_iot_mqtt_is_client_state_valid_for_connect _ = False"

definition aws_iot_mqtt_internal_connect ::
    "'w Env \<Rightarrow> nat \<Rightarrow> AWS_IoT_Client \<Rightarrow> IoT_Client_Connect_Params option \<Rightarrow> 'w \<Rightarrow> 'w outcome" where
  "aws_iot_mqtt_internal_connect E n c pConnectParams w =
     (let (rc, c) = (case pConnectParams of None \<Rightarrow> (SUCCESS, c)
                     | Some p \<Rightarrow> aws_iot_mqtt_set_connect_params c (Some p))
      in if rc \<noteq> SUCCESS then Done (MQTT_CONNECTION_ERROR, c, w)
      else bnd (net_connect E (networkStack c) None w) (\<lambda>(rc, net, w).
      let c = c\<lparr>networkStack := net\<rparr> in
      if rc \<noteq> SUCCESS then Done (rc, c, w)
      else case start_ms E (commandTimeoutMs c) w of (connect_timer, w) \<Rightarrow>
      let c = c\<lparr>keepAliveInterval := keepAliveIntervalInSec (options c)\<rparr> in
      bnd (of_opt (aws_iot_mqtt_serialize_connect (writeBuf c) (writeBufSize c) (options c))) (\<lambda>(rc, b, len).
      let c = c\<lparr>writeBuf := b\<rparr> in
      if rc \<noteq> SUCCESS \<or> len = 0 then Done (rc, c, w)
      else bnd (aws_iot_mqtt_internal_send_packet E n c len connect_timer w) (\<lambda>(rc, w).
      if rc \<noteq> SUCCESS then Done (rc, c, w)
      else bnd (aws_iot_mqtt_internal_wait_for_read E n c CONNACK connect_timer w) (\<lambda>(rc, c, w).
      if rc \<noteq> SUCCESS then Done (rc, c, w)
      else bnd (of_opt (aws_iot_mqtt_deserialize_connack (readBuf c) (readBufSize c))) (\<lambda>r.
      case r of Inl rc \<Rightarrow> Done (rc, c, w) | Inr (sessionPresent, connack_rc) \<Rightarrow>
      if connack_rc \<noteq> MQTT_CONNACK_CONNECTION_ACCEPTED then Done (connack_rc, c, w)
      else case start_sec E (ucast (keepAliveInterval c) div 2) w of (t, w) \<Rightarrow>
        Done (SUCCESS, c\<lparr>isPingOutstanding := False, pingTimer := t\<rparr>, w)))))))"

definition aws_iot_mqtt_connect ::
    "'w Env \<Rightarrow> nat \<Rightarrow> AWS_IoT_Client \<Rightarrow> IoT_Client_Connect_Params option \<Rightarrow> 'w \<Rightarrow> 'w outcome" where
  "aws_iot_mqtt_connect E n c pConnectParams w =
     (let state = aws_iot_mqtt_get_client_state c in
      if \<not> aws_iot_mqtt_is_client_state_valid_for_connect state then Done (NETWORK_ALREADY_CONNECTED_ERROR, c, w)
      else
      let c = snd (aws_iot_mqtt_set_client_state c state CLIENT_STATE_CONNECTING) in
      bnd (aws_iot_mqtt_internal_connect E n c pConnectParams w) (\<lambda>(rc, c, w).
      if rc \<noteq> SUCCESS then
        bnd (net_disconnect E w) (\<lambda>(drc, w).
        bnd (net_destroy E w) (\<lambda>(disconRc, w).
          Done (rc, snd (aws_iot_mqtt_set_client_state c CLIENT_STATE_CONNECTING CLIENT_STATE_DISCONNECTED_ERROR), w)))
      else Done (rc, snd (aws_iot_mqtt_set_client_state c CLIENT_STATE_CONNECTING CLIENT_STATE_CONNECTED_IDLE), w)))"

subsection \<open>Disconnect\<close>

definition aws_iot_mqtt_internal_disconnect :: "'w Env \<Rightarrow> nat \<Rightarrow> AWS_IoT_Client \<Rightarrow> 'w \<Rightarrow> 'w outcome" where
  "aws_iot_mqtt_internal_disconnect E n c w =
     bnd (of_opt (aws_iot_mqtt_internal_serialize_zero (writeBuf c) (writeBufSize c) DISCONNECT)) (\<lambda>(rc, b, serialized_len).
     let c = c\<lparr>writeBuf := b\<rparr> in
     if rc \<noteq> SUCCESS then Done (rc, c, w)
     else case start_ms E (commandTimeoutMs c) w of (timer, w) \<Rightarrow>
     bnd (if 0 < serialized_len then aws_iot_mqtt_internal_send_packet E n c serialized_len timer w
          else Done (SUCCESS, w)) (\<lambda>(rc, w).
     if rc \<noteq> SUCCESS then Done (rc, c, w)
     else bnd (net_disconnect E w) (\<lambda>(drc, w).
     bnd (net_destroy E w) (\<lambda>(rc, w).
     if rc \<noteq> SUCCESS then Done (FAILURE, c, w) else Done (SUCCESS, c, w)))))"

definition aws_iot_mqtt_disconnect :: "'w Env \<Rightarrow> nat \<Rightarrow> AWS_IoT_Client \<Rightarrow> 'w \<Rightarrow> 'w outcome" where
  "aws_iot_mqtt_disconnect E n c w =
     (let state = aws_iot_mqtt_get_client_state c in
      if \<not> aws_iot_mqtt_is_client_connected c then Done (NETWORK_DISCONNECTED_ERROR, c, w)
      else case aws_iot_mqtt_set_client_state c state CLIENT_STATE_DISCONNECTING of (rc, c) \<Rightarrow>
      if rc \<noteq> SUCCESS then Done (rc, c, w)
      else bnd (aws_iot_mqtt_internal_disconnect E n c w) (\<lambda>(rc, c, w).
        if rc \<noteq> SUCCESS then Done (rc, c\<lparr>clientState := state\<rparr>, w)
        else Done (rc, c\<lparr>clientState := CLIENT_STATE_DISCONNECTED_MANUALLY\<rparr>, w)))"

subsection \<open>Publish\<close>

text \<open>The caller's struct \<open>*pParams\<close> is updated (its \<open>id\<close>) and returned with the outcome.\<close>

definition aws_iot_mqtt_internal_publish ::
    "'w Env \<Rightarrow> nat \<Rightarrow> AWS_IoT_Client \<Rightarrow> cstring \<Rightarrow> u16 \<Rightarrow> IoT_Publish_Message_Params \<Rightarrow> 'w
       \<Rightarrow> (IoT_Error_t \<times> IoT_Publish_Message_Params \<times> AWS_IoT_Client \<times> 'w) run" where
  "aws_iot_mqtt_internal_publish E n c pTopicName len p w =
     (case start_ms E (commandTimeoutMs c) w of (timer, w) \<Rightarrow>
      let (p, c) = (if pub_qos p = QOS1
                    then (case aws_iot_mqtt_get_next_packet_id c of (i, c) \<Rightarrow> (p\<lparr>pub_id := i\<rparr>, c)) else (p, c)) in
      bnd (of_opt (aws_iot_mqtt_internal_serialize_publish (writeBuf c) (writeBufSize c) 0 (pub_qos p)
             (pub_isRetained p) (pub_id p) pTopicName len (pub_payload p) (pub_payloadLen p))) (\<lambda>(rc, b, len).
      let c = c\<lparr>writeBuf := b\<rparr> in
      if rc \<noteq> SUCCESS then Done (rc, p, c, w)
      else bnd (aws_iot_mqtt_internal_send_packet E n c len timer w) (\<lambda>(rc, w).
      if rc \<noteq> SUCCESS then Done (rc, p, c, w)
      else if pub_qos p = QOS1 then
        bnd (aws_iot_mqtt_internal_wait_for_read E n c PUBACK timer w) (\<lambda>(rc, c, w).
        if rc \<noteq> SUCCESS then Done (rc, p, c, w)
        else bnd (of_opt (aws_iot_mqtt_internal_deserialize_ack (readBuf c) (readBufSize c))) (\<lambda>r.
        case r of Inl rc \<Rightarrow> Done (rc, p, c, w) | Inr (type, dup, packet_id) \<Rightarrow> Done (SUCCESS, p, c, w)))
      else Done (SUCCESS, p, c, w))))"

text \<open>The states in which an operation may start: idle, or inside a callback.\<close>

definition may_start :: "ClientState \<Rightarrow> bool" where
  "may_start s \<longleftrightarrow> s = CLIENT_STATE_CONNECTED_IDLE \<or> s = CLIENT_STATE_CONNECTED_WAIT_FOR_CB_RETURN"

definition aws_iot_mqtt_publish ::
    "'w Env \<Rightarrow> nat \<Rightarrow> AWS_IoT_Client \<Rightarrow> cstring option \<Rightarrow> u16 \<Rightarrow> IoT_Publish_Message_Params option \<Rightarrow> 'w
       \<Rightarrow> (IoT_Error_t \<times> IoT_Publish_Message_Params option \<times> AWS_IoT_Client \<times> 'w) run" where
  "aws_iot_mqtt_publish E n c pTopicName len pParams w =
     (if pTopicName = None \<or> len = 0 \<or> pParams = None then Done (NULL_VALUE_ERROR, pParams, c, w)
      else if \<not> aws_iot_mqtt_is_client_connected c then Done (NETWORK_DISCONNECTED_ERROR, pParams, c, w)
      else
      let state = aws_iot_mqtt_get_client_state c in
      if \<not> may_start state then Done (MQTT_CLIENT_NOT_IDLE_ERROR, pParams, c, w)
      else case aws_iot_mqtt_set_client_state c state CLIENT_STATE_CONNECTED_PUBLISH_IN_PROGRESS of (rc, c) \<Rightarrow>
      if rc \<noteq> SUCCESS then Done (rc, pParams, c, w)
      else bnd (aws_iot_mqtt_internal_publish E n c (the pTopicName) len (the pParams) w) (\<lambda>(pubRc, p, c, w).
      case aws_iot_mqtt_set_client_state c CLIENT_STATE_CONNECTED_PUBLISH_IN_PROGRESS state of (rc, c) \<Rightarrow>
        Done (if pubRc = SUCCESS \<and> rc \<noteq> SUCCESS then rc else pubRc, Some p, c, w)))"

subsection \<open>Subscribe\<close>

definition aws_iot_mqtt_get_free_message_handler_index :: "AWS_IoT_Client \<Rightarrow> nat" where
  "aws_iot_mqtt_get_free_message_handler_index c =
     length (takeWhile (\<lambda>h. topicName h \<noteq> None) (messageHandlers c))"

definition aws_iot_mqtt_internal_subscribe ::
    "'w Env \<Rightarrow> nat \<Rightarrow> AWS_IoT_Client \<Rightarrow> cstring \<Rightarrow> u16 \<Rightarrow> QoS \<Rightarrow> nat option \<Rightarrow> nat option \<Rightarrow> 'w \<Rightarrow> 'w outcome" where
  "aws_iot_mqtt_internal_subscribe E n c pTopicName len qos handler handlerData w =
     (case start_ms E (commandTimeoutMs c) w of (timer, w) \<Rightarrow>
      case aws_iot_mqtt_get_next_packet_id c of (txPacketId, c) \<Rightarrow>
      bnd (of_opt (aws_iot_mqtt_serialize_subscribe (writeBuf c) (writeBufSize c) 0 txPacketId
             [(Some pTopicName, len, qos)])) (\<lambda>(rc, b, serializedLen).
      let c = c\<lparr>writeBuf := b\<rparr> in
      if rc \<noteq> SUCCESS then Done (rc, c, w)
      else
      let indexOfFree = aws_iot_mqtt_get_free_message_handler_index c in
      if AWS_IOT_MQTT_NUM_SUBSCRIBE_HANDLERS \<le> indexOfFree then Done (MQTT_MAX_SUBSCRIPTIONS_REACHED_ERROR, c, w)
      else bnd (aws_iot_mqtt_internal_send_packet E n c serializedLen timer w) (\<lambda>(rc, w).
      if rc \<noteq> SUCCESS then Done (rc, c, w)
      else bnd (aws_iot_mqtt_internal_wait_for_read E n c SUBACK timer w) (\<lambda>(rc, c, w).
      if rc \<noteq> SUCCESS then Done (rc, c, w)
      else bnd (of_opt (aws_iot_mqtt_deserialize_suback 1 [QOS0, QOS0, QOS0] (readBuf c) (readBufSize c))) (\<lambda>r.
      case r of Inl rc \<Rightarrow> Done (rc, c, w) | Inr (rxPacketId, count, granted) \<Rightarrow>
        Done (SUCCESS, c\<lparr>messageHandlers := (messageHandlers c)[indexOfFree :=
           \<lparr>topicName = Some pTopicName, topicNameLen = len, mh_qos = qos, pApplicationHandler = handler,
            pApplicationHandlerData = handlerData\<rparr>]\<rparr>, w))))))"

definition aws_iot_mqtt_subscribe ::
    "'w Env \<Rightarrow> nat \<Rightarrow> AWS_IoT_Client \<Rightarrow> cstring option \<Rightarrow> u16 \<Rightarrow> QoS \<Rightarrow> nat option \<Rightarrow> nat option \<Rightarrow> 'w \<Rightarrow> 'w outcome" where
  "aws_iot_mqtt_subscribe E n c pTopicName len qos handler handlerData w =
     (if pTopicName = None \<or> handler = None then Done (NULL_VALUE_ERROR, c, w)
      else if \<not> aws_iot_mqtt_is_client_connected c then Done (NETWORK_DISCONNECTED_ERROR, c, w)
      else
      let state = aws_iot_mqtt_get_client_state c in
      if \<not> may_start state then Done (MQTT_CLIENT_NOT_IDLE_ERROR, c, w)
      else case aws_iot_mqtt_set_client_state c state CLIENT_STATE_CONNECTED_SUBSCRIBE_IN_PROGRESS of (rc, c) \<Rightarrow>
      if rc \<noteq> SUCCESS then Done (rc, c, w)
      else bnd (aws_iot_mqtt_internal_subscribe E n c (the pTopicName) len qos handler handlerData w) (\<lambda>(subRc, c, w).
      case aws_iot_mqtt_set_client_state c CLIENT_STATE_CONNECTED_SUBSCRIBE_IN_PROGRESS state of (rc, c) \<Rightarrow>
        Done (if subRc = SUCCESS \<and> rc \<noteq> SUCCESS then rc else subRc, c, w)))"

text \<open>The loop of \<open>_aws_iot_mqtt_internal_resubscribe\<close> from entry \<open>itr\<close> on, \<open>k\<close> entries left.\<close>

primrec resubscribe_loop :: "'w Env \<Rightarrow> nat \<Rightarrow> nat \<Rightarrow> nat \<Rightarrow> AWS_IoT_Client \<Rightarrow> 'w \<Rightarrow> 'w outcome" where
  "resubscribe_loop E n 0 itr c w = Done (SUCCESS, c, w)"
| "resubscribe_loop E n (Suc k) itr c w =
     (case start_ms E (commandTimeoutMs c) w of (timer, w) \<Rightarrow>
      case aws_iot_mqtt_get_next_packet_id c of (packetId, c) \<Rightarrow>
      let h = messageHandlers c ! itr in
      bnd (of_opt (aws_iot_mqtt_serialize_subscribe (writeBuf c) (writeBufSize c) 0 packetId
             [(topicName h, topicNameLen h, mh_qos h)])) (\<lambda>(rc, b, len).
      let c = c\<lparr>writeBuf := b\<rparr> in
      if rc \<noteq> SUCCESS then Done (rc, c, w)
      else bnd (aws_iot_mqtt_internal_send_packet E n c len timer w) (\<lambda>(rc, w).
      if rc \<noteq> SUCCESS then Done (rc, c, w)
      else bnd (aws_iot_mqtt_internal_wait_for_read E n c SUBACK timer w) (\<lambda>(rc, c, w).
      if rc \<noteq> SUCCESS then Done (rc, c, w)
      else bnd (of_opt (aws_iot_mqtt_deserialize_suback 1 [QOS0, QOS0, QOS0] (readBuf c) (readBufSize c))) (\<lambda>r.
      case r of Inl rc \<Rightarrow> Done (rc, c, w) | Inr _ \<Rightarrow> resubscribe_loop E n k (Suc itr) c w)))))"

definition aws_iot_mqtt_internal_resubscribe :: "'w Env \<Rightarrow> nat \<Rightarrow> AWS_IoT_Client \<Rightarrow> 'w \<Rightarrow> 'w outcome" where
  "aws_iot_mqtt_internal_resubscribe E n c w =
     resubscribe_loop E n (aws_iot_mqtt_get_free_message_handler_index c) 0 c w"

definition aws_iot_mqtt_resubscribe :: "'w Env \<Rightarrow> nat \<Rightarrow> AWS_IoT_Client \<Rightarrow> 'w \<Rightarrow> 'w outcome" where
  "aws_iot_mqtt_resubscribe E n c w =
     (if \<not> aws_iot_mqtt_is_client_connected c then Done (NETWORK_DISCONNECTED_ERROR, c, w)
      else if aws_iot_mqtt_get_client_state c \<noteq> CLIENT_STATE_CONNECTED_IDLE
      then Done (MQTT_CLIENT_NOT_IDLE_ERROR, c, w)
      else case aws_iot_mqtt_set_client_state c CLIENT_STATE_CONNECTED_IDLE
                  CLIENT_STATE_CONNECTED_RESUBSCRIBE_IN_PROGRESS of (rc, c) \<Rightarrow>
      if rc \<noteq> SUCCESS then Done (rc, c, w)
      else bnd (aws_iot_mqtt_internal_resubscribe E n c w) (\<lambda>(resubRc, c, w).
      case aws_iot_mqtt_set_client_state c CLIENT_STATE_CONNECTED_RESUBSCRIBE_IN_PROGRESS
             CLIENT_STATE_CONNECTED_IDLE of (rc, c) \<Rightarrow>
        Done (if resubRc = SUCCESS \<and> rc \<noteq> SUCCESS then rc else resubRc, c, w)))"

subsection \<open>Unsubscribe\<close>

text \<open>\<open>topicName != NULL && strcmp(topicName, pTopicFilter) == 0\<close>.\<close>

definition registered_for :: "cstring \<Rightarrow> MessageHandlers \<Rightarrow> bool" where
  "registered_for f h \<longleftrightarrow> topicName h = Some f"

definition aws_iot_mqtt_internal_unsubscribe ::
    "'w Env \<Rightarrow> nat \<Rightarrow> AWS_IoT_Client \<Rightarrow> cstring \<Rightarrow> u16 \<Rightarrow> 'w \<Rightarrow> 'w outcome" where
  "aws_iot_mqtt_internal_unsubscribe E n c pTopicFilter len w =
     (if \<not> list_ex (registered_for pTopicFilter) (messageHandlers c) then Done (FAILURE, c, w)
      else case start_ms E (commandTimeoutMs c) w of (timer, w) \<Rightarrow>
      case aws_iot_mqtt_get_next_packet_id c of (packetId, c) \<Rightarrow>
      bnd (of_opt (aws_iot_mqtt_serialize_unsubscribe (writeBuf c) (writeBufSize c) 0 packetId
             [(Some pTopicFilter, len)])) (\<lambda>(rc, b, serializedLen).
      let c = c\<lparr>writeBuf := b\<rparr> in
      if rc \<noteq> SUCCESS then Done (rc, c, w)
      else bnd (aws_iot_mqtt_internal_send_packet E n c serializedLen timer w) (\<lambda>(rc, w).
      if rc \<noteq> SUCCESS then Done (rc, c, w)
      else bnd (aws_iot_mqtt_internal_wait_for_read E n c UNSUBACK timer w) (\<lambda>(rc, c, w).
      if rc \<noteq> SUCCESS then Done (rc, c, w)
      else bnd (of_opt (aws_iot_mqtt_deserialize_unsuback (readBuf c) (readBufSize c))) (\<lambda>r.
      case r of Inl rc \<Rightarrow> Done (rc, c, w) | Inr packet_id \<Rightarrow>
        Done (SUCCESS, c\<lparr>messageHandlers := map (\<lambda>h. if registered_for pTopicFilter h then h\<lparr>topicName := None\<rparr> else h)
           (messageHandlers c)\<rparr>, w))))))"

definition aws_iot_mqtt_unsubscribe ::
    "'w Env \<Rightarrow> nat \<Rightarrow> AWS_IoT_Client \<Rightarrow> cstring option \<Rightarrow> u16 \<Rightarrow> 'w \<Rightarrow> 'w outcome" where
  "aws_iot_mqtt_unsubscribe E n c pTopicFilter len w =
     (if pTopicFilter = None then Done (NULL_VALUE_ERROR, c, w)
      else if \<not> aws_iot_mqtt_is_client_connected c then Done (NETWORK_DISCONNECTED_ERROR, c, w)
      else
      let state = aws_iot_mqtt_get_client_state c in
      if \<not> may_start state then Done (MQTT_CLIENT_NOT_IDLE_ERROR, c, w)
      else case aws_iot_mqtt_set_client_state c state CLIENT_STATE_CONNECTED_UNSUBSCRIBE_IN_PROGRESS of (rc, c) \<Rightarrow>
      if rc \<noteq> SUCCESS then
        (case aws_iot_mqtt_set_client_state c CLIENT_STATE_CONNECTED_UNSUBSCRIBE_IN_PROGRESS state of
           (rc, c) \<Rightarrow> Done (rc, c, w))
      else bnd (aws_iot_mqtt_internal_unsubscribe E n c (the pTopicFilter) len w) (\<lambda>(unsubRc, c, w).
      case aws_iot_mqtt_set_client_state c CLIENT_STATE_CONNECTED_UNSUBSCRIBE_IN_PROGRESS state of (rc, c) \<Rightarrow>
        Done (if unsubRc = SUCCESS \<and> rc \<noteq> SUCCESS then rc else unsubRc, c, w)))"

subsection \<open>Reconnect\<close>

definition aws_iot_mqtt_attempt_reconnect :: "'w Env \<Rightarrow> nat \<Rightarrow> AWS_IoT_Client \<Rightarrow> 'w \<Rightarrow> 'w outcome" where
  "aws_iot_mqtt_attempt_reconnect E n c w =
     (if aws_iot_mqtt_is_client_connected c then Done (NETWORK_ALREADY_CONNECTED_ERROR, c, w)
      else bnd (aws_iot_mqtt_connect E n c None w) (\<lambda>(rc, c, w).
      if aws_iot_mqtt_get_client_state c \<noteq> CLIENT_STATE_CONNECTED_IDLE
      then Done (NETWORK_ATTEMPTING_RECONNECT,
        snd (aws_iot_mqtt_set_client_state c CLIENT_STATE_DISCONNECTED_ERROR CLIENT_STATE_PENDING_RECONNECT), w)
      else bnd (aws_iot_mqtt_resubscribe E n c w) (\<lambda>(rc, c, w).
        if rc \<noteq> SUCCESS then Done (rc, c, w) else Done (NETWORK_RECONNECTED, c, w))))"

subsection \<open>Keep-alive and yield\<close>

definition aws_iot_mqtt_force_client_disconnect :: "'w Env \<Rightarrow> AWS_IoT_Client \<Rightarrow> 'w \<Rightarrow> (AWS_IoT_Client \<times> 'w) run" where
  "aws_iot_mqtt_force_client_disconnect E c w =
     (let c = c\<lparr>clientState := CLIENT_STATE_DISCONNECTED_ERROR\<rparr> in
      bnd (net_disconnect E w) (\<lambda>(rc, w). bnd (net_destroy E w) (\<lambda>(rc, w). Done (c, w))))"

definition aws_iot_mqtt_handle_disconnect :: "'w Env \<Rightarrow> nat \<Rightarrow> AWS_IoT_Client \<Rightarrow> 'w \<Rightarrow> 'w outcome" where
  "aws_iot_mqtt_handle_disconnect E n c w =
     bnd (aws_iot_mqtt_disconnect E n c w) (\<lambda>(rc, c, w).
     bnd (if rc \<noteq> SUCCESS then aws_iot_mqtt_force_client_disconnect E c w else Done (c, w)) (\<lambda>(c, w).
     bnd (case disconnectHandler c of None \<Rightarrow> Done (c, w)
          | Some f \<Rightarrow> disc_handler E f c (disconnectHandlerData c) w) (\<lambda>(c, w).
     Done (NETWORK_DISCONNECTED_ERROR, c\<lparr>clientState := CLIENT_STATE_DISCONNECTED_ERROR\<rparr>, w))))"

definition aws_iot_mqtt_handle_reconnect :: "'w Env \<Rightarrow> nat \<Rightarrow> AWS_IoT_Client \<Rightarrow> 'w \<Rightarrow> 'w outcome" where
  "aws_iot_mqtt_handle_reconnect E n c w =
     (case timer_expired E (reconnectDelayTimer c) w of (expired, w) \<Rightarrow>
      if \<not> expired then Done (NETWORK_ATTEMPTING_RECONNECT, c, w)
      else
      let (rc, w) = (case net_isConnected E of None \<Rightarrow> (NETWORK_PHYSICAL_LAYER_DISCONNECTED, w) | Some f \<Rightarrow> f w) in
      bnd (if rc = NETWORK_PHYSICAL_LAYER_CONNECTED then aws_iot_mqtt_attempt_reconnect E n c w
           else Done (rc, c, w)) (\<lambda>(rc2, c, w).
      if rc = NETWORK_PHYSICAL_LAYER_CONNECTED \<and> rc2 = NETWORK_RECONNECTED then
        (case aws_iot_mqtt_set_client_state c CLIENT_STATE_CONNECTED_IDLE CLIENT_STATE_CONNECTED_YIELD_IN_PROGRESS of
           (rc, c) \<Rightarrow> if rc \<noteq> SUCCESS then Done (rc, c, w) else Done (NETWORK_RECONNECTED, c, w))
      else
      let c = c\<lparr>currentReconnectWaitInterval := currentReconnectWaitInterval c * 2\<rparr> in
      if AWS_IOT_MQTT_MAX_RECONNECT_WAIT_INTERVAL < currentReconnectWaitInterval c
      then Done (NETWORK_RECONNECT_TIMED_OUT_ERROR, c, w)
      else case start_ms E (currentReconnectWaitInterval c) w of (t, w) \<Rightarrow>
        Done (rc2, c\<lparr>reconnectDelayTimer := t\<rparr>, w)))"

definition aws_iot_mqtt_keep_alive :: "'w Env \<Rightarrow> nat \<Rightarrow> AWS_IoT_Client \<Rightarrow> 'w \<Rightarrow> 'w outcome" where
  "aws_iot_mqtt_keep_alive E n c w =
     (if keepAliveInterval c = 0 then Done (SUCCESS, c, w)
      else case timer_expired E (pingTimer c) w of (expired, w) \<Rightarrow>
      if \<not> expired then Done (SUCCESS, c, w)
      else if isPingOutstanding c then aws_iot_mqtt_handle_disconnect E n c w
      else case start_ms E (commandTimeoutMs c) w of (timer, w) \<Rightarrow>
      bnd (of_opt (aws_iot_mqtt_internal_serialize_zero (writeBuf c) (writeBufSize c) PINGREQ)) (\<lambda>(rc, b, serialized_len).
      let c = c\<lparr>writeBuf := b\<rparr> in
      if rc \<noteq> SUCCESS then Done (rc, c, w)
      else bnd (aws_iot_mqtt_internal_send_packet E n c serialized_len timer w) (\<lambda>(rc, w).
      if rc \<noteq> SUCCESS then aws_iot_mqtt_handle_disconnect E n c w
      else case start_sec E (ucast (keepAliveInterval c) div 2) w of (t, w) \<Rightarrow>
        Done (SUCCESS, c\<lparr>isPingOutstanding := True, pingTimer := t\<rparr>, w))))"

text \<open>
  The \<open>while\<close> loop of \<open>_aws_iot_mqtt_internal_yield\<close>. The local \<open>packet_type\<close> is not initialised; it
  is read only after a packet has been received.
\<close>

primrec yield_loop :: "'w Env \<Rightarrow> nat \<Rightarrow> AWS_IoT_Client \<Rightarrow> IoT_Error_t \<Rightarrow> Timer \<Rightarrow> 'w \<Rightarrow> 'w outcome" where
  "yield_loop E 0 c yieldRc timer w = NoFuel"
| "yield_loop E (Suc n) c yieldRc timer w =
     (case timer_expired E timer w of (expired, w) \<Rightarrow>
      if expired then Done (yieldRc, c, w)
      else if aws_iot_mqtt_get_client_state c = CLIENT_STATE_PENDING_RECONNECT then
        if AWS_IOT_MQTT_MAX_RECONNECT_WAIT_INTERVAL < currentReconnectWaitInterval c
        then Done (NETWORK_RECONNECT_TIMED_OUT_ERROR, c, w)
        else bnd (aws_iot_mqtt_handle_reconnect E n c w) (\<lambda>(yieldRc, c, w). yield_loop E n c yieldRc timer w)
      else
      bnd (aws_iot_mqtt_internal_cycle_read E n c timer (uninit_byte E) w) (\<lambda>(yieldRc, packet_type, c, w).
      if yieldRc \<noteq> SUCCESS then Done (yieldRc, c, w)
      else bnd (aws_iot_mqtt_keep_alive E n c w) (\<lambda>(yieldRc, c, w).
      if yieldRc = NETWORK_DISCONNECTED_ERROR then
        let c = c\<lparr>counterNetworkDisconnected := counterNetworkDisconnected c + 1\<rparr> in
        if isAutoReconnectEnabled c then
          (case aws_iot_mqtt_set_client_state c CLIENT_STATE_DISCONNECTED_ERROR CLIENT_STATE_PENDING_RECONNECT of
             (yieldRc, c) \<Rightarrow>
           if yieldRc \<noteq> SUCCESS then Done (yieldRc, c, w)
           else
           let c = c\<lparr>currentReconnectWaitInterval := AWS_IOT_MQTT_MIN_RECONNECT_WAIT_INTERVAL\<rparr> in
           case start_ms E (currentReconnectWaitInterval c) w of (t, w) \<Rightarrow>
             yield_loop E n (c\<lparr>reconnectDelayTimer := t\<rparr>) NETWORK_ATTEMPTING_RECONNECT timer w)
        else Done (yieldRc, c, w)
      else if yieldRc \<noteq> SUCCESS then Done (yieldRc, c, w)
      else yield_loop E n c yieldRc timer w)))"

definition aws_iot_mqtt_internal_yield :: "'w Env \<Rightarrow> nat \<Rightarrow> AWS_IoT_Client \<Rightarrow> u32 \<Rightarrow> 'w \<Rightarrow> 'w outcome" where
  "aws_iot_mqtt_internal_yield E n c timeout_ms w =
     (case start_ms E timeout_ms w of (timer, w) \<Rightarrow> yield_loop E n c SUCCESS timer w)"

definition aws_iot_mqtt_yield :: "'w Env \<Rightarrow> nat \<Rightarrow> AWS_IoT_Client \<Rightarrow> u32 \<Rightarrow> 'w \<Rightarrow> 'w outcome" where
  "aws_iot_mqtt_yield E n c timeout_ms w =
     (if timeout_ms = 0 then Done (NULL_VALUE_ERROR, c, w)
      else
      let state = aws_iot_mqtt_get_client_state c in
      if state = CLIENT_STATE_DISCONNECTED_MANUALLY then Done (NETWORK_MANUALLY_DISCONNECTED, c, w)
      else if state \<noteq> CLIENT_STATE_PENDING_RECONNECT \<and> \<not> aws_iot_mqtt_is_client_connected c
      then Done (NETWORK_DISCONNECTED_ERROR, c, w)
      else if state \<noteq> CLIENT_STATE_PENDING_RECONNECT \<and> state \<noteq> CLIENT_STATE_CONNECTED_IDLE
      then Done (MQTT_CLIENT_NOT_IDLE_ERROR, c, w)
      else
      let (rc, c) = (if state \<noteq> CLIENT_STATE_PENDING_RECONNECT
            then aws_iot_mqtt_set_client_state c CLIENT_STATE_CONNECTED_IDLE CLIENT_STATE_CONNECTED_YIELD_IN_PROGRESS
            else (SUCCESS, c)) in
      if rc \<noteq> SUCCESS then Done (rc, c, w)
      else bnd (aws_iot_mqtt_internal_yield E n c timeout_ms w) (\<lambda>(yieldRc, c, w).
        if yieldRc \<noteq> NETWORK_DISCONNECTED_ERROR \<and> yieldRc \<noteq> NETWORK_ATTEMPTING_RECONNECT then
          (case aws_iot_mqtt_set_client_state c CLIENT_STATE_CONNECTED_YIELD_IN_PROGRESS CLIENT_STATE_CONNECTED_IDLE of
             (rc, c) \<Rightarrow> Done (if yieldRc = SUCCESS \<and> rc \<noteq> SUCCESS then rc else yieldRc, c, w))
        else Done (yieldRc, c, w)))"

text \<open>Publish without the caller's struct, which it returns with the packet id filled in.\<close>

definition drop_params :: "(IoT_Error_t \<times> 'p \<times> AWS_IoT_Client \<times> 'w) run \<Rightarrow> 'w outcome" where
  "drop_params m = bnd m (\<lambda>(rc, p, c, w). Done (rc, c, w))"

subsection \<open>Frame conditions of the operations\<close>

locale operation_relation = client_relation E R
  for E :: "'w Env" and R +
  fixes okh :: "MessageHandlers \<Rightarrow> bool"
  assumes R_pid: "i \<noteq> 0 \<Longrightarrow> R c (c\<lparr>nextPacketId := i\<rparr>)"
    and R_sub: "okh h \<Longrightarrow> R c (c\<lparr>messageHandlers := (messageHandlers c)[k := h]\<rparr>)"
    and R_unsub: "R c (c\<lparr>messageHandlers := map (\<lambda>h. if registered_for f h then h\<lparr>topicName := None\<rparr> else h)
           (messageHandlers c)\<rparr>)"
begin

lemma next_id_R: "aws_iot_mqtt_get_next_packet_id c = (i, c') \<Longrightarrow> R c c'"
  using R_pid [OF next_packet_id_pos, of c c]
  by (auto simp: aws_iot_mqtt_get_next_packet_id_def Let_def split del: if_split)

lemma tx_R: "R c0 c \<Longrightarrow> length b = length (writeBuf c) \<Longrightarrow> R c0 (c\<lparr>writeBuf := b\<rparr>)"
  using R_trans R_tx by blast

lemma wait_R: "R c0 c \<Longrightarrow> post (aws_iot_mqtt_internal_wait_for_read E n c mt T w) (\<lambda>(rc, c', w'). R c0 c')"
  by (rule post_mono [OF wait_for_read_R]) (auto intro: R_trans)

lemma next_id_R': "R c0 c \<Longrightarrow> aws_iot_mqtt_get_next_packet_id c = (i, c') \<Longrightarrow> R c0 c'"
  using R_trans next_id_R by blast

lemma publish_R: "post (aws_iot_mqtt_internal_publish E n c t l p w) (\<lambda>(rc, p', c', w'). R c c')"
  unfolding aws_iot_mqtt_internal_publish_def
  by (auto simp: Let_def R_refl split: prod.splits sum.splits if_splits
      intro!: postI [of "aws_iot_mqtt_internal_send_packet _ _ _ _ _ _"] post_mono [OF wait_R] tx_R dest!: keeps_size
      intro: next_id_R' [OF R_refl])

lemma subscribe_R:
  assumes "okh \<lparr>topicName = Some t, topicNameLen = l, mh_qos = q, pApplicationHandler = h, pApplicationHandlerData = d\<rparr>"
  shows "post (aws_iot_mqtt_internal_subscribe E n c t l q h d w) (\<lambda>(rc, c', w'). R c c')"
  unfolding aws_iot_mqtt_internal_subscribe_def
  by (auto simp: Let_def R_refl split: prod.splits sum.splits if_splits
      intro!: postI [of "aws_iot_mqtt_internal_send_packet _ _ _ _ _ _"] post_mono [OF wait_R] tx_R
        R_trans [OF _ R_sub [OF assms]] dest!: keeps_size
      intro: next_id_R' [OF R_refl])

lemma unsubscribe_R:
  shows "post (aws_iot_mqtt_internal_unsubscribe E n c t l w) (\<lambda>(rc, c', w'). R c c')"
  unfolding aws_iot_mqtt_internal_unsubscribe_def
  by (auto simp: Let_def R_refl split: prod.splits sum.splits if_splits
      intro!: postI [of "aws_iot_mqtt_internal_send_packet _ _ _ _ _ _"] post_mono [OF wait_R] tx_R
        R_trans [OF _ R_unsub] dest!: keeps_size
      intro: next_id_R' [OF R_refl])

lemma resubscribe_loop_R: "R c0 c \<Longrightarrow> post (resubscribe_loop E n k i c w) (\<lambda>(rc, c', w'). R c0 c')"
proof (induction k arbitrary: i c w)
  case (Suc k)
  then show ?case
    by (auto simp: Let_def split: prod.splits sum.splits if_splits
        intro!: postI [of "aws_iot_mqtt_internal_send_packet _ _ _ _ _ _"] post_mono [OF wait_R] tx_R Suc.IH
        dest!: keeps_size intro: next_id_R' [OF Suc.prems])
qed simp

lemma resubscribe_R: "post (aws_iot_mqtt_internal_resubscribe E n c w) (\<lambda>(rc, c', w'). R c c')"
  unfolding aws_iot_mqtt_internal_resubscribe_def by (rule resubscribe_loop_R [OF R_refl])

end

interpretation wf_op: operation_relation E "\<lambda>c c'. callbacks_keep E keeps_wf \<longrightarrow> keeps_wf c c'" handler_ok for E :: "'w Env"
proof (unfold_locales, goal_cases)
  case (2 h c k)
  then show ?case
    by (auto simp: keeps_wf_def wf_client_def list_all_iff dest: set_update_subset_insert [THEN subsetD])
next
  case (3 c f)
  then show ?case by (auto simp: keeps_wf_def wf_client_def list_all_iff handler_ok_def)
qed (simp add: keeps_wf_def wf_client_def)

interpretation state_op: operation_relation E "\<lambda>c c'. callbacks_keep E keeps_state \<longrightarrow> keeps_state c c'" "\<lambda>h. True" for E :: "'w Env"
  by unfold_locales (simp_all add: keeps_state_def)

subsection \<open>Operations that run in a busy state\<close>

text \<open>
  Publish, subscribe, unsubscribe and resubscribe share their outer shape: refuse missing arguments,
  refuse when the client is not connected or not free to start, enter a state of their own, run the
  inner operation, and go back to the state they found.
\<close>

locale busy_operation =
  fixes outer inner :: "AWS_IoT_Client \<Rightarrow> 'w \<Rightarrow> 'w outcome"
    and missing :: bool and start :: "ClientState \<Rightarrow> bool" and busy :: ClientState
  assumes start_connected: "start s \<Longrightarrow> connected_state s"
    and outer_eq: "outer c w =
     (if missing then Done (NULL_VALUE_ERROR, c, w)
      else if \<not> connected_state (clientState c) then Done (NETWORK_DISCONNECTED_ERROR, c, w)
      else if \<not> start (clientState c) then Done (MQTT_CLIENT_NOT_IDLE_ERROR, c, w)
      else bnd (inner (c\<lparr>clientState := busy\<rparr>) w) (\<lambda>(rc, c', w').
        case aws_iot_mqtt_set_client_state c' busy (clientState c) of (rc', c'') \<Rightarrow>
          Done (if rc = SUCCESS \<and> rc' \<noteq> SUCCESS then rc' else rc, c'', w')))"
begin

lemma refused:
  "missing \<Longrightarrow> outer c w = Done (NULL_VALUE_ERROR, c, w)"
  "\<not> missing \<Longrightarrow> \<not> connected_state (clientState c) \<Longrightarrow> outer c w = Done (NETWORK_DISCONNECTED_ERROR, c, w)"
  "\<not> missing \<Longrightarrow> connected_state (clientState c) \<Longrightarrow> \<not> start (clientState c) \<Longrightarrow>
     outer c w = Done (MQTT_CLIENT_NOT_IDLE_ERROR, c, w)"
  by (simp_all add: outer_eq)

text \<open>When the inner operation keeps the state, the outer one is the inner one with the state put back.\<close>

lemma runs_and_restores:
  assumes "\<not> missing" and "start (clientState c)"
    and "post (inner (c\<lparr>clientState := busy\<rparr>) w) (\<lambda>(rc, c', w'). clientState c' = busy)"
  shows "outer c w = bnd (inner (c\<lparr>clientState := busy\<rparr>) w) (\<lambda>(rc, c', w').
     Done (rc, c'\<lparr>clientState := clientState c\<rparr>, w'))"
  using assms
  by (cases "inner (c\<lparr>clientState := busy\<rparr>) w")
    (auto simp: outer_eq start_connected aws_iot_mqtt_set_client_state_def aws_iot_mqtt_get_client_state_def
      split: if_splits)

lemma state_kept:
  assumes "post (inner (c\<lparr>clientState := busy\<rparr>) w) (\<lambda>(rc, c', w'). clientState c' = busy)"
  shows "post (outer c w) (\<lambda>(rc, c', w'). clientState c' = clientState c)"
proof (cases "\<not> missing \<and> start (clientState c)")
  case True
  then show ?thesis using runs_and_restores [OF _ _ assms] by (auto intro!: postI)
qed (auto simp: outer_eq)

text \<open>An invariant that does not mention the state is kept when the inner operation keeps it.\<close>

lemma invariant_kept:
  assumes "\<And>c s. I (c\<lparr>clientState := s\<rparr>) = I c" and "I c"
    and "post (inner (c\<lparr>clientState := busy\<rparr>) w) (\<lambda>(rc, c', w'). I (c\<lparr>clientState := busy\<rparr>) \<longrightarrow> I c')"
  shows "post (outer c w) (\<lambda>(rc, c', w'). I c')"
  using assms(2,3)
  by (auto simp: outer_eq assms(1) aws_iot_mqtt_set_client_state_def intro!: post_mono [OF assms(3)])

end

lemmas busy_operation_defs = aws_iot_mqtt_is_client_connected_def aws_iot_mqtt_get_client_state_def
  aws_iot_mqtt_set_client_state_def Let_def

lemma may_start_connected: "may_start s \<Longrightarrow> connected_state s"
  by (auto simp: may_start_def)

interpretation publish_op: busy_operation
  "\<lambda>c w. drop_params (aws_iot_mqtt_publish E n c t l p w)"
  "\<lambda>c w. drop_params (aws_iot_mqtt_internal_publish E n c (the t) l (the p) w)"
  "t = None \<or> l = 0 \<or> p = None" may_start CLIENT_STATE_CONNECTED_PUBLISH_IN_PROGRESS
  for E :: "'w Env" and n t l p
  by unfold_locales
    (auto simp: may_start_connected aws_iot_mqtt_publish_def drop_params_def busy_operation_defs bnd_assoc
      intro!: arg_cong [where f = "bnd _"] split: prod.splits)

interpretation subscribe_op: busy_operation
  "\<lambda>c w. aws_iot_mqtt_subscribe E n c t l q h d w"
  "\<lambda>c w. aws_iot_mqtt_internal_subscribe E n c (the t) l q h d w"
  "t = None \<or> h = None" may_start CLIENT_STATE_CONNECTED_SUBSCRIBE_IN_PROGRESS
  for E :: "'w Env" and n t l q h d
  by unfold_locales
    (auto simp: may_start_connected aws_iot_mqtt_subscribe_def busy_operation_defs
      intro!: arg_cong [where f = "bnd _"] split: prod.splits)

interpretation unsubscribe_op: busy_operation
  "\<lambda>c w. aws_iot_mqtt_unsubscribe E n c t l w"
  "\<lambda>c w. aws_iot_mqtt_internal_unsubscribe E n c (the t) l w"
  "t = None" may_start CLIENT_STATE_CONNECTED_UNSUBSCRIBE_IN_PROGRESS
  for E :: "'w Env" and n t l
  by unfold_locales
    (auto simp: may_start_connected aws_iot_mqtt_unsubscribe_def busy_operation_defs
      intro!: arg_cong [where f = "bnd _"] split: prod.splits)

interpretation resubscribe_op: busy_operation
  "\<lambda>c w. aws_iot_mqtt_resubscribe E n c w" "\<lambda>c w. aws_iot_mqtt_internal_resubscribe E n c w"
  False "\<lambda>s. s = CLIENT_STATE_CONNECTED_IDLE" CLIENT_STATE_CONNECTED_RESUBSCRIBE_IN_PROGRESS
  for E :: "'w Env" and n
  by unfold_locales
    (auto simp: aws_iot_mqtt_resubscribe_def busy_operation_defs
      intro!: arg_cong [where f = "bnd _"] split: prod.splits)

subsection \<open>Frame conditions of connecting\<close>

locale connect_relation = client_relation E R
  for E :: "'w Env" and R +
  assumes R_options: "R c (c\<lparr>options := opts\<rparr>)"
    and R_network: "R c (c\<lparr>networkStack := net\<rparr>)"
    and R_keepalive: "R c (c\<lparr>keepAliveInterval := k\<rparr>)"
begin

lemma set_params_R: "aws_iot_mqtt_set_connect_params c p = (rc, c') \<Longrightarrow> R c c'"
  by (auto simp: aws_iot_mqtt_set_connect_params_def R_refl intro: R_options split: option.splits)

lemma conn_wait_R: "R c0 c \<Longrightarrow> post (aws_iot_mqtt_internal_wait_for_read E n c mt T w) (\<lambda>(rc, c', w'). R c0 c')"
  by (rule post_mono [OF wait_for_read_R]) (auto intro: R_trans)

lemma internal_connect_R: "post (aws_iot_mqtt_internal_connect E n c p w) (\<lambda>(rc, c', w'). R c c')"
proof -
  have par: "R c c1" if "(case p of None \<Rightarrow> (SUCCESS, c) | Some q \<Rightarrow> aws_iot_mqtt_set_connect_params c (Some q)) = (rc, c1)" for rc c1
    using that by (auto simp: R_refl split: option.splits intro: set_params_R)
  have upd: "R c c1 \<Longrightarrow> R c (c1\<lparr>networkStack := net\<rparr>)" "R c c1 \<Longrightarrow> R c (c1\<lparr>keepAliveInterval := k\<rparr>)"
    "R c c1 \<Longrightarrow> R c (c1\<lparr>isPingOutstanding := pn, pingTimer := t\<rparr>)"
    "R c c1 \<Longrightarrow> length b = length (writeBuf c1) \<Longrightarrow> R c (c1\<lparr>writeBuf := b\<rparr>)" for c1 net k pn t b
    using R_trans R_network R_keepalive R_ping R_tx by blast+
  show ?thesis
    unfolding aws_iot_mqtt_internal_connect_def
    by (auto simp: Let_def split: prod.splits sum.splits
        intro!: postI [of "net_connect _ _ _ _"] postI [of "aws_iot_mqtt_internal_send_packet _ _ _ _ _ _"]
          post_mono [OF conn_wait_R] upd dest!: keeps_size dest: par)
qed

lemma internal_disconnect_R: "post (aws_iot_mqtt_internal_disconnect E n c w) (\<lambda>(rc, c', w'). R c c')"
  unfolding aws_iot_mqtt_internal_disconnect_def
  by (auto simp: Let_def split: prod.splits dest!: keeps_size
      intro!: postI [of "net_disconnect _ _"] postI [of "net_destroy _ _"]
        postI [of "aws_iot_mqtt_internal_send_packet _ _ _ _ _ _"] R_tx)

end

interpretation wf_conn: connect_relation E "\<lambda>c c'. callbacks_keep E keeps_wf \<longrightarrow> keeps_wf c c'" for E :: "'w Env"
  by unfold_locales (simp_all add: keeps_wf_def wf_client_def)

interpretation state_conn: connect_relation E "\<lambda>c c'. callbacks_keep E keeps_state \<longrightarrow> keeps_state c c'" for E :: "'w Env"
  by unfold_locales (simp_all add: keeps_state_def)

interpretation table_conn: connect_relation E "\<lambda>c c'. callbacks_keep E keeps_table \<longrightarrow> keeps_table c c'" for E :: "'w Env"
  by unfold_locales (simp_all add: keeps_table_def)

lemma drop_params_post: "post (drop_params m) (\<lambda>(rc, c, w). Q c) = post m (\<lambda>(rc, p, c, w). Q c)"
  by (cases m) (auto simp: drop_params_def)

text \<open>The inner operations in the two relations, as premises of the busy operations.\<close>

lemma inner_state:
  assumes "callbacks_keep E keeps_state"
  shows "post (drop_params (aws_iot_mqtt_internal_publish E n c t l p w)) (\<lambda>(rc, c', w'). clientState c' = clientState c)"
    and "post (aws_iot_mqtt_internal_subscribe E n c t l q h d w) (\<lambda>(rc, c', w'). clientState c' = clientState c)"
    and "post (aws_iot_mqtt_internal_unsubscribe E n c t l w) (\<lambda>(rc, c', w'). clientState c' = clientState c)"
    and "post (aws_iot_mqtt_internal_resubscribe E n c w) (\<lambda>(rc, c', w'). clientState c' = clientState c)"
    and "post (aws_iot_mqtt_internal_connect E n c cp w) (\<lambda>(rc, c', w'). clientState c' = clientState c)"
    and "post (aws_iot_mqtt_internal_disconnect E n c w) (\<lambda>(rc, c', w'). clientState c' = clientState c)"
  using assms state_op.publish_R [of E n c t l p w] state_op.subscribe_R [of E n c t l q h d w]
    state_op.unsubscribe_R [of E n c t l w] state_op.resubscribe_R [of E n c w]
    state_conn.internal_connect_R [of E n c cp w] state_conn.internal_disconnect_R [of E n c w]
  by (simp_all add: keeps_state_def drop_params_post)

lemma inner_wf:
  assumes "callbacks_keep E keeps_wf"
  shows "post (drop_params (aws_iot_mqtt_internal_publish E n c t l p w)) (\<lambda>(rc, c', w'). wf_client c \<longrightarrow> wf_client c')"
    and "unat l \<le> length t \<Longrightarrow>
       post (aws_iot_mqtt_internal_subscribe E n c t l q h d w) (\<lambda>(rc, c', w'). wf_client c \<longrightarrow> wf_client c')"
    and "post (aws_iot_mqtt_internal_unsubscribe E n c t l w) (\<lambda>(rc, c', w'). wf_client c \<longrightarrow> wf_client c')"
    and "post (aws_iot_mqtt_internal_resubscribe E n c w) (\<lambda>(rc, c', w'). wf_client c \<longrightarrow> wf_client c')"
    and "post (aws_iot_mqtt_internal_connect E n c cp w) (\<lambda>(rc, c', w'). wf_client c \<longrightarrow> wf_client c')"
    and "post (aws_iot_mqtt_internal_disconnect E n c w) (\<lambda>(rc, c', w'). wf_client c \<longrightarrow> wf_client c')"
  using assms wf_op.publish_R [of E n c t l p w] wf_op.subscribe_R [of t l q h d E n c w]
    wf_op.unsubscribe_R [of E n c t l w] wf_op.resubscribe_R [of E n c w]
    wf_conn.internal_connect_R [of E n c cp w] wf_conn.internal_disconnect_R [of E n c w]
  by (simp_all add: keeps_wf_def drop_params_post handler_ok_def)

lemma operations_state:
  assumes "callbacks_keep E keeps_state"
  shows "post (drop_params (aws_iot_mqtt_publish E n c t l p w)) (\<lambda>(rc, c', w'). clientState c' = clientState c)"
    and "post (aws_iot_mqtt_subscribe E n c t l q h d w) (\<lambda>(rc, c', w'). clientState c' = clientState c)"
    and "post (aws_iot_mqtt_unsubscribe E n c t l w) (\<lambda>(rc, c', w'). clientState c' = clientState c)"
    and "post (aws_iot_mqtt_resubscribe E n c w) (\<lambda>(rc, c', w'). clientState c' = clientState c)"
  using inner_state(1-4) [OF assms, of n "_\<lparr>clientState := _\<rparr>", simplified]
  by (auto intro!: publish_op.state_kept subscribe_op.state_kept unsubscribe_op.state_kept resubscribe_op.state_kept)

lemma operations_wf:
  assumes "callbacks_keep E keeps_wf" and "wf_client c"
  shows "post (drop_params (aws_iot_mqtt_publish E n c t l p w)) (\<lambda>(rc, c', w'). wf_client c')"
    and "(\<And>s. t = Some s \<Longrightarrow> unat l \<le> length s) \<Longrightarrow>
       post (aws_iot_mqtt_subscribe E n c t l q h d w) (\<lambda>(rc, c', w'). wf_client c')"
    and "post (aws_iot_mqtt_unsubscribe E n c t l w) (\<lambda>(rc, c', w'). wf_client c')"
    and "post (aws_iot_mqtt_resubscribe E n c w) (\<lambda>(rc, c', w'). wf_client c')"
proof -
  show "post (drop_params (aws_iot_mqtt_publish E n c t l p w)) (\<lambda>(rc, c', w'). wf_client c')"
    by (rule publish_op.invariant_kept [where I = wf_client, OF _ assms(2)]) (simp add: wf_client_update, rule inner_wf(1) [OF assms(1)])
  show "post (aws_iot_mqtt_unsubscribe E n c t l w) (\<lambda>(rc, c', w'). wf_client c')"
    by (rule unsubscribe_op.invariant_kept [where I = wf_client, OF _ assms(2)]) (simp add: wf_client_update, rule inner_wf(3) [OF assms(1)])
  show "post (aws_iot_mqtt_resubscribe E n c w) (\<lambda>(rc, c', w'). wf_client c')"
    by (rule resubscribe_op.invariant_kept [where I = wf_client, OF _ assms(2)]) (simp add: wf_client_update, rule inner_wf(4) [OF assms(1)])
  show "post (aws_iot_mqtt_subscribe E n c t l q h d w) (\<lambda>(rc, c', w'). wf_client c')"
    if "\<And>s. t = Some s \<Longrightarrow> unat l \<le> length s"
  proof (cases t)
    case (Some s)
    then show ?thesis
      using inner_wf(2) [OF assms(1), of l s] that
      by (intro subscribe_op.invariant_kept [where I = wf_client, OF _ assms(2)]) (simp add: wf_client_update, simp)
  qed (simp add: aws_iot_mqtt_subscribe_def assms(2))
qed

subsection \<open>Connecting and disconnecting\<close>

lemma connect_post:
  assumes "callbacks_keep E keeps_state" and "aws_iot_mqtt_is_client_state_valid_for_connect (clientState c)"
  shows "post (aws_iot_mqtt_connect E n c p w) (\<lambda>(rc, c', w').
     clientState c' = (if rc = SUCCESS then CLIENT_STATE_CONNECTED_IDLE else CLIENT_STATE_DISCONNECTED_ERROR))"
proof -
  let ?c = "c\<lparr>clientState := CLIENT_STATE_CONNECTING\<rparr>"
  have *: "post (aws_iot_mqtt_internal_connect E n ?c p w) (\<lambda>(rc, c', w'). clientState c' = CLIENT_STATE_CONNECTING)"
    using inner_state(5) [OF assms(1), of n ?c p w] by simp
  show ?thesis
    using assms(2)
    by (auto simp: aws_iot_mqtt_connect_def Let_def aws_iot_mqtt_get_client_state_def aws_iot_mqtt_set_client_state_def
        split: prod.splits intro!: post_mono [OF *] postI [of "net_disconnect _ _"] postI [of "net_destroy _ _"])
qed

lemma connect_refused:
  "\<not> aws_iot_mqtt_is_client_state_valid_for_connect (clientState c) \<Longrightarrow>
     aws_iot_mqtt_connect E n c p w = Done (NETWORK_ALREADY_CONNECTED_ERROR, c, w)"
  by (simp add: aws_iot_mqtt_connect_def aws_iot_mqtt_get_client_state_def)

lemma connect_wf:
  assumes "callbacks_keep E keeps_wf" and "wf_client c"
  shows "post (aws_iot_mqtt_connect E n c p w) (\<lambda>(rc, c', w'). wf_client c')"
proof -
  have *: "post (aws_iot_mqtt_internal_connect E n (c\<lparr>clientState := s\<rparr>) p w) (\<lambda>(rc, c', w'). wf_client c')" for s
    using inner_wf(5) [OF assms(1), of n "c\<lparr>clientState := s\<rparr>" p w] assms(2) by (simp add: wf_client_update)
  show ?thesis
    by (auto simp: aws_iot_mqtt_connect_def Let_def aws_iot_mqtt_get_client_state_def aws_iot_mqtt_set_client_state_def
        wf_client_update assms(2)
        split: prod.splits intro!: post_mono [OF *] postI [of "net_disconnect _ _"] postI [of "net_destroy _ _"])
qed

lemma disconnect_post:
  "connected_state (clientState c) \<Longrightarrow> post (aws_iot_mqtt_disconnect E n c w) (\<lambda>(rc, c', w').
     clientState c' = (if rc = SUCCESS then CLIENT_STATE_DISCONNECTED_MANUALLY else clientState c))"
  by (auto simp: aws_iot_mqtt_disconnect_def busy_operation_defs split: prod.splits
      intro!: postI [of "aws_iot_mqtt_internal_disconnect _ _ _ _"])

lemma disconnect_refused:
  "\<not> connected_state (clientState c) \<Longrightarrow> aws_iot_mqtt_disconnect E n c w = Done (NETWORK_DISCONNECTED_ERROR, c, w)"
  by (simp add: aws_iot_mqtt_disconnect_def busy_operation_defs)

lemma disconnect_wf:
  assumes "callbacks_keep E keeps_wf" and "wf_client c"
  shows "post (aws_iot_mqtt_disconnect E n c w) (\<lambda>(rc, c', w'). wf_client c')"
proof -
  have *: "post (aws_iot_mqtt_internal_disconnect E n (c\<lparr>clientState := s\<rparr>) w) (\<lambda>(rc, c', w'). wf_client c')" for s
    using inner_wf(6) [OF assms(1), of n "c\<lparr>clientState := s\<rparr>" w] assms(2) by (simp add: wf_client_update)
  show ?thesis
    by (auto simp: aws_iot_mqtt_disconnect_def busy_operation_defs wf_client_update assms(2)
        split: prod.splits intro!: post_mono [OF *])
qed

end
