(* ===== verification/Mqtt_Session.thy ===== *)
theory Mqtt_Session
  imports Mqtt_Ops
begin

text \<open>
  What the operations of theory \<open>Mqtt_Ops\<close> guarantee over a session: the handler table after
  subscribe and unsubscribe, the states that connect, disconnect and yield leave, the reconnect
  back-off, the keep-alive, and that every operation keeps the client invariant. The conditions on
  callbacks and on the network are named here; they are what the application and the network layer
  promise.
\<close>

unbundle bit_operations_syntax

subsection \<open>Specification vocabulary\<close>

definition disc_keeps :: "'w Env \<Rightarrow> (AWS_IoT_Client \<Rightarrow> AWS_IoT_Client \<Rightarrow> bool) \<Rightarrow> bool" where
  "disc_keeps E R \<longleftrightarrow> (\<forall>f c d w c' w'. disc_handler E f c d w = Done (c', w') \<longrightarrow> R c c')"

definition keeps_backoff :: "AWS_IoT_Client \<Rightarrow> AWS_IoT_Client \<Rightarrow> bool" where
  "keeps_backoff c c' \<longleftrightarrow> currentReconnectWaitInterval c' = currentReconnectWaitInterval c"

definition new_handler :: "cstring \<Rightarrow> u16 \<Rightarrow> QoS \<Rightarrow> nat option \<Rightarrow> nat option \<Rightarrow> MessageHandlers" where
  "new_handler t l q h d = \<lparr>topicName = Some t, topicNameLen = l, mh_qos = q, pApplicationHandler = h,
     pApplicationHandlerData = d\<rparr>"

text \<open>Codes that the client itself gives a meaning to; a network read does not return them.\<close>

definition plain_reads :: "'w Env \<Rightarrow> bool" where
  "plain_reads E \<longleftrightarrow> (\<forall>k T w rc bs m w'. net_read E k T w = Done (rc, bs, m, w') \<longrightarrow>
     rc \<noteq> NETWORK_DISCONNECTED_ERROR \<and> rc \<noteq> NETWORK_ATTEMPTING_RECONNECT)"

definition session_code :: "IoT_Error_t \<Rightarrow> bool" where
  "session_code rc \<longleftrightarrow> rc = NETWORK_DISCONNECTED_ERROR \<or> rc = NETWORK_ATTEMPTING_RECONNECT"

text \<open>The states in which a yield loop turn starts and in which it may end.\<close>

definition yield_states :: "ClientState set" where
  "yield_states = {CLIENT_STATE_CONNECTED_YIELD_IN_PROGRESS, CLIENT_STATE_CONNECTED_IDLE, CLIENT_STATE_PENDING_RECONNECT}"

text \<open>The loop's invariant on the pair of code and state.\<close>

definition yield_inv :: "IoT_Error_t \<Rightarrow> ClientState \<Rightarrow> bool" where
  "yield_inv rc s \<longleftrightarrow> s \<in> yield_states \<and> (session_code rc \<longrightarrow> s \<noteq> CLIENT_STATE_CONNECTED_YIELD_IN_PROGRESS)"

lemma reader_errors [simp]:
  "aws_iot_mqtt_deserialize_suback k g b n \<noteq> Some (Inl SUCCESS)"
  "aws_iot_mqtt_internal_deserialize_ack b n \<noteq> Some (Inl SUCCESS)"
  "aws_iot_mqtt_deserialize_connack b n \<noteq> Some (Inl SUCCESS)"
  "aws_iot_mqtt_internal_deserialize_publish b n \<noteq> Some (Inl SUCCESS)"
  by (auto simp: aws_iot_mqtt_deserialize_suback_def aws_iot_mqtt_internal_deserialize_ack_def
      aws_iot_mqtt_deserialize_connack_def aws_iot_mqtt_internal_deserialize_publish_def Let_def
      Option.bind_eq_Some_conv split: if_splits sum.splits prod.splits)

lemma unsuback_error [simp]: "aws_iot_mqtt_deserialize_unsuback b n \<noteq> Some (Inl SUCCESS)"
  by (auto simp: aws_iot_mqtt_deserialize_unsuback_def Option.bind_eq_Some_conv split: if_splits sum.splits)

subsection \<open>The handler table\<close>

lemma next_id_frame [simp]:
  "messageHandlers (snd (aws_iot_mqtt_get_next_packet_id c)) = messageHandlers c"
  "clientState (snd (aws_iot_mqtt_get_next_packet_id c)) = clientState c"
  by (simp_all add: aws_iot_mqtt_get_next_packet_id_def Let_def)

lemma wait_table:
  "callbacks_keep E keeps_table \<Longrightarrow> messageHandlers c = hs \<Longrightarrow>
     post (aws_iot_mqtt_internal_wait_for_read E n c mt T w) (\<lambda>(rc, c', w'). messageHandlers c' = hs)"
  using table_rel.wait_for_read_R [of E n c mt T w] by (simp add: keeps_table_def)

lemma free_index_table:
  "messageHandlers c' = messageHandlers c \<Longrightarrow>
     aws_iot_mqtt_get_free_message_handler_index c' = aws_iot_mqtt_get_free_message_handler_index c"
  by (simp add: aws_iot_mqtt_get_free_message_handler_index_def)

lemma internal_subscribe_table:
  assumes "callbacks_keep E keeps_table"
  shows "post (aws_iot_mqtt_internal_subscribe E n c t l q h d w) (\<lambda>(rc, c', w').
     if rc = SUCCESS then aws_iot_mqtt_get_free_message_handler_index c < AWS_IOT_MQTT_NUM_SUBSCRIBE_HANDLERS \<and>
       messageHandlers c' = (messageHandlers c)[aws_iot_mqtt_get_free_message_handler_index c := new_handler t l q h d]
     else messageHandlers c' = messageHandlers c)"
proof -
  obtain i c1 where id: "aws_iot_mqtt_get_next_packet_id c = (i, c1)" by (cases "aws_iot_mqtt_get_next_packet_id c")
  have tab: "messageHandlers c1 = messageHandlers c" using next_id_frame(1) [of c] by (simp add: id)
  have free: "aws_iot_mqtt_get_free_message_handler_index (c1\<lparr>writeBuf := b\<rparr>) =
      aws_iot_mqtt_get_free_message_handler_index c" for b
    by (rule free_index_table) (simp add: tab)
  show ?thesis
    unfolding aws_iot_mqtt_internal_subscribe_def
    by (auto simp: id tab free Let_def new_handler_def split: prod.splits sum.splits
        intro!: postI [of "aws_iot_mqtt_internal_send_packet _ _ _ _ _ _"]
          post_mono [OF wait_table [OF assms(1), where hs = "messageHandlers c"]])
qed

lemma internal_unsubscribe_table:
  assumes "callbacks_keep E keeps_table"
  shows "post (aws_iot_mqtt_internal_unsubscribe E n c t l w) (\<lambda>(rc, c', w').
     if rc = SUCCESS then (\<exists>h \<in> set (messageHandlers c). registered_for t h) \<and>
       messageHandlers c' = map (\<lambda>h. if registered_for t h then h\<lparr>topicName := None\<rparr> else h) (messageHandlers c)
     else messageHandlers c' = messageHandlers c)"
proof -
  obtain i c1 where id: "aws_iot_mqtt_get_next_packet_id c = (i, c1)" by (cases "aws_iot_mqtt_get_next_packet_id c")
  have tab: "messageHandlers c1 = messageHandlers c" using next_id_frame(1) [of c] by (simp add: id)
  show ?thesis
    unfolding aws_iot_mqtt_internal_unsubscribe_def
    by (auto simp: id tab Let_def list_ex_iff split: prod.splits sum.splits
        intro!: postI [of "aws_iot_mqtt_internal_send_packet _ _ _ _ _ _"]
          post_mono [OF wait_table [OF assms(1), where hs = "messageHandlers c"]])
qed

subsection \<open>Reconnecting\<close>

interpretation backoff_rel: client_relation E "\<lambda>c c'. callbacks_keep E keeps_backoff \<longrightarrow> keeps_backoff c c'" for E :: "'w Env"
  by (rule client_relationI) (auto simp: keeps_backoff_def aws_iot_mqtt_set_client_state_def)

interpretation backoff_op: operation_relation E "\<lambda>c c'. callbacks_keep E keeps_backoff \<longrightarrow> keeps_backoff c c'" "\<lambda>h. True" for E :: "'w Env"
  by unfold_locales (simp_all add: keeps_backoff_def)

interpretation backoff_conn: connect_relation E "\<lambda>c c'. callbacks_keep E keeps_backoff \<longrightarrow> keeps_backoff c c'" for E :: "'w Env"
  by unfold_locales (simp_all add: keeps_backoff_def)

lemma connect_backoff:
  assumes "callbacks_keep E keeps_backoff"
  shows "post (aws_iot_mqtt_connect E n c p w) (\<lambda>(rc, c', w'). currentReconnectWaitInterval c' = currentReconnectWaitInterval c)"
proof -
  have *: "post (aws_iot_mqtt_internal_connect E n (c\<lparr>clientState := s\<rparr>) p w)
      (\<lambda>(rc, c', w'). currentReconnectWaitInterval c' = currentReconnectWaitInterval c)" for s
    using backoff_conn.internal_connect_R [of E n "c\<lparr>clientState := s\<rparr>" p w] assms by (simp add: keeps_backoff_def)
  show ?thesis
    by (auto simp: aws_iot_mqtt_connect_def Let_def aws_iot_mqtt_get_client_state_def aws_iot_mqtt_set_client_state_def
        split: prod.splits intro!: post_mono [OF *] postI [of "net_disconnect _ _"] postI [of "net_destroy _ _"])
qed

lemma resubscribe_backoff:
  assumes "callbacks_keep E keeps_backoff"
  shows "post (aws_iot_mqtt_resubscribe E n c w) (\<lambda>(rc, c', w'). currentReconnectWaitInterval c' = currentReconnectWaitInterval c)"
  using backoff_op.resubscribe_R [of E n "c\<lparr>clientState := CLIENT_STATE_CONNECTED_RESUBSCRIBE_IN_PROGRESS\<rparr>" w] assms
  by (intro resubscribe_op.invariant_kept [where I = "\<lambda>c'. currentReconnectWaitInterval c' = currentReconnectWaitInterval c"])
    (simp_all add: keeps_backoff_def)

text \<open>A reconnect attempt from a state that may connect: what it returns and the state it leaves.\<close>

lemma attempt_reconnect_post:
  assumes "callbacks_keep E keeps_state" and "aws_iot_mqtt_is_client_state_valid_for_connect (clientState c)"
  shows "post (aws_iot_mqtt_attempt_reconnect E n c w) (\<lambda>(rc, c', w').
     (rc = NETWORK_RECONNECTED \<longrightarrow> clientState c' = CLIENT_STATE_CONNECTED_IDLE) \<and>
     (clientState c' = CLIENT_STATE_CONNECTED_IDLE \<or> (rc = NETWORK_ATTEMPTING_RECONNECT \<and> clientState c' = CLIENT_STATE_PENDING_RECONNECT)))"
proof -
  have nc: "\<not> connected_state (clientState c)" using assms(2) by (cases "clientState c") simp_all
  have resub: "clientState c' = CLIENT_STATE_CONNECTED_IDLE \<Longrightarrow>
      post (aws_iot_mqtt_resubscribe E n c' w') (\<lambda>(rc, c'', w''). clientState c'' = CLIENT_STATE_CONNECTED_IDLE)" for c' w'
    using operations_state(4) [OF assms(1), of n c' w'] by simp
  show ?thesis
    using nc
    by (auto simp: aws_iot_mqtt_attempt_reconnect_def aws_iot_mqtt_is_client_connected_def
        aws_iot_mqtt_get_client_state_def aws_iot_mqtt_set_client_state_def split: prod.splits if_splits
        intro!: post_mono [OF connect_post [OF assms]] post_mono [OF resub])
qed

lemma attempt_reconnect_backoff:
  assumes "callbacks_keep E keeps_backoff"
  shows "post (aws_iot_mqtt_attempt_reconnect E n c w) (\<lambda>(rc, c', w'). currentReconnectWaitInterval c' = currentReconnectWaitInterval c)"
proof -
  have resub: "currentReconnectWaitInterval c' = k \<Longrightarrow>
      post (aws_iot_mqtt_resubscribe E n c' w') (\<lambda>(rc, c'', w''). currentReconnectWaitInterval c'' = k)" for c' w' k
    using resubscribe_backoff [OF assms, of n c' w'] by simp
  show ?thesis
    by (auto simp: aws_iot_mqtt_attempt_reconnect_def aws_iot_mqtt_set_client_state_def split: prod.splits
        intro!: post_mono [OF connect_backoff [OF assms]] post_mono [OF resub])
qed

lemma attempt_reconnect_wf:
  assumes "callbacks_keep E keeps_wf" and "wf_client c"
  shows "post (aws_iot_mqtt_attempt_reconnect E n c w) (\<lambda>(rc, c', w'). wf_client c')"
  by (auto simp: aws_iot_mqtt_attempt_reconnect_def aws_iot_mqtt_set_client_state_def wf_client_update assms(2) split: prod.splits
      intro!: post_mono [OF connect_wf [OF assms]] post_mono [OF operations_wf(4) [OF assms(1)]])

subsection \<open>Keep-alive and yield\<close>

lemma handle_disconnect_post:
  "post (aws_iot_mqtt_handle_disconnect E n c w) (\<lambda>(rc, c', w').
     rc = NETWORK_DISCONNECTED_ERROR \<and> clientState c' = CLIENT_STATE_DISCONNECTED_ERROR)"
  unfolding aws_iot_mqtt_handle_disconnect_def
  by (auto simp: aws_iot_mqtt_force_client_disconnect_def Let_def split: prod.splits option.splits
      intro!: postI)

lemma disc_keepsD: "disc_keeps E R \<Longrightarrow> disc_handler E f c d w = Done (c', w') \<Longrightarrow> R c c'"
  unfolding disc_keeps_def by blast

lemma handle_disconnect_wf:
  assumes "callbacks_keep E keeps_wf" and "disc_keeps E keeps_wf" and "wf_client c"
  shows "post (aws_iot_mqtt_handle_disconnect E n c w) (\<lambda>(rc, c', w'). wf_client c')"
proof -
  have disc: "wf_client c \<Longrightarrow> post (disc_handler E f c d w) (\<lambda>(c', w'). wf_client c')" for f c d w
    using disc_keepsD [OF assms(2), of f c d w] by (auto simp: keeps_wf_def intro!: postI)
  have forced: "wf_client c \<Longrightarrow> post (aws_iot_mqtt_force_client_disconnect E c w) (\<lambda>(c', w'). wf_client c')" for c w
    by (auto simp: aws_iot_mqtt_force_client_disconnect_def Let_def wf_client_update intro!: postI)
  show ?thesis
    unfolding aws_iot_mqtt_handle_disconnect_def
    by (auto simp: wf_client_update split: prod.splits option.splits
        intro!: post_mono [OF disconnect_wf [OF assms(1,3)]] post_mono [OF forced] post_mono [OF disc])
qed

lemma serialize_zero_eq:
  "4 \<le> txBufLen \<Longrightarrow> txBufLen \<le> length buf \<Longrightarrow> t \<noteq> UNKNOWN \<Longrightarrow>
     aws_iot_mqtt_internal_serialize_zero buf txBufLen t =
       Some (written [header_byte (header_bits t QOS0 0 0), 0] buf)"
  by (simp add: aws_iot_mqtt_internal_serialize_zero_def init_header_eq codec written_def encode_len.simps put_eq_Some)

lemma keep_alive_wf:
  assumes "callbacks_keep E keeps_wf" and "disc_keeps E keeps_wf" and "wf_client c"
  shows "post (aws_iot_mqtt_keep_alive E n c w) (\<lambda>(rc, c', w'). wf_client c')"
proof -
  have tx: "wf_client (c\<lparr>writeBuf := b\<rparr>)"
    if "aws_iot_mqtt_internal_serialize_zero (writeBuf c) (writeBufSize c) PINGREQ = Some (rc, b, k)" for rc b k
    using assms(3) that by (auto dest!: keeps_size intro: wf_client_update)
  show ?thesis
    unfolding aws_iot_mqtt_keep_alive_def
    by (auto simp: wf_client_update assms(3) Let_def split: prod.splits
        intro!: handle_disconnect_wf [OF assms(1,2)] postI [of "aws_iot_mqtt_internal_send_packet _ _ _ _ _ _"] assms(3) dest: tx)
qed

lemma handle_reconnect_wf:
  assumes "callbacks_keep E keeps_wf" and "wf_client c"
  shows "post (aws_iot_mqtt_handle_reconnect E n c w) (\<lambda>(rc, c', w'). wf_client c')"
proof -
  have wfu: "wf_client (c\<lparr>currentReconnectWaitInterval := i\<rparr>) = wf_client c"
    "wf_client (c\<lparr>reconnectDelayTimer := t\<rparr>) = wf_client c" for c i t
    by (simp_all add: wf_client_def)
  show ?thesis
    unfolding aws_iot_mqtt_handle_reconnect_def
    by (auto simp: wf_client_update wfu assms(2) Let_def aws_iot_mqtt_set_client_state_def split: prod.splits option.splits
        intro!: post_mono [OF attempt_reconnect_wf [OF assms]])
qed

lemma yield_loop_wf:
  assumes "callbacks_keep E keeps_wf" and "disc_keeps E keeps_wf"
  shows "wf_client c \<Longrightarrow> post (yield_loop E n c rc T w) (\<lambda>(rc, c', w'). wf_client c')"
proof (induction n arbitrary: c rc w)
  case (Suc n)
  have wfu: "wf_client (c\<lparr>currentReconnectWaitInterval := i\<rparr>) = wf_client c"
    "wf_client (c\<lparr>reconnectDelayTimer := t\<rparr>) = wf_client c"
    "wf_client (c\<lparr>counterNetworkDisconnected := k\<rparr>) = wf_client c" for c i t k
    by (simp_all add: wf_client_def)
  have cyc: "post (aws_iot_mqtt_internal_cycle_read E n c T pt w) (\<lambda>(rc, pt', c', w'). wf_client c')" for pt w
    using wf_rel.cycle_read_R [of E n c T pt w] assms(1) Suc.prems by (simp add: keeps_wf_def)
  show ?case
    by (auto simp: wf_client_update wfu Suc.prems Let_def aws_iot_mqtt_set_client_state_def split: prod.splits
        intro!: post_mono [OF handle_reconnect_wf [OF assms(1) Suc.prems]] post_mono [OF cyc]
          post_mono [OF keep_alive_wf [OF assms]] Suc.IH)
qed simp

lemma yield_wf:
  assumes "callbacks_keep E keeps_wf" and "disc_keeps E keeps_wf" and "wf_client c"
  shows "post (aws_iot_mqtt_yield E n c ms w) (\<lambda>(rc, c', w'). wf_client c')"
proof -
  have *: "wf_client c' \<Longrightarrow> post (yield_loop E n c' SUCCESS T w') (\<lambda>(rc, c'', w''). wf_client c'')" for c' T w'
    by (rule yield_loop_wf [OF assms(1,2)])
  show ?thesis
    by (auto simp: aws_iot_mqtt_yield_def aws_iot_mqtt_internal_yield_def Let_def assms(3) aws_iot_mqtt_set_client_state_def
        wf_client_update split: prod.splits intro!: post_mono [OF *])
qed

lemma encode_len_small: "n \<le> 16383 \<Longrightarrow> length (encode_len n) \<le> 2"
  using encode_len_cases [of n] by (auto split: if_splits)

lemma fits_small:
  assumes "n \<le> 508"
  shows "fits 512 (of_nat n)"
proof -
  have u: "unat (of_nat n :: u32) = n" using assms by (simp add: unat_of_nat)
  have "unat (aws_iot_mqtt_internal_get_final_packet_length_from_remaining_length (of_nat n)) \<le> 2 + 2 + n"
    using final_length_bounds(2) [of "of_nat n", unfolded u] encode_len_small [of n] assms by simp
  then show ?thesis using assms by (simp add: fits_def)
qed

lemma state_self [simp]: "c\<lparr>clientState := clientState c\<rparr> = (c :: AWS_IoT_Client)"
  by (cases c) simp

subsection \<open>The codes of a read cycle\<close>

lemma session_code_simps [simp]:
  "\<not> session_code SUCCESS" "\<not> session_code FAILURE" "\<not> session_code MQTT_NOTHING_TO_READ"
  "\<not> session_code MQTT_RX_BUFFER_TOO_SHORT_ERROR" "\<not> session_code MQTT_TX_BUFFER_TOO_SHORT_ERROR"
  "\<not> session_code MQTT_DECODE_REMAINING_LENGTH_ERROR" "\<not> session_code MQTT_RX_MESSAGE_PACKET_TYPE_INVALID_ERROR"
  "\<not> session_code MQTT_UNEXPECTED_CLIENT_STATE_ERROR" "\<not> session_code NULL_VALUE_ERROR"
  by (simp_all add: session_code_def)

lemma plain_read: "plain_reads E \<Longrightarrow> post (net_read E k T w) (\<lambda>(rc, r). \<not> session_code rc)"
  unfolding plain_reads_def session_code_def by (intro postI) (auto split: prod.splits, (blast dest: spec)+)

lemma remaining_len_codes:
  assumes "plain_reads E"
  shows "post (remaining_len_loop E n len b mu r T w) (\<lambda>(rc, x). \<not> session_code rc)"
proof (induction n arbitrary: len b mu r w)
  case (Suc n)
  show ?case by (auto simp: Let_def split: prod.splits intro!: Suc.IH post_mono [OF plain_read [OF assms]])
qed simp

lemma read_packet_codes:
  assumes "plain_reads E"
  shows "post (aws_iot_mqtt_internal_read_packet E n c T w) (\<lambda>(rc, x). \<not> session_code rc)"
  unfolding aws_iot_mqtt_internal_read_packet_def aws_iot_mqtt_internal_decode_packet_remaining_len_def
  by (auto simp: Let_def split: prod.splits
      intro!: postI [of "net_read _ _ _ _"] postI [of "store_rx _ _ _"] postI [of "drop_packet_loop _ _ _ _ _ _ _ _"]
        post_mono [OF remaining_len_codes [OF assms]])

lemma decode_len_codes:
  "aws_iot_mqtt_internal_decode_remaining_length_from_buffer b p = Some (rc, d, k) \<Longrightarrow> \<not> session_code rc"
proof -
  have "decode_len_loop b p m l d0 = Some (rc, d, k) \<Longrightarrow> \<not> session_code rc" for m l d0
  proof (induction b p m l d0 rule: decode_len_loop.induct)
    case (1 b p m l d0)
    from 1(2) show ?case
      by (subst (asm) decode_len_loop.simps) (auto simp: Let_def Option.bind_eq_Some_conv 1(1) split: if_splits)
  qed
  then show "aws_iot_mqtt_internal_decode_remaining_length_from_buffer b p = Some (rc, d, k) \<Longrightarrow> \<not> session_code rc"
    by (simp add: aws_iot_mqtt_internal_decode_remaining_length_from_buffer_def)
qed

lemma codec_codes:
  "aws_iot_mqtt_internal_deserialize_publish b n = Some (Inl rc) \<Longrightarrow> \<not> session_code rc"
  "aws_iot_mqtt_internal_serialize_ack b n t d i = Some (rc, b', k) \<Longrightarrow> \<not> session_code rc"
  by (auto simp: aws_iot_mqtt_internal_deserialize_publish_def aws_iot_mqtt_internal_serialize_ack_def
      aws_iot_mqtt_internal_init_header_def Let_def Option.bind_eq_Some_conv split: if_splits sum.splits prod.splits
      dest: decode_len_codes) (metis old.sum.exhaust prod_cases3 session_code_simps(2))

lemma send_codes: "post (aws_iot_mqtt_internal_send_packet E n c k T w) (\<lambda>(rc, w'). \<not> session_code rc)"
  unfolding aws_iot_mqtt_internal_send_packet_def by (auto split: prod.splits intro!: postI [of "send_packet_loop _ _ _ _ _ _ _"])

lemma handle_publish_codes: "post (aws_iot_mqtt_internal_handle_publish E n c T w) (\<lambda>(rc, x). \<not> session_code rc)"
  unfolding aws_iot_mqtt_internal_handle_publish_def aws_iot_mqtt_internal_deliver_message_def aws_iot_mqtt_set_client_state_def
  by (auto simp: Let_def codec_codes split: prod.splits sum.splits
      intro!: postI [of "deliver_loop _ _ _ _ _ _ _ _"] post_mono [OF send_codes])

lemma cycle_read_codes:
  assumes "plain_reads E"
  shows "post (aws_iot_mqtt_internal_cycle_read E n c T pt w) (\<lambda>(rc, x). \<not> session_code rc)"
  unfolding aws_iot_mqtt_internal_cycle_read_def
  by (auto simp: Let_def split: prod.splits option.splits
      intro!: post_mono [OF read_packet_codes [OF assms]] post_mono [OF handle_publish_codes])

lemma keep_alive_state:
  "post (aws_iot_mqtt_keep_alive E n c w) (\<lambda>(rc, c', w').
     if rc = NETWORK_DISCONNECTED_ERROR then clientState c' = CLIENT_STATE_DISCONNECTED_ERROR
     else \<not> session_code rc \<and> clientState c' = clientState c)"
proof -
  have *: "post (aws_iot_mqtt_handle_disconnect E n c w) (\<lambda>(rc, c', w').
     if rc = NETWORK_DISCONNECTED_ERROR then clientState c' = CLIENT_STATE_DISCONNECTED_ERROR
     else \<not> session_code rc \<and> clientState c' = s)" for c w s
    by (rule post_mono [OF handle_disconnect_post]) auto
  have z: "aws_iot_mqtt_internal_serialize_zero b k t = Some (rc, b', m) \<Longrightarrow> \<not> session_code rc" for b k t rc b' m
    by (auto simp: aws_iot_mqtt_internal_serialize_zero_def aws_iot_mqtt_internal_init_header_def Let_def
        Option.bind_eq_Some_conv split: if_splits prod.splits)
  show ?thesis
    unfolding aws_iot_mqtt_keep_alive_def
    by (auto simp: Let_def split: prod.splits dest: z z [unfolded session_code_def]
        intro!: * postI [of "aws_iot_mqtt_internal_send_packet _ _ _ _ _ _"])
qed

lemma handle_reconnect_state:
  assumes "callbacks_keep E keeps_state" and "clientState c = CLIENT_STATE_PENDING_RECONNECT"
  shows "post (aws_iot_mqtt_handle_reconnect E n c w) (\<lambda>(rc, c', w').
     clientState c' \<in> yield_states \<and> (session_code rc \<longrightarrow> clientState c' \<noteq> CLIENT_STATE_CONNECTED_YIELD_IN_PROGRESS))"
proof -
  have ok: "aws_iot_mqtt_is_client_state_valid_for_connect (clientState c)" using assms(2) by simp
  show ?thesis
    unfolding aws_iot_mqtt_handle_reconnect_def
    using assms(2)
    by (auto simp: Let_def yield_states_def aws_iot_mqtt_set_client_state_def aws_iot_mqtt_get_client_state_def session_code_def
        split: prod.splits option.splits intro!: post_mono [OF attempt_reconnect_post [OF assms(1) ok]])
qed

lemma yield_loop_states:
  assumes "callbacks_keep E keeps_state" and "plain_reads E"
  shows "yield_inv rc (clientState c) \<Longrightarrow> post (yield_loop E n c rc T w) (\<lambda>(rc, c', w').
       clientState c' = CLIENT_STATE_DISCONNECTED_ERROR \<or> yield_inv rc (clientState c'))"
proof (induction n arbitrary: c rc w)
  case (Suc n)
  let ?Q = "\<lambda>(rc, c', w'). clientState c' = CLIENT_STATE_DISCONNECTED_ERROR \<or> yield_inv rc (clientState c')"
  have inv: "s \<in> yield_states \<Longrightarrow> \<not> session_code e \<Longrightarrow> yield_inv e s"
    "yield_inv e CLIENT_STATE_PENDING_RECONNECT" for e s
    by (auto simp: yield_inv_def yield_states_def)
  have ys: "clientState c \<in> yield_states" using Suc.prems by (simp add: yield_inv_def)
  have cyc: "post (aws_iot_mqtt_internal_cycle_read E n c T pt w)
      (\<lambda>(rc, pt', c', w'). clientState c' = clientState c \<and> \<not> session_code rc)" for pt w
    using post_conj [OF cycle_read_codes [OF assms(2)] state_rel.cycle_read_R [of E n c T pt w]] assms(1)
    by (auto simp: keeps_state_def elim!: post_mono)
  have ka: "post (aws_iot_mqtt_keep_alive E n c w) (\<lambda>(rc, c', w').
     (rc = NETWORK_DISCONNECTED_ERROR \<longrightarrow> clientState c' = CLIENT_STATE_DISCONNECTED_ERROR) \<and>
     (rc \<noteq> NETWORK_DISCONNECTED_ERROR \<longrightarrow> \<not> session_code rc \<and> clientState c' \<in> yield_states))" if "clientState c \<in> yield_states" for c w
    by (rule post_mono [OF keep_alive_state]) (use that in auto)
  show ?case
  proof (cases "clientState c = CLIENT_STATE_PENDING_RECONNECT")
    case True
    show ?thesis using True
      by (auto simp: aws_iot_mqtt_get_client_state_def inv split: prod.splits
          intro!: post_mono [OF handle_reconnect_state [OF assms(1)]] Suc.IH)
        (auto simp: yield_inv_def)
  next
    case False
    have step: "post (yield_loop E n (c'\<lparr>reconnectDelayTimer := t\<rparr>) NETWORK_ATTEMPTING_RECONNECT T w') ?Q"
      if "clientState c' = CLIENT_STATE_PENDING_RECONNECT" for c' t w'
      using Suc.IH that by (simp add: inv)
    show ?thesis using False Suc.prems ys
      by (auto simp: Let_def aws_iot_mqtt_set_client_state_def aws_iot_mqtt_get_client_state_def inv split: prod.splits
          intro!: post_mono [OF cyc] post_mono [OF ka] step Suc.IH)
  qed
qed simp

lemma writes_advance:
  "put bs bp = Some bp' \<Longrightarrow> snd bp \<le> snd bp'"
  "aws_iot_mqtt_internal_write_len_to_buffer len bp = Some (bp', k) \<Longrightarrow> snd bp \<le> snd bp'"
  "aws_iot_mqtt_internal_write_char ch bp = Some bp' \<Longrightarrow> snd bp < snd bp'"
  "aws_iot_mqtt_internal_write_uint_16 x bp = Some bp' \<Longrightarrow> snd bp \<le> snd bp'"
  "aws_iot_mqtt_internal_write_utf8_string s l bp = Some bp' \<Longrightarrow> snd bp \<le> snd bp'"
  by (auto simp: write_len_put write_char_put write_uint_16_put aws_iot_mqtt_internal_write_utf8_string_def
      Option.bind_eq_Some_conv dest!: put_SomeD split: if_splits option.splits)

lemma if_write_advance:
  "(if P then aws_iot_mqtt_internal_write_utf8_string s l bp else Some bp) = Some bp' \<Longrightarrow> snd bp \<le> snd bp'"
  "(if P then aws_iot_mqtt_internal_write_uint_16 x bp else aws_iot_mqtt_internal_write_utf8_string s l bp) = Some bp' \<Longrightarrow>
     snd bp \<le> snd bp'"
  "(if P then Option.bind (aws_iot_mqtt_internal_write_utf8_string s l bp)
      (aws_iot_mqtt_internal_write_utf8_string s' l') else Some bp) = Some bp' \<Longrightarrow> snd bp \<le> snd bp'"
  by (auto simp: Option.bind_eq_Some_conv split: if_splits dest!: writes_advance)

lemma not_refused:
  "(if P then Some (e, buf, 0) else m) = Some (SUCCESS, b, k) \<Longrightarrow> (m = Some (SUCCESS, b, k) \<Longrightarrow> 0 < k) \<Longrightarrow>
     e \<noteq> SUCCESS \<Longrightarrow> 0 < k"
  by (auto split: if_splits)

lemma serialize_connect_nonempty: "aws_iot_mqtt_serialize_connect buf n p = Some (SUCCESS, b, k) \<Longrightarrow> 0 < k"
  unfolding aws_iot_mqtt_serialize_connect_def Let_def
  by (elim not_refused)
    (auto simp: init_header_eq Option.bind_eq_Some_conv split del: if_split dest!: writes_advance if_write_advance)

lemma connack_code_not_SUCCESS:
  "aws_iot_mqtt_deserialize_connack b n = Some (Inr (sp, rc)) \<Longrightarrow> rc \<noteq> SUCCESS"
  by (auto simp: aws_iot_mqtt_deserialize_connack_def Option.bind_eq_Some_conv connack_code_def
      split: if_splits prod.splits)

lemma connect_success:
  "post (aws_iot_mqtt_connect E n c p w) (\<lambda>(rc, c', w'). rc = SUCCESS \<longrightarrow>
     \<not> isPingOutstanding c' \<and>
     (\<exists>sp. aws_iot_mqtt_deserialize_connack (readBuf c') (readBufSize c') = Some (Inr (sp, MQTT_CONNACK_CONNECTION_ACCEPTED))))"
proof -
  have *: "post (aws_iot_mqtt_internal_connect E n c p w) (\<lambda>(rc, c', w'). rc = SUCCESS \<longrightarrow>
     \<not> isPingOutstanding c' \<and>
     (\<exists>sp. aws_iot_mqtt_deserialize_connack (readBuf c') (readBufSize c') = Some (Inr (sp, MQTT_CONNACK_CONNECTION_ACCEPTED))))" for c
    unfolding aws_iot_mqtt_internal_connect_def
    by (auto simp: Let_def split: prod.splits sum.splits option.splits
        intro!: postI [of "net_connect _ _ _ _"] postI [of "aws_iot_mqtt_internal_send_packet _ _ _ _ _ _"]
          postI [of "aws_iot_mqtt_internal_wait_for_read _ _ _ _ _ _"]
        dest: serialize_connect_nonempty connack_code_not_SUCCESS)
  show ?thesis
    by (auto simp: aws_iot_mqtt_connect_def Let_def aws_iot_mqtt_set_client_state_def split: prod.splits
        intro!: postI [of "net_disconnect _ _"] postI [of "net_destroy _ _"] post_mono [OF *])
qed

lemma free_index_spec:
  "j < aws_iot_mqtt_get_free_message_handler_index c \<Longrightarrow> topicName (messageHandlers c ! j) \<noteq> None"
  "aws_iot_mqtt_get_free_message_handler_index c < length (messageHandlers c) \<Longrightarrow>
     topicName (messageHandlers c ! aws_iot_mqtt_get_free_message_handler_index c) = None"
  unfolding aws_iot_mqtt_get_free_message_handler_index_def
  using nth_length_takeWhile [of "\<lambda>h. topicName h \<noteq> None" "messageHandlers c"]
    nth_mem [of j "takeWhile (\<lambda>h. topicName h \<noteq> None) (messageHandlers c)"]
  by (auto simp: takeWhile_nth dest!: set_takeWhileD)

lemma free_index_state [simp]:
  "aws_iot_mqtt_get_free_message_handler_index (c\<lparr>clientState := s\<rparr>) = aws_iot_mqtt_get_free_message_handler_index c"
  by (rule free_index_table) simp

lemma yield_refused:
  fixes c :: AWS_IoT_Client
  defines "s \<equiv> clientState c"
  assumes "\<not> (ms \<noteq> 0 \<and> (s = CLIENT_STATE_CONNECTED_IDLE \<or> s = CLIENT_STATE_PENDING_RECONNECT))"
  shows "aws_iot_mqtt_yield E n c ms w = Done (if ms = 0 then NULL_VALUE_ERROR
       else if s = CLIENT_STATE_DISCONNECTED_MANUALLY then NETWORK_MANUALLY_DISCONNECTED
       else if \<not> connected_state s then NETWORK_DISCONNECTED_ERROR else MQTT_CLIENT_NOT_IDLE_ERROR, c, w)"
  using assms by (cases "clientState c") (auto simp: aws_iot_mqtt_yield_def busy_operation_defs)

lemma yield_final_states:
  assumes "callbacks_keep E keeps_state" and "plain_reads E"
    and "ms \<noteq> 0" and "clientState c = CLIENT_STATE_CONNECTED_IDLE \<or> clientState c = CLIENT_STATE_PENDING_RECONNECT"
  shows "post (aws_iot_mqtt_yield E n c ms w) (\<lambda>(rc, c', w').
       clientState c' \<in> {CLIENT_STATE_CONNECTED_IDLE, CLIENT_STATE_PENDING_RECONNECT, CLIENT_STATE_DISCONNECTED_ERROR} \<and>
       (rc = SUCCESS \<longrightarrow> clientState c' = CLIENT_STATE_CONNECTED_IDLE))"
proof -
  have loop: "yield_inv SUCCESS (clientState c') \<Longrightarrow> post (yield_loop E n c' SUCCESS T w') (\<lambda>(rc, c'', w'').
      clientState c'' = CLIENT_STATE_DISCONNECTED_ERROR \<or> yield_inv rc (clientState c''))" for c' T w'
    by (rule yield_loop_states [OF assms(1,2)])
  have inv: "yield_inv SUCCESS CLIENT_STATE_CONNECTED_YIELD_IN_PROGRESS" "yield_inv SUCCESS CLIENT_STATE_PENDING_RECONNECT"
    by (simp_all add: yield_inv_def yield_states_def)
  show ?thesis
    using assms(3,4)
    by (auto simp: aws_iot_mqtt_yield_def aws_iot_mqtt_internal_yield_def busy_operation_defs inv yield_inv_def
        yield_states_def session_code_def split: prod.splits intro!: post_mono [OF loop])
qed

lemma sim_env_codes:
  "callbacks_keep sim_env keeps_backoff" "disc_keeps sim_env R = (\<forall>c. R c c)" "plain_reads sim_env"
  by (auto simp: callbacks_keep_def disc_keeps_def plain_reads_def keeps_backoff_def split: if_splits)

subsection \<open>Properties\<close>

text \<open>
  C22. Operations do not overlap: in a state in which no operation may start, publish, subscribe and
  unsubscribe refuse at once with the error for "not connected" or "not idle", leaving the client and
  the world (network, clock) untouched.
\<close>

theorem operations_guarded:
  assumes "\<not> may_start (clientState c)"
  defines "e \<equiv> (if connected_state (clientState c) then MQTT_CLIENT_NOT_IDLE_ERROR else NETWORK_DISCONNECTED_ERROR)"
  shows "(l \<noteq> 0 \<longrightarrow> aws_iot_mqtt_publish E n c (Some t) l (Some p) w = Done (e, Some p, c, w))
     \<and> aws_iot_mqtt_subscribe E n c (Some t) l q (Some h) d w = Done (e, c, w)
     \<and> aws_iot_mqtt_unsubscribe E n c (Some t) l w = Done (e, c, w)"
  using assms
  by (auto simp: aws_iot_mqtt_publish_def aws_iot_mqtt_subscribe_def aws_iot_mqtt_unsubscribe_def busy_operation_defs)

theorem operations_guarded_witness:
  "aws_iot_mqtt_publish sim_env 1 (sim_client\<lparr>clientState := CLIENT_STATE_CONNECTED_YIELD_IN_PROGRESS\<rparr>) (Some [97]) 1
     (Some \<lparr>pub_qos = 0, pub_isRetained = 0, pub_isDup = 0, pub_id = 0, pub_payload = None, pub_payloadLen = 0\<rparr>)
     \<lparr>sim_in = [], sim_out = [], sim_clock = 0, sim_calls = []\<rparr> =
   Done (MQTT_CLIENT_NOT_IDLE_ERROR,
     Some \<lparr>pub_qos = 0, pub_isRetained = 0, pub_isDup = 0, pub_id = 0, pub_payload = None, pub_payloadLen = 0\<rparr>,
     sim_client\<lparr>clientState := CLIENT_STATE_CONNECTED_YIELD_IN_PROGRESS\<rparr>,
     \<lparr>sim_in = [], sim_out = [], sim_clock = 0, sim_calls = []\<rparr>)"
  using operations_guarded [of "sim_client\<lparr>clientState := CLIENT_STATE_CONNECTED_YIELD_IN_PROGRESS\<rparr>" 1 sim_env 1 "[97]"
     "\<lparr>pub_qos = 0, pub_isRetained = 0, pub_isDup = 0, pub_id = 0, pub_payload = None, pub_payloadLen = 0\<rparr>"
     "\<lparr>sim_in = [], sim_out = [], sim_clock = 0, sim_calls = []\<rparr>"]
  by (simp add: may_start_def)

text \<open>
  Publish, subscribe, unsubscribe and resubscribe leave the client in the state they found it in,
  on every path, when the application callbacks keep the state.
\<close>

theorem operations_restore_state:
  assumes "callbacks_keep E keeps_state"
  shows "post (aws_iot_mqtt_publish E n c t l p w) (\<lambda>(rc, p', c', w'). clientState c' = clientState c)
     \<and> post (aws_iot_mqtt_subscribe E n c t l q h d w) (\<lambda>(rc, c', w'). clientState c' = clientState c)
     \<and> post (aws_iot_mqtt_unsubscribe E n c t l w) (\<lambda>(rc, c', w'). clientState c' = clientState c)
     \<and> post (aws_iot_mqtt_resubscribe E n c w) (\<lambda>(rc, c', w'). clientState c' = clientState c)"
  using operations_state [OF assms] by (simp add: drop_params_post)

theorem operations_restore_state_witness:
  "post (aws_iot_mqtt_unsubscribe sim_env 9 sim_client (Some [97]) 1 \<lparr>sim_in = [], sim_out = [], sim_clock = 0, sim_calls = []\<rparr>)
     (\<lambda>(rc, c', w'). clientState c' = CLIENT_STATE_CONNECTED_IDLE)"
  using operations_restore_state [OF sim_env_laws(4), of 9 sim_client "Some [97]" 1 None
      "\<lparr>sim_in = [], sim_out = [], sim_clock = 0, sim_calls = []\<rparr>"] by simp

text \<open>
  Publishing with QoS 0 from the idle state: if the packet fits, publish hands exactly the MQTT
  packet of the message to the network in one write, unless the command timer has expired, reports
  success exactly when that write succeeds, and leaves everything but the transmit buffer unchanged.
\<close>

theorem publish_qos0_total:
  fixes l :: u16 and p :: IoT_Publish_Message_Params and t payload :: "byte list"
  defines "pkt \<equiv> packet (header_byte (header_bits PUBLISH 0 0 (pub_isRetained p)))
     (publish_body t l 0 (pub_id p) (take (unat (pub_payloadLen p)) payload))"
  assumes "full_writes E" and "wf_client c" and "clientState c = CLIENT_STATE_CONNECTED_IDLE"
    and "0 < l" and "unat l \<le> length t" and "pub_qos p = 0" and "pub_payload p = Some payload"
    and "unat (pub_payloadLen p) \<le> length payload" and "unat l + unat (pub_payloadLen p) \<le> 500"
  shows "aws_iot_mqtt_publish E (Suc (Suc n)) c (Some t) l (Some p) w =
     (case start_ms E (commandTimeoutMs c) w of (T, w) \<Rightarrow>
      case timer_expired E T w of (expired, w) \<Rightarrow>
      let c' = c\<lparr>writeBuf := pkt @ drop (length pkt) (writeBuf c)\<rparr> in
      if expired then Done (FAILURE, Some p, c', w)
      else bnd (net_write E pkt T w) (\<lambda>(rc, k, w). Done (if rc = SUCCESS then SUCCESS else FAILURE, Some p, c', w)))"
proof -
  let ?body = "publish_body t l 0 (pub_id p) (take (unat (pub_payloadLen p)) payload)"
  have body: "length ?body = 2 + unat l + unat (pub_payloadLen p)"
    using assms(6,9) by (simp add: publish_body_def)
  have enc: "length (encode_len (length ?body)) \<le> 2"
    using body assms(10) by (intro encode_len_small) simp
  have pkt: "0 < length pkt" "length pkt < 512"
    using body enc assms(10) by (simp_all add: pkt_def length_packet)
  have fit: "fits 512 (of_nat (length ?body))" using body assms(10) by (intro fits_small) simp
  let ?c1 = "c\<lparr>clientState := CLIENT_STATE_CONNECTED_PUBLISH_IN_PROGRESS\<rparr>"
  let ?c2 = "?c1\<lparr>writeBuf := pkt @ drop (length pkt) (writeBuf c)\<rparr>"
  have wf: "writeBufSize c = 512" "length (writeBuf c) = 512" using assms(3) by (simp_all add: wf_client_def config_defs)
  have wf2: "wf_client ?c2" using assms(3) pkt by (simp add: wf_client_def config_defs)
  have ser: "aws_iot_mqtt_internal_serialize_publish (writeBuf c) 512 0 0 (pub_isRetained p) (pub_id p) t l
      (Some payload) (pub_payloadLen p) = Some (SUCCESS, pkt @ drop (length pkt) (writeBuf c), length pkt)"
    using serialize_publish_eq [OF assms(6,9), of 512 "writeBuf c" 0 0 "pub_isRetained p" "pub_id p"] fit wf assms(10)
    by (simp add: written_def pkt_def)
  have take: "take (length pkt) (writeBuf ?c2) = pkt" by simp
  have send: "aws_iot_mqtt_internal_send_packet E (Suc (Suc n)) ?c2 (length pkt) T w =
      (case timer_expired E T w of (expired, w) \<Rightarrow> if expired then Done (FAILURE, w)
        else bnd (net_write E pkt T w) (\<lambda>(rc, k, w). Done (if rc = SUCCESS then SUCCESS else FAILURE, w)))" for T w
    unfolding send_packet_eq [OF assms(2) wf2] take using pkt by (simp add: config_defs)
  have restored: "?c2\<lparr>clientState := CLIENT_STATE_CONNECTED_IDLE\<rparr> = c\<lparr>writeBuf := pkt @ drop (length pkt) (writeBuf c)\<rparr>"
    using assms(4) by (cases c) simp
  have l: "l \<noteq> 0" using assms(5) by (simp add: word_gt_0)
  obtain T w1 where t: "start_ms E (commandTimeoutMs c) w = (T, w1)" by fastforce
  obtain x w2 where x: "timer_expired E T w1 = (x, w2)" by fastforce
  show ?thesis
    using l assms(4,7,8) wf ser send [of T w1] restored
    by (cases "net_write E pkt T w2")
      (auto simp: t x aws_iot_mqtt_publish_def aws_iot_mqtt_internal_publish_def busy_operation_defs may_start_def)
qed

theorem publish_qos0_total_witness:
  "aws_iot_mqtt_publish sim_env (Suc (Suc 0)) sim_client (Some [97]) 1
     (Some \<lparr>pub_qos = 0, pub_isRetained = 0, pub_isDup = 0, pub_id = 0, pub_payload = Some [5], pub_payloadLen = 1\<rparr>)
     \<lparr>sim_in = [], sim_out = [], sim_clock = 5, sim_calls = []\<rparr> =
   Done (SUCCESS,
     Some \<lparr>pub_qos = 0, pub_isRetained = 0, pub_isDup = 0, pub_id = 0, pub_payload = Some [5], pub_payloadLen = 1\<rparr>,
     sim_client\<lparr>writeBuf := [48, 4, 0, 1, 97, 5] @ replicate 506 0\<rparr>,
     \<lparr>sim_in = [], sim_out = [48, 4, 0, 1, 97, 5], sim_clock = 7, sim_calls = []\<rparr>)"
  using publish_qos0_total [OF sim_env_laws(2) sim_client_wf, of 1 "[97]"
      "\<lparr>pub_qos = 0, pub_isRetained = 0, pub_isDup = 0, pub_id = 0, pub_payload = Some [5], pub_payloadLen = 1\<rparr>" "[5]" 0
      "\<lparr>sim_in = [], sim_out = [], sim_clock = 5, sim_calls = []\<rparr>"]
    linux_timer.expired_set_ms [of "\<lparr>tv_sec = 5, tv_usec = 0\<rparr>" "\<lparr>tv_sec = 6, tv_usec = 0\<rparr>" 20000]
  by (simp add: start_ms_def timer_expired_def tv_ok_def usecs_def publish_body_def utf8_bytes_def u16_bytes_def
      packet_def encode_len.simps header_byte_def header_bits_def Let_def)

text \<open>
  Connecting and disconnecting. Connect is refused, without any effect, unless the client is
  initialised, disconnected or waiting to reconnect. Otherwise it ends idle exactly when it reports
  success, which it does only after reading a CONNACK that accepts the connection and with no ping
  outstanding; in every other case it ends in the error state. Disconnect is refused unless the
  client is connected; it ends disconnected on success and back in the state it found otherwise.
\<close>

theorem connect_disconnect_states:
  assumes "callbacks_keep E keeps_state"
  shows "(if aws_iot_mqtt_is_client_state_valid_for_connect (clientState c)
      then post (aws_iot_mqtt_connect E n c p w) (\<lambda>(rc, c', w').
        clientState c' = (if rc = SUCCESS then CLIENT_STATE_CONNECTED_IDLE else CLIENT_STATE_DISCONNECTED_ERROR) \<and>
        (rc = SUCCESS \<longrightarrow> \<not> isPingOutstanding c' \<and>
           (\<exists>sp. aws_iot_mqtt_deserialize_connack (readBuf c') (readBufSize c') =
              Some (Inr (sp, MQTT_CONNACK_CONNECTION_ACCEPTED)))))
      else aws_iot_mqtt_connect E n c p w = Done (NETWORK_ALREADY_CONNECTED_ERROR, c, w))
   \<and> (if connected_state (clientState c)
      then post (aws_iot_mqtt_disconnect E n c w) (\<lambda>(rc, c', w').
        clientState c' = (if rc = SUCCESS then CLIENT_STATE_DISCONNECTED_MANUALLY else clientState c))
      else aws_iot_mqtt_disconnect E n c w = Done (NETWORK_DISCONNECTED_ERROR, c, w))"
  using post_conj [OF connect_post [OF assms, of c n p w] connect_success [of E n c p w]]
  by (auto simp: connect_refused disconnect_post disconnect_refused elim!: post_mono)

theorem connect_disconnect_states_witness:
  "aws_iot_mqtt_connect sim_env 9 sim_client None \<lparr>sim_in = [], sim_out = [], sim_clock = 0, sim_calls = []\<rparr> =
     Done (NETWORK_ALREADY_CONNECTED_ERROR, sim_client, \<lparr>sim_in = [], sim_out = [], sim_clock = 0, sim_calls = []\<rparr>)
   \<and> post (aws_iot_mqtt_disconnect sim_env 9 sim_client \<lparr>sim_in = [], sim_out = [], sim_clock = 0, sim_calls = []\<rparr>)
      (\<lambda>(rc, c', w'). clientState c' =
        (if rc = SUCCESS then CLIENT_STATE_DISCONNECTED_MANUALLY else clientState sim_client))"
  using connect_disconnect_states [OF sim_env_laws(4), of sim_client 9 None
      "\<lparr>sim_in = [], sim_out = [], sim_clock = 0, sim_calls = []\<rparr>"] by simp

text \<open>
  C20. Subscribing from a state that allows it. On success the first free entry of the handler table,
  which exists, holds the new subscription and every other entry is as before; on every failure the
  table is unchanged.
\<close>

theorem subscribe_effect:
  assumes "callbacks_keep E keeps_table" and "callbacks_keep E keeps_state"
    and "wf_client c" and "may_start (clientState c)"
  shows "post (aws_iot_mqtt_subscribe E n c (Some t) l q (Some h) d w) (\<lambda>(rc, c', w').
     if rc = SUCCESS
     then \<exists>i < length (messageHandlers c).
         (\<forall>j < i. topicName (messageHandlers c ! j) \<noteq> None) \<and> topicName (messageHandlers c ! i) = None \<and>
         messageHandlers c' = (messageHandlers c)[i := new_handler t l q (Some h) d]
     else messageHandlers c' = messageHandlers c)"
proof -
  let ?i = "aws_iot_mqtt_get_free_message_handler_index c"
  let ?c = "c\<lparr>clientState := CLIENT_STATE_CONNECTED_SUBSCRIBE_IN_PROGRESS\<rparr>"
  have len: "length (messageHandlers c) = AWS_IOT_MQTT_NUM_SUBSCRIBE_HANDLERS" using assms(3) by (simp add: wf_client_def)
  have run: "aws_iot_mqtt_subscribe E n c (Some t) l q (Some h) d w =
      bnd (aws_iot_mqtt_internal_subscribe E n ?c t l q (Some h) d w) (\<lambda>(rc, c', w').
        Done (rc, c'\<lparr>clientState := clientState c\<rparr>, w'))"
    using subscribe_op.runs_and_restores [where t = "Some t" and h = "Some h" and c = c and E = E and n = n and l = l and q = q and d = d and w = w] assms(4) inner_state(2) [OF assms(2), of n ?c]
    by simp
  show ?thesis
    using internal_subscribe_table [OF assms(1), of n ?c t l q "Some h" d w]
    unfolding run post_bnd by (rule post_mono) (use free_index_spec(1) [where c = c] free_index_spec(2) [of c] len in \<open>auto split: if_splits intro!: exI [of _ ?i]\<close>)
qed

theorem subscribe_effect_witness:
  "post (aws_iot_mqtt_subscribe sim_env 9 sim_client (Some [97]) 1 0 (Some 7) None
      \<lparr>sim_in = [144, 3, 0, 2, 0], sim_out = [], sim_clock = 0, sim_calls = []\<rparr>) (\<lambda>(rc, c', w').
     if rc = SUCCESS
     then \<exists>i < length (messageHandlers sim_client). (\<forall>j < i. topicName (messageHandlers sim_client ! j) \<noteq> None) \<and>
         topicName (messageHandlers sim_client ! i) = None \<and>
         messageHandlers c' = (messageHandlers sim_client)[i := new_handler [97] 1 0 (Some 7) None]
     else messageHandlers c' = messageHandlers sim_client)"
  using subscribe_effect [OF sim_env_laws(5,4) sim_client_wf, of 9 "[97]" 1 0 7 None
      "\<lparr>sim_in = [144, 3, 0, 2, 0], sim_out = [], sim_clock = 0, sim_calls = []\<rparr>"]
  by (simp add: may_start_def)

text \<open>
  C21. Unsubscribing from a state that allows it. It fails without touching the table unless the
  filter is registered; on success exactly the entries registered for the filter are freed.
\<close>

theorem unsubscribe_effect:
  assumes "callbacks_keep E keeps_table" and "callbacks_keep E keeps_state" and "may_start (clientState c)"
  shows "post (aws_iot_mqtt_unsubscribe E n c (Some t) l w) (\<lambda>(rc, c', w').
     if rc = SUCCESS then (\<exists>h \<in> set (messageHandlers c). topicName h = Some t) \<and>
       messageHandlers c' = map (\<lambda>h. if topicName h = Some t then h\<lparr>topicName := None\<rparr> else h) (messageHandlers c)
     else messageHandlers c' = messageHandlers c)"
proof -
  let ?c = "c\<lparr>clientState := CLIENT_STATE_CONNECTED_UNSUBSCRIBE_IN_PROGRESS\<rparr>"
  have run: "aws_iot_mqtt_unsubscribe E n c (Some t) l w =
      bnd (aws_iot_mqtt_internal_unsubscribe E n ?c t l w) (\<lambda>(rc, c', w'). Done (rc, c'\<lparr>clientState := clientState c\<rparr>, w'))"
    using unsubscribe_op.runs_and_restores [where t = "Some t" and c = c and E = E and n = n and l = l and w = w] assms(3) inner_state(3) [OF assms(2), of n ?c]
    by simp
  show ?thesis
    using internal_unsubscribe_table [OF assms(1), of n ?c t l w]
    unfolding run post_bnd by (rule post_mono) (auto simp: registered_for_def split: if_splits)
qed

theorem unsubscribe_effect_witness:
  "post (aws_iot_mqtt_unsubscribe sim_env 9 sim_client (Some [97]) 1
      \<lparr>sim_in = [], sim_out = [], sim_clock = 0, sim_calls = []\<rparr>) (\<lambda>(rc, c', w').
     messageHandlers c' = messageHandlers sim_client)"
  using unsubscribe_effect [OF sim_env_laws(5,4), of sim_client 9 "[97]" 1
      "\<lparr>sim_in = [], sim_out = [], sim_clock = 0, sim_calls = []\<rparr>"]
  by (auto simp: may_start_def elim!: post_mono split: if_splits)

text \<open>
  Reconnecting. Resubscribing after a reconnect covers the entries of the handler table before the
  first free one: when the first entry is free, resubscribing reports success at once and sends
  nothing, whatever is registered in the other entries.
\<close>

theorem resubscribe_stops_at_free_entry:
  assumes "wf_client c" and "clientState c = CLIENT_STATE_CONNECTED_IDLE" and "topicName (messageHandlers c ! 0) = None"
  shows "aws_iot_mqtt_resubscribe E n c w = Done (SUCCESS, c, w)"
proof -
  obtain h hs where "messageHandlers c = h # hs"
    using assms(1) by (cases "messageHandlers c") (auto simp: wf_client_def config_defs)
  then have "aws_iot_mqtt_get_free_message_handler_index c = 0"
    using assms(3) by (simp add: aws_iot_mqtt_get_free_message_handler_index_def)
  moreover have "c\<lparr>clientState := CLIENT_STATE_CONNECTED_IDLE\<rparr> = c" using assms(2) by (cases c) simp
  ultimately show ?thesis
    using assms(2) by (simp add: aws_iot_mqtt_resubscribe_def busy_operation_defs aws_iot_mqtt_internal_resubscribe_def)
qed

theorem resubscribe_stops_at_free_entry_witness:
  "aws_iot_mqtt_resubscribe sim_env 3 sim_client \<lparr>sim_in = [], sim_out = [], sim_clock = 0, sim_calls = []\<rparr> =
     Done (SUCCESS, sim_client, \<lparr>sim_in = [], sim_out = [], sim_clock = 0, sim_calls = []\<rparr>)"
  by (rule resubscribe_stops_at_free_entry [OF sim_client_wf]) simp_all

text \<open>
  Reconnect back-off, from the state waiting to reconnect. While the delay runs nothing happens.
  When it has expired, either the client is connected and the yield state is taken again, or the wait
  interval is doubled (modulo \<open>2\<^sup>32\<close>) and compared with the maximum: above it the time-out error is
  returned, otherwise the delay timer is started anew with the doubled interval.
\<close>

theorem reconnect_backoff:
  assumes "callbacks_keep E keeps_state" and "callbacks_keep E keeps_backoff"
    and "clientState c = CLIENT_STATE_PENDING_RECONNECT"
  shows "post (aws_iot_mqtt_handle_reconnect E n c w) (\<lambda>(rc, c', w').
     if \<not> fst (timer_expired E (reconnectDelayTimer c) w) then rc = NETWORK_ATTEMPTING_RECONNECT \<and> c' = c
     else (rc = NETWORK_RECONNECTED \<and> clientState c' = CLIENT_STATE_CONNECTED_YIELD_IN_PROGRESS
            \<and> currentReconnectWaitInterval c' = currentReconnectWaitInterval c)
        \<or> (currentReconnectWaitInterval c' = 2 * currentReconnectWaitInterval c \<and>
           (if AWS_IOT_MQTT_MAX_RECONNECT_WAIT_INTERVAL < 2 * currentReconnectWaitInterval c
            then rc = NETWORK_RECONNECT_TIMED_OUT_ERROR
            else \<exists>v. fst (start_ms E (2 * currentReconnectWaitInterval c) v) = reconnectDelayTimer c')))"
proof -
  have ok: "aws_iot_mqtt_is_client_state_valid_for_connect (clientState c)" using assms(3) by simp
  have att: "post (aws_iot_mqtt_attempt_reconnect E n c w) (\<lambda>(rc, c', w').
      (rc = NETWORK_RECONNECTED \<longrightarrow> clientState c' = CLIENT_STATE_CONNECTED_IDLE) \<and>
      currentReconnectWaitInterval c' = currentReconnectWaitInterval c)" for w
    using post_conj [OF attempt_reconnect_post [OF assms(1) ok, of n w] attempt_reconnect_backoff [OF assms(2), of n c w]]
    by (rule post_mono) auto
  have start: "start_ms E k v = (t, w') \<Longrightarrow> \<exists>v. fst (start_ms E k v) = t" for k v t w'
    by (intro exI [of _ v]) simp
  show ?thesis
    unfolding aws_iot_mqtt_handle_reconnect_def
    by (auto simp: Let_def aws_iot_mqtt_set_client_state_def aws_iot_mqtt_get_client_state_def mult.commute
        split: prod.splits option.splits intro!: post_mono [OF att] dest: start)
qed

theorem reconnect_backoff_witness:
  "post (aws_iot_mqtt_handle_reconnect sim_env 9
      (sim_client\<lparr>clientState := CLIENT_STATE_PENDING_RECONNECT, currentReconnectWaitInterval := 128000\<rparr>)
      \<lparr>sim_in = [], sim_out = [], sim_clock = 9, sim_calls = []\<rparr>) (\<lambda>(rc, c', w').
     rc = NETWORK_RECONNECTED \<or> rc = NETWORK_RECONNECT_TIMED_OUT_ERROR \<and> currentReconnectWaitInterval c' = 256000)"
proof -
  have x: "fst (timer_expired sim_env (reconnectDelayTimer sim_client)
      \<lparr>sim_in = [], sim_out = [], sim_clock = 9, sim_calls = []\<rparr>)"
    by (simp add: timer_expired_def sim_client_def init_timer_def has_timer_expired_def timersub_def)
  show ?thesis
    by (rule post_mono [OF reconnect_backoff [OF sim_env_laws(4) sim_env_codes(1)]])
      (auto simp: x config_defs split: if_splits)
qed

text \<open>
  C23. Keep-alive. With the ping interval not yet over (or keep-alive switched off) nothing is sent and
  nothing changes. Once it is over and no ping is outstanding, exactly the two bytes of PINGREQ are
  handed to the network; if that succeeds the ping is recorded as outstanding and the timer restarts
  with half the keep-alive interval. If the ping before it was never answered, or the PINGREQ cannot
  be sent, the client is disconnected and left in the error state.
\<close>

theorem keep_alive_behaviour:
  fixes c :: AWS_IoT_Client
  assumes "full_writes E" and "wf_client c" and "keepAliveInterval c \<noteq> 0"
    and "timer_expired E (pingTimer c) w = (expired, w1)"
  defines "pkt \<equiv> [0xC0, 0] :: byte list"
  shows "(\<not> expired \<longrightarrow> aws_iot_mqtt_keep_alive E n c w = Done (SUCCESS, c, w1))
     \<and> (expired \<and> isPingOutstanding c \<longrightarrow> post (aws_iot_mqtt_keep_alive E n c w) (\<lambda>(rc, c', w').
          rc = NETWORK_DISCONNECTED_ERROR \<and> clientState c' = CLIENT_STATE_DISCONNECTED_ERROR))
     \<and> (expired \<and> \<not> isPingOutstanding c \<longrightarrow>
          aws_iot_mqtt_keep_alive E (Suc (Suc n)) c w =
          (case start_ms E (commandTimeoutMs c) w1 of (T, w) \<Rightarrow>
           case timer_expired E T w of (late, w) \<Rightarrow>
           let c' = c\<lparr>writeBuf := pkt @ drop 2 (writeBuf c)\<rparr> in
           if late then aws_iot_mqtt_handle_disconnect E (Suc (Suc n)) c' w
           else bnd (net_write E pkt T w) (\<lambda>(rc, k, w).
             if rc \<noteq> SUCCESS then aws_iot_mqtt_handle_disconnect E (Suc (Suc n)) c' w
             else case start_sec E (ucast (keepAliveInterval c) div 2) w of (t, w) \<Rightarrow>
               Done (SUCCESS, c'\<lparr>isPingOutstanding := True, pingTimer := t\<rparr>, w))))"
proof -
  let ?c = "c\<lparr>writeBuf := pkt @ drop 2 (writeBuf c)\<rparr>"
  have wf: "writeBufSize c = 512" "length (writeBuf c) = 512" using assms(2) by (simp_all add: wf_client_def config_defs)
  have wf2: "wf_client ?c" using assms(2) by (simp add: wf_client_def config_defs pkt_def)
  have ser: "aws_iot_mqtt_internal_serialize_zero (writeBuf c) 512 PINGREQ = Some (SUCCESS, pkt @ drop 2 (writeBuf c), 2)"
    using serialize_zero_eq [of 512 "writeBuf c" PINGREQ] wf
    by (simp add: written_def pkt_def header_byte_def header_bits_def numeral_2_eq_2 [symmetric])
  have take2: "take 2 (writeBuf ?c) = pkt" by (simp add: pkt_def)
  have send: "aws_iot_mqtt_internal_send_packet E (Suc (Suc n)) ?c 2 T w =
      (case timer_expired E T w of (late, w) \<Rightarrow> if late then Done (FAILURE, w)
        else bnd (net_write E pkt T w) (\<lambda>(rc, k, w). Done (if rc = SUCCESS then SUCCESS else FAILURE, w)))" for T w
    unfolding send_packet_eq [OF assms(1) wf2] take2 by (simp add: config_defs)
  obtain T w2 where t: "start_ms E (commandTimeoutMs c) w1 = (T, w2)" by fastforce
  obtain x w3 where x: "timer_expired E T w2 = (x, w3)" by fastforce
  have ping: "aws_iot_mqtt_keep_alive E (Suc (Suc n)) c w =
      bnd (aws_iot_mqtt_internal_send_packet E (Suc (Suc n)) ?c 2 T w2) (\<lambda>(rc, w).
        if rc \<noteq> SUCCESS then aws_iot_mqtt_handle_disconnect E (Suc (Suc n)) ?c w
        else case start_sec E (ucast (keepAliveInterval c) div 2) w of (t, w) \<Rightarrow>
          Done (SUCCESS, ?c\<lparr>isPingOutstanding := True, pingTimer := t\<rparr>, w))"
    if "expired" "\<not> isPingOutstanding c"
    using assms(3,4) that by (simp add: aws_iot_mqtt_keep_alive_def t wf(1) ser Let_def cong: if_cong)
  show ?thesis
  proof (intro conjI impI)
    assume "expired \<and> \<not> isPingOutstanding c"
    then show "aws_iot_mqtt_keep_alive E (Suc (Suc n)) c w =
      (case start_ms E (commandTimeoutMs c) w1 of (T, w) \<Rightarrow>
       case timer_expired E T w of (late, w) \<Rightarrow>
       let c' = ?c in
       if late then aws_iot_mqtt_handle_disconnect E (Suc (Suc n)) c' w
       else bnd (net_write E pkt T w) (\<lambda>(rc, k, w).
         if rc \<noteq> SUCCESS then aws_iot_mqtt_handle_disconnect E (Suc (Suc n)) c' w
         else case start_sec E (ucast (keepAliveInterval c) div 2) w of (t, w) \<Rightarrow>
           Done (SUCCESS, c'\<lparr>isPingOutstanding := True, pingTimer := t\<rparr>, w)))"
      by (cases "net_write E pkt T w3") (auto simp: ping send t x Let_def split: prod.splits)
  qed (use assms(3,4) handle_disconnect_post [of E n c w1] in \<open>simp_all add: aws_iot_mqtt_keep_alive_def\<close>)
qed

theorem keep_alive_behaviour_witness:
  "aws_iot_mqtt_keep_alive sim_env (Suc (Suc 0)) sim_client \<lparr>sim_in = [], sim_out = [], sim_clock = 9, sim_calls = []\<rparr> =
     Done (SUCCESS, sim_client\<lparr>writeBuf := [0xC0, 0] @ drop 2 (replicate 512 0), isPingOutstanding := True,
         pingTimer := countdown_sec \<lparr>tv_sec = 12, tv_usec = 0\<rparr> 30\<rparr>,
       \<lparr>sim_in = [], sim_out = [0xC0, 0], sim_clock = 13, sim_calls = []\<rparr>)"
  using keep_alive_behaviour [OF sim_env_laws(2) sim_client_wf, of "\<lparr>sim_in = [], sim_out = [], sim_clock = 9, sim_calls = []\<rparr>"
      True "\<lparr>sim_in = [], sim_out = [], sim_clock = 10, sim_calls = []\<rparr>" 0]
    linux_timer.expired_set_ms [of "\<lparr>tv_sec = 10, tv_usec = 0\<rparr>" "\<lparr>tv_sec = 11, tv_usec = 0\<rparr>" 20000]
  by (simp add: timer_expired_def start_ms_def start_sec_def init_timer_def has_timer_expired_def [of _ "\<lparr>end_time = _\<rparr>"]
      timersub_def tv_ok_def usecs_def Let_def)

text \<open>
  Yield. It is refused with no effect for a zero time, after a manual disconnect, when not
  connected and when another operation is running. Otherwise it ends in one of three states: idle,
  waiting to reconnect, or disconnected by an error; it never leaves the client in the yield state,
  and success means idle.
\<close>

theorem yield_states_left:
  fixes c :: AWS_IoT_Client
  assumes "callbacks_keep E keeps_state" and "plain_reads E"
  defines "s \<equiv> clientState c"
  shows "if ms \<noteq> 0 \<and> (s = CLIENT_STATE_CONNECTED_IDLE \<or> s = CLIENT_STATE_PENDING_RECONNECT)
     then post (aws_iot_mqtt_yield E n c ms w) (\<lambda>(rc, c', w').
       clientState c' \<in> {CLIENT_STATE_CONNECTED_IDLE, CLIENT_STATE_PENDING_RECONNECT, CLIENT_STATE_DISCONNECTED_ERROR} \<and>
       (rc = SUCCESS \<longrightarrow> clientState c' = CLIENT_STATE_CONNECTED_IDLE))
     else aws_iot_mqtt_yield E n c ms w = Done (if ms = 0 then NULL_VALUE_ERROR
       else if s = CLIENT_STATE_DISCONNECTED_MANUALLY then NETWORK_MANUALLY_DISCONNECTED
       else if \<not> connected_state s then NETWORK_DISCONNECTED_ERROR else MQTT_CLIENT_NOT_IDLE_ERROR, c, w)"
  using yield_final_states [OF assms(1,2), of ms c n w] yield_refused [of ms c E n w] by (simp add: s_def)

theorem yield_states_left_witness:
  "aws_iot_mqtt_yield sim_env 9 (sim_client\<lparr>clientState := CLIENT_STATE_DISCONNECTED_MANUALLY\<rparr>) 100
     \<lparr>sim_in = [], sim_out = [], sim_clock = 0, sim_calls = []\<rparr> =
   Done (NETWORK_MANUALLY_DISCONNECTED, sim_client\<lparr>clientState := CLIENT_STATE_DISCONNECTED_MANUALLY\<rparr>,
     \<lparr>sim_in = [], sim_out = [], sim_clock = 0, sim_calls = []\<rparr>)"
  using yield_states_left [OF sim_env_laws(4) sim_env_codes(3), of 100
      "sim_client\<lparr>clientState := CLIENT_STATE_DISCONNECTED_MANUALLY\<rparr>" 9
      "\<lparr>sim_in = [], sim_out = [], sim_clock = 0, sim_calls = []\<rparr>"] by simp

end
