(* ===== verification/Mqtt_Api.thy ===== *)
theory Mqtt_Api
  imports Mqtt_Session
begin

text \<open>
  The public interface of the MQTT client as a state machine. \<open>ApiCall\<close> lists the functions that may
  change a client, \<open>client_call\<close> runs one, \<open>api_call\<close> adds the check for a NULL client, and
  \<open>session\<close> is the set of client states that sequences of calls can reach after a successful
  initialisation. The session invariant is proved by rule induction over it.
\<close>

text \<open>One constructor per function of the client's public interface that may change the client.\<close>

datatype ApiCall =
    Init "IoT_Client_Init_Params option"
  | Set_Connect_Params "IoT_Client_Connect_Params option"
  | Connect "IoT_Client_Connect_Params option"
  | Publish "cstring option" u16 "IoT_Publish_Message_Params option"
  | Subscribe "cstring option" u16 QoS "nat option" "nat option"
  | Resubscribe
  | Unsubscribe "cstring option" u16
  | Disconnect
  | Yield u32
  | Attempt_Reconnect
  | Autoreconnect_Set_Status bool
  | Set_Disconnect_Handler "nat option" "nat option"

text \<open>A call on a client, and on a client pointer: \<open>None\<close> is NULL, which each of these functions refuses.\<close>

fun client_call :: "'w Env \<Rightarrow> nat \<Rightarrow> ApiCall \<Rightarrow> AWS_IoT_Client \<Rightarrow> 'w \<Rightarrow> 'w outcome" where
  "client_call E n (Init p) c w = (case aws_iot_mqtt_init c p of (rc, c) \<Rightarrow> Done (rc, c, w))"
| "client_call E n (Set_Connect_Params p) c w =
     (case aws_iot_mqtt_set_connect_params c p of (rc, c) \<Rightarrow> Done (rc, c, w))"
| "client_call E n (Connect p) c w = aws_iot_mqtt_connect E n c p w"
| "client_call E n (Publish t l p) c w = drop_params (aws_iot_mqtt_publish E n c t l p w)"
| "client_call E n (Subscribe t l q h d) c w = aws_iot_mqtt_subscribe E n c t l q h d w"
| "client_call E n Resubscribe c w = aws_iot_mqtt_resubscribe E n c w"
| "client_call E n (Unsubscribe t l) c w = aws_iot_mqtt_unsubscribe E n c t l w"
| "client_call E n Disconnect c w = aws_iot_mqtt_disconnect E n c w"
| "client_call E n (Yield ms) c w = aws_iot_mqtt_yield E n c ms w"
| "client_call E n Attempt_Reconnect c w = aws_iot_mqtt_attempt_reconnect E n c w"
| "client_call E n (Autoreconnect_Set_Status b) c w =
     (case aws_iot_mqtt_autoreconnect_set_status c b of (rc, c) \<Rightarrow> Done (rc, c, w))"
| "client_call E n (Set_Disconnect_Handler h d) c w =
     (case aws_iot_mqtt_set_disconnect_handler c h d of (rc, c) \<Rightarrow> Done (rc, c, w))"

fun api_call :: "'w Env \<Rightarrow> nat \<Rightarrow> ApiCall \<Rightarrow> AWS_IoT_Client option \<Rightarrow> 'w \<Rightarrow> (IoT_Error_t \<times> AWS_IoT_Client option \<times> 'w) run" where
  "api_call E n call None w = Done (NULL_VALUE_ERROR, None, w)"
| "api_call E n call (Some c) w = bnd (client_call E n call c w) (\<lambda>(rc, c, w). Done (rc, Some c, w))"

text \<open>
  The queries on a possibly NULL client; \<open>aws_iot_mqtt_get_network_disconnected_count\<close> and its reset
  have no NULL check.
\<close>

definition query_state :: "AWS_IoT_Client option \<Rightarrow> ClientState" where
  "query_state p = (case p of None \<Rightarrow> CLIENT_STATE_INVALID | Some c \<Rightarrow> aws_iot_mqtt_get_client_state c)"

definition query_connected :: "AWS_IoT_Client option \<Rightarrow> bool" where
  "query_connected p = (case p of None \<Rightarrow> False | Some c \<Rightarrow> aws_iot_mqtt_is_client_connected c)"

definition query_autoreconnect :: "AWS_IoT_Client option \<Rightarrow> bool" where
  "query_autoreconnect p = (case p of None \<Rightarrow> False | Some c \<Rightarrow> aws_iot_is_autoreconnect_enabled c)"

text \<open>A topic passed to subscribe is as long as its length says.\<close>

fun call_ok :: "ApiCall \<Rightarrow> bool" where
  "call_ok (Subscribe (Some t) l q h d) \<longleftrightarrow> unat l \<le> length t"
| "call_ok _ \<longleftrightarrow> True"

text \<open>
  The client as the application sees it: sequences of calls, each run with some fuel to its end, from
  a client struct whose arrays have their declared sizes.
\<close>

inductive session :: "'w Env \<Rightarrow> AWS_IoT_Client \<Rightarrow> 'w \<Rightarrow> bool" for E :: "'w Env" where
  start: "length (writeBuf c) = AWS_IOT_MQTT_TX_BUF_LEN \<Longrightarrow> length (readBuf c) = AWS_IOT_MQTT_RX_BUF_LEN \<Longrightarrow>
     length (messageHandlers c) = AWS_IOT_MQTT_NUM_SUBSCRIBE_HANDLERS \<Longrightarrow>
     aws_iot_mqtt_init c (Some ip) = (SUCCESS, c') \<Longrightarrow> session E c' w"
| call: "session E c w \<Longrightarrow> call_ok a \<Longrightarrow> client_call E n a c w = Done (rc, c', w') \<Longrightarrow> session E c' w'"

text \<open>The states a session can rest in: those between two calls.\<close>

definition resting :: "ClientState \<Rightarrow> bool" where
  "resting s \<longleftrightarrow> s \<in> {CLIENT_STATE_INITIALIZED, CLIENT_STATE_CONNECTED_IDLE, CLIENT_STATE_DISCONNECTED_ERROR,
     CLIENT_STATE_DISCONNECTED_MANUALLY, CLIENT_STATE_PENDING_RECONNECT}"

lemma init_session:
  assumes "length (writeBuf c) = AWS_IOT_MQTT_TX_BUF_LEN" and "length (readBuf c) = AWS_IOT_MQTT_RX_BUF_LEN"
    and "length (messageHandlers c) = AWS_IOT_MQTT_NUM_SUBSCRIBE_HANDLERS"
  shows "aws_iot_mqtt_init c p = (SUCCESS, c') \<Longrightarrow> wf_client c' \<and> clientState c' = CLIENT_STATE_INITIALIZED"
    and "aws_iot_mqtt_init c p = (rc, c') \<Longrightarrow> rc \<noteq> SUCCESS \<Longrightarrow> c' = c"
  using assms
  by (auto simp: aws_iot_mqtt_init_def Let_def aws_iot_mqtt_set_connect_params_def iot_tls_init_def
      iot_tls_set_connect_params_def wf_client_def list_all_iff handler_ok_def split: option.splits if_splits)

lemma init_state:
  "aws_iot_mqtt_init c p = (rc, c') \<Longrightarrow> clientState c' = CLIENT_STATE_INITIALIZED \<or> c' = c"
  by (auto simp: aws_iot_mqtt_init_def Let_def aws_iot_mqtt_set_connect_params_def iot_tls_init_def
      iot_tls_set_connect_params_def split: option.splits if_splits)

lemma client_call_wf:
  assumes "callbacks_keep E keeps_wf" and "disc_keeps E keeps_wf" and "wf_client c" and "call_ok a"
  shows "post (client_call E n a c w) (\<lambda>(rc, c', w'). wf_client c')"
proof -
  have sizes: "length (writeBuf c) = AWS_IOT_MQTT_TX_BUF_LEN" "length (readBuf c) = AWS_IOT_MQTT_RX_BUF_LEN"
    "length (messageHandlers c) = AWS_IOT_MQTT_NUM_SUBSCRIBE_HANDLERS"
    using assms(3) by (simp_all add: wf_client_def)
  have fields: "wf_client (c\<lparr>options := opts\<rparr>)" "wf_client (c\<lparr>isAutoReconnectEnabled := b\<rparr>)"
    "wf_client (c\<lparr>disconnectHandler := h, disconnectHandlerData := d\<rparr>)" for opts b h d
    using assms(3) by (simp_all add: wf_client_def)
  note ops = operations_wf [OF assms(1,3)] connect_wf [OF assms(1,3)] disconnect_wf [OF assms(1,3)]
    yield_wf [OF assms(1-3)] attempt_reconnect_wf [OF assms(1,3)]
  show ?thesis
  proof (cases a)
    case (Init p)
    show ?thesis
      using init_session [OF sizes, of p] assms(3) by (cases "aws_iot_mqtt_init c p") (auto simp: Init)
  next
    case (Subscribe t l q h d)
    then show ?thesis using ops(2) [of t l] assms(4) by (cases t) simp_all
  qed (use assms(3) fields ops(1,3-) in
      \<open>simp_all add: aws_iot_mqtt_autoreconnect_set_status_def aws_iot_mqtt_set_disconnect_handler_def
        aws_iot_mqtt_set_connect_params_def split: option.splits\<close>)
qed

lemma client_call_resting:
  assumes "callbacks_keep E keeps_state" and "plain_reads E" and "resting (clientState c)"
  shows "post (client_call E n a c w) (\<lambda>(rc, c', w'). resting (clientState c'))"
proof -
  note ops = operations_state [OF assms(1), of n c]
  have conn: "clientState c = CLIENT_STATE_CONNECTED_IDLE \<or> aws_iot_mqtt_is_client_state_valid_for_connect (clientState c)"
    using assms(3) by (auto simp: resting_def)
  show ?thesis
  proof (cases a)
    case (Init p)
    show ?thesis
      using init_state [of c p] assms(3) by (cases "aws_iot_mqtt_init c p") (auto simp: Init resting_def)
  next
    case (Connect p)
    show ?thesis
      using conn assms(3) connect_post [OF assms(1), of c n p w] connect_refused [of c E n p w]
      by (auto simp: Connect resting_def elim!: post_mono split: if_splits)
  next
    case Disconnect
    show ?thesis
      using assms(3) disconnect_post [of c E n w] disconnect_refused [of c E n w]
      by (auto simp: Disconnect resting_def elim!: post_mono split: if_splits)
  next
    case (Yield ms)
    show ?thesis
      using yield_final_states [OF assms(1,2), of ms c n w] yield_refused [of ms c E n w] assms(3)
      by (cases "ms \<noteq> 0 \<and> (clientState c = CLIENT_STATE_CONNECTED_IDLE \<or> clientState c = CLIENT_STATE_PENDING_RECONNECT)")
        (auto simp: Yield resting_def elim!: post_mono)
  next
    case Attempt_Reconnect
    show ?thesis
      using conn assms(3) attempt_reconnect_post [OF assms(1), of c n w]
      by (auto simp: Attempt_Reconnect resting_def aws_iot_mqtt_attempt_reconnect_def
          aws_iot_mqtt_is_client_connected_def elim!: post_mono)
  qed (use assms(3) in \<open>auto simp: aws_iot_mqtt_autoreconnect_set_status_def aws_iot_mqtt_set_disconnect_handler_def
        aws_iot_mqtt_set_connect_params_def split: option.splits intro!: ops [THEN post_mono]\<close>)
qed

lemma session_kept:
  assumes "session E c w"
    and "callbacks_keep E keeps_wf" and "disc_keeps E keeps_wf" and "callbacks_keep E keeps_state" and "plain_reads E"
  shows "wf_client c \<and> resting (clientState c)"
  using assms(1)
proof induction
  case (start c ip c' w)
  then show ?case using init_session(1) [of c "Some ip" c'] by (simp add: resting_def)
next
  case (call c w a n rc c' w')
  then show ?case
    using client_call_wf [OF assms(2,3), of c a n w] client_call_resting [OF assms(4,5), of c n a w] by simp
qed

end
