(* ===== verification/Tls_Client.thy ===== *)
theory Tls_Client
  imports Mqtt_Api
begin

text \<open>
  The MQTT client on the TLS network layer. \<open>tls_env\<close> is the environment whose network functions are
  those of the mbedTLS wrapper. The locale \<open>network_layer\<close> states what the client needs of any
  network; the TLS layer provides it whatever the library does, so the properties of the client that
  rest on it hold of the composed system.
\<close>

text \<open>The client on the TLS layer: the function pointers that \<open>iot_tls_init\<close> stores.\<close>

definition tls_env ::
    "nat \<Rightarrow> int \<Rightarrow> 's Mbedtls
       \<Rightarrow> (nat \<Rightarrow> AWS_IoT_Client \<Rightarrow> nat \<Rightarrow> u16 \<Rightarrow> Rx_Message \<Rightarrow> nat option \<Rightarrow> 's \<Rightarrow> (AWS_IoT_Client \<times> Rx_Message \<times> 's) run)
       \<Rightarrow> (nat \<Rightarrow> AWS_IoT_Client \<Rightarrow> nat option \<Rightarrow> 's \<Rightarrow> (AWS_IoT_Client \<times> 's) run) \<Rightarrow> byte \<Rightarrow> 's Env" where
  "tls_env fuel junk M app disc u = \<lparr>
     gettimeofday = tls_gettimeofday M,
     net_connect = iot_tls_connect fuel M,
     net_read = iot_tls_read fuel M,
     net_write = iot_tls_write fuel junk M,
     net_disconnect = iot_tls_disconnect fuel M,
     net_isConnected = Some iot_tls_is_connected,
     net_destroy = iot_tls_destroy M,
     app_handler = app,
     disc_handler = disc,
     uninit_byte = u\<rparr>"

text \<open>A library for examples that delivers a given byte stream, all requested bytes at once.\<close>

definition stream_tls :: "(int \<times> byte list) Mbedtls" where
  "stream_tls = sim_tls\<lparr>mbedtls_ssl_read := (\<lambda>k (c, stream).
     if length stream < k then (Read_Error MBEDTLS_ERR_SSL_WANT_READ, (c, stream))
     else (Read_Data (take k stream), (c, drop k stream)))\<rparr>"

subsection \<open>What the client needs of a network\<close>

locale network_layer =
  fixes E :: "'w Env"
  assumes plain: "plain_reads E"
    and bounded: "net_read E k T w = Done (rc, bs, m, w') \<Longrightarrow> length bs \<le> k"
    and no_fault: "net_read E k T w \<noteq> Fault"
begin

lemma remaining_len_no_fault: "remaining_len_loop E n len b mu r T w \<noteq> Fault"
proof (induction n arbitrary: len b mu r w)
  case (Suc n)
  show ?case
    using bounded [of 1 T w] no_fault [of 1 T w] Suc
    by (cases "net_read E 1 T w") (auto simp: Let_def bnd_Fault_iff split: if_splits list.splits)
qed simp

lemma store_rx_fits: "off + length bs \<le> length (readBuf c) \<Longrightarrow> \<exists>b. store_rx c off bs = Done (c\<lparr>readBuf := b\<rparr>) \<and> length b = length (readBuf c)"
  by (auto simp: store_rx_def put_eq_Some intro!: exI [of _ "take off (readBuf c) @ bs @ drop (off + length bs) (readBuf c)"])

lemma drop_no_fault:
  "wf_client c \<Longrightarrow> k \<le> readBufSize c \<Longrightarrow> drop_packet_loop E n c r t k T w \<noteq> Fault"
proof (induction n arbitrary: c t k w)
  case (Suc n)
  show ?case
  proof (cases "net_read E k T w")
    case (Done x)
    obtain rc bs m w' where x: "x = (rc, bs, m, w')" by (cases x) auto
    have "length bs \<le> k" using bounded Done x by blast
    then have "0 + length bs \<le> length (readBuf c)" using Suc.prems by (simp add: wf_client_def)
    from store_rx_fits [OF this] obtain b where b: "store_rx c 0 bs = Done (c\<lparr>readBuf := b\<rparr>)" "length b = length (readBuf c)"
      by blast
    have "wf_client (c\<lparr>readBuf := b\<rparr>)" using Suc.prems(1) b(2) by (rule wf_client_update)
    then show ?thesis by (simp add: Done x b(1) Let_def Suc.IH)
  qed (use no_fault in auto)
qed simp

text \<open>Reading a packet can only leave the receive buffer for a body of 510 or 511 bytes.\<close>

lemma read_packet_fault:
  assumes "wf_client c" and "aws_iot_mqtt_internal_read_packet E n c T w = Fault"
  shows "\<exists>w1 rem w2. aws_iot_mqtt_internal_decode_packet_remaining_len E n T w1 = Done (SUCCESS, rem, w2) \<and>
     unat rem \<in> {510, 511}"
proof -
  have buf: "readBufSize c = 512" "length (readBuf c) = 512" using assms(1) by (simp_all add: wf_client_def config_defs)
  obtain rc bs m w1 where r1: "net_read E 1 T w = Done (rc, bs, m, w1)"
    using assms(2) no_fault [of 1 T w] by (cases "net_read E 1 T w") (auto simp: aws_iot_mqtt_internal_read_packet_def simp del: One_nat_def)
  have "0 + length bs \<le> length (readBuf c)" using bounded [OF r1] buf by simp
  from store_rx_fits [OF this] obtain b where b: "store_rx c 0 bs = Done (c\<lparr>readBuf := b\<rparr>)" "length b = 512"
    using buf by auto
  let ?c = "c\<lparr>readBuf := b\<rparr>"
  have wf: "wf_client ?c" using assms(1) b(2) buf by (intro wf_client_update) simp_all
  have s0: "rc \<noteq> NETWORK_SSL_NOTHING_TO_READ"
    using assms(2) by (auto simp: aws_iot_mqtt_internal_read_packet_def r1 b(1) simp del: One_nat_def)
  obtain rc2 rem w2 where d: "aws_iot_mqtt_internal_decode_packet_remaining_len E n T w1 = Done (rc2, rem, w2)"
    using assms(2) s0 remaining_len_no_fault [of n 0 "uninit_byte E" 1 0 T w1]
    by (cases "aws_iot_mqtt_internal_decode_packet_remaining_len E n T w1")
      (auto simp: aws_iot_mqtt_internal_read_packet_def aws_iot_mqtt_internal_decode_packet_remaining_len_def r1 b(1)
        simp del: One_nat_def split: if_splits)
  have s2: "rc2 = SUCCESS"
    using assms(2) s0 by (auto simp: aws_iot_mqtt_internal_read_packet_def r1 b(1) d simp del: One_nat_def split: if_splits)
  have small: "unat rem < 512"
    using assms(2) drop_no_fault [OF wf, of "readBufSize ?c" n rem 0 T w2] buf s0
    by (auto simp: aws_iot_mqtt_internal_read_packet_def r1 b(1) d s2 bnd_Fault_iff not_le [symmetric] simp del: One_nat_def split: if_splits)
  let ?e = "encode_len (unat rem)"
  have e: "length ?e = (if unat rem < 128 then 1 else 2)" using small encode_len_cases [of "unat rem"] by auto
  have rem: "unat (ucast rem :: u32) = unat rem" using small by (simp add: unsigned_ucast_eq take_bit_nat_eq_self)
  define b2 where "b2 = take 1 b @ ?e @ drop (1 + length ?e) b"
  have b2: "length b2 = 512" using e b(2) by (simp add: b2_def)
  have "1 + length ?e \<le> length b" using e b(2) by simp
  then have wl: "aws_iot_mqtt_internal_write_len_to_buffer (ucast rem) (b, 1) = Some ((b2, 1 + length ?e), length ?e)"
    by (simp add: write_len_put rem put_eq_Some b2_def)
  have "510 \<le> unat rem"
  proof (rule ccontr)
    assume "\<not> 510 \<le> unat rem"
    then have fit: "1 + length ?e + unat rem \<le> 512" using e by auto
    have "aws_iot_mqtt_internal_read_packet E n c T w \<noteq> Fault"
    proof (cases "net_read E (unat rem) T w2")
      case (Done y)
      obtain rc3 bs3 m3 w3 where y: "y = (rc3, bs3, m3, w3)" by (cases y) auto
      have "1 + length ?e + length bs3 \<le> length (readBuf (?c\<lparr>readBuf := b2\<rparr>))"
        using bounded Done y fit b2 by fastforce
      from store_rx_fits [OF this] show ?thesis
        using small b2 buf s0 by (auto simp: aws_iot_mqtt_internal_read_packet_def r1 b(1) d s2 wl Done y Let_def simp del: One_nat_def split: if_splits)
    qed (use no_fault small b2 buf s0 in \<open>auto simp: aws_iot_mqtt_internal_read_packet_def r1 b(1) d s2 wl Let_def simp del: One_nat_def\<close>)
    with assms(2) show False by simp
  qed
  with small have "unat rem \<in> {510, 511}" by auto
  with d s2 show ?thesis by blast
qed

end

subsection \<open>The TLS layer provides it\<close>

lemma tls_env_sel [simp]:
  "net_read (tls_env fuel junk M app disc u) = iot_tls_read fuel M"
  "net_write (tls_env fuel junk M app disc u) = iot_tls_write fuel junk M"
  "gettimeofday (tls_env fuel junk M app disc u) = tls_gettimeofday M"
  "app_handler (tls_env fuel junk M app disc u) = app"
  "disc_handler (tls_env fuel junk M app disc u) = disc"
  by (simp_all add: tls_env_def)

lemma tls_read_no_fault: "iot_tls_read n M len T s \<noteq> Fault"
proof -
  have "tls_read_loop n M len T k mem s \<noteq> Fault" for k mem s
    by (induction n arbitrary: k mem s) (auto simp: Let_def split: prod.splits ssl_read_result.splits)
  then show ?thesis by (auto simp: iot_tls_read_def bnd_Fault_iff split: prod.splits if_splits)
qed

interpretation tls_net: network_layer "tls_env fuel junk M app disc u" for fuel junk M app disc u
proof
  show "plain_reads (tls_env fuel junk M app disc u)"
    unfolding plain_reads_def
  proof (intro allI impI)
    fix k T w rc bs m w'
    assume "net_read (tls_env fuel junk M app disc u) k T w = Done (rc, bs, m, w')"
    then show "rc \<noteq> NETWORK_DISCONNECTED_ERROR \<and> rc \<noteq> NETWORK_ATTEMPTING_RECONNECT"
      using read_post [of fuel M k T w] by auto
  qed
next
  fix k T w rc bs m w'
  assume "net_read (tls_env fuel junk M app disc u) k T w = Done (rc, bs, m, w')"
  then show "length bs \<le> k" using read_post [of fuel M k T w] by simp
qed (simp add: tls_read_no_fault)

lemma tls_full_writes: "clock_runs M \<Longrightarrow> honest_writes M \<Longrightarrow> full_writes (tls_env fuel junk M app disc u)"
  unfolding full_writes_def
proof (intro allI impI)
  fix bs T w k w'
  assume M: "clock_runs M" "honest_writes M" and l: "length (bs :: byte list) < 2 ^ 64"
    and w: "net_write (tls_env fuel junk M app disc u) bs T w = Done (SUCCESS, k, w')"
  show "k = length bs" using write_post [OF M l, of fuel junk T w] w by simp
qed

lemma stream_tls_delivers: "delivers (tls_env (Suc n) junk stream_tls app disc u) snd"
  by (auto simp: delivers_def iot_tls_read_def stream_tls_def sim_tls_def tls_left_ms_def tls_expired_def overlay_def
      Let_def split: prod.splits)

subsection \<open>Properties\<close>

text \<open>
  Memory safety of receiving over TLS: on a client that satisfies its invariant, reading a packet
  writes outside the receive buffer only if the remaining length received is 510 or 511, the two
  lengths that pass the size test but leave no room for the fixed header.
\<close>

theorem tls_receive_overflow:
  assumes "wf_client c" and "aws_iot_mqtt_internal_read_packet (tls_env fuel junk M app disc u) n c T s = Fault"
  shows "\<exists>s1 rem s2. aws_iot_mqtt_internal_decode_packet_remaining_len (tls_env fuel junk M app disc u) n T s1 =
     Done (SUCCESS, rem, s2) \<and> unat rem \<in> {510, 511}"
  using assms by (rule tls_net.read_packet_fault)

theorem tls_receive_overflow_witness:
  "\<exists>s1 rem s2. aws_iot_mqtt_internal_decode_packet_remaining_len
      (tls_env 1 0 stream_tls (\<lambda>f c t l m d s. Done (c, m, s)) (\<lambda>f c d s. Done (c, s)) 0) 2 init_timer s1 =
     Done (SUCCESS, rem, s2) \<and> unat rem \<in> {510, 511}"
proof -
  let ?E = "tls_env 1 0 stream_tls (\<lambda>f c t l m d s. Done (c, m, s)) (\<lambda>f c d s. Done (c, s)) 0"
  have d: "delivers ?E snd"
    using stream_tls_delivers [of 0 0 "\<lambda>f c t l m d s. Done (c, m, s)" "\<lambda>f c d s. Done (c, s)" 0] by simp
  have "aws_iot_mqtt_internal_read_packet ?E 2 sim_client init_timer (0, packet 48 (replicate 511 7)) = Fault"
    by (rule read_packet_stream(2) [OF d sim_client_wf, where h = 48 and body = "replicate 511 7" and rest = "[]"])
      (simp_all add: config_defs encode_len.simps)
  from tls_receive_overflow [OF sim_client_wf this] show ?thesis .
qed

text \<open>
  C1. The session invariant of the client on the TLS layer: with the network functions of the mbedTLS
  wrapper, whatever the library does, the invariant and the resting states hold between any two calls
  as soon as the application's callbacks keep them.
\<close>

theorem tls_session_invariant:
  assumes "session (tls_env fuel junk M app disc u) c s" and "callbacks_keep (tls_env fuel junk M app disc u) keeps_wf"
    and "disc_keeps (tls_env fuel junk M app disc u) keeps_wf" and "callbacks_keep (tls_env fuel junk M app disc u) keeps_state"
  shows "wf_client c \<and> resting (clientState c)"
  by (rule session_kept [OF assms tls_net.plain])

theorem tls_session_invariant_witness:
  "wf_client (snd (aws_iot_mqtt_init sim_client (Some (iotClientInitParamsDefault
     \<lparr>pHostURL := Some [104], port := 8883, pRootCALocation := Some [97], pDeviceCertLocation := Some [98],
      pDevicePrivateKeyLocation := Some [99]\<rparr>))))"
proof -
  let ?ip = "iotClientInitParamsDefault\<lparr>pHostURL := Some [104], port := 8883, pRootCALocation := Some [97],
     pDeviceCertLocation := Some [98], pDevicePrivateKeyLocation := Some [99]\<rparr>"
  let ?E = "tls_env 1 0 stream_tls (\<lambda>f c t l m d s. Done (c, m, s)) (\<lambda>f c d s. Done (c, s)) 0"
  have "fst (aws_iot_mqtt_init sim_client (Some ?ip)) = SUCCESS"
    by (simp add: aws_iot_mqtt_init_def aws_iot_mqtt_set_connect_params_def iot_tls_init_def
        iotClientInitParamsDefault_def Let_def iot_tls_set_connect_params_def)
  then have "aws_iot_mqtt_init sim_client (Some ?ip) = (SUCCESS, snd (aws_iot_mqtt_init sim_client (Some ?ip)))"
    by (simp add: prod_eq_iff)
  then have "session ?E (snd (aws_iot_mqtt_init sim_client (Some ?ip))) (0, [])"
    by (rule session.start [rotated 3]) (simp_all add: config_defs)
  from tls_session_invariant [OF this] show ?thesis
    by (simp add: callbacks_keep_def disc_keeps_def keeps_wf_def keeps_state_def)
qed

end
