(* ===== verification/Mqtt_Lifecycle.thy ===== *)
theory Mqtt_Lifecycle
  imports Mqtt_Api
begin

text \<open>
  The life cycle of a client, as an application may think of it: an abstract machine with five phases and
  the transitions each call of the interface may make between them, with the code it returns. The client
  implements it: \<open>phase_of\<close> abstracts a client state, and every call made in a session is a transition of the machine.
\<close>

datatype phase = Fresh | Online | Lost | Left | Retrying

fun phase_of :: "ClientState \<Rightarrow> phase option" where
  "phase_of CLIENT_STATE_INITIALIZED = Some Fresh"
| "phase_of CLIENT_STATE_CONNECTED_IDLE = Some Online"
| "phase_of CLIENT_STATE_DISCONNECTED_ERROR = Some Lost"
| "phase_of CLIENT_STATE_DISCONNECTED_MANUALLY = Some Left"
| "phase_of CLIENT_STATE_PENDING_RECONNECT = Some Retrying"
| "phase_of _ = None"

fun lifecycle :: "phase \<Rightarrow> ApiCall \<Rightarrow> IoT_Error_t \<Rightarrow> phase \<Rightarrow> bool" where
  "lifecycle p (Init ip) rc p' \<longleftrightarrow> p' = (if rc = SUCCESS then Fresh else p)"
| "lifecycle p (Connect cp) rc p' \<longleftrightarrow>
     (if p = Online then rc = NETWORK_ALREADY_CONNECTED_ERROR \<and> p' = Online
      else p' = (if rc = SUCCESS then Online else Lost))"
| "lifecycle p Disconnect rc p' \<longleftrightarrow>
     (if p = Online then p' = (if rc = SUCCESS then Left else Online)
      else rc = NETWORK_DISCONNECTED_ERROR \<and> p' = p)"
| "lifecycle p Attempt_Reconnect rc p' \<longleftrightarrow>
     (if p = Online then rc = NETWORK_ALREADY_CONNECTED_ERROR \<and> p' = Online
      else (rc = NETWORK_RECONNECTED \<longrightarrow> p' = Online) \<and> (p' = Online \<or> rc = NETWORK_ATTEMPTING_RECONNECT \<and> p' = Retrying))"
| "lifecycle p (Yield ms) rc p' \<longleftrightarrow>
     (if ms \<noteq> 0 \<and> (p = Online \<or> p = Retrying)
      then p' \<in> {Online, Retrying, Lost} \<and> (rc = SUCCESS \<longrightarrow> p' = Online)
      else p' = p \<and> rc = (if ms = 0 then NULL_VALUE_ERROR else if p = Left then NETWORK_MANUALLY_DISCONNECTED
                           else NETWORK_DISCONNECTED_ERROR))"
| "lifecycle p _ rc p' \<longleftrightarrow> p' = p"

lemma phase_of_resting: "resting s \<longleftrightarrow> phase_of s \<noteq> None"
  by (cases s) (simp_all add: resting_def)

lemma phase_of_iff [simp]:
  "phase_of s = Some Fresh \<longleftrightarrow> s = CLIENT_STATE_INITIALIZED" "phase_of s = Some Online \<longleftrightarrow> s = CLIENT_STATE_CONNECTED_IDLE"
  "phase_of s = Some Lost \<longleftrightarrow> s = CLIENT_STATE_DISCONNECTED_ERROR" "phase_of s = Some Left \<longleftrightarrow> s = CLIENT_STATE_DISCONNECTED_MANUALLY"
  "phase_of s = Some Retrying \<longleftrightarrow> s = CLIENT_STATE_PENDING_RECONNECT"
  by (cases s; simp)+

lemma may_connect_phase:
  "phase_of s = Some p \<Longrightarrow> p \<noteq> Online \<Longrightarrow> aws_iot_mqtt_is_client_state_valid_for_connect s \<and> \<not> connected_state s"
  by (cases s) auto

lemma init_phase:
  assumes "wf_client c" "aws_iot_mqtt_init c ip = (rc, c')" "phase_of (clientState c) = Some p"
  shows "phase_of (clientState c') = Some (if rc = SUCCESS then Fresh else p)"
proof -
  have sizes: "length (writeBuf c) = AWS_IOT_MQTT_TX_BUF_LEN" "length (readBuf c) = AWS_IOT_MQTT_RX_BUF_LEN"
    "length (messageHandlers c) = AWS_IOT_MQTT_NUM_SUBSCRIBE_HANDLERS"
    using assms(1) by (simp_all add: wf_client_def)
  show ?thesis
    using init_session [OF sizes, of ip] assms(2,3) by auto
qed

text \<open>One call on a well-formed client at rest.\<close>

lemma client_call_lifecycle:
  assumes keeps: "callbacks_keep E keeps_state" and reads: "plain_reads E" and wf: "wf_client c"
    and p: "phase_of (clientState c) = Some p" and call: "client_call E n a c w = Done (rc, c', w')"
  shows "\<exists>p'. phase_of (clientState c') = Some p' \<and> lifecycle p a rc p'"
proof (cases a)
  case (Init ip)
  then show ?thesis using init_phase [OF wf _ p] call by (cases "aws_iot_mqtt_init c ip") auto
next
  case (Connect cp)
  show ?thesis
  proof (cases "p = Online")
    case True
    then show ?thesis using connect_refused [of c E n cp w] call p Connect by auto
  next
    case False
    then show ?thesis
      using connect_post [OF keeps, of c n cp w] may_connect_phase [OF p] call Connect by (cases "rc = SUCCESS") auto
  qed
next
  case Disconnect
  show ?thesis
  proof (cases "p = Online")
    case True
    then show ?thesis using disconnect_post [of c E n w] call p Disconnect by (cases "rc = SUCCESS") auto
  next
    case False
    then show ?thesis using disconnect_refused [of c E n w] may_connect_phase [OF p] call p Disconnect by auto
  qed
next
  case Attempt_Reconnect
  show ?thesis
  proof (cases "p = Online")
    case True
    then show ?thesis
      using call p Attempt_Reconnect by (auto simp: aws_iot_mqtt_attempt_reconnect_def aws_iot_mqtt_is_client_connected_def)
  next
    case False
    then show ?thesis
      using attempt_reconnect_post [OF keeps, of c n w] may_connect_phase [OF p] call Attempt_Reconnect by auto
  qed
next
  case (Yield ms)
  show ?thesis
  proof (cases "ms \<noteq> 0 \<and> (p = Online \<or> p = Retrying)")
    case True
    then show ?thesis using yield_final_states [OF keeps reads, of ms c n w] call p Yield by auto
  next
    case False
    then show ?thesis
      using yield_refused [of ms c E n w] call p Yield may_connect_phase [OF p] by (cases p) (auto split: if_splits)
  qed
qed (use call p in \<open>auto dest: operations_state [OF keeps, THEN postD] simp: aws_iot_mqtt_autoreconnect_set_status_def aws_iot_mqtt_set_disconnect_handler_def
      aws_iot_mqtt_set_connect_params_def split: option.splits if_splits\<close>)


subsection \<open>Properties\<close>

text \<open>
  C9. The client implements the life cycle: in a session, every call takes the client from one phase to
  another as the abstract machine allows, with a code that tells which way it went. In particular only connect, reconnect and
  yield bring it online, yield never leaves the phase of a manual disconnect, and the other calls never change the phase.
\<close>

theorem lifecycle_refined:
  assumes "callbacks_keep E keeps_wf" and "disc_keeps E keeps_wf" and "callbacks_keep E keeps_state" and "plain_reads E"
    and "session E c w" and "client_call E n a c w = Done (rc, c', w')"
  shows "\<exists>p p'. phase_of (clientState c) = Some p \<and> phase_of (clientState c') = Some p' \<and> lifecycle p a rc p'"
proof -
  have "wf_client c" and "resting (clientState c)" using session_kept [OF assms(5,1-4)] by simp_all
  then obtain p where "phase_of (clientState c) = Some p" by (auto simp: phase_of_resting)
  with client_call_lifecycle [OF assms(3,4) \<open>wf_client c\<close> this assms(6)] show ?thesis by blast
qed

text \<open>A fresh client on the in-memory environment, whose connection attempt gets no reply.\<close>

definition fresh_params :: IoT_Client_Init_Params where
  "fresh_params = iotClientInitParamsDefault\<lparr>pHostURL := Some [104], port := 8883, pRootCALocation := Some [99],
     pDeviceCertLocation := Some [99], pDevicePrivateKeyLocation := Some [107]\<rparr>"

lemma fresh_session: "session sim_env (snd (aws_iot_mqtt_init sim_client (Some fresh_params))) w"
proof (rule session.start)
  show "aws_iot_mqtt_init sim_client (Some fresh_params) =
      (SUCCESS, snd (aws_iot_mqtt_init sim_client (Some fresh_params)))"
    by (simp add: aws_iot_mqtt_init_def fresh_params_def aws_iot_mqtt_set_connect_params_def iot_tls_init_def)
qed (use sim_client_wf in \<open>auto simp: wf_client_def\<close>)

theorem lifecycle_refined_witness:
  "let c = snd (aws_iot_mqtt_init sim_client (Some fresh_params)); w = \<lparr>sim_in = [], sim_out = [], sim_clock = 0, sim_calls = []\<rparr> in
   client_call sim_env 9 Disconnect c w = Done (NETWORK_DISCONNECTED_ERROR, c, w) \<and>
   (\<exists>p p'. phase_of (clientState c) = Some p \<and> phase_of (clientState c) = Some p' \<and>
     lifecycle p Disconnect NETWORK_DISCONNECTED_ERROR p')"
proof -
  let ?c = "snd (aws_iot_mqtt_init sim_client (Some fresh_params))"
  let ?w = "\<lparr>sim_in = [], sim_out = [], sim_clock = 0, sim_calls = []\<rparr>"
  have call: "client_call sim_env 9 Disconnect ?c ?w = Done (NETWORK_DISCONNECTED_ERROR, ?c, ?w)"
    by (simp add: disconnect_refused aws_iot_mqtt_init_def fresh_params_def aws_iot_mqtt_set_connect_params_def iot_tls_init_def)
  have "disc_keeps sim_env keeps_wf" by (simp add: sim_env_codes keeps_wf_def)
  from lifecycle_refined [OF sim_env_laws(3) this sim_env_laws(4) sim_env_codes(3) fresh_session call]
  show ?thesis using call by (simp only: Let_def)
qed

end
