(* ===== verification/Mqtt_Progress.thy ===== *)
theory Mqtt_Progress
  imports Tls_Client
begin

text \<open>
  Every call of the client returns. Its loops are bounded by timers, and their bodies by the bytes that arrive:
  the locale \<open>responsive\<close> states what this needs of the environment (a clock that advances, network
  calls and callbacks that return, a budget of bytes still to come), and shows for every operation the
  fuel that suffices: one unit for every microsecond of its time-outs and one for every byte. The TLS layer
  provides these laws over a library that does (locale \<open>live_library\<close>).

  \<open>returns m P\<close>: the run \<open>m\<close> does not run out of fuel, and its result, if it is not undefined, satisfies \<open>P\<close>.
\<close>

definition returns :: "'a run \<Rightarrow> ('a \<Rightarrow> bool) \<Rightarrow> bool" where
  "returns m P \<longleftrightarrow> (case m of Done x \<Rightarrow> P x | Fault \<Rightarrow> True | NoFuel \<Rightarrow> False)"

lemma returns_simps [simp]:
  "returns (Done x) P = P x" "returns Fault P" "\<not> returns NoFuel P"
  "returns (bnd m f) P = returns m (\<lambda>x. returns (f x) P)"
  "returns (of_opt q) P \<longleftrightarrow> (\<forall>x. q = Some x \<longrightarrow> P x)"
  by (cases m; cases q; simp add: returns_def)+

lemma returns_mono: "returns m P \<Longrightarrow> (\<And>x. P x \<Longrightarrow> Q x) \<Longrightarrow> returns m Q"
  by (cases m) simp_all

lemma returns_post: "returns m P \<Longrightarrow> m \<noteq> NoFuel \<and> post m P"
  by (cases m) simp_all

subsection \<open>Time and data still to come\<close>

definition now_us :: "'w Env \<Rightarrow> 'w \<Rightarrow> int" where
  "now_us E w = usecs (fst (gettimeofday E w))"

text \<open>What no step undoes: time passes and bytes are used up. \<open>need\<close> bounds the turns a loop with timer \<open>T\<close> can make.\<close>

definition since :: "'w Env \<Rightarrow> ('w \<Rightarrow> nat) \<Rightarrow> 'w \<Rightarrow> 'w \<Rightarrow> bool" where
  "since E inbox w w' \<longleftrightarrow> now_us E w \<le> now_us E w' \<and> inbox w' \<le> inbox w"

definition need :: "'w Env \<Rightarrow> ('w \<Rightarrow> nat) \<Rightarrow> Timer \<Rightarrow> 'w \<Rightarrow> nat" where
  "need E inbox T w = nat (usecs (end_time T) - now_us E w) + inbox w"

text \<open>A timer as the client sets them: at most \<open>2^32\<close> milliseconds ahead.\<close>

definition armed :: "'w Env \<Rightarrow> Timer \<Rightarrow> 'w \<Rightarrow> bool" where
  "armed E T w \<longleftrightarrow> tv_ok (end_time T) \<and> usecs (end_time T) - now_us E w \<le> 1000 * 2 ^ 32"

definition ready :: "'w Env \<Rightarrow> ('w \<Rightarrow> nat) \<Rightarrow> nat \<Rightarrow> Timer \<Rightarrow> 'w \<Rightarrow> bool" where
  "ready E inbox n T w \<longleftrightarrow> armed E T w \<and> need E inbox T w < n"

text \<open>The fuel that suffices for an operation with time-out \<open>ms\<close>; the part of the client the loops depend on.\<close>

definition budget :: "('w \<Rightarrow> nat) \<Rightarrow> nat \<Rightarrow> u32 \<Rightarrow> 'w \<Rightarrow> bool" where
  "budget inbox n ms w \<longleftrightarrow> 1000 * unat ms + inbox w < n"

definition timed :: "u32 \<Rightarrow> AWS_IoT_Client \<Rightarrow> bool" where
  "timed ms c \<longleftrightarrow> commandTimeoutMs c = ms \<and> 0 < readBufSize c"

lemma since_refl [simp]: "since E inbox w w"
  by (simp add: since_def)

lemma since_trans: "since E inbox w w' \<Longrightarrow> since E inbox w' w'' \<Longrightarrow> since E inbox w w''"
  by (auto simp: since_def)

lemma ready_since: "ready E inbox n T w \<Longrightarrow> since E inbox w w' \<Longrightarrow> ready E inbox n T w'"
  by (auto simp: ready_def since_def armed_def need_def)

lemma budget_since: "budget inbox n ms w \<Longrightarrow> since E inbox w w' \<Longrightarrow> budget inbox n ms w'"
  by (auto simp: budget_def since_def)

lemma timed_update [simp]:
  "timed ms (c\<lparr>readBuf := b\<rparr>) = timed ms c" "timed ms (c\<lparr>writeBuf := b\<rparr>) = timed ms c"
  "timed ms (c\<lparr>clientState := s\<rparr>) = timed ms c" "timed ms (c\<lparr>isPingOutstanding := p\<rparr>) = timed ms c"
  "timed ms (c\<lparr>pingTimer := t\<rparr>) = timed ms c" "timed ms (c\<lparr>nextPacketId := i\<rparr>) = timed ms c"
  "timed ms (c\<lparr>messageHandlers := hs\<rparr>) = timed ms c" "timed ms (c\<lparr>options := os\<rparr>) = timed ms c"
  "timed ms (c\<lparr>networkStack := net\<rparr>) = timed ms c" "timed ms (c\<lparr>keepAliveInterval := k\<rparr>) = timed ms c"
  "timed ms (c\<lparr>reconnectDelayTimer := t\<rparr>) = timed ms c" "timed ms (c\<lparr>counterNetworkDisconnected := d\<rparr>) = timed ms c"
  "timed ms (c\<lparr>currentReconnectWaitInterval := v\<rparr>) = timed ms c"
  by (simp_all add: timed_def)

lemma timed_client_updates:
  "timed ms (snd (aws_iot_mqtt_set_client_state c e s)) = timed ms c"
  "aws_iot_mqtt_set_client_state c e s = (rc, c') \<Longrightarrow> timed ms c' = timed ms c"
  "aws_iot_mqtt_get_next_packet_id c = (i, c') \<Longrightarrow> timed ms c' = timed ms c"
  "aws_iot_mqtt_set_connect_params c q = (rc, c') \<Longrightarrow> timed ms c' = timed ms c"
  by (auto simp: aws_iot_mqtt_set_client_state_def aws_iot_mqtt_get_next_packet_id_def Let_def
      aws_iot_mqtt_set_connect_params_def split: if_splits option.splits)

lemma timed_store_rx: "(\<And>b. P (c\<lparr>readBuf := b\<rparr>)) \<Longrightarrow> returns (store_rx c off bs) P"
  by (auto simp: store_rx_def)

subsection \<open>Environments in which the loops end\<close>

locale responsive =
  fixes E :: "'w Env" and inbox :: "'w \<Rightarrow> nat"
  assumes clock_law: "gettimeofday E w = (now, w') \<Longrightarrow> tv_ok now \<and> now_us E w < now_us E w' \<and> inbox w' \<le> inbox w"
    and read_law: "armed E T w \<Longrightarrow> returns (net_read E k T w) (\<lambda>(rc, bs, m, w'). since E inbox w w' \<and>
        (rc = SUCCESS \<longrightarrow> 0 < k \<longrightarrow> need E inbox T w' < need E inbox T w))"
    and write_law: "armed E T w \<Longrightarrow> returns (net_write E bs T w) (\<lambda>(rc, m, w'). since E inbox w w')"
    and connect_law: "returns (net_connect E net tp w) (\<lambda>(rc, net', w'). since E inbox w w')"
    and disconnect_law: "returns (net_disconnect E w) (\<lambda>(rc, w'). since E inbox w w')"
    and destroy_law: "returns (net_destroy E w) (\<lambda>(rc, w'). since E inbox w w')"
    and connected_law: "net_isConnected E = Some g \<Longrightarrow> g w = (rc, w') \<Longrightarrow> since E inbox w w'"
    and handler_law: "timed ms c \<Longrightarrow>
        returns (app_handler E f c pos len msg d w) (\<lambda>(c', msg', w'). timed ms c' \<and> since E inbox w w')"
    and disc_handler_law: "timed ms c \<Longrightarrow>
        returns (disc_handler E f c d w) (\<lambda>(c', w'). timed ms c' \<and> since E inbox w w')"
begin

abbreviation later :: "'w \<Rightarrow> 'w \<Rightarrow> bool" where
  "later \<equiv> since E inbox"

lemma timers_later:
  "timer_expired E T w = (x, w') \<Longrightarrow> later w w'" "start_ms E ms w = (T, w') \<Longrightarrow> later w w'"
  "start_sec E sec w = (T, w') \<Longrightarrow> later w w'"
  using clock_law by (auto simp: timer_expired_def start_ms_def start_sec_def since_def split: prod.splits) fastforce+

text \<open>A turn of a loop that finds its timer running uses up one unit of its need.\<close>

lemma turn:
  assumes "ready E inbox (Suc n) T w" and "timer_expired E T w = (False, w')"
  shows "ready E inbox n T w'"
proof -
  obtain now where g: "gettimeofday E w = (now, w')" "\<not> has_timer_expired now T"
    using assms(2) by (auto simp: timer_expired_def split: prod.splits)
  have "now_us E w < usecs (end_time T)" and "now_us E w < now_us E w'" and "inbox w' \<le> inbox w"
    using clock_law [OF g(1)] g expired_iff_usecs [of now T] assms(1) by (simp_all add: ready_def armed_def now_us_def)
  then show ?thesis using assms(1) by (auto simp: ready_def armed_def need_def)
qed

lemma start_ready:
  assumes "budget inbox n ms w" and "start_ms E ms w = (T, w')"
  shows "ready E inbox n T w'"
proof -
  obtain now where g: "gettimeofday E w = (now, w')" "T = countdown_ms now ms"
    using assms(2) by (auto simp: start_ms_def split: prod.splits)
  have ok: "tv_ok now" "now_us E w < now_us E w'" "inbox w' \<le> inbox w" using clock_law [OF g(1)] by simp_all
  have T: "usecs (end_time T) = now_us E w + 1000 * uint ms" "tv_ok (end_time T)"
    using g ok(1) by (simp_all add: countdown_ms_def Let_def usecs_timeradd ms_interval tv_ok_timeradd now_us_def)
  have "uint ms < 2 ^ 32" using uint_bounded [of ms] by simp
  then have "armed E T w'" using T ok(2) by (simp add: armed_def)
  moreover have "nat (usecs (end_time T) - now_us E w') \<le> 1000 * unat ms"
    using T(1) ok(2) by (simp add: nat_le_iff)
  ultimately show ?thesis using assms(1) ok(3) by (simp add: ready_def need_def budget_def)
qed

text \<open>
  The laws as rules that push a postcondition through one call; \<open>w0\<close> is the world at the start of the operation.
\<close>

lemma read_rule:
  assumes "later w0 w" and "armed E T w"
    and "\<And>rc bs m w'. later w0 w' \<Longrightarrow> later w w' \<Longrightarrow> (rc = SUCCESS \<Longrightarrow> 0 < k \<Longrightarrow> need E inbox T w' < need E inbox T w) \<Longrightarrow>
      Q (rc, bs, m, w')"
  shows "returns (net_read E k T w) Q"
  by (rule returns_mono [OF read_law [OF assms(2)]]) (auto intro!: assms(3) intro: since_trans [OF assms(1)])

lemma write_rule:
  assumes "later w0 w" and "armed E T w" and "\<And>rc m w'. later w0 w' \<Longrightarrow> later w w' \<Longrightarrow> Q (rc, m, w')"
  shows "returns (net_write E bs T w) Q"
  by (rule returns_mono [OF write_law [OF assms(2)]]) (auto intro!: assms(3) intro: since_trans [OF assms(1)])

lemma connect_rules:
  assumes "later w0 w"
  shows "(\<And>rc net w'. later w0 w' \<Longrightarrow> QC (rc, net, w')) \<Longrightarrow> returns (net_connect E net' tp w) QC"
    and "(\<And>rc w'. later w0 w' \<Longrightarrow> Q (rc, w')) \<Longrightarrow> returns (net_disconnect E w) Q"
    and "(\<And>rc w'. later w0 w' \<Longrightarrow> Q (rc, w')) \<Longrightarrow> returns (net_destroy E w) Q"
  by (rule returns_mono [OF connect_law] returns_mono [OF disconnect_law] returns_mono [OF destroy_law];
      auto intro: since_trans [OF assms])+

lemma handler_rules:
  assumes "later w0 w" and "timed ms c"
  shows "(\<And>c' msg' w'. timed ms c' \<Longrightarrow> later w0 w' \<Longrightarrow> Q (c', msg', w')) \<Longrightarrow> returns (app_handler E f c p l msg d w) Q"
    and "(\<And>c' w'. timed ms c' \<Longrightarrow> later w0 w' \<Longrightarrow> QD (c', w')) \<Longrightarrow> returns (disc_handler E f c d w) QD"
  by (rule returns_mono [OF handler_law [OF assms(2)]] returns_mono [OF disc_handler_law [OF assms(2)]];
      auto intro: since_trans [OF assms(1)])+

lemma timer_rules:
  assumes "later w0 w"
  shows "timer_expired E T w = (x, w') \<Longrightarrow> later w0 w'" "start_ms E ms w = (T, w') \<Longrightarrow> later w0 w'"
    "start_sec E sec w = (T, w') \<Longrightarrow> later w0 w'" "net_isConnected E = Some g \<Longrightarrow> g w = (rc, w') \<Longrightarrow> later w0 w'"
  using timers_later connected_law since_trans [OF assms] by blast+

subsection \<open>Sending and receiving\<close>

lemma send_loop_returns:
  "later w0 w \<Longrightarrow> ready E inbox n T w \<Longrightarrow> returns (send_packet_loop E n b len sent T w) (\<lambda>(k, w'). later w0 w' \<and> later w w')"
proof (induction n arbitrary: sent w)
  case (Suc n)
  obtain x w1 where x: "timer_expired E T w = (x, w1)" by fastforce
  have w1: "later w w1" by (rule timers_later(1) [OF x])
  show ?case
  proof (cases x)
    case False
    then have r: "ready E inbox n T w1" using turn [OF Suc.prems(2)] x by simp
    then have a: "armed E T w1" by (simp add: ready_def)
    have w0: "later w0 w1" by (rule since_trans [OF Suc.prems(1) w1])
    show ?thesis
      using False Suc.prems(1) w0 w1
      by (auto simp: x intro!: write_rule [OF w0 a] returns_mono [OF Suc.IH] ready_since [OF r] since_trans [OF w1] elim: since_trans)
  qed (use w1 Suc.prems x in \<open>auto intro: since_trans\<close>)
qed (simp add: ready_def)

lemma send_returns:
  assumes "later w0 w" and "ready E inbox n T w" and "\<And>rc w'. later w0 w' \<Longrightarrow> ready E inbox n T w' \<Longrightarrow> Q (rc, w')"
  shows "returns (aws_iot_mqtt_internal_send_packet E n c len T w) Q"
  using assms(1,2)
  by (auto simp: aws_iot_mqtt_internal_send_packet_def intro!: returns_mono [OF send_loop_returns [OF assms(1,2)]] assms(3)
      ready_since [OF assms(2)])

text \<open>A successful read uses up time or data, so it pays for the turn of a loop that has no timer of its own.\<close>

lemma read_turn:
  assumes "ready E inbox (Suc n) T w" and "later w w'" and "need E inbox T w' < need E inbox T w"
  shows "ready E inbox n T w'"
  using assms ready_since [OF assms(1,2)] by (simp add: ready_def)

lemma remaining_len_returns:
  "later w0 w \<Longrightarrow> ready E inbox n T w \<Longrightarrow> returns (remaining_len_loop E n len b mu r T w) (\<lambda>(rc, m, w'). later w0 w')"
proof (induction n arbitrary: len b mu r w)
  case (Suc n)
  then have a: "armed E T w" by (simp add: ready_def)
  show ?case
    using Suc.prems(1)
    by (auto simp: Let_def intro!: read_rule [OF Suc.prems(1) a] returns_mono [OF Suc.IH] read_turn [OF Suc.prems(2)])
qed (simp add: ready_def)

lemma drop_returns:
  "later w0 w \<Longrightarrow> ready E inbox n T w \<Longrightarrow> timed ms c \<Longrightarrow> 0 < k \<Longrightarrow>
     returns (drop_packet_loop E n c r t k T w) (\<lambda>(c', w'). later w0 w' \<and> timed ms c')"
proof (induction n arbitrary: c t k w)
  case (Suc n)
  have a: "armed E T w" using Suc.prems by (simp add: ready_def)
  have pos: "0 < unat (r - t')" if "t' < r" for t' :: size_t using that by (simp add: unat_gt_0)
  have size: "0 < readBufSize c" using Suc.prems(3) by (simp add: timed_def)
  show ?case
    using Suc.prems(3,4) size pos
    by (auto simp: Let_def intro!: read_rule [OF Suc.prems(1) a] timed_store_rx returns_mono [OF Suc.IH]
        read_turn [OF Suc.prems(2)])
qed (simp add: ready_def)

lemma read_packet_returns:
  assumes w: "later w0 w" and r: "ready E inbox n T w" and c: "timed ms c"
  shows "returns (aws_iot_mqtt_internal_read_packet E n c T w) (\<lambda>(rc, pt, c', w'). later w0 w' \<and> later w w' \<and> timed ms c')"
proof -
  have arm: "armed E T w'" if "later w w'" for w' using ready_since [OF r that] by (simp add: ready_def)
  have size: "0 < readBufSize c" using c by (simp add: timed_def)
  note read_from_here = read_rule [OF _ arm]
  have len: "returns (aws_iot_mqtt_internal_decode_packet_remaining_len E n T w1) Q"
    if "later w w1" "\<And>rc m w'. later w w' \<Longrightarrow> Q (rc, m, w')" for w1 Q
    unfolding aws_iot_mqtt_internal_decode_packet_remaining_len_def
    by (rule returns_mono [OF remaining_len_returns [OF that(1) ready_since [OF r that(1)]]]) (use that(2) in auto)
  have drop: "returns (drop_packet_loop E n c' q t k T w1) Q"
    if "later w w1" "timed ms c'" "0 < k" "\<And>c' w'. later w w' \<Longrightarrow> timed ms c' \<Longrightarrow> Q (c', w')" for w1 c' q t k Q
    by (rule returns_mono [OF drop_returns [OF that(1) ready_since [OF r that(1)] that(2,3)]]) (use that(4) in auto)
  have "returns (aws_iot_mqtt_internal_read_packet E n c T w) (\<lambda>(rc, pt, c', w'). later w w' \<and> timed ms c')"
    unfolding aws_iot_mqtt_internal_read_packet_def
    using c size by (auto simp: Let_def intro!: read_from_here [of w] timed_store_rx len drop)
  then show ?thesis by (rule returns_mono) (auto intro: since_trans [OF w])
qed

lemma deliver_loop_returns:
  "later w0 w \<Longrightarrow> timed ms c \<Longrightarrow> returns (deliver_loop E k i p l c msg w) (\<lambda>(c', msg', w'). later w0 w' \<and> timed ms c')"
proof (induction k arbitrary: i c msg w)
  case (Suc k)
  then show ?case
    by (auto simp: Let_def rx_slice_def split: option.splits intro!: handler_rules(1) [OF Suc.prems])
qed simp

lemma deliver_returns:
  assumes "later w0 w" and "timed ms c"
  shows "returns (aws_iot_mqtt_internal_deliver_message E c p l msg w) (\<lambda>(rc, c', msg', w'). later w0 w' \<and> timed ms c')"
  using assms
  by (auto simp: aws_iot_mqtt_internal_deliver_message_def Let_def timed_client_updates split: prod.splits
      intro!: returns_mono [OF deliver_loop_returns])

lemma handle_publish_returns:
  assumes w: "later w0 w" and r: "ready E inbox n T w" and c: "timed ms c"
  shows "returns (aws_iot_mqtt_internal_handle_publish E n c T w) (\<lambda>(rc, c', w'). later w0 w' \<and> later w w' \<and> timed ms c')"
proof -
  have "returns (aws_iot_mqtt_internal_handle_publish E n c T w) (\<lambda>(rc, c', w'). later w w' \<and> timed ms c')"
    unfolding aws_iot_mqtt_internal_handle_publish_def
    using c by (auto simp: Let_def split: sum.splits prod.splits
        intro!: returns_mono [OF deliver_returns [OF since_refl c]] send_returns ready_since [OF r])
  then show ?thesis by (rule returns_mono) (auto intro: since_trans [OF w])
qed

lemma cycle_read_returns:
  assumes w: "later w0 w" and r: "ready E inbox n T w" and c: "timed ms c"
  shows "returns (aws_iot_mqtt_internal_cycle_read E n c T pt w) (\<lambda>(rc, pt', c', w'). later w0 w' \<and> later w w' \<and> timed ms c')"
proof -
  have "returns (aws_iot_mqtt_internal_cycle_read E n c T pt w) (\<lambda>(rc, pt', c', w'). later w w' \<and> timed ms c')"
    unfolding aws_iot_mqtt_internal_cycle_read_def
    by (auto simp: Let_def simp del: insert_iff split: prod.splits dest: timer_rules(3)
        intro!: returns_mono [OF read_packet_returns [OF since_refl r c]] returns_mono [OF handle_publish_returns] ready_since [OF r])
  then show ?thesis by (rule returns_mono) (auto intro: since_trans [OF w])
qed

lemma wait_loop_returns:
  "later w0 w \<Longrightarrow> ready E inbox n T w \<Longrightarrow> timed ms c \<Longrightarrow>
     returns (wait_for_read_loop E n c mt pt T w) (\<lambda>(rc, pt', c', w'). later w0 w' \<and> timed ms c')"
proof (induction n arbitrary: c pt w)
  case (Suc n)
  obtain x w1 where x: "timer_expired E T w = (x, w1)" by fastforce
  have w1: "later w0 w1" by (rule timer_rules(1) [OF Suc.prems(1) x])
  show ?case
  proof (cases x)
    case False
    then have r: "ready E inbox n T w1" using turn [OF Suc.prems(2)] x by simp
    show ?thesis
      using False
      by (auto simp: x intro!: returns_mono [OF cycle_read_returns [OF w1 r Suc.prems(3)]] returns_mono [OF Suc.IH] ready_since [OF r])
  qed (use w1 Suc.prems x in simp)
qed (simp add: ready_def)

lemma wait_returns:
  assumes "later w0 w" and "ready E inbox n T w" and "timed ms c" and "\<And>rc c' w'. later w0 w' \<Longrightarrow> timed ms c' \<Longrightarrow> Q (rc, c', w')"
  shows "returns (aws_iot_mqtt_internal_wait_for_read E n c mt T w) Q"
  by (auto simp: aws_iot_mqtt_internal_wait_for_read_def intro!: returns_mono [OF wait_loop_returns [OF assms(1-3)]] assms(4))

subsection \<open>Operations\<close>

lemma start_op:
  assumes "start_ms E (commandTimeoutMs c) w = (T, w')" and "timed ms c" and "budget inbox n ms w"
  shows "ready E inbox n T w'"
  using start_ready [OF assms(3)] assms(1,2) by (simp add: timed_def)

lemmas op_intros = send_returns wait_returns

lemma internal_publish_returns:
  assumes "later w0 w" and "budget inbox n ms w" and "timed ms c"
  shows "returns (aws_iot_mqtt_internal_publish E n c t l p w) (\<lambda>(rc, p', c', w'). later w0 w' \<and> timed ms c')"
  unfolding aws_iot_mqtt_internal_publish_def using assms
  by (auto simp: Let_def timed_client_updates split: prod.splits sum.splits
      dest: timer_rules(2) start_op intro!: op_intros)

lemma internal_subscribe_returns:
  assumes "later w0 w" and "budget inbox n ms w" and "timed ms c"
  shows "returns (aws_iot_mqtt_internal_subscribe E n c t l q h d w) (\<lambda>(rc, c', w'). later w0 w' \<and> timed ms c')"
  unfolding aws_iot_mqtt_internal_subscribe_def using assms
  by (auto simp: Let_def timed_client_updates split: prod.splits sum.splits
      dest: timer_rules(2) start_op intro!: op_intros)

lemma internal_unsubscribe_returns:
  assumes "later w0 w" and "budget inbox n ms w" and "timed ms c"
  shows "returns (aws_iot_mqtt_internal_unsubscribe E n c t l w) (\<lambda>(rc, c', w'). later w0 w' \<and> timed ms c')"
  unfolding aws_iot_mqtt_internal_unsubscribe_def using assms
  by (auto simp: Let_def timed_client_updates split: prod.splits sum.splits
      dest: timer_rules(2) start_op intro!: op_intros)

lemma internal_connect_returns:
  assumes "later w0 w" and "budget inbox n ms w" and "timed ms c"
  shows "returns (aws_iot_mqtt_internal_connect E n c p w) (\<lambda>(rc, c', w'). later w0 w' \<and> timed ms c')"
proof -
  have par: "timed ms c1" if "(case p of None \<Rightarrow> (SUCCESS, c) | Some q \<Rightarrow> aws_iot_mqtt_set_connect_params c (Some q)) = (rc, c1)" for rc c1
    using that assms(3) by (auto simp: timed_client_updates split: option.splits)
  have "returns (aws_iot_mqtt_internal_connect E n c p w) (\<lambda>(rc, c', w'). later w w' \<and> timed ms c')"
    unfolding aws_iot_mqtt_internal_connect_def
    by (auto simp: Let_def split: prod.splits sum.splits dest: par timer_rules
        intro!: connect_rules(1) [OF since_refl] op_intros start_op budget_since [OF assms(2)])
  then show ?thesis by (rule returns_mono) (auto intro: since_trans [OF assms(1)])
qed

lemma internal_disconnect_returns:
  assumes "later w0 w" and "budget inbox n ms w" and "timed ms c"
  shows "returns (aws_iot_mqtt_internal_disconnect E n c w) (\<lambda>(rc, c', w'). later w0 w' \<and> timed ms c')"
  unfolding aws_iot_mqtt_internal_disconnect_def using assms
  by (auto simp: Let_def split: prod.splits dest: timer_rules(2) start_op intro!: op_intros connect_rules(2,3))

lemma resubscribe_loop_returns:
  "later w0 w \<Longrightarrow> budget inbox n ms w0 \<Longrightarrow> timed ms c \<Longrightarrow>
     returns (resubscribe_loop E n k i c w) (\<lambda>(rc, c', w'). later w0 w' \<and> timed ms c')"
proof (induction k arbitrary: i c w)
  case (Suc k)
  have "budget inbox n ms w" by (rule budget_since [OF Suc.prems(2,1)])
  then show ?case using Suc.prems
    by (auto simp: Let_def timed_client_updates split: prod.splits sum.splits
        dest: timer_rules(2) start_op intro!: op_intros Suc.IH)
qed simp

lemma busy_ops_returns:
  assumes "later w0 w" and "budget inbox n ms w" and "timed ms c"
  shows "returns (aws_iot_mqtt_publish E n c t l p w) (\<lambda>(rc, p', c', w'). later w0 w' \<and> timed ms c')"
    and "returns (aws_iot_mqtt_subscribe E n c t l q h d w) (\<lambda>(rc, c', w'). later w0 w' \<and> timed ms c')"
    and "returns (aws_iot_mqtt_unsubscribe E n c t l w) (\<lambda>(rc, c', w'). later w0 w' \<and> timed ms c')"
  unfolding aws_iot_mqtt_publish_def aws_iot_mqtt_subscribe_def aws_iot_mqtt_unsubscribe_def
  using assms
  by (auto simp: Let_def timed_client_updates split: prod.splits
      intro!: returns_mono [OF internal_publish_returns] returns_mono [OF internal_subscribe_returns]
        returns_mono [OF internal_unsubscribe_returns])

lemma resubscribe_returns:
  assumes "later w0 w" and "budget inbox n ms w0" and "timed ms c"
  shows "returns (aws_iot_mqtt_resubscribe E n c w) (\<lambda>(rc, c', w'). later w0 w' \<and> timed ms c')"
  unfolding aws_iot_mqtt_resubscribe_def aws_iot_mqtt_internal_resubscribe_def using assms
  by (auto simp: timed_client_updates split: prod.splits intro!: returns_mono [OF resubscribe_loop_returns])

lemma connect_returns:
  assumes "later w0 w" and "budget inbox n ms w" and "timed ms c"
  shows "returns (aws_iot_mqtt_connect E n c p w) (\<lambda>(rc, c', w'). later w0 w' \<and> timed ms c')"
  unfolding aws_iot_mqtt_connect_def using assms
  by (auto simp: Let_def timed_client_updates split: prod.splits
      intro!: returns_mono [OF internal_connect_returns] connect_rules(2,3))

lemma disconnect_returns:
  assumes "later w0 w" and "budget inbox n ms w" and "timed ms c"
  shows "returns (aws_iot_mqtt_disconnect E n c w) (\<lambda>(rc, c', w'). later w0 w' \<and> timed ms c')"
  unfolding aws_iot_mqtt_disconnect_def using assms
  by (auto simp: Let_def timed_client_updates split: prod.splits intro!: returns_mono [OF internal_disconnect_returns])

lemma attempt_reconnect_returns:
  assumes "later w0 w" and "budget inbox n ms w0" and "timed ms c"
  shows "returns (aws_iot_mqtt_attempt_reconnect E n c w) (\<lambda>(rc, c', w'). later w0 w' \<and> timed ms c')"
  unfolding aws_iot_mqtt_attempt_reconnect_def using assms
  by (auto simp: timed_client_updates budget_since
      intro!: returns_mono [OF connect_returns [OF assms(1)]] returns_mono [OF resubscribe_returns])

lemma handle_disconnect_returns:
  assumes "later w0 w" and "budget inbox n ms w" and "timed ms c"
  shows "returns (aws_iot_mqtt_handle_disconnect E n c w) (\<lambda>(rc, c', w'). later w0 w' \<and> timed ms c')"
  unfolding aws_iot_mqtt_handle_disconnect_def aws_iot_mqtt_force_client_disconnect_def
  by (auto simp: Let_def split: option.splits
      intro!: returns_mono [OF disconnect_returns [OF assms]] connect_rules(2,3) handler_rules(2))

lemma handle_reconnect_returns:
  assumes "later w0 w" and "budget inbox n ms w0" and "timed ms c"
  shows "returns (aws_iot_mqtt_handle_reconnect E n c w) (\<lambda>(rc, c', w'). later w0 w' \<and> timed ms c')"
  unfolding aws_iot_mqtt_handle_reconnect_def using assms
  by (auto simp: Let_def timed_client_updates split: prod.splits option.splits dest: timer_rules
      intro!: returns_mono [OF attempt_reconnect_returns]) (meson timer_rules)

lemma keep_alive_returns:
  assumes "later w0 w" and "budget inbox n ms w0" and "timed ms c"
  shows "returns (aws_iot_mqtt_keep_alive E n c w) (\<lambda>(rc, c', w'). later w0 w' \<and> timed ms c')"
  unfolding aws_iot_mqtt_keep_alive_def using assms
  by (auto simp: Let_def split: prod.splits dest: timer_rules
      intro!: returns_mono [OF handle_disconnect_returns] send_returns start_op budget_since [OF assms(2)])

text \<open>Yield: its own timer bounds the turns, and every turn may run operations with the command time-out.\<close>

lemma yield_ready:
  assumes "ready E inbox (n - 1000 * unat ms) T w"
  shows "ready E inbox n T w" and "budget inbox n ms w"
  using assms by (auto simp: ready_def budget_def need_def)

lemma yield_loop_returns:
  "later w0 w \<Longrightarrow> ready E inbox (n - 1000 * unat ms) T w \<Longrightarrow> timed ms c \<Longrightarrow>
     returns (yield_loop E n c r T w) (\<lambda>(rc, c', w'). later w0 w' \<and> timed ms c')"
proof (induction n arbitrary: c r w)
  case (Suc n)
  obtain x w1 where x: "timer_expired E T w = (x, w1)" by fastforce
  have w1: "later w0 w1" by (rule timer_rules(1) [OF Suc.prems(1) x])
  show ?case
  proof (cases x)
    case False
    have "Suc n - 1000 * unat ms = Suc (n - 1000 * unat ms)" using Suc.prems(2) unfolding ready_def by linarith
    then have r: "ready E inbox (n - 1000 * unat ms) T w1" using turn [of "n - 1000 * unat ms" T w w1] Suc.prems(2) x False by simp
    note r' = yield_ready [OF r]
    have go_on: "returns (yield_loop E n c' r' T w') (\<lambda>(rc, c', w'). later w0 w' \<and> timed ms c')"
      if "later w1 w'" "timed ms c'" for c' r' w'
      by (rule Suc.IH [OF since_trans [OF w1 that(1)] ready_since [OF r that(1)] that(2)])
    have cyc: "returns (aws_iot_mqtt_internal_cycle_read E n c T pt w1) (\<lambda>(rc, pt', c', w'). later w1 w' \<and> timed ms c')" for pt
      by (rule returns_mono [OF cycle_read_returns [OF since_refl r'(1) Suc.prems(3)]]) auto
    show ?thesis
      using False w1 Suc.prems(3)
      by (auto simp: x Let_def timed_client_updates split: prod.splits dest: timer_rules(2)
          intro!: returns_mono [OF handle_reconnect_returns [OF since_refl r'(2)]] go_on returns_mono [OF cyc]
            returns_mono [OF keep_alive_returns [OF _ r'(2)]] elim: since_trans)
  qed (use w1 Suc.prems x in simp)
qed (simp add: ready_def)

lemma yield_returns:
  assumes "later w0 w" and "timed ms c" and "budget inbox (n - 1000 * unat ms) timeout w"
  shows "returns (aws_iot_mqtt_yield E n c timeout w) (\<lambda>(rc, c', w'). later w0 w' \<and> timed ms c')"
  unfolding aws_iot_mqtt_yield_def aws_iot_mqtt_internal_yield_def using assms
  by (auto simp: Let_def timed_client_updates split: prod.splits if_splits dest: timer_rules(2) start_ready
      intro!: returns_mono [OF yield_loop_returns])

text \<open>The fuel that suffices for a call; only yield has a time-out of its own.\<close>

lemma call_returns:
  assumes "0 < readBufSize c"
    and "1000 * (unat (commandTimeoutMs c) + (case a of Yield ms \<Rightarrow> unat ms | _ \<Rightarrow> 0)) + inbox w < n"
  shows "returns (client_call E n a c w) (\<lambda>r. True)"
proof -
  let ?ms = "commandTimeoutMs c"
  have c: "timed ?ms c" and b: "budget inbox n ?ms w" using assms by (simp_all add: timed_def budget_def)
  show ?thesis
  proof (cases a)
    case (Yield ms)
    then have "budget inbox (n - 1000 * unat ?ms) ms w" using assms(2) by (simp add: budget_def)
    from yield_returns [OF since_refl c this] show ?thesis by (auto simp: Yield elim!: returns_mono)
  next
    case (Publish t l p)
    from busy_ops_returns(1) [OF since_refl b c, of t l p] show ?thesis
      by (auto simp: Publish drop_params_def elim!: returns_mono)
  qed (auto split: prod.splits intro!: returns_mono [OF busy_ops_returns(2) [OF since_refl b c]]
      returns_mono [OF busy_ops_returns(3) [OF since_refl b c]] returns_mono [OF resubscribe_returns [OF since_refl b c]]
      returns_mono [OF connect_returns [OF since_refl b c]] returns_mono [OF disconnect_returns [OF since_refl b c]]
      returns_mono [OF attempt_reconnect_returns [OF since_refl b c]])
qed

end

subsection \<open>The TLS layer is responsive\<close>

text \<open>The calls of the library that neither transfer data nor are repeated in a loop.\<close>

inductive library_call :: "'s Mbedtls \<Rightarrow> 's \<Rightarrow> 's \<Rightarrow> bool" for M :: "'s Mbedtls" where
  "library_call M s (tls_contexts_init M s)"
| "ctr_drbg_seed M s = (r, s') \<Longrightarrow> library_call M s s'"
| "parse_cacert M f s = (r, s') \<Longrightarrow> library_call M s s'"
| "parse_clicert M f s = (r, s') \<Longrightarrow> library_call M s s'"
| "pk_parse_keyfile M f s = (r, s') \<Longrightarrow> library_call M s s'"
| "mbedtls_net_connect M h p s = (r, s') \<Longrightarrow> library_call M s s'"
| "net_set_block M s = (r, s') \<Longrightarrow> library_call M s s'"
| "ssl_config_defaults M s = (r, s') \<Longrightarrow> library_call M s s'"
| "library_call M s (ssl_conf_verify M s)"
| "library_call M s (ssl_conf_authmode M b s)"
| "library_call M s (ssl_conf_rng_ca M s)"
| "ssl_conf_own_cert M s = (r, s') \<Longrightarrow> library_call M s s'"
| "library_call M s (ssl_conf_read_timeout M t s)"
| "ssl_setup M s = (r, s') \<Longrightarrow> library_call M s s'"
| "ssl_set_hostname M h s = (r, s') \<Longrightarrow> library_call M s s'"
| "library_call M s (ssl_set_bio M s)"
| "library_call M s (tls_contexts_free M s)"

text \<open>
  What is relied on of the library: time passes, a read takes the bytes it delivers from those still to come,
  no call invents any, and a handshake or a close that asks to be called again does so a bounded number of times.
  \<open>fuel\<close> is the fuel of the loops of the TLS layer.
\<close>

locale live_library =
  fixes M :: "'s Mbedtls" and inb :: "'s \<Rightarrow> nat" and patience :: "'s \<Rightarrow> nat" and fuel :: nat
  assumes runs: "clock_runs M"
    and clock_in: "tls_gettimeofday M s = (now, s') \<Longrightarrow> inb s' \<le> inb s"
    and read_in: "mbedtls_ssl_read M k s = (r, s') \<Longrightarrow>
        inb s' + (case r of Read_Data d \<Rightarrow> length (take k d) | Read_Error e \<Rightarrow> 0) \<le> inb s"
    and write_in: "mbedtls_ssl_write M bs s = (ret, s') \<Longrightarrow> inb s' \<le> inb s"
    and calls: "library_call M s s' \<Longrightarrow> tls_clock M s \<le> tls_clock M s' \<and> inb s' \<le> inb s"
    and handshakes: "ssl_handshake M s = (ret, s') \<Longrightarrow> tls_clock M s \<le> tls_clock M s' \<and> inb s' \<le> inb s \<and>
        (ret \<in> {MBEDTLS_ERR_SSL_WANT_READ, MBEDTLS_ERR_SSL_WANT_WRITE} \<longrightarrow> patience s' < patience s)"
    and closes: "ssl_close_notify M s = (ret, s') \<Longrightarrow> tls_clock M s \<le> tls_clock M s' \<and> inb s' \<le> inb s \<and>
        (ret = MBEDTLS_ERR_SSL_WANT_WRITE \<longrightarrow> patience s' < patience s)"
    and fuel_handshake: "patience s < fuel"
    and fuel_timers: "1000 * 2 ^ 32 < fuel"
begin

definition after :: "'s \<Rightarrow> 's \<Rightarrow> bool" where
  "after s s' \<longleftrightarrow> tls_clock M s \<le> tls_clock M s' \<and> inb s' \<le> inb s"

lemma after_refl [simp]: "after s s"
  by (simp add: after_def)

lemma after_trans: "after s s' \<Longrightarrow> after s' s'' \<Longrightarrow> after s s''"
  by (auto simp: after_def)

lemma after_steps:
  "tls_expired M T s = (x, s') \<Longrightarrow> after s s'" "tls_left_ms M T s = (v, s') \<Longrightarrow> after s s'"
  "mbedtls_ssl_write M bs s = (r, s') \<Longrightarrow> after s s'" "mbedtls_ssl_read M k s = (d, s') \<Longrightarrow> after s s'"
  using clock_steps [OF runs] clock_in read_in write_in
  by (fastforce simp: after_def tls_expired_def tls_left_ms_def split: prod.splits dest: add_leD1)+

lemmas after_from = after_steps [THEN after_trans [rotated]]

lemma handshake_returns: "patience s < n \<Longrightarrow> returns (tls_handshake_loop n M s) (\<lambda>(r, s'). after s s')"
proof (induction n arbitrary: s)
  case (Suc n)
  obtain ret s1 where h: "ssl_handshake M s = (ret, s1)" by fastforce
  have s1: "after s s1" using handshakes [OF h] by (simp add: after_def)
  show ?case
  proof (cases "ret \<in> {MBEDTLS_ERR_SSL_WANT_READ, MBEDTLS_ERR_SSL_WANT_WRITE}")
    case True
    then have "patience s1 < n" using handshakes [OF h] Suc.prems by simp
    from Suc.IH [OF this] show ?thesis using True s1 by (auto simp: h elim!: returns_mono elim: after_trans)
  qed (use s1 h in auto)
qed simp

lemma close_returns: "patience s < n \<Longrightarrow> returns (tls_close_loop n M s) (\<lambda>s'. after s s')"
proof (induction n arbitrary: s)
  case (Suc n)
  obtain ret s1 where h: "ssl_close_notify M s = (ret, s1)" by fastforce
  have s1: "after s s1" using closes [OF h] by (simp add: after_def)
  show ?case
  proof (cases "ret = MBEDTLS_ERR_SSL_WANT_WRITE")
    case True
    then have "patience s1 < n" using closes [OF h] Suc.prems by simp
    from Suc.IH [OF this] show ?thesis using True s1 by (auto simp: h elim!: returns_mono elim: after_trans)
  qed (use s1 h in auto)
qed simp

lemma write_inner_after: "after s0 s \<Longrightarrow> post (tls_write_inner n M msg T ret s) (\<lambda>(e, r, s'). after s0 s')"
proof (induction n arbitrary: ret s)
  case (Suc n)
  then show ?case by (auto split: prod.splits dest: after_from)
qed simp

lemma write_loop_after: "after s0 s \<Longrightarrow> post (tls_write_loop n M msg T k ret s) (\<lambda>(e, r, s'). after s0 s')"
proof (induction n arbitrary: k ret s)
  case (Suc n)
  obtain x s1 where x: "tls_expired M T s = (x, s1)" by fastforce
  have "after s0 s1" by (rule after_from(1) [OF x Suc.prems])
  note inner = write_inner_after [OF this]
  show ?case
    using Suc.prems \<open>after s0 s1\<close> by (auto simp: x intro!: post_mono [OF inner] Suc.IH)
qed simp

lemma read_loop_after:
  "post (tls_read_loop n M len T k mem s) (\<lambda>(e, complete, k', mem', s').
     after s s' \<and> k \<le> k' \<and> inb s' + (k' - k) \<le> inb s \<and> (complete \<longleftrightarrow> len \<le> k'))"
proof (induction n arbitrary: k mem s)
  case (Suc n)
  obtain d s1 where d: "mbedtls_ssl_read M len s = (d, s1)" by fastforce
  obtain v s2 where v: "tls_left_ms M T s1 = (v, s2)" by fastforce
  have "after s s2" using after_steps(4) [OF d] after_steps(2) [OF v] by (rule after_trans)
  moreover have "inb s2 + (case d of Read_Data d \<Rightarrow> length (take len d) | Read_Error e \<Rightarrow> 0) \<le> inb s"
    using read_in [OF d] after_steps(2) [OF v] by (simp add: after_def)
  ultimately show ?case
    by (cases d) (auto simp: d v Let_def intro!: post_mono [OF Suc.IH] elim: after_trans)
qed simp

lemma ends_returns: "ends m Q \<Longrightarrow> post m P \<Longrightarrow> returns m P"
  by (auto simp: ends_def)

lemma tls_timer_fuel:
  assumes "armed (tls_env fuel junk M app disc u) T s" and "tls_clock M s \<le> tls_clock M s'"
  shows "time_left M T s' < fuel"
proof -
  have "usecs (end_time T) - tls_clock M s' < int fuel"
    using assms fuel_timers by (simp add: armed_def now_us_def tls_clock_def)
  then show ?thesis using fuel_timers by (simp add: time_left_def zless_nat_conj nat_less_iff)
qed

lemma tls_write_returns:
  assumes "armed (tls_env fuel junk M app disc u) T s"
  shows "returns (iot_tls_write fuel junk M bs T s) (\<lambda>(rc, k, s'). after s s')"
proof -
  have "tv_ok (end_time T)" using assms by (simp add: armed_def)
  from write_loop_ends [OF runs this tls_timer_fuel [OF assms order_refl]]
  have "returns (tls_write_loop fuel M bs T 0 junk s) (\<lambda>(e, r, s'). after s s')"
    by (rule ends_returns) (rule write_loop_after [OF after_refl])
  then show ?thesis
    by (auto simp: iot_tls_write_def split: prod.splits dest: after_from elim!: returns_mono)
qed

lemma tls_read_returns:
  fixes junk app disc u
  defines "E \<equiv> tls_env fuel junk M app disc u"
  assumes a: "armed E T s"
  shows "returns (iot_tls_read fuel M k T s) (\<lambda>(rc, bs, m, s'). after s s' \<and> (rc = SUCCESS \<longrightarrow> 0 < k \<longrightarrow> need E inb T s' < need E inb T s))"
proof -
  have T: "tv_ok (end_time T)" using a by (simp add: armed_def)
  obtain v s1 where v: "tls_left_ms M T s = (v, s1)" by fastforce
  have s1: "after s s1" "tls_clock M s < tls_clock M s1" using after_steps(2) [OF v] clock_steps(2) [OF runs v] by simp_all
  have "returns (tls_read_loop fuel M k T 0 [] s1) (\<lambda>(e, complete, k', mem', s').
      after s1 s' \<and> inb s' + k' \<le> inb s1 \<and> (complete \<longleftrightarrow> k \<le> k'))"
    using read_loop_ends [OF runs T tls_timer_fuel [OF a [unfolded E_def]], of s1 k 0 "[]"] s1(2) read_loop_after [of fuel k T 0 "[]" s1]
    by (intro ends_returns) (auto elim!: post_mono)
  moreover have "after s s3 \<and> (\<not> x \<or> 0 < m \<longrightarrow> need E inb T s3 < need E inb T s)"
    if s2: "after s1 s2" "inb s2 + m \<le> inb s1" and x: "tls_expired M T s2 = (x, s3)" for s2 m x s3
  proof -
    have s3: "tls_clock M s2 < tls_clock M s3" "inb s3 \<le> inb s2" "x \<longleftrightarrow> usecs (end_time T) \<le> tls_clock M s2"
      using clock_steps(1) [OF runs x] after_steps(1) [OF x] expired_iff_usecs [OF _ T] runs
      by (auto simp: after_def tls_clock_def clock_runs_def)
    have "need E inb T s3 < need E inb T s" if "\<not> x \<or> 0 < m"
    proof -
      have "nat (usecs (end_time T) - tls_clock M s3) \<le> nat (usecs (end_time T) - tls_clock M s)"
        "\<not> x \<Longrightarrow> nat (usecs (end_time T) - tls_clock M s3) < nat (usecs (end_time T) - tls_clock M s)"
        "inb s3 + m \<le> inb s"
        using s1 s2 s3 by (auto simp: after_def)
      then show ?thesis using that by (auto simp: need_def E_def now_us_def tls_clock_def)
    qed
    moreover have "after s s3" using s1(1) s2(1) after_steps(1) [OF x] after_trans by blast
    ultimately show ?thesis by blast
  qed
  ultimately show ?thesis
    by (auto simp: iot_tls_read_def v split: prod.splits elim!: returns_mono intro: after_trans [OF s1(1)])
qed

lemma tls_connect_returns: "returns (iot_tls_connect fuel M net tp s) (\<lambda>(rc, net', s'). after s s')"
proof -
  have lib: "after s0 s'" if "library_call M s s'" "after s0 s" for s0 s s'
    using calls [OF that(1)] that(2) by (auto simp: after_def)
  note libs = library_call.intros [THEN lib]
  have hs: "returns (tls_handshake_loop fuel M s') (\<lambda>(r, s''). after s s'')" if "after s s'" for s'
    using handshake_returns [OF fuel_handshake, of s'] by (rule returns_mono) (auto intro: after_trans [OF that])
  define net1 where "net1 = (case tp of None \<Rightarrow> net | Some p \<Rightarrow>
            iot_tls_set_connect_params (tls_pRootCALocation p) (tls_pDeviceCertLocation p)
              (tls_pDevicePrivateKeyLocation p) (tls_pDestinationURL p) (tls_DestinationPort p)
              (tls_timeout_ms p) (tls_ServerVerificationFlag p) net)"
  define cp where "cp = tlsConnectParams net1"
  have s0: "after s (tls_contexts_init M s)" by (rule libs(1)) simp
  obtain r1 s1 where 1: "ctr_drbg_seed M (tls_contexts_init M s) = (r1, s1)" by fastforce
  have a1: "after s s1" by (rule libs(2) [OF 1 s0])
  obtain r2 s2 where 2: "parse_cacert M (tls_pRootCALocation cp) s1 = (r2, s2)" by fastforce
  have a2: "after s s2" by (rule libs(3) [OF 2 a1])
  obtain r3 s3 where 3: "parse_clicert M (tls_pDeviceCertLocation cp) s2 = (r3, s3)" by fastforce
  have a3: "after s s3" by (rule libs(4) [OF 3 a2])
  obtain r4 s4 where 4: "pk_parse_keyfile M (tls_pDevicePrivateKeyLocation cp) s3 = (r4, s4)" by fastforce
  have a4: "after s s4" by (rule libs(5) [OF 4 a3])
  obtain r5 s5 where 5: "mbedtls_net_connect M (tls_pDestinationURL cp) (tls_DestinationPort cp) s4 = (r5, s5)" by fastforce
  have a5: "after s s5" by (rule libs(6) [OF 5 a4])
  obtain r6 s6 where 6: "net_set_block M s5 = (r6, s6)" by fastforce
  have a6: "after s s6" by (rule libs(7) [OF 6 a5])
  obtain r7 s7 where 7: "ssl_config_defaults M s6 = (r7, s7)" by fastforce
  have a7: "after s s7" by (rule libs(8) [OF 7 a6])
  let ?s8 = "ssl_conf_rng_ca M (ssl_conf_authmode M (tls_ServerVerificationFlag cp) (ssl_conf_verify M s7))"
  have "after s ?s8" by (intro libs(9-11) a7)
  obtain r9 s9 where 9: "ssl_conf_own_cert M ?s8 = (r9, s9)" by fastforce
  have a9: "after s s9" by (rule libs(12) [OF 9 \<open>after s ?s8\<close>])
  let ?s10 = "ssl_conf_read_timeout M (tls_timeout_ms cp) s9"
  have "after s ?s10" by (intro libs(13) a9)
  obtain r11 s11 where 11: "ssl_setup M ?s10 = (r11, s11)" by fastforce
  have a11: "after s s11" by (rule libs(14) [OF 11 \<open>after s ?s10\<close>])
  obtain r12 s12 where 12: "ssl_set_hostname M (tls_pDestinationURL cp) s11 = (r12, s12)" by fastforce
  have a12: "after s s12" by (rule libs(15) [OF 12 a11])
  have "after s (ssl_set_bio M s12)" by (intro libs(16) a12)
  note h = hs [OF this]
  show ?thesis
    unfolding iot_tls_connect_def net1_def [symmetric] Let_def cp_def [symmetric]
    using a1 a2 a3 a4 a5 a6 a7 a9 a11 a12
    by (simp add: 1 2 3 4 5 6 7 9 11 12) (intro impI returns_mono [OF h], auto split: prod.splits intro: libs(13))
qed

lemma tls_disconnect_returns: "returns (iot_tls_disconnect fuel M s) (\<lambda>(rc, s'). after s s')"
  by (auto simp: iot_tls_disconnect_def intro!: returns_mono [OF close_returns [OF fuel_handshake]])

end

text \<open>The client over such a library, with callbacks that return.\<close>

locale live_client = live_library M inb patience fuel
  for M :: "'s Mbedtls" and inb :: "'s \<Rightarrow> nat" and patience :: "'s \<Rightarrow> nat" and fuel :: nat +
  fixes junk :: int
    and app :: "nat \<Rightarrow> AWS_IoT_Client \<Rightarrow> nat \<Rightarrow> u16 \<Rightarrow> Rx_Message \<Rightarrow> nat option \<Rightarrow> 's \<Rightarrow> (AWS_IoT_Client \<times> Rx_Message \<times> 's) run"
    and disc :: "nat \<Rightarrow> AWS_IoT_Client \<Rightarrow> nat option \<Rightarrow> 's \<Rightarrow> (AWS_IoT_Client \<times> 's) run" and u :: byte
  assumes app_returns: "timed ms c \<Longrightarrow> returns (app f c pos len msg d s)
        (\<lambda>(c', msg', s'). timed ms c' \<and> tls_clock M s \<le> tls_clock M s' \<and> inb s' \<le> inb s)"
    and disc_returns: "timed ms c \<Longrightarrow> returns (disc f c d s)
        (\<lambda>(c', s'). timed ms c' \<and> tls_clock M s \<le> tls_clock M s' \<and> inb s' \<le> inb s)"

sublocale live_client \<subseteq> responsive "tls_env fuel junk M app disc u" inb
proof -
  let ?E = "tls_env fuel junk M app disc u"
  have since: "since ?E inb = after"
    by (intro ext) (simp add: since_def after_def now_us_def tls_clock_def)
  show "responsive ?E inb"
  proof
    fix w now w' assume "gettimeofday ?E w = (now, w')"
    then show "tv_ok now \<and> now_us ?E w < now_us ?E w' \<and> inb w' \<le> inb w"
      using runs clock_in [of w now w'] by (auto simp: now_us_def clock_runs_def tls_clock_def) (metis fst_conv snd_conv)+
  next
    fix T w k assume "armed ?E T w"
    from tls_read_returns [OF this, of k] show "returns (net_read ?E k T w) (\<lambda>(rc, bs, m, w'). since ?E inb w w' \<and>
        (rc = SUCCESS \<longrightarrow> 0 < k \<longrightarrow> need ?E inb T w' < need ?E inb T w))" by (simp add: since)
  next
    fix T w bs assume "armed ?E T w"
    from tls_write_returns [OF this] show "returns (net_write ?E bs T w) (\<lambda>(rc, m, w'). since ?E inb w w')" by (simp add: since)
  next
    fix net tp w show "returns (net_connect ?E net tp w) (\<lambda>(rc, net', w'). since ?E inb w w')"
      using tls_connect_returns by (simp add: tls_env_def since [unfolded tls_env_def])
  next
    fix w show "returns (net_disconnect ?E w) (\<lambda>(rc, w'). since ?E inb w w')"
      using tls_disconnect_returns by (simp add: tls_env_def since [unfolded tls_env_def])
  next
    fix w show "returns (net_destroy ?E w) (\<lambda>(rc, w'). since ?E inb w w')"
      using calls [OF library_call.intros(17)]
      by (simp add: tls_env_def since [unfolded tls_env_def] iot_tls_destroy_def after_def)
  next
    fix g w rc w' assume "net_isConnected ?E = Some g" "g w = (rc, w')"
    then show "since ?E inb w w'" by (auto simp: tls_env_def iot_tls_is_connected_def)
  next
    fix ms c f pos len msg d w assume "timed ms c"
    from app_returns [OF this] show "returns (app_handler ?E f c pos len msg d w) (\<lambda>(c', msg', w'). timed ms c' \<and> since ?E inb w w')"
      by (simp add: since after_def)
  next
    fix ms c f d w assume "timed ms c"
    from disc_returns [OF this] show "returns (disc_handler ?E f c d w) (\<lambda>(c', w'). timed ms c' \<and> since ?E inb w w')"
      by (simp add: since after_def)
  qed
qed

context live_client
begin

lemma tls_call_returns:
  assumes "wf_client c"
    and "1000 * (unat (commandTimeoutMs c) + (case a of Yield ms \<Rightarrow> unat ms | _ \<Rightarrow> 0)) + inb s < n"
  shows "client_call (tls_env fuel junk M app disc u) n a c s \<noteq> NoFuel"
  using call_returns [of c a s n] assms by (auto simp: wf_client_def config_defs dest: returns_post)

end

text \<open>A library for examples that takes all bytes written and delivers those of a given stream; callbacks that do nothing.\<close>

definition live_tls :: "(int \<times> byte list) Mbedtls" where
  "live_tls = stream_tls\<lparr>mbedtls_ssl_write := (\<lambda>bs s. (int (length bs), s))\<rparr>"

interpretation stream_live: live_client live_tls "\<lambda>s. length (snd s)" "\<lambda>s. 0" 5000000000000 junk
  "\<lambda>f c t l m d s. Done (c, m, s)" "\<lambda>f c d s. Done (c, s)" u for junk u
proof
  fix s s' :: "int \<times> byte list"
  assume "library_call live_tls s s'"
  then show "tls_clock live_tls s \<le> tls_clock live_tls s' \<and> length (snd s') \<le> length (snd s)"
    by cases (auto simp: live_tls_def stream_tls_def sim_tls_def tls_clock_def)
qed (auto simp: live_tls_def stream_tls_def sim_tls_def tls_clock_def clock_runs_def usecs_def tv_ok_def mbedtls_constants
    split: if_splits prod.splits)

subsection \<open>Properties\<close>



end
