(* ===== verification/Mqtt_World.thy ===== *)
theory Mqtt_World
  imports Mqtt_Api
begin

text \<open>
  Invariants of the world around a client. The locale \<open>io_invariant\<close> states that the clock and the network's reads
  and writes keep a predicate on the world, and shows that sending and receiving a packet then keeps it;
  \<open>world_invariant\<close> extends it by the other network calls and the application's callbacks, and covers
  every client operation. The shadow layer keeps its tables in that world (theory \<open>Shadow_Invariant\<close>).
\<close>

locale io_invariant =
  fixes E :: "'w Env" and I :: "'w \<Rightarrow> bool"
  assumes clock_I: "gettimeofday E w = (now, w') \<Longrightarrow> I w \<Longrightarrow> I w'"
    and read_I: "I w \<Longrightarrow> post (net_read E k T w) (\<lambda>(rc, bs, m, w'). I w')"
    and write_I: "I w \<Longrightarrow> post (net_write E bs T w) (\<lambda>(rc, m, w'). I w')"
begin

lemma timer_I: "timer_expired E T w = (e, w') \<Longrightarrow> I w \<Longrightarrow> I w'" "start_ms E ms w = (t, w') \<Longrightarrow> I w \<Longrightarrow> I w'"
  "start_sec E sec w = (t, w') \<Longrightarrow> I w \<Longrightarrow> I w'"
  using clock_I by (auto simp: timer_expired_def start_ms_def start_sec_def split: prod.splits)

lemma send_loop_I: "I w \<Longrightarrow> post (send_packet_loop E n b len sent T w) (\<lambda>(k, w'). I w')"
proof (induction n arbitrary: sent w)
  case (Suc n)
  then show ?case
    by (auto split: prod.splits dest: timer_I intro!: post_mono [OF write_I])
qed simp

lemma send_I: "I w \<Longrightarrow> post (aws_iot_mqtt_internal_send_packet E n c len T w) (\<lambda>(rc, w'). I w')"
  by (auto simp: aws_iot_mqtt_internal_send_packet_def intro!: post_mono [OF send_loop_I])

lemma remaining_len_I: "I w \<Longrightarrow> post (remaining_len_loop E n len b mu r T w) (\<lambda>(rc, m, w'). I w')"
proof (induction n arbitrary: len b mu r w)
  case (Suc n)
  then show ?case by (auto simp: Let_def split: list.splits intro!: post_mono [OF read_I])
qed simp

lemma store_rx_post: "(\<And>b. P (c\<lparr>readBuf := b\<rparr>)) \<Longrightarrow> post (store_rx c off bs) P"
  by (auto simp: store_rx_def)

lemma drop_I: "I w \<Longrightarrow> post (drop_packet_loop E n c r t k T w) (\<lambda>(c', w'). I w')"
proof (induction n arbitrary: c t k w)
  case (Suc n)
  then show ?case by (auto simp: Let_def intro!: post_mono [OF read_I] store_rx_post)
qed simp

lemma read_packet_I: "I w \<Longrightarrow> post (aws_iot_mqtt_internal_read_packet E n c T w) (\<lambda>(rc, t, c', w'). I w')"
  by (auto simp: aws_iot_mqtt_internal_read_packet_def aws_iot_mqtt_internal_decode_packet_remaining_len_def Let_def
      split: prod.splits
      intro!: post_mono [OF read_I] store_rx_post post_mono [OF remaining_len_I] post_mono [OF drop_I])

end

locale world_invariant = io_invariant +
  assumes connect_I: "I w \<Longrightarrow> post (net_connect E net tp w) (\<lambda>(rc, net', w'). I w')"
    and disconnect_I: "I w \<Longrightarrow> post (net_disconnect E w) (\<lambda>(rc, w'). I w')"
    and destroy_I: "I w \<Longrightarrow> post (net_destroy E w) (\<lambda>(rc, w'). I w')"
    and connected_I: "net_isConnected E = Some g \<Longrightarrow> g w = (rc, w') \<Longrightarrow> I w \<Longrightarrow> I w'"
    and handler_I: "I w \<Longrightarrow> post (app_handler E f c pos l msg d w) (\<lambda>(c', msg', w'). I w')"
    and disc_handler_I: "I w \<Longrightarrow> post (disc_handler E f c d w) (\<lambda>(c', w'). I w')"
begin

lemma deliver_loop_I: "I w \<Longrightarrow> post (deliver_loop E k i p l c msg w) (\<lambda>(c', msg', w'). I w')"
proof (induction k arbitrary: i c msg w)
  case (Suc k)
  then show ?case
    by (auto simp: Let_def rx_slice_def split: option.splits intro!: post_mono [OF handler_I])
qed simp

lemma deliver_I: "I w \<Longrightarrow> post (aws_iot_mqtt_internal_deliver_message E c p l msg w) (\<lambda>(rc, c', msg', w'). I w')"
  by (auto simp: aws_iot_mqtt_internal_deliver_message_def Let_def split: prod.splits intro!: post_mono [OF deliver_loop_I])

lemma handle_publish_I: "I w \<Longrightarrow> post (aws_iot_mqtt_internal_handle_publish E n c T w) (\<lambda>(rc, c', w'). I w')"
  by (auto simp: aws_iot_mqtt_internal_handle_publish_def Let_def split: sum.splits prod.splits
      intro!: post_mono [OF deliver_I] post_mono [OF send_I])

lemma cycle_read_I: "I w \<Longrightarrow> post (aws_iot_mqtt_internal_cycle_read E n c T pt w) (\<lambda>(rc, pt', c', w'). I w')"
  by (auto simp: aws_iot_mqtt_internal_cycle_read_def Let_def split: prod.splits dest: timer_I
      intro!: post_mono [OF read_packet_I] post_mono [OF handle_publish_I])

lemma wait_loop_I: "I w \<Longrightarrow> post (wait_for_read_loop E n c mt pt T w) (\<lambda>(rc, pt', c', w'). I w')"
proof (induction n arbitrary: c pt w)
  case (Suc n)
  then show ?case by (auto split: prod.splits dest: timer_I intro!: post_mono [OF cycle_read_I])
qed simp

lemma wait_I: "I w \<Longrightarrow> post (aws_iot_mqtt_internal_wait_for_read E n c mt T w) (\<lambda>(rc, c', w'). I w')"
  by (auto simp: aws_iot_mqtt_internal_wait_for_read_def intro!: post_mono [OF wait_loop_I])

lemmas exchange_I = post_mono [OF send_I] post_mono [OF wait_I]

lemma internal_publish_I: "I w \<Longrightarrow> post (aws_iot_mqtt_internal_publish E n c t l p w) (\<lambda>(rc, p', c', w'). I w')"
  by (auto simp: aws_iot_mqtt_internal_publish_def Let_def split: prod.splits sum.splits dest: timer_I intro!: exchange_I)

lemma internal_subscribe_I: "I w \<Longrightarrow> post (aws_iot_mqtt_internal_subscribe E n c t l q h d w) (\<lambda>(rc, c', w'). I w')"
  by (auto simp: aws_iot_mqtt_internal_subscribe_def Let_def split: prod.splits sum.splits dest: timer_I intro!: exchange_I)

lemma internal_unsubscribe_I: "I w \<Longrightarrow> post (aws_iot_mqtt_internal_unsubscribe E n c t l w) (\<lambda>(rc, c', w'). I w')"
  by (auto simp: aws_iot_mqtt_internal_unsubscribe_def Let_def split: prod.splits sum.splits dest: timer_I intro!: exchange_I)

lemma resubscribe_loop_I: "I w \<Longrightarrow> post (resubscribe_loop E n k i c w) (\<lambda>(rc, c', w'). I w')"
proof (induction k arbitrary: i c w)
  case (Suc k)
  then show ?case by (auto simp: Let_def split: prod.splits sum.splits dest: timer_I intro!: exchange_I)
qed simp

lemma internal_connect_I: "I w \<Longrightarrow> post (aws_iot_mqtt_internal_connect E n c p w) (\<lambda>(rc, c', w'). I w')"
  by (auto simp: aws_iot_mqtt_internal_connect_def Let_def split: prod.splits sum.splits dest: timer_I
      intro!: post_mono [OF connect_I] exchange_I)

lemma internal_disconnect_I: "I w \<Longrightarrow> post (aws_iot_mqtt_internal_disconnect E n c w) (\<lambda>(rc, c', w'). I w')"
  by (auto simp: aws_iot_mqtt_internal_disconnect_def Let_def split: prod.splits dest: timer_I
      intro!: exchange_I post_mono [OF disconnect_I] post_mono [OF destroy_I])

lemma publish_I: "I w \<Longrightarrow> post (aws_iot_mqtt_publish E n c t l p w) (\<lambda>(rc, p', c', w'). I w')"
  by (auto simp: aws_iot_mqtt_publish_def Let_def split: prod.splits intro!: post_mono [OF internal_publish_I])

lemma subscribe_I: "I w \<Longrightarrow> post (aws_iot_mqtt_subscribe E n c t l q h d w) (\<lambda>(rc, c', w'). I w')"
  by (auto simp: aws_iot_mqtt_subscribe_def Let_def split: prod.splits intro!: post_mono [OF internal_subscribe_I])

lemma unsubscribe_I: "I w \<Longrightarrow> post (aws_iot_mqtt_unsubscribe E n c t l w) (\<lambda>(rc, c', w'). I w')"
  by (auto simp: aws_iot_mqtt_unsubscribe_def Let_def split: prod.splits intro!: post_mono [OF internal_unsubscribe_I])

lemma resubscribe_I: "I w \<Longrightarrow> post (aws_iot_mqtt_resubscribe E n c w) (\<lambda>(rc, c', w'). I w')"
  by (auto simp: aws_iot_mqtt_resubscribe_def aws_iot_mqtt_internal_resubscribe_def split: prod.splits
      intro!: post_mono [OF resubscribe_loop_I])

lemma mqtt_connect_I: "I w \<Longrightarrow> post (aws_iot_mqtt_connect E n c p w) (\<lambda>(rc, c', w'). I w')"
  by (auto simp: aws_iot_mqtt_connect_def Let_def split: prod.splits
      intro!: post_mono [OF internal_connect_I] post_mono [OF disconnect_I] post_mono [OF destroy_I])

lemma mqtt_disconnect_I: "I w \<Longrightarrow> post (aws_iot_mqtt_disconnect E n c w) (\<lambda>(rc, c', w'). I w')"
  by (auto simp: aws_iot_mqtt_disconnect_def Let_def split: prod.splits intro!: post_mono [OF internal_disconnect_I])

lemma attempt_reconnect_I: "I w \<Longrightarrow> post (aws_iot_mqtt_attempt_reconnect E n c w) (\<lambda>(rc, c', w'). I w')"
  by (auto simp: aws_iot_mqtt_attempt_reconnect_def split: prod.splits
      intro!: post_mono [OF mqtt_connect_I] post_mono [OF resubscribe_I])

lemma force_disconnect_I: "I w \<Longrightarrow> post (aws_iot_mqtt_force_client_disconnect E c w) (\<lambda>(c', w'). I w')"
  by (auto simp: aws_iot_mqtt_force_client_disconnect_def Let_def
      intro!: post_mono [OF disconnect_I] post_mono [OF destroy_I])

lemma handle_disconnect_I: "I w \<Longrightarrow> post (aws_iot_mqtt_handle_disconnect E n c w) (\<lambda>(rc, c', w'). I w')"
  by (auto simp: aws_iot_mqtt_handle_disconnect_def split: option.splits
      intro!: post_mono [OF mqtt_disconnect_I] post_mono [OF force_disconnect_I] post_mono [OF disc_handler_I])

lemma handle_reconnect_I: "I w \<Longrightarrow> post (aws_iot_mqtt_handle_reconnect E n c w) (\<lambda>(rc, c', w'). I w')"
  by (auto simp: aws_iot_mqtt_handle_reconnect_def Let_def split: prod.splits option.splits dest: timer_I connected_I
      intro!: post_mono [OF attempt_reconnect_I])

lemma keep_alive_I: "I w \<Longrightarrow> post (aws_iot_mqtt_keep_alive E n c w) (\<lambda>(rc, c', w'). I w')"
  by (auto simp: aws_iot_mqtt_keep_alive_def Let_def split: prod.splits dest: timer_I
      intro!: post_mono [OF handle_disconnect_I] post_mono [OF send_I])

lemma yield_loop_I: "I w \<Longrightarrow> post (yield_loop E n c r T w) (\<lambda>(rc, c', w'). I w')"
proof (induction n arbitrary: c r w)
  case (Suc n)
  then show ?case
    by (auto simp: Let_def split: prod.splits dest: timer_I
      intro!: post_mono [OF handle_reconnect_I] post_mono [OF cycle_read_I] post_mono [OF keep_alive_I])
qed simp

lemma yield_I: "I w \<Longrightarrow> post (aws_iot_mqtt_yield E n c ms w) (\<lambda>(rc, c', w'). I w')"
  by (auto simp: aws_iot_mqtt_yield_def aws_iot_mqtt_internal_yield_def Let_def split: prod.splits dest: timer_I
      intro!: post_mono [OF yield_loop_I])

end

end
