(* ===== verification/Jsmn.thy ===== *)
theory Jsmn
  imports Prelude
begin

text \<open>
  The JSON tokeniser external_libs/jsmn/jsmn.c, built as the SDK builds it (\<open>JSMN_STRICT\<close>, no parent
  links). Characters are bytes; a read outside the text is \<open>None\<close>. Positions are naturals: the code's
  \<open>unsigned int\<close> and \<open>int\<close> agree with them for texts shorter than \<open>2\<^sup>31\<close> bytes. The token array is a list
  of fixed length. The scanners are separate functions because their loops end by different
  measures; the lemmas needed to see that the main loop ends stand before it.
\<close>

datatype jsmntype_t = JSMN_PRIMITIVE | JSMN_OBJECT | JSMN_ARRAY | JSMN_STRING

definition JSMN_ERROR_NOMEM :: int where "JSMN_ERROR_NOMEM = - 1"
definition JSMN_ERROR_INVAL :: int where "JSMN_ERROR_INVAL = - 2"
definition JSMN_ERROR_PART :: int where "JSMN_ERROR_PART = - 3"

record jsmntok_t =
  tok_type :: jsmntype_t
  tok_start :: int
  tok_end :: int
  tok_size :: int

record jsmn_parser =
  pos :: nat
  toknext :: nat
  toksuper :: int

definition jsmn_init :: "jsmn_parser \<Rightarrow> jsmn_parser" where
  "jsmn_init parser = parser\<lparr>pos := 0, toknext := 0, toksuper := - 1\<rparr>"

definition jsmn_alloc_token :: "jsmn_parser \<Rightarrow> jsmntok_t list \<Rightarrow> (nat \<times> jsmn_parser \<times> jsmntok_t list) option" where
  "jsmn_alloc_token parser tokens =
     (if length tokens \<le> toknext parser then None
      else let i = toknext parser
           in Some (i, parser\<lparr>toknext := i + 1\<rparr>, tokens[i := (tokens ! i)\<lparr>tok_start := - 1, tok_end := - 1, tok_size := 0\<rparr>]))"

definition jsmn_fill_token :: "jsmntok_t \<Rightarrow> jsmntype_t \<Rightarrow> int \<Rightarrow> int \<Rightarrow> jsmntok_t" where
  "jsmn_fill_token token type start endp =
     token\<lparr>tok_type := type, tok_start := start, tok_end := endp, tok_size := 0\<rparr>"

subsection \<open>Primitives\<close>

text \<open>Tab, carriage return, newline, space, comma, closing bracket, closing brace.\<close>

definition ends_primitive :: "byte \<Rightarrow> bool" where
  "ends_primitive c \<longleftrightarrow> c \<in> {9, 13, 10, 32, 44, 93, 125}"

text \<open>
  The \<open>for\<close> loop of \<open>jsmn_parse_primitive\<close> from position \<open>p\<close>: the position of the character that ends
  the primitive, or the error returned.
\<close>

function primitive_scan :: "byte list \<Rightarrow> nat \<Rightarrow> nat \<Rightarrow> (int + nat) option" where
  "primitive_scan js len p =
     (if p < len then do {
        c \<leftarrow> byte_at js p;
        if c = 0 then Some (Inl JSMN_ERROR_PART)
        else if ends_primitive c then Some (Inr p)
        else if c < 32 \<or> 127 \<le> c then Some (Inl JSMN_ERROR_INVAL)
        else primitive_scan js len (Suc p)
      } else Some (Inl JSMN_ERROR_PART))"
  by pat_completeness auto
termination by (relation "measure (\<lambda>(js, len, p). len - p)") auto

declare primitive_scan.simps [simp del]

text \<open>
  A parse step returns the code, the parser and the token array (\<open>None\<close> for a NULL array, in which
  case the tokens are only counted).
\<close>

type_synonym parse_state = "jsmn_parser \<times> jsmntok_t list option"

text \<open>
  The end of both scanners: allocate a token and fill it, moving to \<open>newpos\<close>. Without room the parser
  stays where the token starts.
\<close>

definition jsmn_emit :: "jsmn_parser \<Rightarrow> jsmntok_t list option \<Rightarrow> jsmntype_t \<Rightarrow> nat \<Rightarrow> nat \<Rightarrow> nat \<Rightarrow> int \<times> parse_state" where
  "jsmn_emit parser tokens type start endp newpos =
     (case tokens of
        None \<Rightarrow> (0, parser\<lparr>pos := newpos\<rparr>, None)
      | Some toks \<Rightarrow>
          (case jsmn_alloc_token parser toks of
             None \<Rightarrow> (JSMN_ERROR_NOMEM, parser, tokens)
           | Some (i, parser, toks) \<Rightarrow>
               (0, parser\<lparr>pos := newpos\<rparr>, Some (toks[i := jsmn_fill_token (toks ! i) type (int start) (int endp)]))))"

definition jsmn_parse_primitive :: "jsmn_parser \<Rightarrow> byte list \<Rightarrow> nat \<Rightarrow> jsmntok_t list option \<Rightarrow> (int \<times> parse_state) option" where
  "jsmn_parse_primitive parser js len tokens = do {
     r \<leftarrow> primitive_scan js len (pos parser);
     Some (case r of
        Inl e \<Rightarrow> (e, parser, tokens)
      | Inr p \<Rightarrow> jsmn_emit parser tokens JSMN_PRIMITIVE (pos parser) p (p - 1))
   }"

subsection \<open>Strings\<close>

definition hex_digit :: "byte \<Rightarrow> bool" where
  "hex_digit c \<longleftrightarrow> (48 \<le> c \<and> c \<le> 57) \<or> (65 \<le> c \<and> c \<le> 70) \<or> (97 \<le> c \<and> c \<le> 102)"

text \<open>The loop over the digits after \<open>\u\<close>, \<open>k\<close> of them left: the position after the last one.\<close>

fun hex_scan :: "byte list \<Rightarrow> nat \<Rightarrow> nat \<Rightarrow> (int + nat) option" where
  "hex_scan js p 0 = Some (Inr p)"
| "hex_scan js p (Suc k) = do {
     c \<leftarrow> byte_at js p;
     if c = 0 then Some (Inr p)
     else if hex_digit c then hex_scan js (Suc p) k
     else Some (Inl JSMN_ERROR_INVAL)
   }"

text \<open>Quote, slash, backslash, \<open>b\<close>, \<open>f\<close>, \<open>r\<close>, \<open>n\<close>, \<open>t\<close>.\<close>

definition simple_escape :: "byte \<Rightarrow> bool" where
  "simple_escape c \<longleftrightarrow> c \<in> {34, 47, 92, 98, 102, 114, 110, 116}"

text \<open>The escape whose backslash is at \<open>p\<close>: the position of the next character of the string.\<close>

definition escape_scan :: "byte list \<Rightarrow> nat \<Rightarrow> (int + nat) option" where
  "escape_scan js p = do {
     c \<leftarrow> byte_at js (Suc p);
     if simple_escape c then Some (Inr (p + 2))
     else if c = 117 then hex_scan js (p + 2) 4
     else Some (Inl JSMN_ERROR_INVAL)
   }"

lemma hex_scan_advances: "hex_scan js p k = Some (Inr p') \<Longrightarrow> p \<le> p'"
  by (induction js p k rule: hex_scan.induct) (auto simp: Option.bind_eq_Some_conv split: if_splits)

lemma escape_scan_advances: "escape_scan js p = Some (Inr p') \<Longrightarrow> p + 2 \<le> p'"
  by (auto simp: escape_scan_def Option.bind_eq_Some_conv dest: hex_scan_advances split: if_splits)

text \<open>The loop of \<open>jsmn_parse_string\<close>: the position of the closing quote.\<close>

function string_scan :: "byte list \<Rightarrow> nat \<Rightarrow> nat \<Rightarrow> (int + nat) option" where
  "string_scan js len p =
     (if p < len then do {
        c \<leftarrow> byte_at js p;
        if c = 0 then Some (Inl JSMN_ERROR_PART)
        else if c = 34 then Some (Inr p)
        else if c = 92 then do {
          r \<leftarrow> escape_scan js p;
          (case r of Inl e \<Rightarrow> Some (Inl e) | Inr p' \<Rightarrow> string_scan js len p')
        }
        else string_scan js len (Suc p)
      } else Some (Inl JSMN_ERROR_PART))"
  by pat_completeness auto
termination by (relation "measure (\<lambda>(js, len, p). len - p)") (auto dest: escape_scan_advances)

declare string_scan.simps [simp del]

definition jsmn_parse_string :: "jsmn_parser \<Rightarrow> byte list \<Rightarrow> nat \<Rightarrow> jsmntok_t list option \<Rightarrow> (int \<times> parse_state) option" where
  "jsmn_parse_string parser js len tokens = do {
     r \<leftarrow> string_scan js len (Suc (pos parser));
     Some (case r of
        Inl e \<Rightarrow> (e, parser, tokens)
      | Inr p \<Rightarrow> jsmn_emit parser tokens JSMN_STRING (Suc (pos parser)) p p)
   }"

subsection \<open>Objects and arrays\<close>

definition tok_open :: "jsmntok_t \<Rightarrow> bool" where
  "tok_open t \<longleftrightarrow> tok_start t \<noteq> - 1 \<and> tok_end t = - 1"

text \<open>\<open>for (i = n - 1; i >= 0; i--)\<close>: the last open token below \<open>n\<close>.\<close>

fun last_open :: "jsmntok_t list \<Rightarrow> nat \<Rightarrow> nat option" where
  "last_open toks 0 = None"
| "last_open toks (Suc i) = (if tok_open (toks ! i) then Some i else last_open toks i)"

definition grow_super :: "jsmn_parser \<Rightarrow> jsmntok_t list \<Rightarrow> jsmntok_t list" where
  "grow_super parser toks =
     (if toksuper parser \<noteq> - 1
      then toks[nat (toksuper parser) := (toks ! nat (toksuper parser))\<lparr>tok_size := tok_size (toks ! nat (toksuper parser)) + 1\<rparr>]
      else toks)"

text \<open>The cases for an opening and a closing bracket; \<open>Inl\<close> is a code returned at once.\<close>

definition jsmn_open :: "jsmn_parser \<Rightarrow> jsmntok_t list \<Rightarrow> jsmntype_t \<Rightarrow> int + (jsmn_parser \<times> jsmntok_t list)" where
  "jsmn_open parser toks type =
     (case jsmn_alloc_token parser toks of
        None \<Rightarrow> Inl JSMN_ERROR_NOMEM
      | Some (i, parser, toks) \<Rightarrow>
          let toks = grow_super parser toks;
              toks = toks[i := (toks ! i)\<lparr>tok_type := type, tok_start := int (pos parser)\<rparr>]
          in Inr (parser\<lparr>toksuper := int (toknext parser) - 1\<rparr>, toks))"

definition jsmn_close :: "jsmn_parser \<Rightarrow> jsmntok_t list \<Rightarrow> jsmntype_t \<Rightarrow> int + (jsmn_parser \<times> jsmntok_t list)" where
  "jsmn_close parser toks type =
     (case last_open toks (toknext parser) of
        None \<Rightarrow> Inl JSMN_ERROR_INVAL
      | Some i \<Rightarrow>
          if tok_type (toks ! i) \<noteq> type then Inl JSMN_ERROR_INVAL
          else let toks = toks[i := (toks ! i)\<lparr>tok_end := int (pos parser) + 1\<rparr>]
               in Inr (parser\<lparr>toksuper := (case last_open toks (Suc i) of None \<Rightarrow> - 1 | Some j \<Rightarrow> int j)\<rparr>, toks))"

subsection \<open>The parser\<close>

text \<open>The characters that begin a primitive in strict mode, and those that are skipped.\<close>

definition starts_primitive :: "byte \<Rightarrow> bool" where
  "starts_primitive c \<longleftrightarrow> c \<in> {45, 48, 49, 50, 51, 52, 53, 54, 55, 56, 57, 116, 102, 110}"

definition ignored :: "byte \<Rightarrow> bool" where
  "ignored c \<longleftrightarrow> c \<in> {9, 13, 10, 58, 44, 32}"

text \<open>
  One turn of the loop of \<open>jsmn_parse\<close> on the character at \<open>pos\<close> (the \<open>switch\<close>): a code that is
  returned at once, or the state and the count after the turn, before \<open>pos++\<close>.
\<close>

definition jsmn_step ::
    "byte list \<Rightarrow> nat \<Rightarrow> parse_state \<Rightarrow> int \<Rightarrow> byte \<Rightarrow> (int \<times> parse_state + parse_state \<times> int) option" where
  "jsmn_step js len st count c =
     (case st of (parser, tokens) \<Rightarrow>
      if c \<in> {123, 91} then
        (case tokens of None \<Rightarrow> Some (Inr (st, count + 1))
         | Some toks \<Rightarrow>
             (case jsmn_open parser toks (if c = 123 then JSMN_OBJECT else JSMN_ARRAY) of
                Inl e \<Rightarrow> Some (Inl (e, st))
              | Inr (parser, toks) \<Rightarrow> Some (Inr ((parser, Some toks), count + 1))))
      else if c \<in> {125, 93} then
        (case tokens of None \<Rightarrow> Some (Inr (st, count))
         | Some toks \<Rightarrow>
             (case jsmn_close parser toks (if c = 125 then JSMN_OBJECT else JSMN_ARRAY) of
                Inl e \<Rightarrow> Some (Inl (e, st))
              | Inr (parser, toks) \<Rightarrow> Some (Inr ((parser, Some toks), count))))
      else if ignored c then Some (Inr (st, count))
      else if c = 34 \<or> starts_primitive c then do {
        (r, st) \<leftarrow> (if c = 34 then jsmn_parse_string parser js len tokens else jsmn_parse_primitive parser js len tokens);
        if r < 0 then Some (Inl (r, st))
        else case st of (parser, tokens) \<Rightarrow>
          Some (Inr ((parser, map_option (grow_super parser) tokens), count + 1))
      }
      else Some (Inl (JSMN_ERROR_INVAL, st)))"

lemma primitive_scan_advances: "primitive_scan js len p = Some (Inr p') \<Longrightarrow> p \<le> p' \<and> p' < len"
proof (induction js len p rule: primitive_scan.induct)
  case (1 js len p)
  from 1(2) show ?case
    by (subst (asm) primitive_scan.simps) (auto simp: Option.bind_eq_Some_conv split: if_splits dest!: 1(1))
qed

lemma string_scan_InrE:
  assumes "string_scan js len p = Some (Inr p')"
  obtains (closing) "p < len" "p' = p" "byte_at js p = Some 34"
  | (escaped) v where "p < len" "byte_at js p = Some 92" "escape_scan js p = Some (Inr v)" "string_scan js len v = Some (Inr p')"
  | (plain) c where "p < len" "byte_at js p = Some c" "c \<noteq> 0" "c \<noteq> 34" "c \<noteq> 92" "string_scan js len (Suc p) = Some (Inr p')"
  using assms by (subst (asm) string_scan.simps) (auto split: if_split_asm elim!: bind_byteE bind_sumE)

lemma string_scan_advances: "string_scan js len p = Some (Inr p') \<Longrightarrow> p \<le> p' \<and> p' < len \<and> byte_at js p' = Some 34"
proof (induction js len p rule: string_scan.induct)
  case (1 js len p)
  from 1(3) show ?case
  proof (cases rule: string_scan_InrE)
    case (escaped v)
    with 1(1) [of 92 "Inr v" v] show ?thesis by (auto dest: escape_scan_advances)
  next
    case (plain c)
    with 1(2) [of c] show ?thesis by auto
  qed auto
qed

lemma first_not_end:
  "byte_at js p = Some c \<Longrightarrow> starts_primitive c \<Longrightarrow>
     primitive_scan js len p = Some (Inr p') \<Longrightarrow> p < p'"
  by (subst (asm) primitive_scan.simps)
    (auto simp: ends_primitive_def starts_primitive_def split: if_splits dest: primitive_scan_advances)

lemma emit_pos:
  "start \<le> newpos \<Longrightarrow> pos parser = start \<Longrightarrow> jsmn_emit parser tokens type s e newpos = (r, parser', tokens') \<Longrightarrow>
     start \<le> pos parser'"
  by (auto simp: jsmn_emit_def split: option.split_asm)

lemma parse_string_pos:
  "jsmn_parse_string parser js len tokens = Some (r, parser', tokens') \<Longrightarrow> pos parser \<le> pos parser'"
  by (auto simp: jsmn_parse_string_def elim!: bind_sumE
      dest!: string_scan_advances elim!: emit_pos [rotated 2])

lemma parse_primitive_pos:
  assumes "jsmn_parse_primitive parser js len tokens = Some (r, parser', tokens')"
    and "byte_at js (pos parser) = Some c" and "starts_primitive c"
  shows "pos parser \<le> pos parser'"
  using assms(1)
  by (auto simp: jsmn_parse_primitive_def elim!: bind_sumE
      dest!: first_not_end [OF assms(2,3)] elim!: emit_pos [rotated 2])

lemma jsmn_step_advances:
  assumes "jsmn_step js len (parser, tokens) count c = Some (Inr ((parser', tokens'), count'))" and "byte_at js (pos parser) = Some c"
  shows "pos parser \<le> pos parser'"
  using assms
  by (auto simp: jsmn_step_def jsmn_open_def jsmn_close_def jsmn_alloc_token_def Let_def
      Option.bind_eq_Some_conv split: if_split_asm option.split_asm sum.split_asm prod.split_asm
      dest: parse_string_pos parse_primitive_pos)

text \<open>The loop; \<open>Inr\<close> is its normal end.\<close>

function jsmn_parse_loop :: "byte list \<Rightarrow> nat \<Rightarrow> jsmn_parser \<Rightarrow> jsmntok_t list option \<Rightarrow> int
    \<Rightarrow> (int \<times> parse_state + parse_state \<times> int) option" where
  "jsmn_parse_loop js len parser tokens count =
     (if pos parser < len then do {
        c \<leftarrow> byte_at js (pos parser);
        if c = 0 then Some (Inr ((parser, tokens), count))
        else do {
          r \<leftarrow> jsmn_step js len (parser, tokens) count c;
          (case r of Inl e \<Rightarrow> Some (Inl e)
           | Inr ((parser, tokens), count) \<Rightarrow> jsmn_parse_loop js len (parser\<lparr>pos := Suc (pos parser)\<rparr>) tokens count)
        }
      } else Some (Inr ((parser, tokens), count)))"
  by pat_completeness auto
termination
  by (relation "measure (\<lambda>(js, len, parser, tokens, count). len - pos parser)") (auto dest: jsmn_step_advances)

declare jsmn_parse_loop.simps [simp del]

text \<open>The code returned (a count, or a negative error), the parser and the tokens.\<close>

definition jsmn_parse :: "jsmn_parser \<Rightarrow> byte list \<Rightarrow> nat \<Rightarrow> jsmntok_t list option \<Rightarrow> (int \<times> parse_state) option" where
  "jsmn_parse parser js len tokens = do {
     r \<leftarrow> jsmn_parse_loop js len parser tokens 0;
     Some (case r of
        Inl e \<Rightarrow> e
      | Inr ((parser, tokens), count) \<Rightarrow>
          (if tokens \<noteq> None \<and> last_open (the tokens) (toknext parser) \<noteq> None then (JSMN_ERROR_PART, parser, tokens)
           else (count, parser, tokens)))
   }"

subsection \<open>Specification vocabulary\<close>

definition bracket :: "jsmntype_t \<Rightarrow> byte" where
  "bracket ty = (if ty = JSMN_OBJECT then 123 else 91)"

definition closing :: "jsmntype_t \<Rightarrow> byte" where
  "closing ty = (if ty = JSMN_OBJECT then 125 else 93)"

fun span_ok :: "byte list \<Rightarrow> jsmntype_t \<Rightarrow> nat \<Rightarrow> nat \<Rightarrow> bool" where
  "span_ok js JSMN_STRING s e \<longleftrightarrow> 1 \<le> s \<and> s \<le> e \<and> byte_at js (s - 1) = Some 34 \<and> byte_at js e = Some 34"
| "span_ok js JSMN_PRIMITIVE s e \<longleftrightarrow> s < e"
| "span_ok js ty s e \<longleftrightarrow> s < e \<and> byte_at js s = Some (bracket ty) \<and> byte_at js (e - 1) = Some (closing ty)"

definition tok_shape :: "byte list \<Rightarrow> nat \<Rightarrow> jsmntok_t \<Rightarrow> bool" where
  "tok_shape js p t \<longleftrightarrow> 0 \<le> tok_start t \<and> tok_start t < int p \<and>
     (if tok_end t = - 1 then tok_type t \<in> {JSMN_OBJECT, JSMN_ARRAY} \<and> byte_at js (nat (tok_start t)) = Some (bracket (tok_type t))
      else 0 \<le> tok_end t \<and> tok_end t \<le> int p \<and> span_ok js (tok_type t) (nat (tok_start t)) (nat (tok_end t)))"

text \<open>Of two tokens, the later starts later, and they do not overlap unless the later lies in the earlier.\<close>

definition nested :: "jsmntok_t \<Rightarrow> jsmntok_t \<Rightarrow> bool" where
  "nested a b \<longleftrightarrow> tok_start a < tok_start b \<and>
     (tok_end a = - 1 \<or> tok_end a \<le> tok_start b \<or> (tok_end b \<noteq> - 1 \<and> tok_end b \<le> tok_end a))"

definition parse_inv :: "byte list \<Rightarrow> nat \<Rightarrow> jsmn_parser \<Rightarrow> jsmntok_t list \<Rightarrow> int \<Rightarrow> bool" where
  "parse_inv js p parser toks count \<longleftrightarrow>
     toknext parser \<le> length toks \<and> count = int (toknext parser) \<and>
     - 1 \<le> toksuper parser \<and> toksuper parser < int (toknext parser) \<and>
     (\<forall>i < toknext parser. tok_shape js p (toks ! i)) \<and>
     (\<forall>j < toknext parser. \<forall>i < j. nested (toks ! i) (toks ! j))"

definition blank_tok :: jsmntok_t where
  "blank_tok = \<lparr>tok_type = JSMN_PRIMITIVE, tok_start = 0, tok_end = 0, tok_size = 0\<rparr>"

subsection \<open>Errors are negative\<close>

lemma hex_scan_error: "hex_scan js p k = Some (Inl e) \<Longrightarrow> e < 0"
  by (induction js p k rule: hex_scan.induct) (auto simp: JSMN_ERROR_INVAL_def split: if_split_asm elim!: bind_byteE)

lemma primitive_scan_error: "primitive_scan js len p = Some (Inl e) \<Longrightarrow> e < 0"
proof (induction js len p rule: primitive_scan.induct)
  case (1 js len p)
  from 1(2) show ?case
    by (subst (asm) primitive_scan.simps)
      (auto simp: JSMN_ERROR_INVAL_def JSMN_ERROR_PART_def split: if_split_asm elim!: bind_byteE intro: 1(1))
qed

lemma escape_scan_error: "escape_scan js p = Some (Inl e) \<Longrightarrow> e < 0"
  by (auto simp: escape_scan_def JSMN_ERROR_INVAL_def split: if_split_asm elim!: bind_byteE dest: hex_scan_error)

lemma string_scan_error: "string_scan js len p = Some (Inl e) \<Longrightarrow> e < 0"
proof (induction js len p rule: string_scan.induct)
  case (1 js len p)
  from 1(3) consider "e = JSMN_ERROR_PART" | "byte_at js p = Some 92" "escape_scan js p = Some (Inl e)"
    | v where "p < len" "byte_at js p = Some 92" "escape_scan js p = Some (Inr v)" "string_scan js len v = Some (Inl e)"
    | c where "p < len" "byte_at js p = Some c" "c \<noteq> 0" "c \<noteq> 34" "c \<noteq> 92" "string_scan js len (Suc p) = Some (Inl e)"
    by (subst (asm) string_scan.simps) (auto split: if_split_asm elim!: bind_byteE bind_sumE)
  then show ?case
  proof cases
    case (3 v)
    then show ?thesis using 1(1) [of 92 "Inr v" v] by simp
  next
    case (4 c)
    then show ?thesis using 1(2) [of c] by simp
  qed (simp_all add: JSMN_ERROR_PART_def escape_scan_error)
qed

lemmas scan_errors = primitive_scan_error string_scan_error

subsection \<open>The invariant is kept\<close>

lemma tok_shape_mono: "tok_shape js p t \<Longrightarrow> p \<le> p' \<Longrightarrow> tok_shape js p' t"
  by (auto simp: tok_shape_def)

lemma tok_size_irrelevant [simp]:
  "tok_shape js p (t\<lparr>tok_size := n\<rparr>) = tok_shape js p t"
  "nested (a\<lparr>tok_size := n\<rparr>) b = nested a b" "nested a (b\<lparr>tok_size := n\<rparr>) = nested a b"
  by (auto simp: tok_shape_def nested_def)

lemma parse_inv_mono: "parse_inv js p parser toks count \<Longrightarrow> p \<le> p' \<Longrightarrow> parse_inv js p' parser toks count"
  by (auto simp: parse_inv_def intro: tok_shape_mono)

lemma parse_inv_pos [simp]: "parse_inv js p (parser\<lparr>pos := q\<rparr>) toks count = parse_inv js p parser toks count"
  by (simp add: parse_inv_def)

lemma grow_super_inv: "parse_inv js p parser toks count \<Longrightarrow> parse_inv js p parser (grow_super parser toks) count"
  by (auto simp: parse_inv_def grow_super_def nth_list_update)

text \<open>A new token at the end of the allocated part.\<close>

lemma new_token_inv:
  assumes "parse_inv js p parser toks count" and "toknext parser < length toks"
    and "tok_shape js p' t" and "int p \<le> tok_start t" and "p \<le> p'" and "- 1 \<le> s" and "s \<le> int (toknext parser)"
  shows "parse_inv js p' (parser\<lparr>toknext := Suc (toknext parser), toksuper := s\<rparr>) (toks[toknext parser := t]) (count + 1)"
proof -
  have "nested (toks ! i) t" if "i < toknext parser" for i
    using assms(1,4) that unfolding parse_inv_def tok_shape_def nested_def by (force split: if_splits)
  then show ?thesis
    using assms by (auto simp: parse_inv_def nth_list_update less_Suc_eq intro: tok_shape_mono)
qed

lemma last_open_Some: "last_open toks n = Some i \<Longrightarrow> i < n \<and> tok_open (toks ! i) \<and> (\<forall>j. i < j \<and> j < n \<longrightarrow> \<not> tok_open (toks ! j))"
  by (induction n) (auto split: if_splits simp: less_Suc_eq)

lemma last_open_None: "last_open toks n = None \<longleftrightarrow> (\<forall>j < n. \<not> tok_open (toks ! j))"
  by (induction n) (auto simp: less_Suc_eq)

lemma close_inv:
  assumes "parse_inv js p parser toks count" and "byte_at js p = Some (closing ty)" and "ty \<in> {JSMN_OBJECT, JSMN_ARRAY}"
    and "pos parser = p" and "jsmn_close parser toks ty = Inr (parser', toks')"
  shows "parse_inv js (Suc p) parser' toks' count"
proof -
  obtain i where i: "last_open toks (toknext parser) = Some i" and ty: "tok_type (toks ! i) = ty"
    and toks': "toks' = toks[i := (toks ! i)\<lparr>tok_end := int p + 1\<rparr>]"
    and parser': "parser' = parser\<lparr>toksuper := (case last_open toks' (Suc i) of None \<Rightarrow> - 1 | Some j \<Rightarrow> int j)\<rparr>"
    using assms(4,5) by (auto simp: jsmn_close_def Let_def split: option.split_asm if_split_asm)
  note io = last_open_Some [OF i]
  have len: "i < length toks" using io assms(1) by (simp add: parse_inv_def)
  have sup: "- 1 \<le> toksuper parser' \<and> toksuper parser' < int (toknext parser)"
  proof (cases "last_open toks' (Suc i)")
    case (Some j)
    then have "j < Suc i" by (blast dest: last_open_Some)
    with io Some show ?thesis by (simp add: parser')
  qed (simp add: parser')
  have shape: "tok_shape js (Suc p) (toks' ! k)" if "k < toknext parser" for k
  proof (cases "k = i")
    case True
    have "tok_shape js p (toks ! i)" "tok_end (toks ! i) = - 1" using assms(1) io by (auto simp: parse_inv_def tok_open_def)
    then have "0 \<le> tok_start (toks ! i)" "tok_start (toks ! i) < int p"
      "byte_at js (nat (tok_start (toks ! i))) = Some (bracket ty)"
      by (simp_all add: tok_shape_def ty)
    moreover have "nat (int p + 1) = Suc p" by simp
    ultimately show ?thesis using True len assms(2,3) ty
      by (cases ty) (simp_all add: toks' tok_shape_def nat_less_iff)
  next
    case False
    then show ?thesis using assms(1) that by (auto simp: toks' parse_inv_def intro: tok_shape_mono)
  qed
  have nest: "nested (toks' ! a) (toks' ! b)" if "b < toknext parser" "a < b" for a b
  proof -
    have n: "nested (toks ! a) (toks ! b)" and s: "tok_shape js p (toks ! b)" "tok_shape js p (toks ! a)"
      using assms(1) that by (auto simp: parse_inv_def)
    have closed: "tok_end (toks ! b) \<noteq> - 1" if "i < b"
      using io that \<open>b < toknext parser\<close> s(1) by (auto simp: tok_open_def tok_shape_def)
    have end_i: "tok_end (toks ! i) = - 1" using io by (simp add: tok_open_def)
    consider "a = i" | "b = i" | "a \<noteq> i" "b \<noteq> i" by blast
    then show ?thesis
    proof cases
      case 1
      then show ?thesis using n s(1) closed len that(2) by (simp add: toks' nested_def tok_shape_def split: if_splits)
    next
      case 2
      then show ?thesis using n end_i len that(2) by (auto simp: toks' nested_def)
    next
      case 3
      then show ?thesis using n by (simp add: toks')
    qed
  qed
  show ?thesis using shape nest sup assms(1) io by (auto simp: parse_inv_def parser' toks')
qed

lemma open_inv:
  assumes "parse_inv js p parser toks count" and "byte_at js p = Some (bracket ty)" and "ty \<in> {JSMN_OBJECT, JSMN_ARRAY}"
    and "pos parser = p" and "jsmn_open parser toks ty = Inr (parser', toks')"
  shows "parse_inv js (Suc p) parser' toks' (count + 1)"
proof -
  let ?i = "toknext parser"
  have room: "?i < length toks" using assms(5) by (auto simp: jsmn_open_def jsmn_alloc_token_def split: if_split_asm)
  let ?super = "grow_super parser toks"
  let ?t = "(toks ! ?i)\<lparr>tok_start := int p, tok_end := - 1, tok_size := 0, tok_type := ty\<rparr>"
  have sup: "- 1 \<le> toksuper parser" "toksuper parser < int ?i" using assms(1) by (auto simp: parse_inv_def)
  have "toks' = ?super[?i := ?t]"
    using assms(4,5) room sup
    by (auto simp: jsmn_open_def jsmn_alloc_token_def grow_super_def Let_def list_update_swap intro!: nth_equalityI
        simp: nth_list_update)
  moreover have "parser' = parser\<lparr>toknext := Suc ?i, toksuper := int ?i\<rparr>"
    using assms(4,5) room by (simp add: jsmn_open_def jsmn_alloc_token_def Let_def)
  moreover have "tok_shape js (Suc p) ?t" using assms(2,3) by (auto simp: tok_shape_def)
  moreover have "length ?super = length toks" by (simp add: grow_super_def)
  ultimately show ?thesis
    using new_token_inv [OF grow_super_inv [OF assms(1)], of "Suc p" ?t "int ?i"] room by simp
qed

lemma emit_inv:
  assumes "parse_inv js p parser toks count" and "\<And>t. tok_shape js p' (jsmn_fill_token t ty (int s) (int e))"
    and "p \<le> s" and "p \<le> p'"
    and "jsmn_emit parser (Some toks) ty s e newpos = (r, parser', tokens')" and "0 \<le> r"
  shows "\<exists>toks'. tokens' = Some toks' \<and> pos parser' = newpos \<and> parse_inv js p' parser' toks' (count + 1)"
proof -
  let ?i = "toknext parser"
  let ?t = "jsmn_fill_token ((toks ! ?i)\<lparr>tok_start := - 1, tok_end := - 1, tok_size := 0\<rparr>) ty (int s) (int e)"
  have room: "?i < length toks"
    using assms(5,6) by (auto simp: jsmn_emit_def jsmn_alloc_token_def JSMN_ERROR_NOMEM_def split: if_split_asm)
  have out: "tokens' = Some (toks[?i := ?t])" "parser' = parser\<lparr>toknext := Suc ?i, pos := newpos\<rparr>"
    using assms(5) room by (auto simp: jsmn_emit_def jsmn_alloc_token_def Let_def)
  have "int p \<le> tok_start ?t" using assms(3) by (simp add: jsmn_fill_token_def)
  then have "parse_inv js p' (parser\<lparr>toknext := Suc ?i, toksuper := toksuper parser\<rparr>) (toks[?i := ?t]) (count + 1)"
    using assms(1) room by (intro new_token_inv [OF assms(1) room assms(2) _ assms(4)]) (auto simp: parse_inv_def)
  then show ?thesis by (simp add: out parse_inv_def)
qed

lemma string_inv:
  assumes "parse_inv js p parser toks count" and "pos parser = p" and "byte_at js p = Some 34"
    and "jsmn_parse_string parser js len (Some toks) = Some (r, parser', tokens')" and "0 \<le> r"
  shows "\<exists>toks'. tokens' = Some toks' \<and> parse_inv js (Suc (pos parser')) parser' toks' (count + 1)"
proof -
  obtain q where q: "string_scan js len (Suc p) = Some (Inr q)"
    and e: "jsmn_emit parser (Some toks) JSMN_STRING (Suc p) q q = (r, parser', tokens')"
    using assms(2,4,5) by (auto simp: jsmn_parse_string_def elim!: bind_sumE dest: scan_errors)
  note adv = string_scan_advances [OF q]
  have "tok_shape js (Suc q) (jsmn_fill_token t JSMN_STRING (int (Suc p)) (int q))" for t
    using adv assms(3) by (simp add: tok_shape_def jsmn_fill_token_def nat_add_distrib)
  from emit_inv [OF assms(1) this _ _ e assms(5)] show ?thesis using adv by auto
qed

lemma primitive_inv:
  assumes "parse_inv js p parser toks count" and "pos parser = p" and "byte_at js p = Some c"
    and "starts_primitive c"
    and "jsmn_parse_primitive parser js len (Some toks) = Some (r, parser', tokens')" and "0 \<le> r"
  shows "\<exists>toks'. tokens' = Some toks' \<and> parse_inv js (Suc (pos parser')) parser' toks' (count + 1)"
proof -
  obtain q where q: "primitive_scan js len p = Some (Inr q)"
    and e: "jsmn_emit parser (Some toks) JSMN_PRIMITIVE p q (q - 1) = (r, parser', tokens')"
    using assms(2,5,6) by (auto simp: jsmn_parse_primitive_def elim!: bind_sumE dest: scan_errors)
  note adv = first_not_end [OF assms(3,4) q]
  have "tok_shape js q (jsmn_fill_token t JSMN_PRIMITIVE (int p) (int q))" for t
    using adv by (simp add: tok_shape_def jsmn_fill_token_def)
  from emit_inv [OF assms(1) this _ _ e assms(6)] show ?thesis using adv by auto
qed

lemma jsmn_step_inv:
  assumes "parse_inv js (pos parser) parser toks count" and "byte_at js (pos parser) = Some c"
    and "jsmn_step js len (parser, Some toks) count c = Some (Inr ((parser', tokens'), count'))"
  shows "\<exists>toks'. tokens' = Some toks' \<and> parse_inv js (Suc (pos parser')) parser' toks' count'"
proof -
  consider (Op) "c \<in> {123, 91}" | (Cl) "c \<in> {125, 93}" | (Sk) "ignored c"
    | (St) "c = 34" | (Pr) "starts_primitive c"
    using assms(3) by (auto simp: jsmn_step_def split: if_split_asm)
  then show ?thesis
  proof cases
    case Op
    let ?ty = "if c = 123 then JSMN_OBJECT else JSMN_ARRAY"
    obtain toks' where o: "jsmn_open parser toks ?ty = Inr (parser', toks')" "tokens' = Some toks'" "count' = count + 1"
      using assms(3) Op by (auto simp: jsmn_step_def split: if_split_asm sum.split_asm)
    have "pos parser' = pos parser"
      using o(1) by (auto simp: jsmn_open_def jsmn_alloc_token_def Let_def split: if_split_asm)
    moreover have "parse_inv js (Suc (pos parser)) parser' toks' (count + 1)"
      using assms(2) Op by (intro open_inv [OF assms(1) _ _ _ o(1)]) (auto simp: bracket_def)
    ultimately show ?thesis by (simp add: o)
  next
    case Cl
    let ?ty = "if c = 125 then JSMN_OBJECT else JSMN_ARRAY"
    obtain toks' where o: "jsmn_close parser toks ?ty = Inr (parser', toks')" "tokens' = Some toks'" "count' = count"
      using assms(3) Cl by (auto simp: jsmn_step_def split: if_split_asm sum.split_asm)
    have "pos parser' = pos parser"
      using o(1) by (auto simp: jsmn_close_def Let_def split: if_split_asm option.split_asm)
    moreover have "parse_inv js (Suc (pos parser)) parser' toks' count"
      using assms(2) Cl by (intro close_inv [OF assms(1) _ _ _ o(1)]) (auto simp: closing_def)
    ultimately show ?thesis by (simp add: o)
  next
    case Sk
    then show ?thesis using assms parse_inv_mono [OF assms(1)] by (auto simp: jsmn_step_def ignored_def)
  next
    case St
    moreover have "\<not> ignored 34" by (simp add: ignored_def)
    ultimately obtain r toks1 where s: "jsmn_parse_string parser js len (Some toks) = Some (r, parser', toks1)" "0 \<le> r"
      "tokens' = map_option (grow_super parser') toks1" "count' = count + 1"
      using assms(3) by (auto simp: jsmn_step_def split: if_split_asm elim!: bind_SomeE)
    from string_inv [OF assms(1) refl _ s(1,2)] show ?thesis using assms(2) St s grow_super_inv by auto
  next
    case Pr
    moreover from Pr have "c \<notin> {123, 91, 125, 93, 34}" "\<not> ignored c" by (auto simp: starts_primitive_def ignored_def)
    ultimately obtain r toks1 where s: "jsmn_parse_primitive parser js len (Some toks) = Some (r, parser', toks1)" "0 \<le> r"
      "tokens' = map_option (grow_super parser') toks1" "count' = count + 1"
      using assms(3) by (auto simp: jsmn_step_def split: if_split_asm elim!: bind_SomeE)
    from primitive_inv [OF assms(1) refl assms(2) Pr s(1,2)] show ?thesis using s grow_super_inv by auto
  qed
qed

lemma emit_pos_less: "newpos < len \<Longrightarrow> pos parser < len \<Longrightarrow> jsmn_emit parser tokens ty s e newpos = (r, parser', tokens') \<Longrightarrow>
     pos parser' < len"
  by (auto simp: jsmn_emit_def jsmn_alloc_token_def Let_def split: option.split_asm if_split_asm)

lemma jsmn_step_pos_less:
  assumes "jsmn_step js len (parser, tokens) count c = Some (Inr ((parser', tokens'), count'))" and "pos parser < len"
  shows "pos parser' < len"
proof -
  have "pos parser' < len" if "jsmn_parse_string parser js len tokens = Some (r, parser', t)" for r t
    using that assms(2)
    by (auto simp: jsmn_parse_string_def elim!: bind_sumE dest!: string_scan_advances elim!: emit_pos_less [rotated 2])
  moreover have "pos parser' < len" if "jsmn_parse_primitive parser js len tokens = Some (r, parser', t)" for r t
    using that assms(2)
    by (auto simp: jsmn_parse_primitive_def elim!: bind_sumE dest!: primitive_scan_advances elim!: emit_pos_less [rotated 2])
  ultimately show ?thesis
    using assms
    by (auto simp: jsmn_step_def jsmn_open_def jsmn_close_def jsmn_alloc_token_def Let_def Option.bind_eq_Some_conv
        split: if_split_asm option.split_asm sum.split_asm prod.split_asm)
qed

lemma jsmn_loop_InrE:
  assumes "jsmn_parse_loop js len parser tokens count = Some (Inr ((parser', tokens'), count'))"
  obtains (stop) "parser' = parser" "tokens' = tokens" "count' = count"
  | (turn) c p1 t1 c1 where "pos parser < len" "byte_at js (pos parser) = Some c" "c \<noteq> 0"
      "jsmn_step js len (parser, tokens) count c = Some (Inr ((p1, t1), c1))"
      "jsmn_parse_loop js len (p1\<lparr>pos := Suc (pos p1)\<rparr>) t1 c1 = Some (Inr ((parser', tokens'), count'))"
  using assms
  by (subst (asm) jsmn_parse_loop.simps) (auto split: if_split_asm elim!: bind_byteE bind_sumE)

lemma jsmn_loop_inv:
  "jsmn_parse_loop js len parser tokens count = Some (Inr ((parser', tokens'), count')) \<Longrightarrow>
   tokens = Some toks \<Longrightarrow> parse_inv js (pos parser) parser toks count \<Longrightarrow> pos parser \<le> len \<Longrightarrow>
     \<exists>toks'. tokens' = Some toks' \<and> parse_inv js len parser' toks' count'"
proof (induction js len parser tokens count arbitrary: toks rule: jsmn_parse_loop.induct)
  case (1 js len parser tokens count)
  from 1(2) show ?case
  proof (cases rule: jsmn_loop_InrE)
    case stop
    then show ?thesis using 1(3-5) parse_inv_mono by blast
  next
    case (turn c p1 t1 c1)
    obtain toks1 where t1: "t1 = Some toks1" "parse_inv js (Suc (pos p1)) p1 toks1 c1"
      using jsmn_step_inv [OF 1(4) turn(2) turn(4) [unfolded 1(3)]] by blast
    have "Suc (pos p1) \<le> len" using jsmn_step_pos_less [OF turn(4,1)] by simp
    then show ?thesis
      using 1(1) [OF turn(1,2) _ turn(4) refl, of "(p1, t1)" c1 p1 t1 toks1] turn(3,5) t1 by simp
  qed
qed

lemma jsmn_step_error: "jsmn_step js len st count c = Some (Inl (e, st')) \<Longrightarrow> e < 0"
  by (cases st)
    (auto simp: jsmn_step_def jsmn_open_def jsmn_close_def JSMN_ERROR_NOMEM_def JSMN_ERROR_INVAL_def Let_def
      Option.bind_eq_Some_conv split: if_split_asm option.split_asm sum.split_asm prod.split_asm)

lemma jsmn_loop_error: "jsmn_parse_loop js len parser tokens count = Some (Inl (e, st)) \<Longrightarrow> e < 0"
proof (induction js len parser tokens count rule: jsmn_parse_loop.induct)
  case (1 js len parser tokens count)
  from 1(2) consider c where "jsmn_step js len (parser, tokens) count c = Some (Inl (e, st))"
    | c p1 t1 c1 where "pos parser < len" "byte_at js (pos parser) = Some c" "c \<noteq> 0"
      "jsmn_step js len (parser, tokens) count c = Some (Inr ((p1, t1), c1))"
      "jsmn_parse_loop js len (p1\<lparr>pos := Suc (pos p1)\<rparr>) t1 c1 = Some (Inl (e, st))"
    by (subst (asm) jsmn_parse_loop.simps) (auto split: if_split_asm elim!: bind_byteE bind_sumE)
  then show ?case
  proof cases
    case (2 c p1 t1 c1)
    then show ?thesis using 1(1) [OF 2(1,2) _ 2(4) refl, of "(p1, t1)" c1 p1 t1] by simp
  qed (rule jsmn_step_error)
qed

text \<open>From a fresh parser: what a non-negative result means.\<close>

lemma jsmn_parse_tokens:
  assumes "jsmn_parse (jsmn_init parser0) js len (Some toks0) = Some (r, parser, tokens)" and "0 \<le> r"
  shows "\<exists>toks. tokens = Some toks \<and> toknext parser = nat r \<and> nat r \<le> length toks \<and>
     (\<forall>i < nat r. tok_end (toks ! i) \<noteq> - 1 \<and> tok_shape js len (toks ! i)) \<and>
     (\<forall>j < nat r. \<forall>i < j. nested (toks ! i) (toks ! j))"
proof -
  let ?p = "jsmn_init parser0"
  have start: "parse_inv js (pos ?p) ?p toks0 0" "pos ?p \<le> len" by (simp_all add: parse_inv_def jsmn_init_def)
  obtain x where x: "jsmn_parse_loop js len ?p (Some toks0) 0 = Some x"
    using assms(1) by (auto simp: jsmn_parse_def elim: bind_SomeE)
  obtain p1 tokens' c where xr: "x = Inr ((p1, tokens'), c)"
    using assms x jsmn_loop_error [of js len ?p "Some toks0" 0] by (cases x) (force simp: jsmn_parse_def)+
  have p1: "p1 = parser" "tokens' = tokens" "c = r"
    and none: "tokens \<noteq> None \<Longrightarrow> last_open (the tokens) (toknext parser) = None"
    using assms x xr by (auto simp: jsmn_parse_def JSMN_ERROR_PART_def split: if_split_asm)
  note l = x [unfolded xr p1]
  from jsmn_loop_inv [OF l refl start] obtain toks where toks: "tokens = Some toks" "parse_inv js len parser toks r" by blast
  have closed: "\<forall>j < toknext parser. \<not> tok_open (toks ! j)" using none toks(1) by (simp add: last_open_None)
  have "tok_end (toks ! i) \<noteq> - 1" if "i < toknext parser" for i
  proof -
    have "0 \<le> tok_start (toks ! i)" using toks(2) that by (simp add: parse_inv_def tok_shape_def)
    then show ?thesis using closed that by (auto simp: tok_open_def)
  qed
  then show ?thesis using toks by (auto simp: parse_inv_def)
qed

subsection \<open>The parser does not read past a terminated text\<close>

lemma byte_at_le: "len < length js \<Longrightarrow> p \<le> len \<Longrightarrow> byte_at js p = Some (js ! p)"
  by simp

lemma hex_scan_reads:
  assumes "len < length js" and "js ! len = 0"
  shows "p \<le> len \<Longrightarrow> \<exists>r. hex_scan js p k = Some r \<and> (\<forall>q. r = Inr q \<longrightarrow> q \<le> len)"
proof (induction k arbitrary: p)
  case (Suc k)
  show ?case
    using Suc.IH [of "Suc p"] Suc.prems assms by (cases "p = len") (auto simp: byte_at_le [OF assms(1)])
qed simp

lemma primitive_scan_reads: "len < length js \<Longrightarrow> \<exists>r. primitive_scan js len p = Some r"
proof (induction js len p rule: primitive_scan.induct)
  case (1 js len p)
  then show ?case by (subst primitive_scan.simps) (auto simp: byte_at_le)
qed

lemma escape_scan_reads:
  assumes "len < length js" and "js ! len = 0" and "p < len"
  shows "\<exists>r. escape_scan js p = Some r \<and> (\<forall>q. r = Inr q \<longrightarrow> q \<le> Suc len)"
  using hex_scan_reads [OF assms(1,2), of "p + 2" 4] assms
  by (cases "Suc p = len") (auto simp: escape_scan_def byte_at_le simple_escape_def)

lemma string_scan_reads: "len < length js \<Longrightarrow> js ! len = 0 \<Longrightarrow> \<exists>r. string_scan js len p = Some r"
proof (induction js len p rule: string_scan.induct)
  case (1 js len p)
  show ?case
  proof (cases "p < len \<and> js ! p = 92")
    case True
    obtain r where r: "escape_scan js p = Some r" using escape_scan_reads [OF 1(3,4)] True by blast
    then show ?thesis
      using True 1(1) [of 92 r] 1(3,4)
      by (cases r) (subst string_scan.simps, simp add: byte_at_le)+
  next
    case False
    then show ?thesis using 1(2-4) by (subst string_scan.simps) (auto simp: byte_at_le)
  qed
qed

lemma jsmn_step_reads:
  assumes "len < length js" and "js ! len = 0"
  shows "\<exists>r. jsmn_step js len st count c = Some r"
proof -
  obtain parser tokens where st: "st = (parser, tokens)" by fastforce
  have s: "jsmn_parse_string parser js len tokens \<noteq> None"
    using string_scan_reads [OF assms, of "Suc (pos parser)"] by (auto simp: jsmn_parse_string_def simp del: not_None_eq)
  have p: "jsmn_parse_primitive parser js len tokens \<noteq> None"
    using primitive_scan_reads [OF assms(1), of "pos parser"] by (auto simp: jsmn_parse_primitive_def simp del: not_None_eq)
  have "jsmn_step js len st count c \<noteq> None"
    using s p
    by (simp add: jsmn_step_def st Option.bind_eq_None_conv del: not_None_eq split: option.split sum.split prod.split)
  then show ?thesis by blast
qed

lemma jsmn_loop_reads:
  "len < length js \<Longrightarrow> js ! len = 0 \<Longrightarrow> \<exists>r. jsmn_parse_loop js len parser tokens count = Some r"
proof (induction js len parser tokens count rule: jsmn_parse_loop.induct)
  case (1 js len parser tokens count)
  obtain r where r: "jsmn_step js len (parser, tokens) count (js ! pos parser) = Some r"
    using jsmn_step_reads [OF 1(2,3)] by blast
  show ?case
  proof (cases "pos parser < len \<and> js ! pos parser \<noteq> 0")
    case True
    then have c: "byte_at js (pos parser) = Some (js ! pos parser)" using 1(2) by simp
    show ?thesis
    proof (cases r)
      case (Inl e)
      then show ?thesis using True c r by (subst jsmn_parse_loop.simps) simp
    next
      case (Inr x)
      obtain p1 t1 c1 where x: "x = ((p1, t1), c1)" by (cases x) auto
      from 1(1) [OF _ c _ r Inr x [symmetric] refl] True 1(2,3)
      obtain r' where "jsmn_parse_loop js len (p1\<lparr>pos := Suc (pos p1)\<rparr>) t1 c1 = Some r'" by auto
      then show ?thesis using True c r Inr x by (subst jsmn_parse_loop.simps) simp
    qed
  next
    case False
    then show ?thesis using 1(2) by (subst jsmn_parse_loop.simps) (auto simp: byte_at_le)
  qed
qed

subsection \<open>Properties\<close>

text \<open>
  C12. The JSON parser on a NUL-terminated text. It never reads past the terminator and always returns.
  A result that is not negative is the number of tokens; then every one of them is closed, lies inside
  the text and has the delimiters of its kind around it (quotes for strings, the matching brackets
  for objects and arrays, at least one character for primitives), tokens are stored in the order in which they
  start, and two tokens overlap only if the later lies inside the earlier.
\<close>

theorem jsmn_parse_wellformed:
  assumes "len < length js" and "js ! len = 0"
  shows "\<exists>r parser tokens. jsmn_parse (jsmn_init parser0) js len (Some toks0) = Some (r, parser, tokens) \<and>
     (0 \<le> r \<longrightarrow> (\<exists>toks. tokens = Some toks \<and> toknext parser = nat r \<and> nat r \<le> length toks \<and>
        (\<forall>i < nat r. 0 \<le> tok_start (toks ! i) \<and> tok_start (toks ! i) \<le> tok_end (toks ! i) \<and> tok_end (toks ! i) \<le> int len \<and>
           span_ok js (tok_type (toks ! i)) (nat (tok_start (toks ! i))) (nat (tok_end (toks ! i)))) \<and>
        (\<forall>j < nat r. \<forall>i < j. tok_start (toks ! i) < tok_start (toks ! j) \<and>
           (tok_end (toks ! i) \<le> tok_start (toks ! j) \<or> tok_end (toks ! j) \<le> tok_end (toks ! i)))))"
proof -
  obtain x where "jsmn_parse_loop js len (jsmn_init parser0) (Some toks0) 0 = Some x"
    using jsmn_loop_reads [OF assms] by blast
  then obtain r parser tokens where p: "jsmn_parse (jsmn_init parser0) js len (Some toks0) = Some (r, parser, tokens)"
    by (cases "case x of Inl e \<Rightarrow> e | Inr ((parser, tokens), count) \<Rightarrow>
          (if tokens \<noteq> None \<and> last_open (the tokens) (toknext parser) \<noteq> None then (JSMN_ERROR_PART, parser, tokens)
           else (count, parser, tokens))") (simp add: jsmn_parse_def)
  have span: "s \<le> e" if "span_ok js ty s e" for ty s e using that by (cases ty) simp_all
  show ?thesis
  proof (cases "0 \<le> r")
    case True
    from jsmn_parse_tokens [OF p True] obtain toks where toks: "tokens = Some toks" "toknext parser = nat r"
      "nat r \<le> length toks" "\<And>i. i < nat r \<Longrightarrow> tok_end (toks ! i) \<noteq> - 1 \<and> tok_shape js len (toks ! i)"
      "\<And>i j. j < nat r \<Longrightarrow> i < j \<Longrightarrow> nested (toks ! i) (toks ! j)" by blast
    have "0 \<le> tok_start (toks ! i) \<and> tok_start (toks ! i) \<le> tok_end (toks ! i) \<and> tok_end (toks ! i) \<le> int len \<and>
       span_ok js (tok_type (toks ! i)) (nat (tok_start (toks ! i))) (nat (tok_end (toks ! i)))" if "i < nat r" for i
      using toks(4) [OF that] span by (fastforce simp: tok_shape_def)
    moreover have "tok_start (toks ! i) < tok_start (toks ! j) \<and>
        (tok_end (toks ! i) \<le> tok_start (toks ! j) \<or> tok_end (toks ! j) \<le> tok_end (toks ! i))" if "j < nat r" "i < j" for i j
      using toks(5) [OF that] toks(4) [of i] that by (auto simp: nested_def)
    ultimately show ?thesis using p toks(1-3) by auto
  qed (use p in auto)
qed

theorem jsmn_parse_wellformed_witness: "\<exists>parser tokens.
    jsmn_parse (jsmn_init \<lparr>pos = 0, toknext = 0, toksuper = 0\<rparr>) (bytes_of ''{\"a\":1}'' @ [0]) 7 (Some (replicate 3 blank_tok)) =
      Some (3, parser, Some tokens) \<and> toknext parser = 3"
proof -
  have "map_option fst (jsmn_parse (jsmn_init \<lparr>pos = 0, toknext = 0, toksuper = 0\<rparr>) (bytes_of ''{\"a\":1}'' @ [0]) 7 (Some (replicate 3 blank_tok))) = Some 3"
    by code_simp
  then show ?thesis
    using jsmn_parse_wellformed [of 7 "bytes_of ''{\"a\":1}'' @ [0]" "\<lparr>pos = 0, toknext = 0, toksuper = 0\<rparr>" "replicate 3 blank_tok"]
    by (auto simp: bytes_of_def)
qed

end
