(* ===== verification/Json_Utils.thy ===== *)
theory Json_Utils
  imports Jsmn Iot_Error
begin

text \<open>
  The token conversions of src/aws_iot_json_utils.c, with the part of the C library's \<open>sscanf\<close> and
  \<open>printf\<close> they rest on: the integer conversions \<open>u\<close>, \<open>i\<close> and the decimal output. The conversions of
  floating point values are arguments. The lemmas show that a decimal number written in a document is
  read back by the matching parser.
\<close>

subsection \<open>Number conversions of \<open>sscanf\<close>\<close>

definition isspace :: "byte \<Rightarrow> bool" where
  "isspace c \<longleftrightarrow> c \<in> {32, 9, 10, 11, 12, 13}"

definition digit_val :: "byte \<Rightarrow> nat option" where
  "digit_val c =
     (if 48 \<le> c \<and> c \<le> 57 then Some (unat c - 48)
      else if 97 \<le> c \<and> c \<le> 102 then Some (unat c - 87)
      else if 65 \<le> c \<and> c \<le> 70 then Some (unat c - 55)
      else None)"

definition is_digit :: "nat \<Rightarrow> byte \<Rightarrow> bool" where
  "is_digit base c \<longleftrightarrow> (case digit_val c of None \<Rightarrow> False | Some d \<Rightarrow> d < base)"

definition number :: "nat \<Rightarrow> byte list \<Rightarrow> nat" where
  "number base ds = foldl (\<lambda>a c. a * base + the (digit_val c)) 0 ds"

text \<open>The digits of the given base at the start of the text; no digit is a matching failure.\<close>

definition scan_digits :: "nat \<Rightarrow> byte list \<Rightarrow> nat option" where
  "scan_digits base s = (let ds = takeWhile (is_digit base) s in if ds = [] then None else Some (number base ds))"

definition scan_sign :: "byte list \<Rightarrow> int \<times> byte list" where
  "scan_sign s = (case s of [] \<Rightarrow> (1, []) | c # r \<Rightarrow> if c = 45 then (- 1, r) else if c = 43 then (1, r) else (1, s))"

text \<open>The conversions \<open>u\<close> (decimal) and \<open>i\<close> (the base is taken from the prefix).\<close>

definition scan_u :: "byte list \<Rightarrow> int option" where
  "scan_u s = (case scan_sign (dropWhile isspace s) of (sg, s) \<Rightarrow> map_option (\<lambda>n. sg * int n) (scan_digits 10 s))"

definition scan_based :: "byte list \<Rightarrow> nat option" where
  "scan_based s =
     (case s of c # x # r \<Rightarrow>
        if c = 48 \<and> (x = 120 \<or> x = 88) then scan_digits 16 r
        else if c = 48 then scan_digits 8 s else scan_digits 10 s
      | _ \<Rightarrow> scan_digits 10 s)"

definition scan_i :: "byte list \<Rightarrow> int option" where
  "scan_i s = (case scan_sign (dropWhile isspace s) of (sg, s) \<Rightarrow> map_option (\<lambda>n. sg * int n) (scan_based s))"

subsection \<open>Values of tokens\<close>

text \<open>
  \<open>json\<close> is the text before the terminator. The results: \<open>None\<close> when the behaviour is undefined (a value
  the target cannot represent, or a read outside the text), otherwise the error code or the value.
\<close>

definition text_from :: "cstring \<Rightarrow> jsmntok_t \<Rightarrow> cstring option" where
  "text_from json tok =
     (if 0 \<le> tok_start tok \<and> tok_start tok \<le> int (length json) then Some (drop (nat (tok_start tok)) json) else None)"

definition jsoneq :: "cstring \<Rightarrow> jsmntok_t \<Rightarrow> cstring \<Rightarrow> int option" where
  "jsoneq json tok s =
     (if tok_type tok = JSMN_STRING \<and> int (length s) = tok_end tok - tok_start tok
      then do { t \<leftarrow> text_from json tok; Some (if take (length s) t = s then 0 else - 1) }
      else Some (- 1))"

text \<open>The conversion into an unsigned and a signed integer of \<open>k\<close> bits.\<close>

definition scan_unsigned :: "nat \<Rightarrow> cstring \<Rightarrow> jsmntok_t \<Rightarrow> (IoT_Error_t + int) option" where
  "scan_unsigned k json token =
     (if tok_type token \<noteq> JSMN_PRIMITIVE then Some (Inl JSON_PARSE_ERROR)
      else do {
        t \<leftarrow> text_from json token;
        if t \<noteq> [] \<and> hd t = 45 then Some (Inl JSON_PARSE_ERROR)
        else case scan_u t of
          None \<Rightarrow> Some (Inl JSON_PARSE_ERROR)
        | Some v \<Rightarrow> if 0 \<le> v \<and> v < 2 ^ k then Some (Inr v) else None
      })"

definition scan_signed :: "nat \<Rightarrow> cstring \<Rightarrow> jsmntok_t \<Rightarrow> (IoT_Error_t + int) option" where
  "scan_signed k json token =
     (if tok_type token \<noteq> JSMN_PRIMITIVE then Some (Inl JSON_PARSE_ERROR)
      else do {
        t \<leftarrow> text_from json token;
        case scan_i t of
          None \<Rightarrow> Some (Inl JSON_PARSE_ERROR)
        | Some v \<Rightarrow> if - (2 ^ (k - 1)) \<le> v \<and> v < 2 ^ (k - 1) then Some (Inr v) else None
      })"

definition parseUnsignedInteger32Value :: "cstring \<Rightarrow> jsmntok_t \<Rightarrow> (IoT_Error_t + u32) option" where
  "parseUnsignedInteger32Value json token = map_option (map_sum id of_int) (scan_unsigned 32 json token)"

definition parseUnsignedInteger16Value :: "cstring \<Rightarrow> jsmntok_t \<Rightarrow> (IoT_Error_t + u16) option" where
  "parseUnsignedInteger16Value json token = map_option (map_sum id of_int) (scan_unsigned 16 json token)"

definition parseUnsignedInteger8Value :: "cstring \<Rightarrow> jsmntok_t \<Rightarrow> (IoT_Error_t + u8) option" where
  "parseUnsignedInteger8Value json token = map_option (map_sum id of_int) (scan_unsigned 8 json token)"

definition parseInteger32Value :: "cstring \<Rightarrow> jsmntok_t \<Rightarrow> (IoT_Error_t + u32) option" where
  "parseInteger32Value json token = map_option (map_sum id of_int) (scan_signed 32 json token)"

definition parseInteger16Value :: "cstring \<Rightarrow> jsmntok_t \<Rightarrow> (IoT_Error_t + u16) option" where
  "parseInteger16Value json token = map_option (map_sum id of_int) (scan_signed 16 json token)"

definition parseInteger8Value :: "cstring \<Rightarrow> jsmntok_t \<Rightarrow> (IoT_Error_t + u8) option" where
  "parseInteger8Value json token = map_option (map_sum id of_int) (scan_signed 8 json token)"

text \<open>Floating point: the conversion \<open>f\<close> of the C library is the argument \<open>scan_f\<close>.\<close>

definition parseFloatValue :: "(byte list \<Rightarrow> 'f option) \<Rightarrow> cstring \<Rightarrow> jsmntok_t \<Rightarrow> (IoT_Error_t + 'f) option" where
  "parseFloatValue scan_f json token =
     (if tok_type token \<noteq> JSMN_PRIMITIVE then Some (Inl JSON_PARSE_ERROR)
      else do {
        t \<leftarrow> text_from json token;
        case scan_f t of None \<Rightarrow> Some (Inl JSON_PARSE_ERROR) | Some v \<Rightarrow> Some (Inr v)
      })"

definition parseDoubleValue :: "(byte list \<Rightarrow> 'f option) \<Rightarrow> cstring \<Rightarrow> jsmntok_t \<Rightarrow> (IoT_Error_t + 'f) option" where
  "parseDoubleValue scan_lf json token =
     (if tok_type token \<noteq> JSMN_PRIMITIVE then Some (Inl JSON_PARSE_ERROR)
      else do {
        t \<leftarrow> text_from json token;
        case scan_lf t of None \<Rightarrow> Some (Inl JSON_PARSE_ERROR) | Some v \<Rightarrow> Some (Inr v)
      })"

text \<open>A chain of character comparisons joined by \<open>&&\<close>.\<close>

fun reads_as :: "byte list \<Rightarrow> nat \<Rightarrow> byte list \<Rightarrow> bool option" where
  "reads_as mem p [] = Some True"
| "reads_as mem p (c # cs) = do { b \<leftarrow> byte_at mem p; if b = c then reads_as mem (Suc p) cs else Some False }"

definition parseBooleanValue :: "cstring \<Rightarrow> jsmntok_t \<Rightarrow> (IoT_Error_t + bool) option" where
  "parseBooleanValue json token =
     (if tok_type token \<noteq> JSMN_PRIMITIVE then Some (Inl JSON_PARSE_ERROR)
      else do {
        t \<leftarrow> text_from json token;
        y \<leftarrow> reads_as (t @ [0]) 0 (bytes_of ''true'');
        if y then Some (Inr True)
        else do {
          f \<leftarrow> reads_as (t @ [0]) 0 (bytes_of ''false'');
          if f then Some (Inr False) else Some (Inl JSON_PARSE_ERROR)
        }
      })"

text \<open>The size is truncated to 16 bits; the copy needs room for it and the terminator.\<close>

definition parseStringValue :: "byte list \<Rightarrow> cstring \<Rightarrow> jsmntok_t \<Rightarrow> (IoT_Error_t \<times> byte list) option" where
  "parseStringValue buf json token =
     (if tok_type token \<noteq> JSMN_STRING then Some (JSON_PARSE_ERROR, buf)
      else
        let size = unat (of_int (tok_end token - tok_start token) :: u16)
        in do {
          t \<leftarrow> text_from json token;
          bp \<leftarrow> (if length t + 1 < size then None else put (take size (t @ [0])) (buf, 0));
          bp \<leftarrow> store 0 bp;
          Some (SUCCESS, fst bp)
        })"

subsection \<open>Decimal output\<close>

text \<open>What \<open>printf\<close> writes for a natural number and for an integer.\<close>

fun dec :: "nat \<Rightarrow> byte list" where
  "dec n = (if n < 10 then [of_nat (48 + n)] else dec (n div 10) @ [of_nat (48 + n mod 10)])"

definition dec_int :: "int \<Rightarrow> byte list" where
  "dec_int i = (if i < 0 then 45 # dec (nat (- i)) else dec (nat i))"

declare dec.simps [simp del]

subsection \<open>Lemmas\<close>

lemma digit_byte: "d < 10 \<Longrightarrow> digit_val (48 + of_nat d) = Some d"
proof -
  assume "d < 10"
  then have "d \<in> set [0..<10]" by simp
  then show ?thesis by (auto simp: digit_val_def upt_rec)
qed

lemma dec_digits: "c \<in> set (dec n) \<Longrightarrow> is_digit 10 c"
proof (induction n rule: dec.induct)
  case (1 n)
  have m: "n mod 10 < 10" by simp
  show ?case
    using 1 m by (subst (asm) (2) dec.simps) (auto simp: is_digit_def digit_byte split: if_splits)
qed

lemma number_snoc: "number b (ds @ [c]) = number b ds * b + the (digit_val c)"
  by (simp add: number_def)

lemma number_dec: "number 10 (dec n) = n"
proof (induction n rule: dec.induct)
  case (1 n)
  show ?case
  proof (cases "n < 10")
    case True
    then show ?thesis by (subst dec.simps) (simp add: number_def digit_byte)
  next
    case False
    with 1 show ?thesis by (subst dec.simps) (simp add: number_snoc digit_byte)
  qed
qed

lemma dec_ne: "dec n \<noteq> []"
  by (subst dec.simps) simp

lemma scan_digits_dec: "rest = [] \<or> \<not> is_digit 10 (hd rest) \<Longrightarrow> scan_digits 10 (dec n @ rest) = Some n"
proof -
  assume p: "rest = [] \<or> \<not> is_digit 10 (hd rest)"
  have "takeWhile (is_digit 10) (dec n @ rest) = dec n"
    using p dec_digits by (cases rest) (auto simp: takeWhile_append)
  then show ?thesis using dec_ne [of n] by (simp add: scan_digits_def number_dec)
qed

lemma digit_plain: "is_digit 10 c \<Longrightarrow> \<not> isspace c \<and> c \<noteq> 45 \<and> c \<noteq> 43"
  by (auto simp: is_digit_def digit_val_def isspace_def)

lemma dec_Cons: obtains c r where "dec n = c # r" "is_digit 10 c" "c = 48 \<Longrightarrow> n = 0 \<and> r = []"
proof -
  have "\<exists>c r. dec n = c # r \<and> (c = 48 \<longrightarrow> n = 0 \<and> r = [])"
  proof (induction n rule: dec.induct)
    case (1 n)
    show ?case
    proof (cases "n < 10")
      case True
      then have "n \<in> set [0..<10]" by simp
      then show ?thesis by (subst dec.simps) (auto simp: upt_rec)
    next
      case False
      with 1 show ?thesis by (subst dec.simps) auto
    qed
  qed
  then show thesis using that dec_digits [of _ n] by (metis list.set_intros(1))
qed

lemma scan_u_dec:
  assumes p: "rest = [] \<or> \<not> is_digit 10 (hd rest)"
  shows "scan_u (dec n @ rest) = Some (int n)"
proof -
  obtain c r where d: "dec n = c # r" "is_digit 10 c" by (rule dec_Cons)
  then show ?thesis using digit_plain [of c] scan_digits_dec [OF p, of n] by (simp add: scan_u_def scan_sign_def)
qed

text \<open>The text that follows must not turn a lone zero into a prefix.\<close>

definition stops :: "byte list \<Rightarrow> bool" where
  "stops rest \<longleftrightarrow> rest = [] \<or> (\<not> is_digit 10 (hd rest) \<and> hd rest \<noteq> 120 \<and> hd rest \<noteq> 88)"

lemma scan_digits_zero:
  assumes "rest = [] \<or> \<not> is_digit 10 (hd rest)"
  shows "scan_digits 8 (48 # rest) = Some 0"
proof -
  have "is_digit 8 c \<Longrightarrow> is_digit 10 c" for c by (auto simp: is_digit_def split: option.splits)
  then have "takeWhile (is_digit 8) rest = []" using assms by (cases rest) auto
  moreover have "is_digit 8 48" by (simp add: is_digit_def digit_val_def)
  ultimately show ?thesis by (simp add: scan_digits_def number_def digit_val_def)
qed

lemma scan_based_dec:
  assumes p: "stops rest"
  shows "scan_based (dec n @ rest) = Some n"
proof -
  have q: "rest = [] \<or> \<not> is_digit 10 (hd rest)" using p by (auto simp: stops_def)
  obtain c r where d: "dec n = c # r" "c = 48 \<Longrightarrow> n = 0 \<and> r = []" by (rule dec_Cons [of n]) blast
  show ?thesis
  proof (cases "c = 48")
    case True
    then show ?thesis using d p scan_digits_dec [OF q, of n] scan_digits_zero [OF q]
      by (auto simp: scan_based_def stops_def split: list.split)
  next
    case False
    then show ?thesis using d scan_digits_dec [OF q, of n] by (auto simp: scan_based_def split: list.split)
  qed
qed

lemma scan_i_dec:
  assumes p: "stops rest"
  shows "scan_i (dec_int v @ rest) = Some v"
proof (cases "v < 0")
  case True
  then show ?thesis
    using scan_based_dec [OF p, of "nat (- v)"] by (simp add: scan_i_def dec_int_def scan_sign_def isspace_def)
next
  case False
  obtain c r where d: "dec (nat v) = c # r" "is_digit 10 c" by (rule dec_Cons)
  with False show ?thesis
    using scan_based_dec [OF p, of "nat v"] digit_plain [OF d(2)] by (simp add: scan_i_def dec_int_def scan_sign_def)
qed

lemma text_from_at [simp]: "tok_start tok = int (length pre) \<Longrightarrow> text_from (pre @ r) tok = Some r"
  by (simp add: text_from_def)

lemma scan_signed_dec:
  assumes "tok_type tok = JSMN_PRIMITIVE" "tok_start tok = int (length pre)" "stops rest"
    and "- (2 ^ (k - 1)) \<le> v" "v < 2 ^ (k - 1)"
  shows "scan_signed k (pre @ dec_int v @ rest) tok = Some (Inr v)"
  using assms by (simp add: scan_signed_def scan_i_dec)

lemma scan_unsigned_dec:
  assumes "tok_type tok = JSMN_PRIMITIVE" "tok_start tok = int (length pre)" "stops rest" "n < 2 ^ k"
  shows "scan_unsigned k (pre @ dec n @ rest) tok = Some (Inr (int n))"
proof -
  obtain c r where d: "dec n = c # r" "is_digit 10 c" by (rule dec_Cons)
  have "rest = [] \<or> \<not> is_digit 10 (hd rest)" using assms(3) by (auto simp: stops_def)
  from scan_u_dec [OF this, of n] show ?thesis
    using assms d digit_plain [OF d(2)] by (simp add: scan_unsigned_def)
qed

text \<open>A number with leading zeros is read in base eight by the conversion \<open>i\<close>.\<close>

lemma scan_i_octal: "scan_i (bytes_of ''010,'') = Some 8"
  by (simp add: scan_i_def scan_sign_def isspace_def scan_based_def scan_digits_def is_digit_def digit_val_def number_def
      bytes_of_def)

end
