(* ===== verification/Shadow_Json.thy ===== *)
theory Shadow_Json
  imports Json_Utils
begin

text \<open>
  The shadow documents of src/aws_iot_shadow_json.c: the routines that write a document into the
  caller's buffer with \<open>snprintf\<close>, and the ones that look up values in a received document through the
  tokeniser. Buffers are lists of fixed length; every access outside one is \<open>None\<close>, and so is behaviour
  the language leaves undefined.
\<close>

subsection \<open>Memory and formatted output\<close>

text \<open>The C string a memory area holds; without a terminator in the area there is none.\<close>

definition cstr_of :: "byte list \<Rightarrow> cstring option" where
  "cstr_of mem = (if 0 \<in> set mem then Some (takeWhile (\<lambda>c. c \<noteq> 0) mem) else None)"

definition cstrlen :: "byte list \<Rightarrow> nat option" where
  "cstrlen mem = map_option length (cstr_of mem)"

text \<open>
  \<open>snprintf(mem + off, size, ...)\<close> where the formatted text is \<open>t\<close>: at most \<open>size - 1\<close> bytes of it and a
  terminator, nothing when \<open>size\<close> is zero; the value returned is the length of \<open>t\<close> (negative when
  \<open>int\<close> cannot represent it).
\<close>

definition snprintf :: "byte list \<Rightarrow> nat \<Rightarrow> nat \<Rightarrow> byte list \<Rightarrow> (int \<times> byte list) option" where
  "snprintf mem off sz t =
     map_option (\<lambda>bp. (if length t < 2 ^ 31 then int (length t) else - 1, fst bp))
       (put (if sz = 0 then [] else take (sz - 1) t @ [0]) (mem, off))"

definition sprintf :: "byte list \<Rightarrow> nat \<Rightarrow> byte list \<Rightarrow> byte list option" where
  "sprintf mem off t = map_option fst (put (t @ [0]) (mem, off))"

text \<open>\<open>size_t\<close> subtraction.\<close>

definition size_sub :: "nat \<Rightarrow> nat \<Rightarrow> nat" where
  "size_sub a b = unat (of_nat a - of_nat b :: size_t)"

text \<open>An object of \<open>k\<close> bytes in memory, low byte first: its value and its signed value.\<close>

fun le_nat :: "byte list \<Rightarrow> nat" where
  "le_nat [] = 0"
| "le_nat (b # bs) = unat b + 256 * le_nat bs"

fun le_bytes :: "nat \<Rightarrow> nat \<Rightarrow> byte list" where
  "le_bytes 0 n = []"
| "le_bytes (Suc k) n = of_nat (n mod 256) # le_bytes k (n div 256)"

definition load :: "nat \<Rightarrow> byte list \<Rightarrow> byte list option" where
  "load k mem = (if k \<le> length mem then Some (take k mem) else None)"

definition load_nat :: "nat \<Rightarrow> byte list \<Rightarrow> nat option" where
  "load_nat k mem = map_option le_nat (load k mem)"

definition load_int :: "nat \<Rightarrow> byte list \<Rightarrow> int option" where
  "load_int k mem =
     map_option (\<lambda>n. if n < 2 ^ (8 * k - 1) then int n else int n - 2 ^ (8 * k)) (load_nat k mem)"

text \<open>What the code uses of the C library for \<open>float\<close> and \<open>double\<close>: the output and the input conversion \<open>f\<close>.\<close>

record float_lib =
  print_float :: "byte list \<Rightarrow> byte list"
  print_double :: "byte list \<Rightarrow> byte list"
  scan_float :: "byte list \<Rightarrow> byte list option"
  scan_double :: "byte list \<Rightarrow> byte list option"

subsection \<open>Data\<close>

datatype JsonPrimitiveType =
  SHADOW_JSON_INT32 | SHADOW_JSON_INT16 | SHADOW_JSON_INT8
| SHADOW_JSON_UINT32 | SHADOW_JSON_UINT16 | SHADOW_JSON_UINT8
| SHADOW_JSON_FLOAT | SHADOW_JSON_DOUBLE | SHADOW_JSON_BOOL | SHADOW_JSON_STRING | SHADOW_JSON_OBJECT

text \<open>
  \<open>pData\<close> is the memory the pointer leads to. \<open>cb\<close> names the callback (an index the application gives
  it), \<open>None\<close> for NULL.
\<close>

record jsonStruct_t =
  pKey :: "cstring option"
  pData :: "byte list option"
  type :: JsonPrimitiveType
  cb :: "nat option"

definition MAX_JSON_TOKEN_EXPECTED :: nat where "MAX_JSON_TOKEN_EXPECTED = 120"

text \<open>The static variables of the file and \<open>mqttClientID\<close>, which it shares.\<close>

record shadow_json =
  clientTokenNum :: u32
  mqttClientID :: "byte list"
  shadowJsonParser :: jsmn_parser
  jsonTokenStruct :: "jsmntok_t list"

definition SHADOW_CLIENT_TOKEN_STRING :: cstring where "SHADOW_CLIENT_TOKEN_STRING = bytes_of ''clientToken''"
definition SHADOW_VERSION_STRING :: cstring where "SHADOW_VERSION_STRING = bytes_of ''version''"

subsection \<open>Writing documents\<close>

definition resetClientTokenSequenceNum :: "shadow_json \<Rightarrow> shadow_json" where
  "resetClientTokenSequenceNum g = g\<lparr>clientTokenNum := 0\<rparr>"

text \<open>\<open>mqttClientID\<close>, a dash and the token number, which the conversion \<open>d\<close> prints as a signed integer.\<close>

definition token_text :: "shadow_json \<Rightarrow> cstring option" where
  "token_text g = map_option (\<lambda>c. c @ bytes_of ''-'' @ dec_int (sint (clientTokenNum g))) (cstr_of (mqttClientID g))"

definition FillWithClientToken :: "shadow_json \<Rightarrow> byte list \<Rightarrow> nat \<Rightarrow> (byte list \<times> shadow_json) option" where
  "FillWithClientToken g mem off = do {
     t \<leftarrow> token_text g;
     mem \<leftarrow> sprintf mem off t;
     Some (mem, g\<lparr>clientTokenNum := clientTokenNum g + 1\<rparr>)
   }"

definition FillWithClientTokenSize :: "shadow_json \<Rightarrow> byte list \<Rightarrow> nat \<Rightarrow> nat \<Rightarrow> (int \<times> byte list \<times> shadow_json) option" where
  "FillWithClientTokenSize g mem off sz = do {
     t \<leftarrow> token_text g;
     (r, mem) \<leftarrow> snprintf mem off sz t;
     Some (r, mem, g\<lparr>clientTokenNum := clientTokenNum g + 1\<rparr>)
   }"

definition emptyJsonWithClientToken :: "shadow_json \<Rightarrow> byte list \<Rightarrow> (byte list \<times> shadow_json) option" where
  "emptyJsonWithClientToken g doc = do {
     doc \<leftarrow> sprintf doc 0 (bytes_of ''{\"clientToken\":\"'');
     l \<leftarrow> cstrlen doc;
     (doc, g) \<leftarrow> FillWithClientToken g doc l;
     l \<leftarrow> cstrlen doc;
     doc \<leftarrow> sprintf doc l (bytes_of ''\"}'');
     Some (doc, g)
   }"

definition aws_iot_shadow_internal_get_request_json :: "shadow_json \<Rightarrow> byte list \<Rightarrow> (byte list \<times> shadow_json) option" where
  "aws_iot_shadow_internal_get_request_json g doc = emptyJsonWithClientToken g doc"

definition aws_iot_shadow_internal_delete_request_json :: "shadow_json \<Rightarrow> byte list \<Rightarrow> (byte list \<times> shadow_json) option" where
  "aws_iot_shadow_internal_delete_request_json g doc = emptyJsonWithClientToken g doc"

definition checkReturnValueOfSnPrintf :: "int \<Rightarrow> nat \<Rightarrow> IoT_Error_t" where
  "checkReturnValueOfSnPrintf r maxSize =
     (if r < 0 then SHADOW_JSON_ERROR
      else if maxSize \<le> nat r then SHADOW_JSON_BUFFER_TRUNCATED else SUCCESS)"

text \<open>A NULL document is \<open>None\<close>. The result: the code and the document.\<close>

definition aws_iot_shadow_init_json_document :: "byte list option \<Rightarrow> nat \<Rightarrow> (IoT_Error_t \<times> byte list option) option" where
  "aws_iot_shadow_init_json_document doc maxSize =
     (case doc of
        None \<Rightarrow> Some (NULL_VALUE_ERROR, None)
      | Some doc \<Rightarrow> do {
          (r, doc) \<leftarrow> snprintf doc 0 maxSize (bytes_of ''{\"state\":{'');
          Some (checkReturnValueOfSnPrintf r maxSize, Some doc)
        })"

text \<open>
  The text \<open>convertDataToString\<close> prints for a value, for all types but the object, which it does not print.
\<close>

definition value_text :: "float_lib \<Rightarrow> JsonPrimitiveType \<Rightarrow> byte list \<Rightarrow> byte list option" where
  "value_text fl ty d =
     map_option (\<lambda>t. t @ bytes_of '','') (case ty of
        SHADOW_JSON_INT32 \<Rightarrow> map_option dec_int (load_int 4 d)
      | SHADOW_JSON_INT16 \<Rightarrow> map_option dec_int (load_int 2 d)
      | SHADOW_JSON_INT8 \<Rightarrow> map_option dec_int (load_int 1 d)
      | SHADOW_JSON_UINT32 \<Rightarrow> map_option dec (load_nat 4 d)
      | SHADOW_JSON_UINT16 \<Rightarrow> map_option dec (load_nat 2 d)
      | SHADOW_JSON_UINT8 \<Rightarrow> map_option dec (load_nat 1 d)
      | SHADOW_JSON_DOUBLE \<Rightarrow> map_option (print_double fl) (load 8 d)
      | SHADOW_JSON_FLOAT \<Rightarrow> map_option (print_float fl) (load 4 d)
      | SHADOW_JSON_BOOL \<Rightarrow> map_option (\<lambda>n. bytes_of (if n \<noteq> 0 then ''true'' else ''false'')) (load_nat 1 d)
      | SHADOW_JSON_STRING \<Rightarrow> map_option (\<lambda>s. bytes_of ''\"'' @ s @ bytes_of ''\"'') (cstr_of d)
      | SHADOW_JSON_OBJECT \<Rightarrow> Some [])"

definition convertDataToString :: "float_lib \<Rightarrow> byte list \<Rightarrow> nat \<Rightarrow> nat \<Rightarrow> JsonPrimitiveType \<Rightarrow> byte list \<Rightarrow> (IoT_Error_t \<times> byte list) option" where
  "convertDataToString fl mem off sz ty d =
     (if sz = 0 then Some (SHADOW_JSON_ERROR, mem)
      else if ty = SHADOW_JSON_OBJECT then Some (checkReturnValueOfSnPrintf 0 sz, mem)
      else do {
        t \<leftarrow> value_text fl ty d;
        (r, mem) \<leftarrow> snprintf mem off sz t;
        Some (checkReturnValueOfSnPrintf r sz, mem)
      })"

text \<open>
  The common body of \<open>aws_iot_shadow_add_desired\<close> and \<open>aws_iot_shadow_add_reported\<close>. One pass of the loop
  adds one argument; it ends with \<open>Inl\<close> of the returned code or with the document and the size left before
  the entry. A NULL key is undefined (it is printed before it is checked), and so is a missing argument.
\<close>

definition section_entry :: "float_lib \<Rightarrow> byte list \<Rightarrow> nat \<Rightarrow> jsonStruct_t option \<Rightarrow> (IoT_Error_t \<times> byte list) option" where
  "section_entry fl doc remSize arg =
     (case arg of
        None \<Rightarrow> Some (NULL_VALUE_ERROR, doc)
      | Some e \<Rightarrow> (case pKey e of
          None \<Rightarrow> None
        | Some key \<Rightarrow> do {
            l \<leftarrow> cstrlen doc;
            (r, doc) \<leftarrow> snprintf doc l remSize (bytes_of ''\"'' @ key @ bytes_of ''\":'');
            (if checkReturnValueOfSnPrintf r remSize \<noteq> SUCCESS then Some (checkReturnValueOfSnPrintf r remSize, doc)
             else case pData e of
               None \<Rightarrow> Some (NULL_VALUE_ERROR, doc)
             | Some d \<Rightarrow> do { l \<leftarrow> cstrlen doc; convertDataToString fl doc l remSize (type e) d })
          }))"

primrec section_loop :: "nat \<Rightarrow> float_lib \<Rightarrow> nat \<Rightarrow> byte list \<Rightarrow> nat \<Rightarrow> jsonStruct_t option list \<Rightarrow> ((IoT_Error_t \<times> byte list) + (byte list \<times> nat)) option" where
  "section_loop 0 fl maxSize doc remSize args = Some (Inr (doc, remSize))"
| "section_loop (Suc n) fl maxSize doc remSize args = do {
     l \<leftarrow> cstrlen doc;
     if size_sub maxSize l \<le> 1 then Some (Inl (SHADOW_JSON_ERROR, doc))
     else case args of
       [] \<Rightarrow> None
     | arg # args \<Rightarrow> do {
         (rc, doc) \<leftarrow> section_entry fl doc (size_sub maxSize l) arg;
         if rc \<noteq> SUCCESS then Some (Inl (rc, doc))
         else section_loop n fl maxSize doc (size_sub maxSize l) args
       }
   }"

text \<open>
  The loop counter is an \<open>int8_t\<close>: it never reaches a count above 127, so the loop then only ends with an
  error or by reading more arguments than there are.
\<close>

definition add_section :: "cstring \<Rightarrow> float_lib \<Rightarrow> byte list option \<Rightarrow> nat \<Rightarrow> u8 \<Rightarrow> jsonStruct_t option list \<Rightarrow> (IoT_Error_t \<times> byte list option) option" where
  "add_section label fl doc maxSize count args =
     (case doc of
        None \<Rightarrow> Some (NULL_VALUE_ERROR, None)
      | Some doc \<Rightarrow> map_option (\<lambda>(rc, doc). (rc, Some doc)) (do {
          l \<leftarrow> cstrlen doc;
          let remSize = size_sub maxSize l;
          (if remSize \<le> 1 then Some (SHADOW_JSON_ERROR, doc) else do {
             (r, doc) \<leftarrow> snprintf doc l remSize label;
             (if checkReturnValueOfSnPrintf r remSize \<noteq> SUCCESS then Some (checkReturnValueOfSnPrintf r remSize, doc)
              else do {
                z \<leftarrow> section_loop (if unat count \<le> 127 then unat count else Suc (length args)) fl maxSize doc remSize args;
                case z of
                  Inl res \<Rightarrow> Some res
                | Inr (doc, remSize) \<Rightarrow> do {
                    l \<leftarrow> cstrlen doc;
                    (if l = 0 then None else do {
                       (r, doc) \<leftarrow> snprintf doc (l - 1) remSize (bytes_of ''},'');
                       Some (checkReturnValueOfSnPrintf r remSize, doc)
                     })
                  }
              })
           })
        }))"

definition aws_iot_shadow_add_desired :: "float_lib \<Rightarrow> byte list option \<Rightarrow> nat \<Rightarrow> u8 \<Rightarrow> jsonStruct_t option list \<Rightarrow> (IoT_Error_t \<times> byte list option) option" where
  "aws_iot_shadow_add_desired = add_section (bytes_of ''\"desired\":{'')"

definition aws_iot_shadow_add_reported :: "float_lib \<Rightarrow> byte list option \<Rightarrow> nat \<Rightarrow> u8 \<Rightarrow> jsonStruct_t option list \<Rightarrow> (IoT_Error_t \<times> byte list option) option" where
  "aws_iot_shadow_add_reported = add_section (bytes_of ''\"reported\":{'')"

definition aws_iot_fill_with_client_token :: "shadow_json \<Rightarrow> byte list \<Rightarrow> nat \<Rightarrow> (IoT_Error_t \<times> byte list \<times> shadow_json) option" where
  "aws_iot_fill_with_client_token g buf maxSize = do {
     (r, buf, g) \<leftarrow> FillWithClientTokenSize g buf 0 maxSize;
     Some (checkReturnValueOfSnPrintf r maxSize, buf, g)
   }"

definition finalize_text :: cstring where
  "finalize_text = bytes_of ''}, \"'' @ SHADOW_CLIENT_TOKEN_STRING @ bytes_of ''\":\"''"

definition aws_iot_finalize_json_document :: "shadow_json \<Rightarrow> byte list option \<Rightarrow> nat \<Rightarrow> (IoT_Error_t \<times> byte list option \<times> shadow_json) option" where
  "aws_iot_finalize_json_document g doc maxSize =
     (case doc of
        None \<Rightarrow> Some (NULL_VALUE_ERROR, None, g)
      | Some doc \<Rightarrow> map_option (\<lambda>(rc, doc, g). (rc, Some doc, g)) (do {
          l \<leftarrow> cstrlen doc;
          let remSize = size_sub maxSize l;
          (if remSize \<le> 1 then Some (SHADOW_JSON_ERROR, doc, g) else if l = 0 then None else do {
             (r, doc) \<leftarrow> snprintf doc (l - 1) remSize finalize_text;
             (if checkReturnValueOfSnPrintf r remSize \<noteq> SUCCESS then Some (checkReturnValueOfSnPrintf r remSize, doc, g)
              else do {
                l \<leftarrow> cstrlen doc;
                let remSize = size_sub maxSize l;
                (if remSize \<le> 1 then Some (SHADOW_JSON_ERROR, doc, g) else do {
                   (r, doc, g) \<leftarrow> FillWithClientTokenSize g doc l remSize;
                   (if checkReturnValueOfSnPrintf r remSize \<noteq> SUCCESS then Some (checkReturnValueOfSnPrintf r remSize, doc, g)
                    else do {
                      l \<leftarrow> cstrlen doc;
                      let remSize = size_sub maxSize l;
                      (if remSize \<le> 1 then Some (SHADOW_JSON_ERROR, doc, g) else do {
                         (r, doc) \<leftarrow> snprintf doc l remSize (bytes_of ''\"}'');
                         Some (checkReturnValueOfSnPrintf r remSize, doc, g)
                       })
                    })
                 })
              })
           })
        }))"

subsection \<open>Reading documents\<close>

text \<open>\<open>jsmn_init\<close> and \<open>jsmn_parse\<close> on the file's parser and token array.\<close>

definition parse_document :: "shadow_json \<Rightarrow> byte list \<Rightarrow> (int \<times> shadow_json) option" where
  "parse_document g doc = do {
     l \<leftarrow> cstrlen doc;
     (n, p, toks) \<leftarrow> jsmn_parse (jsmn_init (shadowJsonParser g)) doc l (Some (jsonTokenStruct g));
     Some (n, g\<lparr>shadowJsonParser := p, jsonTokenStruct := the toks\<rparr>)
   }"

text \<open>
  The token count is stored only on success. The assignment to the handler parameter has no effect
  outside the function.
\<close>

definition isJsonValidAndParse :: "shadow_json \<Rightarrow> byte list \<Rightarrow> (bool \<times> int option \<times> shadow_json) option" where
  "isJsonValidAndParse g doc = do {
     (n, g) \<leftarrow> parse_document g doc;
     (if n < 0 then Some (False, None, g)
      else if n < 1 \<or> tok_type (jsonTokenStruct g ! 0) \<noteq> JSMN_OBJECT then Some (False, None, g)
      else Some (True, Some n, g))
   }"

text \<open>Stores the bytes of a parsed value at \<open>pData\<close>.\<close>

definition store_data :: "(IoT_Error_t + byte list) option \<Rightarrow> jsonStruct_t \<Rightarrow> (IoT_Error_t \<times> jsonStruct_t) option" where
  "store_data r e =
     (case r of
        None \<Rightarrow> None
      | Some (Inl rc) \<Rightarrow> Some (rc, e)
      | Some (Inr bs) \<Rightarrow> (case pData e of
          None \<Rightarrow> None
        | Some mem \<Rightarrow> map_option (\<lambda>bp. (SUCCESS, e\<lparr>pData := Some (fst bp)\<rparr>)) (put bs (mem, 0))))"

abbreviation parsed :: "('v \<Rightarrow> byte list) \<Rightarrow> (IoT_Error_t + 'v) option \<Rightarrow> (IoT_Error_t + byte list) option" where
  "parsed f \<equiv> map_option (map_sum id f)"

definition word_bytes :: "nat \<Rightarrow> 'a::len word \<Rightarrow> byte list" where
  "word_bytes k w = le_bytes k (unat w)"

definition UpdateValueIfNoObject :: "float_lib \<Rightarrow> cstring \<Rightarrow> jsonStruct_t \<Rightarrow> jsmntok_t \<Rightarrow> (IoT_Error_t \<times> jsonStruct_t) option" where
  "UpdateValueIfNoObject fl json e token =
     (case type e of
        SHADOW_JSON_BOOL \<Rightarrow> store_data (parsed (\<lambda>b. [if b then 1 else 0]) (parseBooleanValue json token)) e
      | SHADOW_JSON_INT32 \<Rightarrow> store_data (parsed (word_bytes 4) (parseInteger32Value json token)) e
      | SHADOW_JSON_INT16 \<Rightarrow> store_data (parsed (word_bytes 2) (parseInteger16Value json token)) e
      | SHADOW_JSON_INT8 \<Rightarrow> store_data (parsed (word_bytes 1) (parseInteger8Value json token)) e
      | SHADOW_JSON_UINT32 \<Rightarrow> store_data (parsed (word_bytes 4) (parseUnsignedInteger32Value json token)) e
      | SHADOW_JSON_UINT16 \<Rightarrow> store_data (parsed (word_bytes 2) (parseUnsignedInteger16Value json token)) e
      | SHADOW_JSON_UINT8 \<Rightarrow> store_data (parsed (word_bytes 1) (parseUnsignedInteger8Value json token)) e
      | SHADOW_JSON_FLOAT \<Rightarrow> store_data (parseFloatValue (scan_float fl) json token) e
      | SHADOW_JSON_DOUBLE \<Rightarrow> store_data (parseDoubleValue (scan_double fl) json token) e
      | SHADOW_JSON_STRING \<Rightarrow> Some (SUCCESS, e)
      | SHADOW_JSON_OBJECT \<Rightarrow> Some (SUCCESS, e))"

text \<open>
  The loops over the tokens from \<open>i\<close>. An access past the array is \<open>None\<close>; the token after the last one
  parsed is whatever the array holds. The first loop returns the index of the key.
\<close>

definition token_at :: "shadow_json \<Rightarrow> nat \<Rightarrow> jsmntok_t option" where
  "token_at g i = (if i < length (jsonTokenStruct g) then Some (jsonTokenStruct g ! i) else None)"

definition key_eq :: "cstring \<Rightarrow> jsmntok_t \<Rightarrow> cstring option \<Rightarrow> int option" where
  "key_eq json tok key =
     (case key of
        Some k \<Rightarrow> jsoneq json tok k
      | None \<Rightarrow> if tok_type tok = JSMN_STRING then None else Some (- 1))"

primrec find_key :: "nat \<Rightarrow> shadow_json \<Rightarrow> cstring \<Rightarrow> cstring option \<Rightarrow> nat \<Rightarrow> nat option option" where
  "find_key 0 g json key i = Some None"
| "find_key (Suc n) g json key i = do {
     tok \<leftarrow> token_at g i;
     m \<leftarrow> key_eq json tok key;
     if m = 0 then Some (Some i) else find_key n g json key (Suc i)
   }"

text \<open>The data length and position are stored only when the key is found.\<close>

definition isJsonKeyMatchingAndUpdateValue :: "float_lib \<Rightarrow> shadow_json \<Rightarrow> byte list \<Rightarrow> int \<Rightarrow> jsonStruct_t \<Rightarrow> (bool \<times> jsonStruct_t \<times> (u32 \<times> int) option) option" where
  "isJsonKeyMatchingAndUpdateValue fl g doc tokenCount e = do {
     json \<leftarrow> cstr_of doc;
     k \<leftarrow> find_key (nat tokenCount - 1) g json (pKey e) 1;
     case k of
       None \<Rightarrow> Some (False, e, None)
     | Some i \<Rightarrow> do {
         dataToken \<leftarrow> token_at g (i + 1);
         (rc, e) \<leftarrow> UpdateValueIfNoObject fl json e dataToken;
         Some (True, e, Some (of_int (tok_end dataToken - tok_start dataToken), tok_start dataToken))
       }
   }"

definition isReceivedJsonValid :: "shadow_json \<Rightarrow> byte list \<Rightarrow> (bool \<times> shadow_json) option" where
  "isReceivedJsonValid g doc = do {
     (n, g) \<leftarrow> parse_document g doc;
     (if n < 0 then Some (False, g)
      else if n < 1 \<or> tok_type (jsonTokenStruct g ! 0) \<noteq> JSMN_OBJECT then Some (False, g)
      else Some (True, g))
   }"

text \<open>\<open>strncpy(dst, src, n)\<close>: the string \<open>src\<close>, cut or padded with zeros to \<open>n\<close> bytes.\<close>

definition strncpy :: "byte list \<Rightarrow> nat \<Rightarrow> cstring \<Rightarrow> nat \<Rightarrow> byte list option" where
  "strncpy mem off src n = map_option fst (put (take n src @ replicate (n - length src) 0) (mem, off))"

definition extractClientToken :: "shadow_json \<Rightarrow> byte list \<Rightarrow> byte list \<Rightarrow> (bool \<times> byte list \<times> shadow_json) option" where
  "extractClientToken g doc out = do {
     (n, g) \<leftarrow> parse_document g doc;
     (if n < 0 then Some (False, out, g)
      else if n < 1 \<or> tok_type (jsonTokenStruct g ! 0) \<noteq> JSMN_OBJECT then Some (False, out, g)
      else do {
        json \<leftarrow> cstr_of doc;
        k \<leftarrow> find_key (nat n - 1) g json (Some SHADOW_CLIENT_TOKEN_STRING) 1;
        case k of
          None \<Rightarrow> Some (False, out, g)
        | Some i \<Rightarrow> do {
            tok \<leftarrow> token_at g (i + 1);
            let len = unat (of_int (tok_end tok - tok_start tok) :: u8);
            src \<leftarrow> text_from json tok;
            out \<leftarrow> strncpy out 0 src len;
            bp \<leftarrow> store 0 (out, len);
            Some (True, fst bp, g)
          }
      })
   }"

primrec version_loop :: "nat \<Rightarrow> shadow_json \<Rightarrow> cstring \<Rightarrow> nat \<Rightarrow> u32 option option" where
  "version_loop 0 g json i = Some None"
| "version_loop (Suc n) g json i = do {
     tok \<leftarrow> token_at g i;
     m \<leftarrow> jsoneq json tok SHADOW_VERSION_STRING;
     if m = 0 then do {
       tok \<leftarrow> token_at g (Suc i);
       r \<leftarrow> parseUnsignedInteger32Value json tok;
       case r of Inr v \<Rightarrow> Some (Some v) | Inl _ \<Rightarrow> version_loop n g json (Suc i)
     } else version_loop n g json (Suc i)
   }"

text \<open>The version number is \<open>None\<close> when the function returns false.\<close>

definition extractVersionNumber :: "shadow_json \<Rightarrow> byte list \<Rightarrow> int \<Rightarrow> u32 option option" where
  "extractVersionNumber g doc tokenCount = do {
     json \<leftarrow> cstr_of doc;
     version_loop (nat tokenCount - 1) g json 1
   }"
subsection \<open>The text a buffer holds\<close>

definition holds_text :: "byte list \<Rightarrow> cstring \<Rightarrow> bool" where
  "holds_text mem s \<longleftrightarrow> 0 \<notin> set s \<and> (\<exists>rest. mem = s @ 0 # rest)"

lemma holds_text_cstr: "holds_text mem s \<Longrightarrow> cstr_of mem = Some s"
  by (auto simp: holds_text_def cstr_of_def takeWhile_append)

lemma holds_text_len: "holds_text mem s \<Longrightarrow> cstrlen mem = Some (length s)"
  by (simp add: cstrlen_def holds_text_cstr)

lemma holds_text_room: "holds_text mem s \<Longrightarrow> length s < length mem"
  by (auto simp: holds_text_def)

lemma put_text:
  assumes "off = length p" "take off mem = p" "0 \<notin> set (p @ t)" "length p + length t < length mem"
  shows "\<exists>mem'. put (t @ [0]) (mem, off) = Some (mem', off + length t + 1) \<and> holds_text mem' (p @ t) \<and> length mem' = length mem"
  using assms by (auto simp: put_def holds_text_def Let_def)

text \<open>\<open>snprintf\<close> over the end of the text: \<open>p\<close> stays, \<open>q\<close> is overwritten.\<close>

lemma snprintf_append:
  assumes h: "holds_text mem (p @ q)" and t: "0 \<notin> set t" "length t < 2 ^ 31"
    and room: "length t < sz" "length p + length t < length mem"
  shows "\<exists>mem'. snprintf mem (length p) sz t = Some (int (length t), mem') \<and> holds_text mem' (p @ t) \<and>
    length mem' = length mem"
proof -
  have p: "take (length p) mem = p" "0 \<notin> set p" using h by (auto simp: holds_text_def)
  obtain mem' where "put (t @ [0]) (mem, length p) = Some (mem', length p + length t + 1)" "holds_text mem' (p @ t)"
    "length mem' = length mem"
    using put_text [of "length p" p mem t] p t room by auto
  then show ?thesis using room t by (auto simp: snprintf_def)
qed

lemma snprintf_overflow:
  assumes "length mem < off + length t + 1" "length mem < off + sz"
  shows "snprintf mem off sz t = None"
  using assms by (auto simp: snprintf_def put_def Let_def)

lemma snprintf_cut:
  assumes h: "holds_text mem (p @ q)" and room: "0 < sz" "sz \<le> length t" "length p + sz \<le> length mem"
  shows "\<exists>r mem'. snprintf mem (length p) sz t = Some (r, mem') \<and> checkReturnValueOfSnPrintf r sz \<in> {SHADOW_JSON_ERROR, SHADOW_JSON_BUFFER_TRUNCATED} \<and>
    length mem' = length mem"
  using assms by (auto simp: snprintf_def put_def Let_def checkReturnValueOfSnPrintf_def)

lemma check_fits: "length t < sz \<Longrightarrow> checkReturnValueOfSnPrintf (int (length t)) sz = SUCCESS"
  by (simp add: checkReturnValueOfSnPrintf_def)

lemma size_sub_le: "b \<le> a \<Longrightarrow> a < 2 ^ 64 \<Longrightarrow> size_sub a b = a - b"
proof -
  assume h: "b \<le> a" "a < 2 ^ 64"
  then have "(of_nat a - of_nat b :: size_t) = of_nat (a - b)" by (simp add: of_nat_diff)
  then show ?thesis unfolding size_sub_def by (simp only: unat_of_nat) (use h in simp)
qed

subsection \<open>One entry\<close>

definition key_text :: "cstring \<Rightarrow> byte list" where
  "key_text key = bytes_of ''\"'' @ key @ bytes_of ''\":''"

text \<open>An entry with a key and a value that can be printed, neither holding a terminator.\<close>

definition entry_texts :: "float_lib \<Rightarrow> jsonStruct_t \<Rightarrow> byte list \<Rightarrow> byte list \<Rightarrow> bool" where
  "entry_texts fl e k v \<longleftrightarrow>
     (\<exists>key d. pKey e = Some key \<and> pData e = Some d \<and> k = key_text key \<and> type e \<noteq> SHADOW_JSON_OBJECT \<and>
        value_text fl (type e) d = Some v) \<and>
     0 \<notin> set (k @ v) \<and> length (k @ v) < 2 ^ 31"

lemma section_entry_eq:
  assumes "entry_texts fl e k v"
  shows "section_entry fl doc remSize (Some e) = do {
            l \<leftarrow> cstrlen doc;
            (r, doc) \<leftarrow> snprintf doc l remSize k;
            (if checkReturnValueOfSnPrintf r remSize \<noteq> SUCCESS then Some (checkReturnValueOfSnPrintf r remSize, doc)
             else do { l \<leftarrow> cstrlen doc;
                (if remSize = 0 then Some (SHADOW_JSON_ERROR, doc)
                 else do { (r, mem) \<leftarrow> snprintf doc l remSize v; Some (checkReturnValueOfSnPrintf r remSize, mem) })})
          }"
  using assms by (auto simp: section_entry_def entry_texts_def key_text_def convertDataToString_def cong: if_cong)

lemma section_entry_fits:
  assumes e: "entry_texts fl e k v" and h: "holds_text doc s"
    and room: "length s + length k + length v < length doc" "length s + length k + length v < length s + remSize"
  shows "\<exists>doc'. section_entry fl doc remSize (Some e) = Some (SUCCESS, doc') \<and> holds_text doc' (s @ k @ v) \<and>
    length doc' = length doc"
proof -
  have z: "0 \<notin> set k" "0 \<notin> set v" "length k < 2 ^ 31" "length v < 2 ^ 31" using e by (auto simp: entry_texts_def)
  obtain d1 where d1: "snprintf doc (length s) remSize k = Some (int (length k), d1)" "holds_text d1 (s @ k)" "length d1 = length doc"
    using snprintf_append [of doc s "[]" k remSize] h z room by auto
  obtain d2 where d2: "snprintf d1 (length s + length k) remSize v = Some (int (length v), d2)" "holds_text d2 (s @ k @ v)" "length d2 = length d1"
    using snprintf_append [of d1 "s @ k" "[]" v remSize] d1 z room by auto
  show ?thesis
    using d1 d2 room holds_text_len [OF h] holds_text_len [OF d1(2)]
    by (simp add: section_entry_eq [OF e] check_fits)
qed

lemma section_entry_overflow:
  assumes e: "entry_texts fl e k v" and h: "holds_text doc s"
    and key: "length s + length k < length doc" and val: "length doc \<le> length s + length k + length v"
  shows "section_entry fl doc (length doc - length s) (Some e) = None"
proof -
  let ?r = "length doc - length s"
  have z: "0 \<notin> set k" "length k < 2 ^ 31" "k \<noteq> []" using e by (auto simp: entry_texts_def key_text_def bytes_of_def)
  obtain d1 where d1: "snprintf doc (length s) ?r k = Some (int (length k), d1)" "holds_text d1 (s @ k)" "length d1 = length doc"
    using snprintf_append [of doc s "[]" k ?r] h z key less_diff_conv [of "length k" "length doc" "length s"] by (auto simp: add.commute)
  have "snprintf d1 (length s + length k) ?r v = None"
    using z(3) key val d1(3) by (intro snprintf_overflow) (auto simp: Suc_le_eq neq_Nil_conv)
  then show ?thesis
    using d1 key holds_text_len [OF h] holds_text_len [OF d1(2)] by (simp add: section_entry_eq [OF e] check_fits)
qed

lemma section_entry_cut:
  assumes e: "entry_texts fl e k v" and h: "holds_text doc s" and key: "length doc \<le> length s + length k"
  shows "\<exists>doc'. section_entry fl doc (length doc - length s) (Some e) = Some (SHADOW_JSON_BUFFER_TRUNCATED, doc') \<and>
    length doc' = length doc"
proof -
  have "length k < 2 ^ 31" using e by (auto simp: entry_texts_def)
  then show ?thesis
    using key holds_text_room [OF h] holds_text_len [OF h]
    by (auto simp: section_entry_eq [OF e] snprintf_def put_def Let_def checkReturnValueOfSnPrintf_def)
qed

subsection \<open>Sections and documents\<close>

text \<open>What a section adds, and the finished document; the last character before each closing brace goes.\<close>

definition section_text :: "cstring \<Rightarrow> (byte list \<times> byte list) list \<Rightarrow> byte list" where
  "section_text label kvs = butlast (label @ concat (map (\<lambda>(k, v). k @ v) kvs)) @ bytes_of ''},''"

definition document_text :: "byte list list \<Rightarrow> cstring \<Rightarrow> byte list" where
  "document_text sections token =
     butlast (bytes_of ''{\"state\":{'' @ concat sections) @ finalize_text @ token @ bytes_of ''\"}''"

lemma section_loop_fits:
  assumes "list_all2 (\<lambda>a kv. \<exists>e. a = Some e \<and> entry_texts fl e (fst kv) (snd kv)) args kvs" "holds_text doc s"
    and "length s + length (concat (map (\<lambda>(k, v). k @ v) kvs)) + 1 < maxSize" "maxSize \<le> length doc" "maxSize < 2 ^ 64" "2 < remSize"
  shows "\<exists>doc' rem'. section_loop (length kvs) fl maxSize doc remSize args = Some (Inr (doc', rem')) \<and>
    holds_text doc' (s @ concat (map (\<lambda>(k, v). k @ v) kvs)) \<and> length doc' = length doc \<and> 2 < rem'"
  using assms
proof (induction args kvs arbitrary: doc s remSize rule: list_all2_induct)
  case Nil
  then show ?case by simp
next
  case (Cons a as kv kvs)
  obtain k v e where kv: "kv = (k, v)" "a = Some e" "entry_texts fl e k v" using Cons.hyps by (cases kv) auto
  have k: "2 < length k" using kv(3) by (auto simp: entry_texts_def key_text_def bytes_of_def)
  have r: "size_sub maxSize (length s) = maxSize - length s"
    using Cons.prems by (intro size_sub_le) auto
  obtain d1 where d1: "section_entry fl doc (maxSize - length s) (Some e) = Some (SUCCESS, d1)" "holds_text d1 (s @ k @ v)"
      "length d1 = length doc"
    using section_entry_fits [OF kv(3) Cons.prems(1), of "maxSize - length s"] Cons.prems kv(1) by auto
  have m: "2 < maxSize - length s" using Cons.prems(2) k kv(1) by simp
  obtain d2 rem' where "section_loop (length kvs) fl maxSize d1 (maxSize - length s) as = Some (Inr (d2, rem'))"
      "holds_text d2 (s @ k @ v @ concat (map (\<lambda>(k, v). k @ v) kvs))" "length d2 = length doc" "2 < rem'"
    using Cons.IH [OF d1(2) _ _ _ m] Cons.prems d1(3) kv(1) by auto
  then show ?case
    using holds_text_len [OF Cons.prems(1)] d1 r kv k Cons.prems by (auto simp: r)
qed

lemma add_section_fits:
  assumes args: "list_all2 (\<lambda>a kv. \<exists>e. a = Some e \<and> entry_texts fl e (fst kv) (snd kv)) args kvs"
    and h: "holds_text doc s" and n: "length kvs \<le> 127" "unat count = length kvs"
    and lab: "0 \<notin> set label" "2 < length label" "length label < 2 ^ 31"
    and room: "length s + length label + length (concat (map (\<lambda>(k, v). k @ v) kvs)) + 1 < maxSize" "maxSize \<le> length doc" "maxSize < 2 ^ 64"
  shows "\<exists>doc'. add_section label fl (Some doc) maxSize count args = Some (SUCCESS, Some doc') \<and>
    holds_text doc' (s @ section_text label kvs) \<and> length doc' = length doc"
proof -
  let ?c = "concat (map (\<lambda>(k, v). k @ v) kvs)"
  have r: "size_sub maxSize (length s) = maxSize - length s" using room by (intro size_sub_le) auto
  have m: "length label < maxSize - length s" using room by arith
  obtain d1 where d1: "snprintf doc (length s) (maxSize - length s) label = Some (int (length label), d1)"
      "holds_text d1 (s @ label)" "length d1 = length doc"
    using snprintf_append [of doc s "[]" label "maxSize - length s"] h lab room m by auto
  obtain d2 rem' where d2: "section_loop (length kvs) fl maxSize d1 (maxSize - length s) args = Some (Inr (d2, rem'))"
      "holds_text d2 ((s @ label) @ ?c)" "length d2 = length doc" "2 < rem'"
    using section_loop_fits [OF args d1(2), of maxSize "maxSize - length s"] room lab d1(3) m by auto
  let ?t = "s @ label @ ?c"
  have ne: "label \<noteq> []" using lab(2) by auto
  have t: "?t = butlast ?t @ [last ?t]" "butlast ?t = s @ butlast (label @ ?c)"
    using ne by (simp_all only: append_butlast_last_id butlast_append [of s] append_is_Nil_conv) simp_all
  have tl: "length (butlast ?t) = length ?t - 1" by (rule length_butlast)
  have rm: "length (butlast ?t) + 2 < length d2" unfolding tl d2(3) using room lab by auto
  obtain d3 where d3: "snprintf d2 (length ?t - 1) rem' (bytes_of ''},'') = Some (int 2, d3)"
      "holds_text d3 (butlast ?t @ bytes_of ''},'')" "length d3 = length doc"
    using snprintf_append [of d2 "butlast ?t" "[last ?t]" "bytes_of ''},''" rem'] d2 rm tl t(1) [symmetric]
    by (auto simp: bytes_of_def simp del: butlast_append length_butlast)
  show ?thesis
    using d1 d2 d3 holds_text_len [OF h] holds_text_len [OF d2(2)] r n lab room m t(2)
    by (auto simp: add_section_def Let_def check_fits section_text_def checkReturnValueOfSnPrintf_def)
qed

lemma finalize_fits:
  assumes h: "holds_text doc (s @ [c])" and tok: "token_text g = Some tk" "0 \<notin> set tk" "length tk < 2 ^ 31"
    and room: "length s + length finalize_text + length tk + 3 < maxSize" "maxSize \<le> length doc" "maxSize < 2 ^ 64"
  shows "\<exists>doc'. aws_iot_finalize_json_document g (Some doc) maxSize =
      Some (SUCCESS, Some doc', g\<lparr>clientTokenNum := clientTokenNum g + 1\<rparr>) \<and>
    holds_text doc' (s @ finalize_text @ tk @ bytes_of ''\"}'') \<and> length doc' = length doc"
proof -
  have f: "0 \<notin> set finalize_text" "length finalize_text = 18"
    by (auto simp: finalize_text_def SHADOW_CLIENT_TOKEN_STRING_def bytes_of_def)
  have r: "size_sub maxSize n = maxSize - n" if "n \<le> length s + 18 + length tk + 3" for n
    using that room f by (intro size_sub_le) auto
  have m: "18 < maxSize - Suc (length s)" "length tk < maxSize - (length s + 18)" "2 < maxSize - (length s + 18 + length tk)"
    using room f by arith+
  obtain d1 where d1: "snprintf doc (length s) (maxSize - Suc (length s)) finalize_text = Some (18, d1)"
      "holds_text d1 (s @ finalize_text)" "length d1 = length doc"
    using snprintf_append [OF h, of finalize_text "maxSize - Suc (length s)"] f room m by auto
  obtain d2 where d2: "snprintf d1 (length s + 18) (maxSize - (length s + 18)) tk = Some (int (length tk), d2)"
      "holds_text d2 (s @ finalize_text @ tk)" "length d2 = length doc"
    using snprintf_append [of d1 "s @ finalize_text" "[]" tk "maxSize - (length s + 18)"] d1 f room m tok by auto
  obtain d3 where d3: "snprintf d2 (length s + 18 + length tk) (maxSize - (length s + 18 + length tk)) (bytes_of ''\"}'') = Some (2, d3)"
      "holds_text d3 (s @ finalize_text @ tk @ bytes_of ''\"}'')" "length d3 = length doc"
    using snprintf_append [of d2 "s @ finalize_text @ tk" "[]" "bytes_of ''\"}''" "maxSize - (length s + 18 + length tk)"] d2 f room m
    by (auto simp: bytes_of_def add.assoc)
  show ?thesis
    using d1 d2 d3 holds_text_len [OF h] holds_text_len [OF d1(2)] holds_text_len [OF d2(2)] r f m tok
    by (auto simp: aws_iot_finalize_json_document_def FillWithClientTokenSize_def Let_def checkReturnValueOfSnPrintf_def add.assoc)
qed

lemma init_document:
  assumes "11 \<le> maxSize" "maxSize \<le> length doc"
  shows "\<exists>doc'. aws_iot_shadow_init_json_document (Some doc) maxSize = Some (SUCCESS, Some doc') \<and>
    holds_text doc' (bytes_of ''{\"state\":{'') \<and> length doc' = length doc"
proof -
  have t: "length (bytes_of ''{\"state\":{'') = 10" "0 \<notin> set (bytes_of ''{\"state\":{'')" by (auto simp: bytes_of_def)
  obtain d where "put (bytes_of ''{\"state\":{'' @ [0]) (doc, 0) = Some (d, 11)" "holds_text d (bytes_of ''{\"state\":{'')"
    "length d = length doc"
    using put_text [of 0 "[]" doc "bytes_of ''{\"state\":{''"] t assms by auto
  then show ?thesis
    using assms t by (simp add: aws_iot_shadow_init_json_document_def snprintf_def checkReturnValueOfSnPrintf_def)
qed

subsection \<open>Values in memory\<close>

lemma le_nat_bound: "le_nat bs < 256 ^ length bs"
proof (induction bs)
  case (Cons b bs)
  have "unat b < 256" by (rule unat_u8_less)
  with Cons show ?case by simp
qed simp

lemma le_bytes_le_nat: "le_bytes (length bs) (le_nat bs) = bs"
proof (induction bs)
  case (Cons b bs)
  have "unat b < 256" by (rule unat_u8_less)
  then have "(unat b + 256 * le_nat bs) mod 256 = unat b" "(unat b + 256 * le_nat bs) div 256 = le_nat bs" by simp_all
  with Cons show ?case by simp
qed simp

lemma word_bytes_nat:
  assumes "length d = k" "LENGTH('a::len) = 8 * k"
  shows "word_bytes k (of_nat (le_nat d) :: 'a word) = d"
proof -
  have "le_nat d < 2 ^ (8 * k)" using le_nat_bound [of d] assms(1) by (simp add: power_mult)
  then have "unat (of_nat (le_nat d) :: 'a word) = le_nat d"
    using assms(2) by (simp add: unat_of_nat take_bit_nat_eq_self)
  then show ?thesis using le_bytes_le_nat [of d] assms(1) by (simp add: word_bytes_def)
qed

lemma load_int_word:
  assumes d: "length d = k" "load_int k d = Some v" "0 < k"
  shows "- (2 ^ (8 * k - 1)) \<le> v" "v < 2 ^ (8 * k - 1)"
    and "LENGTH('a::len) = 8 * k \<Longrightarrow> word_bytes k (of_int v :: 'a word) = d"
proof -
  let ?n = "le_nat d"
  have b: "?n < 2 ^ (8 * k)" using le_nat_bound [of d] d(1) by (simp add: power_mult)
  have v: "v = (if ?n < 2 ^ (8 * k - 1) then int ?n else int ?n - 2 ^ (8 * k))"
    using d by (auto simp: load_int_def load_nat_def load_def)
  have p: "(2 :: int) ^ (8 * k) = 2 * 2 ^ (8 * k - 1)" using d(3) by (simp add: power_eq_if)
  have bi: "int ?n < 2 ^ (8 * k)" using b by (metis of_nat_less_iff of_nat_numeral of_nat_power)
  have ci: "?n < 2 ^ (8 * k - 1) \<longleftrightarrow> int ?n < 2 ^ (8 * k - 1)" by (metis of_nat_less_iff of_nat_numeral of_nat_power)
  show "- (2 ^ (8 * k - 1)) \<le> v" "v < 2 ^ (8 * k - 1)" using v bi ci p by (auto split: if_splits)
  assume l: "LENGTH('a) = 8 * k"
  have "(of_int (2 ^ (8 * k)) :: 'a word) = 0" using l by (metis of_int_numeral of_int_power word_pow_0 word_exp_length_eq_0)
  then have "(of_int v :: 'a word) = of_nat ?n" using v by simp
  then show "word_bytes k (of_int v :: 'a word) = d" using word_bytes_nat [OF d(1) l] by simp
qed

text \<open>The bytes an object of each type occupies; zero for the types without a fixed size.\<close>

fun json_size :: "JsonPrimitiveType \<Rightarrow> nat" where
  "json_size SHADOW_JSON_INT32 = 4" | "json_size SHADOW_JSON_INT16 = 2" | "json_size SHADOW_JSON_INT8 = 1"
| "json_size SHADOW_JSON_UINT32 = 4" | "json_size SHADOW_JSON_UINT16 = 2" | "json_size SHADOW_JSON_UINT8 = 1"
| "json_size SHADOW_JSON_FLOAT = 4" | "json_size SHADOW_JSON_DOUBLE = 8" | "json_size SHADOW_JSON_BOOL = 1"
| "json_size SHADOW_JSON_STRING = 0" | "json_size SHADOW_JSON_OBJECT = 0"

definition integer_type :: "JsonPrimitiveType \<Rightarrow> bool" where
  "integer_type ty \<longleftrightarrow> ty \<in> {SHADOW_JSON_INT32, SHADOW_JSON_INT16, SHADOW_JSON_INT8,
     SHADOW_JSON_UINT32, SHADOW_JSON_UINT16, SHADOW_JSON_UINT8}"

lemma stops_comma: "stops (44 # r)"
  by (simp add: stops_def is_digit_def digit_val_def)

lemma store_data_full:
  assumes "pData e = Some m" "length m = length d"
  shows "store_data (Some (Inr d)) e = Some (SUCCESS, e\<lparr>pData := Some d\<rparr>)"
  using assms by (simp add: store_data_def put_def)

lemma signed_read:
  assumes "load_int k d = Some v" "length d = k" "0 < k" "LENGTH('a::len) = 8 * k"
    and "tok_type tok = JSMN_PRIMITIVE" "tok_start tok = int (length pre)"
  shows "map_option (map_sum id (word_bytes k)) (map_option (map_sum id (of_int :: int \<Rightarrow> 'a word)) (scan_signed (8 * k) (pre @ dec_int v @ 44 # r) tok))
    = Some (Inr d)"
  using assms load_int_word [OF assms(2,1,3)] load_int_word(3) [where 'a = 'a, OF assms(2,1,3,4)]
  by (simp add: scan_signed_dec stops_comma)

lemma unsigned_read:
  assumes "length d = k" "LENGTH('a::len) = 8 * k"
    and "tok_type tok = JSMN_PRIMITIVE" "tok_start tok = int (length pre)"
  shows "map_option (map_sum id (word_bytes k)) (map_option (map_sum id (of_int :: int \<Rightarrow> 'a word)) (scan_unsigned (8 * k) (pre @ dec (le_nat d) @ 44 # r) tok))
    = Some (Inr d)"
proof -
  have "le_nat d < 2 ^ (8 * k)" using le_nat_bound [of d] assms(1) by (simp add: power_mult)
  then show ?thesis
    using assms word_bytes_nat [where 'a = 'a, OF assms(1,2)] by (simp add: scan_unsigned_dec stops_comma)
qed

lemma load_int_total: "length d = k \<Longrightarrow> \<exists>v. load_int k d = Some v"
  by (simp add: load_int_def load_nat_def load_def)

lemma value_read:
  assumes "integer_type ty" "length d = json_size ty" "value_text fl ty d = Some t" "type e = ty"
    and "tok_type tok = JSMN_PRIMITIVE" "tok_start tok = int (length pre)" "pData e = Some m" "length m = length d"
  shows "UpdateValueIfNoObject fl (pre @ t) e tok = Some (SUCCESS, e\<lparr>pData := Some d\<rparr>)"
proof -
  note s = signed_read [where tok = tok and pre = pre and r = "[]"] and u = unsigned_read [where tok = tok and pre = pre and r = "[]"]
  note p = parseInteger32Value_def parseInteger16Value_def parseInteger8Value_def
    parseUnsignedInteger32Value_def parseUnsignedInteger16Value_def parseUnsignedInteger8Value_def
  obtain v where v: "load_int (length d) d = Some v" using load_int_total by blast
  have n: "load_nat (length d) d = Some (le_nat d)" by (simp add: load_nat_def load_def)
  show ?thesis
    using assms v n s [of "length d" d v, where 'a = 32] s [of "length d" d v, where 'a = 16] s [of "length d" d v, where 'a = 8]
      u [of d "length d", where 'a = 32] u [of d "length d", where 'a = 16] u [of d "length d", where 'a = 8]
      store_data_full [of e m d]
    by (auto simp: integer_type_def value_text_def UpdateValueIfNoObject_def p bytes_of_def)
qed

lemma dec_nonzero: "0 \<notin> set (dec n)" "0 \<notin> set (dec_int v)"
proof -
  have *: "0 \<notin> set (dec n)" for n using dec_digits [of 0 n] by (auto simp: is_digit_def digit_val_def)
  then show "0 \<notin> set (dec n)" "0 \<notin> set (dec_int v)" by (auto simp: dec_int_def)
qed

text \<open>The values the parsers restore: every integer, and the two truth values.\<close>

definition restorable :: "JsonPrimitiveType \<Rightarrow> byte list \<Rightarrow> bool" where
  "restorable ty d \<longleftrightarrow> length d = json_size ty \<and> (integer_type ty \<or> ty = SHADOW_JSON_BOOL \<and> (d = [0] \<or> d = [1]))"

lemma value_text_nonzero:
  assumes "restorable ty d" "value_text fl ty d = Some t"
  shows "0 \<notin> set t"
  using assms by (auto simp: restorable_def integer_type_def value_text_def bytes_of_def dec_nonzero split: if_splits)

lemma bool_read:
  assumes "restorable SHADOW_JSON_BOOL d" "value_text fl SHADOW_JSON_BOOL d = Some t" "type e = SHADOW_JSON_BOOL"
    and "tok_type tok = JSMN_PRIMITIVE" "tok_start tok = int (length pre)" "pData e = Some m" "length m = length d"
  shows "UpdateValueIfNoObject fl (pre @ t) e tok = Some (SUCCESS, e\<lparr>pData := Some d\<rparr>)"
  using assms
  by (auto simp: restorable_def integer_type_def value_text_def load_nat_def load_def UpdateValueIfNoObject_def parseBooleanValue_def
      bytes_of_def byte_at_def store_data_def put_def)

lemma snprintf_success:
  assumes "snprintf mem off sz t = Some (r, mem')" "checkReturnValueOfSnPrintf r sz = SUCCESS"
  shows "length t < sz" "put (t @ [0]) (mem, off) = Some (mem', off + length t + 1)"
  using assms by (auto simp: snprintf_def checkReturnValueOfSnPrintf_def put_def Let_def split: if_splits)

subsection \<open>Properties\<close>

text \<open>A C library without floating point, for concrete inputs.\<close>

definition no_floats :: float_lib where
  "no_floats = \<lparr>print_float = \<lambda>_. [], print_double = \<lambda>_. [], scan_float = \<lambda>_. None, scan_double = \<lambda>_. None\<rparr>"

text \<open>
  C27. A value that \<open>convertDataToString\<close> printed is read back: when a value of an integer or truth
  type has been printed with SUCCESS behind a prefix of the document, \<open>UpdateValueIfNoObject\<close>, run on the
  document with a primitive token at that place, stores exactly the printed bytes in an entry of
  the type.
\<close>

theorem json_value_round_trip:
  assumes d: "restorable (type e) d" "pData e = Some m" "length m = length d"
    and pre: "0 \<notin> set (take off mem)" "off \<le> length mem"
    and conv: "convertDataToString fl mem off sz (type e) d = Some (SUCCESS, mem')"
    and tok: "tok_type tok = JSMN_PRIMITIVE" "tok_start tok = int off"
  shows "\<exists>json. cstr_of mem' = Some json \<and> UpdateValueIfNoObject fl json e tok = Some (SUCCESS, e\<lparr>pData := Some d\<rparr>)"
proof -
  have "type e \<noteq> SHADOW_JSON_OBJECT" using d(1) by (auto simp: restorable_def integer_type_def)
  then obtain t r where t: "value_text fl (type e) d = Some t" "snprintf mem off sz t = Some (r, mem')"
      "checkReturnValueOfSnPrintf r sz = SUCCESS"
    using conv by (auto simp: convertDataToString_def split: if_splits bind_splits)
  have nz: "0 \<notin> set t" using value_text_nonzero [OF d(1) t(1)] .
  have mem': "put (t @ [0]) (mem, off) = Some (mem', off + length t + 1)" using snprintf_success t(2,3) by blast
  then have "holds_text mem' (take off mem @ t)"
    using put_text [of off "take off mem" mem t] pre nz by (auto simp: put_def Let_def split: if_splits)
  moreover have "UpdateValueIfNoObject fl (take off mem @ t) e tok = Some (SUCCESS, e\<lparr>pData := Some d\<rparr>)"
  proof (cases "type e = SHADOW_JSON_BOOL")
    case True
    then show ?thesis using bool_read [of d fl t e tok "take off mem" m] d t(1) tok pre by simp
  next
    case False
    then show ?thesis using value_read [of "type e" d fl t e tok "take off mem" m] d t(1) tok pre by (simp add: restorable_def)
  qed
  ultimately show ?thesis by (auto dest: holds_text_cstr)
qed

lemma json_value_round_trip_witness:
  "\<exists>mem'. convertDataToString no_floats (bytes_of ''{\"t\":..........'') 5 10 SHADOW_JSON_INT16 [0xd6, 0xff] = Some (SUCCESS, mem') \<and>
     (\<exists>json. cstr_of mem' = Some json \<and>
       UpdateValueIfNoObject no_floats json \<lparr>pKey = None, pData = Some [0, 0], type = SHADOW_JSON_INT16, cb = None\<rparr>
         \<lparr>tok_type = JSMN_PRIMITIVE, tok_start = 5, tok_end = 8, tok_size = 0\<rparr> =
       Some (SUCCESS, \<lparr>pKey = None, pData = Some [0xd6, 0xff], type = SHADOW_JSON_INT16, cb = None\<rparr>))"
proof -
  let ?mem = "bytes_of ''{\"t\":..........''"
  have v: "value_text no_floats SHADOW_JSON_INT16 [0xd6, 0xff] = Some (bytes_of ''-42,'')"
    by (simp add: value_text_def load_int_def load_nat_def load_def dec_int_def dec.simps bytes_of_def)
  have "convertDataToString no_floats ?mem 5 10 SHADOW_JSON_INT16 [0xd6, 0xff] =
      Some (SUCCESS, bytes_of ''{\"t\":-42,'' @ 0 # bytes_of ''.....'')"
    by (simp add: convertDataToString_def v snprintf_def put_def checkReturnValueOfSnPrintf_def bytes_of_def)
  moreover have "0 \<notin> set (take 5 ?mem)" "5 \<le> length ?mem" by (simp_all add: bytes_of_def)
  ultimately show ?thesis
    using json_value_round_trip [of "\<lparr>pKey = None, pData = Some [0, 0], type = SHADOW_JSON_INT16, cb = None\<rparr>" "[0xd6, 0xff]" "[0, 0]" 5
        ?mem no_floats 10 _ "\<lparr>tok_type = JSMN_PRIMITIVE, tok_start = 5, tok_end = 8, tok_size = 0\<rparr>"]
    by (auto simp: restorable_def integer_type_def)
qed

text \<open>
  How one entry is added to a document that fills its buffer of \<open>length doc\<close> bytes up to the text \<open>s\<close>:
  when key and value fit with a terminator, the entry is appended and SUCCESS returned; when already the key
  does not fit, the document is cut and SHADOW_JSON_BUFFER_TRUNCATED returned; but when the key fits and
  the value does not, the value is written past the end of the buffer, because its room is computed before
  the key is printed.
\<close>

theorem section_entry_sizes:
  assumes e: "entry_texts fl e k v" and h: "holds_text doc s"
  shows "(length s + length k + length v < length doc \<longrightarrow>
      (\<exists>doc'. section_entry fl doc (length doc - length s) (Some e) = Some (SUCCESS, doc') \<and>
        holds_text doc' (s @ k @ v) \<and> length doc' = length doc)) \<and>
    (length doc \<le> length s + length k \<longrightarrow>
      (\<exists>doc'. section_entry fl doc (length doc - length s) (Some e) = Some (SHADOW_JSON_BUFFER_TRUNCATED, doc') \<and>
        length doc' = length doc)) \<and>
    (length s + length k < length doc \<and> length doc \<le> length s + length k + length v \<longrightarrow>
      section_entry fl doc (length doc - length s) (Some e) = None)"
  using section_entry_fits [OF e h, of "length doc - length s"] section_entry_cut [OF e h] section_entry_overflow [OF e h]
  by auto

lemma section_entry_sizes_witness:
  "section_entry no_floats (bytes_of ''{'' @ 0 # bytes_of ''......'') 7 (Some \<lparr>pKey = Some (bytes_of ''ab''), pData = Some [7], type = SHADOW_JSON_UINT8, cb = None\<rparr>) = None"
proof -
  let ?e = "\<lparr>pKey = Some (bytes_of ''ab''), pData = Some [7], type = SHADOW_JSON_UINT8, cb = None\<rparr>"
  have e: "entry_texts no_floats ?e (bytes_of ''\"ab\":'') (bytes_of ''7,'')"
    by (simp add: entry_texts_def key_text_def value_text_def load_nat_def load_def dec.simps bytes_of_def)
  have h: "holds_text (bytes_of ''{'' @ 0 # bytes_of ''......'') (bytes_of ''{'')"
    by (simp add: holds_text_def bytes_of_def)
  show ?thesis using section_entry_sizes [OF e h] by (simp add: bytes_of_def numeral_eq_Suc)
qed



end
