(* ===== verification/Shadow_Records.thy ===== *)
theory Shadow_Records
  imports Mqtt_World Shadow_Json
begin

text \<open>
  src/aws_iot_shadow_records.c: the bookkeeping of the shadow layer, i.e. the list of requests that wait for
  an acknowledgement, the reference-counted list of acknowledgement topics, the table of delta
  entries, and the two MQTT message handlers. The MQTT operations run on a world that holds these
  variables, so a handler that is called while an operation waits for a packet sees and changes them.
\<close>

definition MAX_SIZE_OF_THING_NAME :: nat where "MAX_SIZE_OF_THING_NAME = 20"
definition MAX_SHADOW_TOPIC_LENGTH_BYTES :: nat where "MAX_SHADOW_TOPIC_LENGTH_BYTES = 60 + MAX_SIZE_OF_THING_NAME"
definition MAX_SIZE_OF_UNIQUE_CLIENT_ID_BYTES :: nat where "MAX_SIZE_OF_UNIQUE_CLIENT_ID_BYTES = 80"
definition MAX_SIZE_CLIENT_ID_WITH_SEQUENCE :: nat where "MAX_SIZE_CLIENT_ID_WITH_SEQUENCE = MAX_SIZE_OF_UNIQUE_CLIENT_ID_BYTES + 10"
definition MAX_SIZE_CLIENT_TOKEN_CLIENT_SEQUENCE :: nat where "MAX_SIZE_CLIENT_TOKEN_CLIENT_SEQUENCE = MAX_SIZE_CLIENT_ID_WITH_SEQUENCE + 20"
definition MAX_ACKS_TO_COMEIN_AT_ANY_GIVEN_TIME :: nat where "MAX_ACKS_TO_COMEIN_AT_ANY_GIVEN_TIME = 10"
definition MAX_TOPICS_AT_ANY_GIVEN_TIME :: nat where "MAX_TOPICS_AT_ANY_GIVEN_TIME = 2 * 10"
definition SHADOW_MAX_SIZE_OF_RX_BUFFER :: nat where "SHADOW_MAX_SIZE_OF_RX_BUFFER = AWS_IOT_MQTT_RX_BUF_LEN + 1"
definition SUBSCRIBE_SETTLING_TIME :: u32 where "SUBSCRIBE_SETTLING_TIME = 2"

lemmas shadow_config = MAX_SIZE_OF_THING_NAME_def MAX_SHADOW_TOPIC_LENGTH_BYTES_def MAX_SIZE_OF_UNIQUE_CLIENT_ID_BYTES_def
  MAX_SIZE_CLIENT_ID_WITH_SEQUENCE_def MAX_SIZE_CLIENT_TOKEN_CLIENT_SEQUENCE_def MAX_ACKS_TO_COMEIN_AT_ANY_GIVEN_TIME_def
  MAX_TOPICS_AT_ANY_GIVEN_TIME_def SHADOW_MAX_SIZE_OF_RX_BUFFER_def SUBSCRIBE_SETTLING_TIME_def

datatype ShadowActions_t = SHADOW_GET | SHADOW_UPDATE | SHADOW_DELETE
datatype Shadow_Ack_Status_t = SHADOW_ACK_TIMEOUT | SHADOW_ACK_REJECTED | SHADOW_ACK_ACCEPTED
datatype ShadowAckTopicTypes_t = SHADOW_ACCEPTED | SHADOW_REJECTED | SHADOW_ACTION

record ToBeReceivedAckRecord_t =
  clientTokenID :: "byte list"
  thingName :: "byte list"
  action :: ShadowActions_t
  callback :: "nat option"
  pCallbackContext :: "nat option"
  ack_isFree :: bool
  timer :: Timer

text \<open>\<open>pStruct\<close> is the address of an application's \<open>jsonStruct_t\<close>, a key of the store \<open>structs\<close> below.\<close>

record JsonTokenTable_t =
  tt_pKey :: "cstring option"
  pStruct :: nat
  tt_callback :: "nat option"
  tt_isFree :: bool

record SubscriptionRecord_t =
  Topic :: "byte list"
  sub_count :: u8
  sub_isFree :: bool
  isSticky :: bool

text \<open>
  The variables of the file, those of aws_iot_shadow_json.c, the application's JSON structs and the
  rest of the world. The SDK's shadow functions are used with one client; \<open>pMqttClient\<close> records whether the
  pointer to it has been set.
\<close>

record 'w Shadow =
  AckWaitList :: "ToBeReceivedAckRecord_t list"
  pMqttClient :: bool
  myThingName :: "byte list"
  shadowDeltaTopic :: "byte list"
  SubscriptionList :: "SubscriptionRecord_t list"
  shadowRxBuf :: "byte list"
  tokenTable :: "JsonTokenTable_t list"
  tokenTableIndex :: u32
  deltaTopicSubscribedFlag :: bool
  shadowJsonVersionNum :: u32
  shadowDiscardOldDeltaFlag :: bool
  json :: shadow_json
  structs :: "nat \<Rightarrow> jsonStruct_t"
  world :: 'w

text \<open>
  The application: its own message handlers, its disconnect handler, the callbacks of shadow actions and those of
  delta entries, and the C library's floating point conversions. A callback may use the SDK, so it
  gets the client and the whole state.
\<close>

record 'w ShadowApp =
  user_handler :: "nat \<Rightarrow> AWS_IoT_Client \<Rightarrow> nat \<Rightarrow> u16 \<Rightarrow> Rx_Message \<Rightarrow> nat option \<Rightarrow> 'w Shadow
                     \<Rightarrow> (AWS_IoT_Client \<times> Rx_Message \<times> 'w Shadow) run"
  user_disc_handler :: "nat \<Rightarrow> AWS_IoT_Client \<Rightarrow> nat option \<Rightarrow> 'w Shadow \<Rightarrow> (AWS_IoT_Client \<times> 'w Shadow) run"
  action_callback :: "nat \<Rightarrow> byte list \<Rightarrow> ShadowActions_t \<Rightarrow> Shadow_Ack_Status_t \<Rightarrow> byte list \<Rightarrow> nat option
                     \<Rightarrow> AWS_IoT_Client \<Rightarrow> 'w Shadow \<Rightarrow> (AWS_IoT_Client \<times> 'w Shadow) run"
  delta_callback :: "nat \<Rightarrow> byte list \<Rightarrow> u32 \<Rightarrow> nat \<Rightarrow> AWS_IoT_Client \<Rightarrow> 'w Shadow \<Rightarrow> (AWS_IoT_Client \<times> 'w Shadow) run"
  floats :: float_lib

text \<open>The addresses of the two message handlers of the file; other handlers are the application's.\<close>

definition ACK_STATUS_CALLBACK :: nat where "ACK_STATUS_CALLBACK = 0"
definition SHADOW_DELTA_CALLBACK :: nat where "SHADOW_DELTA_CALLBACK = 1"

subsection \<open>C strings in memory\<close>

text \<open>\<open>strcmp(a, b) == 0\<close> on two memory areas.\<close>

fun strcmp_eq :: "byte list \<Rightarrow> byte list \<Rightarrow> bool option" where
  "strcmp_eq (x # xs) (y # ys) = (if x \<noteq> y then Some False else if x = 0 then Some True else strcmp_eq xs ys)"
| "strcmp_eq _ _ = None"

text \<open>\<open>strstr(s, t) != NULL\<close>.\<close>

fun starts_with :: "cstring \<Rightarrow> cstring \<Rightarrow> bool" where
  "starts_with s [] = True"
| "starts_with [] (y # ys) = False"
| "starts_with (x # xs) (y # ys) = (x = y \<and> starts_with xs ys)"

fun strstr :: "cstring \<Rightarrow> cstring \<Rightarrow> bool" where
  "strstr [] t = starts_with [] t"
| "strstr (x # xs) t = (starts_with (x # xs) t \<or> strstr xs t)"

subsection \<open>Topics\<close>

fun action_text :: "ShadowActions_t \<Rightarrow> cstring" where
  "action_text SHADOW_GET = bytes_of ''get''"
| "action_text SHADOW_UPDATE = bytes_of ''update''"
| "action_text SHADOW_DELETE = bytes_of ''delete''"

fun ack_text :: "ShadowAckTopicTypes_t \<Rightarrow> cstring" where
  "ack_text SHADOW_ACCEPTED = bytes_of ''/accepted''"
| "ack_text SHADOW_REJECTED = bytes_of ''/rejected''"
| "ack_text SHADOW_ACTION = []"

definition topicNameFromThingAndAction :: "byte list \<Rightarrow> cstring \<Rightarrow> ShadowActions_t \<Rightarrow> ShadowAckTopicTypes_t \<Rightarrow> byte list option" where
  "topicNameFromThingAndAction pTopic pThingName act ackType =
     map_option snd (snprintf pTopic 0 MAX_SHADOW_TOPIC_LENGTH_BYTES
       (bytes_of ''$aws/things/'' @ pThingName @ bytes_of ''/shadow/'' @ action_text act @ ack_text ackType))"

text \<open>The topic in a local array of the caller, and its string.\<close>

definition local_topic :: "'w Env \<Rightarrow> cstring \<Rightarrow> ShadowActions_t \<Rightarrow> ShadowAckTopicTypes_t \<Rightarrow> byte list run" where
  "local_topic E pThingName act ackType =
     of_opt (topicNameFromThingAndAction (replicate MAX_SHADOW_TOPIC_LENGTH_BYTES (uninit_byte E)) pThingName act ackType)"

definition isAckForMyThingName :: "cstring \<Rightarrow> cstring \<Rightarrow> bool" where
  "isAckForMyThingName pTopicName mine \<longleftrightarrow>
     strstr pTopicName mine \<and>
     (strstr pTopicName (bytes_of ''get/accepted'') \<or> strstr pTopicName (bytes_of ''update/accepted'')
      \<or> strstr pTopicName (bytes_of ''delta''))"

subsection \<open>Subscriptions\<close>

text \<open>MQTT calls through the pointer \<open>pMqttClient\<close>, which is NULL before the first successful connect.\<close>

definition mqtt_subscribe :: "'w Shadow Env \<Rightarrow> nat \<Rightarrow> AWS_IoT_Client \<Rightarrow> byte list \<Rightarrow> nat \<Rightarrow> 'w Shadow \<Rightarrow> 'w Shadow outcome" where
  "mqtt_subscribe E n c topic handler s =
     bnd (of_opt (cstr_of topic)) (\<lambda>t.
     if \<not> pMqttClient s then Done (NULL_VALUE_ERROR, c, s)
     else aws_iot_mqtt_subscribe E n c (Some t) (of_nat (length t)) QOS0 (Some handler) None s)"

definition mqtt_unsubscribe :: "'w Shadow Env \<Rightarrow> nat \<Rightarrow> AWS_IoT_Client \<Rightarrow> byte list \<Rightarrow> 'w Shadow \<Rightarrow> 'w Shadow outcome" where
  "mqtt_unsubscribe E n c topic s =
     bnd (of_opt (cstr_of topic)) (\<lambda>t.
     if \<not> pMqttClient s then Done (NULL_VALUE_ERROR, c, s)
     else aws_iot_mqtt_unsubscribe E n c (Some t) (of_nat (length t)) s)"

definition initDeltaTokens :: "'w Shadow \<Rightarrow> 'w Shadow" where
  "initDeltaTokens s = s\<lparr>tokenTable := map (\<lambda>t. t\<lparr>tt_isFree := True\<rparr>) (tokenTable s), tokenTableIndex := 0,
     deltaTopicSubscribedFlag := False\<rparr>"

definition registerJsonTokenOnDelta :: "'w Shadow Env \<Rightarrow> nat \<Rightarrow> AWS_IoT_Client \<Rightarrow> nat \<Rightarrow> 'w Shadow \<Rightarrow> 'w Shadow outcome" where
  "registerJsonTokenOnDelta E n c p s =
     bnd (if \<not> deltaTopicSubscribedFlag s then
            bnd (of_opt (cstr_of (myThingName s))) (\<lambda>mine.
            bnd (of_opt (snprintf (shadowDeltaTopic s) 0 MAX_SHADOW_TOPIC_LENGTH_BYTES
                   (bytes_of ''$aws/things/'' @ mine @ bytes_of ''/shadow/update/delta''))) (\<lambda>(r, topic).
            bnd (mqtt_subscribe E n c topic SHADOW_DELTA_CALLBACK (s\<lparr>shadowDeltaTopic := topic\<rparr>)) (\<lambda>(rc, c, s).
            Done (rc, c, s\<lparr>deltaTopicSubscribedFlag := True\<rparr>))))
          else Done (SUCCESS, c, s)) (\<lambda>(rc, c, s).
     if MAX_JSON_TOKEN_EXPECTED \<le> unat (tokenTableIndex s) then Done (FAILURE, c, s)
     else let i = unat (tokenTableIndex s); e = structs s p in
       Done (rc, c, s\<lparr>tokenTable := (tokenTable s)[i := \<lparr>tt_pKey = pKey e, pStruct = p, tt_callback = cb e, tt_isFree = False\<rparr>],
                      tokenTableIndex := tokenTableIndex s + 1\<rparr>))"

text \<open>The first free entry at or after \<open>i\<close>, which is taken; \<open>None\<close> for \<open>-1\<close>.\<close>

definition free_from :: "('e \<Rightarrow> bool) \<Rightarrow> 'e list \<Rightarrow> nat option" where
  "free_from free xs = (let i = length (takeWhile (\<lambda>e. \<not> free e) xs) in if i < length xs then Some i else None)"

definition getNextFreeIndexOfSubscriptionList :: "'w Shadow \<Rightarrow> nat option \<times> 'w Shadow" where
  "getNextFreeIndexOfSubscriptionList s =
     (case free_from sub_isFree (SubscriptionList s) of
        None \<Rightarrow> (None, s)
      | Some i \<Rightarrow> (Some i, s\<lparr>SubscriptionList := (SubscriptionList s)[i := (SubscriptionList s ! i)\<lparr>sub_isFree := False\<rparr>]\<rparr>))"

text \<open>The loop compares the topic with the entries in use until one is equal.\<close>

primrec find_topic :: "byte list \<Rightarrow> SubscriptionRecord_t list \<Rightarrow> nat \<Rightarrow> nat option option" where
  "find_topic topic [] i = Some None"
| "find_topic topic (e # es) i =
     (if sub_isFree e then find_topic topic es (Suc i)
      else do { q \<leftarrow> strcmp_eq topic (Topic e); if q then Some (Some i) else find_topic topic es (Suc i) })"

definition findIndexOfSubscriptionList :: "'w Shadow \<Rightarrow> byte list \<Rightarrow> nat option option" where
  "findIndexOfSubscriptionList s topic = find_topic topic (SubscriptionList s) 0"

definition upd_sub :: "nat \<Rightarrow> (SubscriptionRecord_t \<Rightarrow> SubscriptionRecord_t) \<Rightarrow> 'w Shadow \<Rightarrow> 'w Shadow" where
  "upd_sub i f s = s\<lparr>SubscriptionList := (SubscriptionList s)[i := f (SubscriptionList s ! i)]\<rparr>"

text \<open>The treatment of one of the two topics.\<close>

definition release_topic :: "'w Shadow Env \<Rightarrow> nat \<Rightarrow> AWS_IoT_Client \<Rightarrow> byte list \<Rightarrow> 'w Shadow \<Rightarrow> (AWS_IoT_Client \<times> 'w Shadow) run" where
  "release_topic E n c topic s =
     bnd (of_opt (findIndexOfSubscriptionList s topic)) (\<lambda>k.
     case k of None \<Rightarrow> Done (c, s)
     | Some i \<Rightarrow>
       if \<not> isSticky (SubscriptionList s ! i) \<and> sub_count (SubscriptionList s ! i) = 1 then
         bnd (mqtt_unsubscribe E n c topic s) (\<lambda>(rc, c, s).
         Done (c, if rc = SUCCESS then upd_sub i (\<lambda>e. e\<lparr>sub_isFree := True\<rparr>) s else s))
       else if 1 < sub_count (SubscriptionList s ! i) then Done (c, upd_sub i (\<lambda>e. e\<lparr>sub_count := sub_count e - 1\<rparr>) s)
       else Done (c, s))"

definition unsubscribeFromAcceptedAndRejected :: "'w Shadow Env \<Rightarrow> nat \<Rightarrow> AWS_IoT_Client \<Rightarrow> nat \<Rightarrow> 'w Shadow \<Rightarrow> (AWS_IoT_Client \<times> 'w Shadow) run" where
  "unsubscribeFromAcceptedAndRejected E n c index s =
     (let a = AckWaitList s ! index in
      bnd (of_opt (cstr_of (thingName a))) (\<lambda>thing.
      bnd (local_topic E thing (action a) SHADOW_ACCEPTED) (\<lambda>accepted.
      bnd (local_topic E thing (action a) SHADOW_REJECTED) (\<lambda>rejected.
      bnd (release_topic E n c accepted s) (\<lambda>(c, s). release_topic E n c rejected s)))))"

definition initializeRecords :: "'w Shadow \<Rightarrow> 'w Shadow" where
  "initializeRecords s = s\<lparr>AckWaitList := map (\<lambda>a. a\<lparr>ack_isFree := True\<rparr>) (AckWaitList s),
     SubscriptionList := map (\<lambda>e. e\<lparr>sub_isFree := True, sub_count := 0, isSticky := False\<rparr>) (SubscriptionList s),
     pMqttClient := True\<rparr>"

text \<open>The loop of \<open>isSubscriptionPresent\<close>, which collects the two flags.\<close>

primrec topics_present :: "byte list \<Rightarrow> byte list \<Rightarrow> SubscriptionRecord_t list \<Rightarrow> bool \<times> bool \<Rightarrow> (bool \<times> bool) option" where
  "topics_present accepted rejected [] f = Some f"
| "topics_present accepted rejected (e # es) f =
     (if sub_isFree e then topics_present accepted rejected es f
      else do {
        qa \<leftarrow> strcmp_eq accepted (Topic e);
        if qa then topics_present accepted rejected es (True, snd f)
        else do {
          qr \<leftarrow> strcmp_eq rejected (Topic e);
          topics_present accepted rejected es (if qr then (fst f, True) else f)
        }
      })"

definition isSubscriptionPresent :: "'w Shadow Env \<Rightarrow> cstring \<Rightarrow> ShadowActions_t \<Rightarrow> 'w Shadow \<Rightarrow> bool run" where
  "isSubscriptionPresent E pThingName act s =
     bnd (local_topic E pThingName act SHADOW_ACCEPTED) (\<lambda>accepted.
     bnd (local_topic E pThingName act SHADOW_REJECTED) (\<lambda>rejected.
     bnd (of_opt (topics_present accepted rejected (SubscriptionList s) (False, False))) (\<lambda>(a, r).
     Done (r \<and> a))))"

text \<open>The busy wait on a timer.\<close>

primrec wait_expired :: "'w Env \<Rightarrow> nat \<Rightarrow> Timer \<Rightarrow> 'w \<Rightarrow> 'w run" where
  "wait_expired E 0 t w = NoFuel"
| "wait_expired E (Suc k) t w = (case timer_expired E t w of (e, w) \<Rightarrow> if e then Done w else wait_expired E k t w)"

text \<open>One of the two subscriptions: the topic is written into entry \<open>i\<close> and subscribed.\<close>

definition subscribe_entry :: "'w Shadow Env \<Rightarrow> nat \<Rightarrow> AWS_IoT_Client \<Rightarrow> cstring \<Rightarrow> ShadowActions_t \<Rightarrow> ShadowAckTopicTypes_t \<Rightarrow> bool \<Rightarrow> nat
     \<Rightarrow> 'w Shadow \<Rightarrow> 'w Shadow outcome" where
  "subscribe_entry E n c pThingName act ackType sticky i s =
     bnd (of_opt (topicNameFromThingAndAction (Topic (SubscriptionList s ! i)) pThingName act ackType)) (\<lambda>topic.
     bnd (mqtt_subscribe E n c topic ACK_STATUS_CALLBACK (upd_sub i (\<lambda>e. e\<lparr>Topic := topic\<rparr>) s)) (\<lambda>(rc, c, s).
     Done (rc, c, if rc = SUCCESS then upd_sub i (\<lambda>e. e\<lparr>sub_count := 1, isSticky := sticky\<rparr>) s else s)))"

text \<open>
  The error path. The index of the accepted topic is \<open>None\<close> for \<open>-1\<close>; then the count of entry \<open>-1\<close> is
  read, a fault.
\<close>

definition clear_entries :: "'w Shadow Env \<Rightarrow> nat \<Rightarrow> AWS_IoT_Client \<Rightarrow> nat option \<Rightarrow> 'w Shadow \<Rightarrow> (AWS_IoT_Client \<times> 'w Shadow) run" where
  "clear_entries E n c ia s =
     (case ia of
        None \<Rightarrow> Fault
      | Some i \<Rightarrow>
          let s = upd_sub i (\<lambda>e. e\<lparr>sub_isFree := True\<rparr>) s in
          if sub_count (SubscriptionList s ! i) = 1 then
            bnd (mqtt_unsubscribe E n c (Topic (SubscriptionList s ! i)) s) (\<lambda>(rc, c, s). Done (c, s))
          else Done (c, s))"

definition subscribeToShadowActionAcks :: "'w Shadow Env \<Rightarrow> nat \<Rightarrow> AWS_IoT_Client \<Rightarrow> cstring \<Rightarrow> ShadowActions_t \<Rightarrow> bool \<Rightarrow> 'w Shadow \<Rightarrow> 'w Shadow outcome" where
  "subscribeToShadowActionAcks E n c pThingName act sticky s =
     (case getNextFreeIndexOfSubscriptionList s of (ia, s) \<Rightarrow>
      case getNextFreeIndexOfSubscriptionList s of (ir, s) \<Rightarrow>
      bnd (case (ia, ir) of
             (Some a, Some r) \<Rightarrow>
               bnd (subscribe_entry E n c pThingName act SHADOW_ACCEPTED sticky a s) (\<lambda>(rc, c, s).
               if rc \<noteq> SUCCESS then Done (rc, True, c, s)
               else bnd (subscribe_entry E n c pThingName act SHADOW_REJECTED sticky r s) (\<lambda>(rc, c, s).
               if rc \<noteq> SUCCESS then Done (rc, True, c, s)
               else case start_sec E SUBSCRIBE_SETTLING_TIME s of (t, s) \<Rightarrow>
                 bnd (wait_expired E n t s) (\<lambda>s. Done (rc, False, c, s))))
           | _ \<Rightarrow> Done (SUCCESS, True, c, s)) (\<lambda>(rc, clearBoth, c, s).
      if clearBoth then bnd (clear_entries E n c ia s) (\<lambda>(c, s). Done (rc, c, s))
      else Done (rc, c, s)))"

primrec count_topics :: "byte list \<Rightarrow> byte list \<Rightarrow> bool \<Rightarrow> SubscriptionRecord_t list \<Rightarrow> SubscriptionRecord_t list option" where
  "count_topics accepted rejected sticky [] = Some []"
| "count_topics accepted rejected sticky (e # es) = do {
     e' \<leftarrow> (if sub_isFree e then Some e
            else do {
              qa \<leftarrow> strcmp_eq accepted (Topic e);
              qr \<leftarrow> (if qa then Some True else strcmp_eq rejected (Topic e));
              Some (if qr then e\<lparr>sub_count := sub_count e + 1, isSticky := sticky\<rparr> else e)
            });
     es' \<leftarrow> count_topics accepted rejected sticky es;
     Some (e' # es')
   }"

definition incrementSubscriptionCnt :: "'w Shadow Env \<Rightarrow> cstring \<Rightarrow> ShadowActions_t \<Rightarrow> bool \<Rightarrow> 'w Shadow \<Rightarrow> 'w Shadow run" where
  "incrementSubscriptionCnt E pThingName act sticky s =
     bnd (local_topic E pThingName act SHADOW_ACCEPTED) (\<lambda>accepted.
     bnd (local_topic E pThingName act SHADOW_REJECTED) (\<lambda>rejected.
     bnd (of_opt (count_topics accepted rejected sticky (SubscriptionList s))) (\<lambda>subs.
     Done (s\<lparr>SubscriptionList := subs\<rparr>))))"

subsection \<open>Requests and their acknowledgements\<close>

text \<open>
  The fields \<open>isRetained\<close>, \<open>isDup\<close> and \<open>id\<close> of the local message struct are not initialised. The document is the memory at
  the caller's pointer.
\<close>

definition publishToShadowAction :: "'w Shadow Env \<Rightarrow> nat \<Rightarrow> AWS_IoT_Client \<Rightarrow> cstring option \<Rightarrow> ShadowActions_t \<Rightarrow> byte list option \<Rightarrow> 'w Shadow
     \<Rightarrow> 'w Shadow outcome" where
  "publishToShadowAction E n c pThingName act doc s =
     (case (pThingName, doc) of
        (Some thing, Some d) \<Rightarrow>
          bnd (local_topic E thing act SHADOW_ACTION) (\<lambda>topic.
          bnd (of_opt (cstr_of d)) (\<lambda>text.
          bnd (of_opt (cstr_of topic)) (\<lambda>t.
          if \<not> pMqttClient s then Done (NULL_VALUE_ERROR, c, s)
          else drop_params (aws_iot_mqtt_publish E n c (Some t) (of_nat (length t))
            (Some \<lparr>pub_qos = QOS0, pub_isRetained = uninit_byte E, pub_isDup = uninit_byte E,
                   pub_id = ucast (uninit_byte E), pub_payload = Some d, pub_payloadLen = of_nat (length text)\<rparr>) s))))
      | _ \<Rightarrow> Done (NULL_VALUE_ERROR, c, s))"

definition getNextFreeIndexOfAckWaitList :: "'w Shadow \<Rightarrow> nat option" where
  "getNextFreeIndexOfAckWaitList s = free_from ack_isFree (AckWaitList s)"

definition addToAckWaitList :: "'w Shadow Env \<Rightarrow> nat \<Rightarrow> cstring \<Rightarrow> ShadowActions_t \<Rightarrow> cstring \<Rightarrow> nat option \<Rightarrow> nat option \<Rightarrow> u32 \<Rightarrow> 'w Shadow \<Rightarrow> 'w Shadow run" where
  "addToAckWaitList E i pThingName act token fn ctx timeout_seconds s =
     (let a = AckWaitList s ! i in
      bnd (of_opt (strncpy (clientTokenID a) 0 token MAX_SIZE_CLIENT_ID_WITH_SEQUENCE)) (\<lambda>tok.
      bnd (of_opt (strncpy (thingName a) 0 pThingName MAX_SIZE_OF_THING_NAME)) (\<lambda>thing.
      case start_sec E timeout_seconds s of (t, s) \<Rightarrow>
      Done (s\<lparr>AckWaitList := (AckWaitList s)[i := \<lparr>clientTokenID = tok, thingName = thing, action = act, callback = fn,
         pCallbackContext = ctx, ack_isFree = False, timer = t\<rparr>]\<rparr>))))"

definition free_ack :: "nat \<Rightarrow> 'w Shadow \<Rightarrow> 'w Shadow" where
  "free_ack i s = s\<lparr>AckWaitList := (AckWaitList s)[i := (AckWaitList s ! i)\<lparr>ack_isFree := True\<rparr>]\<rparr>"

definition call_action_callback :: "'w ShadowApp \<Rightarrow> nat \<Rightarrow> Shadow_Ack_Status_t \<Rightarrow> AWS_IoT_Client \<Rightarrow> 'w Shadow \<Rightarrow> (AWS_IoT_Client \<times> 'w Shadow) run" where
  "call_action_callback A i status c s =
     (let a = AckWaitList s ! i in
      case callback a of
        None \<Rightarrow> Done (c, s)
      | Some f \<Rightarrow> action_callback A f (thingName a) (action a) status (shadowRxBuf s) (pCallbackContext a) c s)"

primrec expired_loop :: "'w Shadow Env \<Rightarrow> 'w ShadowApp \<Rightarrow> nat \<Rightarrow> nat \<Rightarrow> nat \<Rightarrow> AWS_IoT_Client \<Rightarrow> 'w Shadow \<Rightarrow> (AWS_IoT_Client \<times> 'w Shadow) run" where
  "expired_loop E A n 0 i c s = Done (c, s)"
| "expired_loop E A n (Suc k) i c s =
     bnd (if ack_isFree (AckWaitList s ! i) then Done (c, s)
          else case timer_expired E (timer (AckWaitList s ! i)) s of (e, s) \<Rightarrow>
            if \<not> e then Done (c, s)
            else bnd (call_action_callback A i SHADOW_ACK_TIMEOUT c s) (\<lambda>(c, s).
              unsubscribeFromAcceptedAndRejected E n c i (free_ack i s))) (\<lambda>(c, s).
     expired_loop E A n k (Suc i) c s)"

definition HandleExpiredResponseCallbacks :: "'w Shadow Env \<Rightarrow> 'w ShadowApp \<Rightarrow> nat \<Rightarrow> AWS_IoT_Client \<Rightarrow> 'w Shadow \<Rightarrow> (AWS_IoT_Client \<times> 'w Shadow) run" where
  "HandleExpiredResponseCallbacks E A n c s = expired_loop E A n MAX_ACKS_TO_COMEIN_AT_ANY_GIVEN_TIME 0 c s"

subsection \<open>Received messages\<close>

text \<open>The payload copied to \<open>shadowRxBuf\<close> with a terminator; \<open>None\<close> when it is larger than the buffer.\<close>

definition copy_payload :: "AWS_IoT_Client \<Rightarrow> Rx_Message \<Rightarrow> 'w Shadow \<Rightarrow> 'w Shadow option run" where
  "copy_payload c msg s =
     (if SHADOW_MAX_SIZE_OF_RX_BUFFER < unat (rx_payloadLen msg) then Done None
      else bnd (rx_slice c (rx_payload msg) (unat (rx_payloadLen msg))) (\<lambda>bs.
        bnd (of_opt (do { bp \<leftarrow> put bs (shadowRxBuf s, 0); bp \<leftarrow> store 0 bp; Some (fst bp) })) (\<lambda>buf.
        Done (Some (s\<lparr>shadowRxBuf := buf\<rparr>)))))"

text \<open>The entry in use with the given token, from \<open>i\<close> on.\<close>

primrec find_ack :: "byte list \<Rightarrow> ToBeReceivedAckRecord_t list \<Rightarrow> nat \<Rightarrow> nat option option" where
  "find_ack token [] i = Some None"
| "find_ack token (a # as) i =
     (if ack_isFree a then find_ack token as (Suc i)
      else do { q \<leftarrow> strcmp_eq (clientTokenID a) token; if q then Some (Some i) else find_ack token as (Suc i) })"

text \<open>The topic is read in \<open>readBuf\<close> up to the next zero byte.\<close>

definition topic_string :: "AWS_IoT_Client \<Rightarrow> nat \<Rightarrow> cstring run" where
  "topic_string c p = of_opt (cstr_of (drop p (readBuf c)))"

text \<open>A topic that names neither outcome leaves \<open>status\<close> uninitialised: undefined.\<close>

definition AckStatusCallback :: "'w Shadow Env \<Rightarrow> 'w ShadowApp \<Rightarrow> nat \<Rightarrow> AWS_IoT_Client \<Rightarrow> nat \<Rightarrow> Rx_Message \<Rightarrow> 'w Shadow \<Rightarrow> (AWS_IoT_Client \<times> 'w Shadow) run" where
  "AckStatusCallback E A n c topicPos msg s =
     bnd (copy_payload c msg s) (\<lambda>r. case r of None \<Rightarrow> Done (c, s) | Some s \<Rightarrow>
     bnd (of_opt (isJsonValidAndParse (json s) (shadowRxBuf s))) (\<lambda>(ok, cnt, g).
     let s = s\<lparr>json := g\<rparr> in
     if \<not> ok then Done (c, s)
     else bnd (topic_string c topicPos) (\<lambda>topic.
     bnd (of_opt (cstr_of (myThingName s))) (\<lambda>mine.
     bnd (if isAckForMyThingName topic mine
          then bnd (of_opt (extractVersionNumber g (shadowRxBuf s) (the cnt))) (\<lambda>v.
            Done (case v of Some ver \<Rightarrow> if shadowJsonVersionNum s < ver then s\<lparr>shadowJsonVersionNum := ver\<rparr> else s | None \<Rightarrow> s))
          else Done s) (\<lambda>s.
     bnd (of_opt (extractClientToken (json s) (shadowRxBuf s) (replicate MAX_SIZE_CLIENT_TOKEN_CLIENT_SEQUENCE (uninit_byte E)))) (\<lambda>(found, token, g).
     let s = s\<lparr>json := g\<rparr> in
     if \<not> found then Done (c, s)
     else bnd (of_opt (find_ack token (AckWaitList s) 0)) (\<lambda>k.
     case k of
       None \<Rightarrow> Done (c, s)
     | Some i \<Rightarrow>
         bnd (if strstr topic (bytes_of ''accepted'') then Done SHADOW_ACK_ACCEPTED
              else if strstr topic (bytes_of ''rejected'') then Done SHADOW_ACK_REJECTED else Fault) (\<lambda>status.
         bnd (call_action_callback A i status c s) (\<lambda>(c, s).
         bnd (unsubscribeFromAcceptedAndRejected E n c i s) (\<lambda>(c, s).
         Done (c, free_ack i s)))))))))))"

text \<open>The loop over the registered delta entries from \<open>i\<close> on; a callback may register more of them.\<close>

primrec delta_loop :: "'w ShadowApp \<Rightarrow> nat \<Rightarrow> nat \<Rightarrow> int \<Rightarrow> AWS_IoT_Client \<Rightarrow> 'w Shadow \<Rightarrow> (AWS_IoT_Client \<times> 'w Shadow) run" where
  "delta_loop A 0 i cnt c s = NoFuel"
| "delta_loop A (Suc k) i cnt c s =
     (if unat (tokenTableIndex s) \<le> i then Done (c, s)
      else if length (tokenTable s) \<le> i then Fault
      else let t = tokenTable s ! i in
      bnd (if tt_isFree t then Done (c, s)
           else bnd (of_opt (isJsonKeyMatchingAndUpdateValue (floats A) (json s) (shadowRxBuf s) cnt (structs s (pStruct t)))) (\<lambda>(found, e, data).
             case data of
               None \<Rightarrow> Done (c, s)
             | Some (dataLength, dataPosition) \<Rightarrow>
                 let s = s\<lparr>structs := (structs s)(pStruct t := e)\<rparr> in
                 case tt_callback t of
                   None \<Rightarrow> Done (c, s)
                 | Some f \<Rightarrow> delta_callback A f (drop (nat dataPosition) (shadowRxBuf s)) dataLength (pStruct t) c s)) (\<lambda>(c, s).
      delta_loop A k (Suc i) cnt c s))"

definition shadow_delta_callback :: "'w ShadowApp \<Rightarrow> nat \<Rightarrow> AWS_IoT_Client \<Rightarrow> Rx_Message \<Rightarrow> 'w Shadow \<Rightarrow> (AWS_IoT_Client \<times> 'w Shadow) run" where
  "shadow_delta_callback A n c msg s =
     bnd (copy_payload c msg s) (\<lambda>r. case r of None \<Rightarrow> Done (c, s) | Some s \<Rightarrow>
     bnd (of_opt (isJsonValidAndParse (json s) (shadowRxBuf s))) (\<lambda>(ok, cnt, g).
     let s = s\<lparr>json := g\<rparr> in
     if \<not> ok then Done (c, s)
     else bnd (if shadowDiscardOldDeltaFlag s then of_opt (extractVersionNumber g (shadowRxBuf s) (the cnt)) else Done None) (\<lambda>v.
     case v of
       None \<Rightarrow> delta_loop A n 0 (the cnt) c s
     | Some ver \<Rightarrow>
         if shadowJsonVersionNum s < ver then delta_loop A n 0 (the cnt) c (s\<lparr>shadowJsonVersionNum := ver\<rparr>)
         else Done (c, s))))"

text \<open>
  The environment of an MQTT client used through the shadow functions: clock and network act on the
  rest of the world, and the file's two handlers answer their messages. Handlers may run
  inside handlers (a handler waits for UNSUBACK); \<open>d\<close> bounds the depth.
\<close>

definition in_world :: "('w \<Rightarrow> 'a \<times> 'w) \<Rightarrow> 'w Shadow \<Rightarrow> 'a \<times> 'w Shadow" where
  "in_world f s = (case f (world s) of (x, w) \<Rightarrow> (x, s\<lparr>world := w\<rparr>))"

definition run_world :: "('w \<Rightarrow> ('a \<times> 'w) run) \<Rightarrow> 'w Shadow \<Rightarrow> ('a \<times> 'w Shadow) run" where
  "run_world f s = bnd (f (world s)) (\<lambda>(x, w). Done (x, s\<lparr>world := w\<rparr>))"

definition lift_env :: "'w Env \<Rightarrow> 'w ShadowApp \<Rightarrow>
     (nat \<Rightarrow> AWS_IoT_Client \<Rightarrow> nat \<Rightarrow> u16 \<Rightarrow> Rx_Message \<Rightarrow> nat option \<Rightarrow> 'w Shadow \<Rightarrow> (AWS_IoT_Client \<times> Rx_Message \<times> 'w Shadow) run) \<Rightarrow> 'w Shadow Env" where
  "lift_env E A h = \<lparr>
     gettimeofday = in_world (gettimeofday E),
     net_connect = (\<lambda>net p s. bnd (net_connect E net p (world s)) (\<lambda>(rc, net, w). Done (rc, net, s\<lparr>world := w\<rparr>))),
     net_read = (\<lambda>k T s. bnd (net_read E k T (world s)) (\<lambda>(rc, bs, m, w). Done (rc, bs, m, s\<lparr>world := w\<rparr>))),
     net_write = (\<lambda>bs T s. bnd (net_write E bs T (world s)) (\<lambda>(rc, m, w). Done (rc, m, s\<lparr>world := w\<rparr>))),
     net_disconnect = run_world (net_disconnect E),
     net_isConnected = map_option in_world (net_isConnected E),
     net_destroy = run_world (net_destroy E),
     app_handler = h,
     disc_handler = user_disc_handler A,
     uninit_byte = uninit_byte E\<rparr>"

primrec shadow_handler :: "nat \<Rightarrow> 'w Env \<Rightarrow> 'w ShadowApp \<Rightarrow> nat
     \<Rightarrow> nat \<Rightarrow> AWS_IoT_Client \<Rightarrow> nat \<Rightarrow> u16 \<Rightarrow> Rx_Message \<Rightarrow> nat option \<Rightarrow> 'w Shadow \<Rightarrow> (AWS_IoT_Client \<times> Rx_Message \<times> 'w Shadow) run" where
  "shadow_handler 0 E A n f c p len msg d s = NoFuel"
| "shadow_handler (Suc k) E A n f c p len msg d s =
     (if f = ACK_STATUS_CALLBACK then
        bnd (AckStatusCallback (lift_env E A (shadow_handler k E A n)) A n c p msg s) (\<lambda>(c, s). Done (c, msg, s))
      else if f = SHADOW_DELTA_CALLBACK then bnd (shadow_delta_callback A n c msg s) (\<lambda>(c, s). Done (c, msg, s))
      else user_handler A f c p len msg d s)"

definition shadow_env :: "nat \<Rightarrow> 'w Env \<Rightarrow> 'w ShadowApp \<Rightarrow> nat \<Rightarrow> 'w Shadow Env" where
  "shadow_env d E A n = lift_env E A (shadow_handler d E A n)"

end
