(* ===== verification/Shadow.thy ===== *)
theory Shadow
  imports Shadow_Records
begin

text \<open>
  The public interface of the shadow layer: src/aws_iot_shadow_actions.c and src/aws_iot_shadow.c.
\<close>

subsection \<open>Actions\<close>

text \<open>src/aws_iot_shadow_actions.c. The document is the memory at the caller's pointer.\<close>

definition aws_iot_shadow_internal_action :: "'w Shadow Env \<Rightarrow> nat \<Rightarrow> AWS_IoT_Client \<Rightarrow> cstring option \<Rightarrow> ShadowActions_t \<Rightarrow> byte list option
     \<Rightarrow> nat option \<Rightarrow> nat option \<Rightarrow> u32 \<Rightarrow> bool \<Rightarrow> 'w Shadow \<Rightarrow> 'w Shadow outcome" where
  "aws_iot_shadow_internal_action E n c pThingName act doc fn ctx timeout_seconds sticky s =
     (case (pThingName, doc) of
        (Some thing, Some d) \<Rightarrow>
          bnd (of_opt (extractClientToken (json s) d (replicate MAX_SIZE_CLIENT_ID_WITH_SEQUENCE (uninit_byte E)))) (\<lambda>(isClientTokenPresent, token, g).
          let s = s\<lparr>json := g\<rparr>;
              wanted = isClientTokenPresent \<and> fn \<noteq> None;
              index = (if wanted then getNextFreeIndexOfAckWaitList s else None) in
          bnd (if wanted then
                 (if index \<noteq> None then
                    bnd (isSubscriptionPresent E thing act s) (\<lambda>present.
                    if \<not> present then subscribeToShadowActionAcks E n c thing act sticky s
                    else bnd (incrementSubscriptionCnt E thing act sticky s) (\<lambda>s. Done (SUCCESS, c, s)))
                  else Done (FAILURE, c, s))
               else Done (SUCCESS, c, s)) (\<lambda>(rc, c, s).
          bnd (if rc = SUCCESS then publishToShadowAction E n c pThingName act doc s else Done (rc, c, s)) (\<lambda>(rc, c, s).
          case index of
            None \<Rightarrow> Done (rc, c, s)
          | Some i \<Rightarrow>
              if rc = SUCCESS then
                bnd (of_opt (cstr_of token)) (\<lambda>tok.
                bnd (addToAckWaitList E i thing act tok fn ctx timeout_seconds s) (\<lambda>s. Done (rc, c, s)))
              else Done (rc, c, s))))
      | _ \<Rightarrow> Done (NULL_VALUE_ERROR, c, s))"

subsection \<open>The interface\<close>

record ShadowInitParameters_t =
  pHost :: "cstring option"
  sh_port :: u16
  pRootCA :: "cstring option"
  pClientCRT :: "cstring option"
  pClientKey :: "cstring option"
  sh_enableAutoReconnect :: bool
  sh_disconnectHandler :: "nat option"

record ShadowConnectParameters_t =
  pMyThingName :: "cstring option"
  pMqttClientId :: "cstring option"
  mqttClientIdLen :: u16
  deleteActionHandler :: "nat option"

text \<open>A call on a client pointer; \<open>None\<close> is NULL, which the functions refuse.\<close>

definition on_client :: "AWS_IoT_Client option \<Rightarrow> 'w \<Rightarrow> (AWS_IoT_Client \<Rightarrow> 'w outcome) \<Rightarrow> (IoT_Error_t \<times> AWS_IoT_Client option \<times> 'w) run" where
  "on_client p s f = (case p of
      None \<Rightarrow> Done (NULL_VALUE_ERROR, None, s)
    | Some c \<Rightarrow> bnd (f c) (\<lambda>(rc, c, s). Done (rc, Some c, s)))"

type_synonym 'w shadow_outcome = "(IoT_Error_t \<times> AWS_IoT_Client option \<times> 'w Shadow) run"

definition aws_iot_shadow_reset_last_received_version :: "'w Shadow \<Rightarrow> 'w Shadow" where
  "aws_iot_shadow_reset_last_received_version s = s\<lparr>shadowJsonVersionNum := 0\<rparr>"

definition aws_iot_shadow_get_last_received_version :: "'w Shadow \<Rightarrow> u32" where
  "aws_iot_shadow_get_last_received_version s = shadowJsonVersionNum s"

definition aws_iot_shadow_enable_discard_old_delta_msgs :: "'w Shadow \<Rightarrow> 'w Shadow" where
  "aws_iot_shadow_enable_discard_old_delta_msgs s = s\<lparr>shadowDiscardOldDeltaFlag := True\<rparr>"

definition aws_iot_shadow_disable_discard_old_delta_msgs :: "'w Shadow \<Rightarrow> 'w Shadow" where
  "aws_iot_shadow_disable_discard_old_delta_msgs s = s\<lparr>shadowDiscardOldDeltaFlag := False\<rparr>"

text \<open>\<open>disconnectHandlerData\<close> of the local struct is not initialised: \<open>junk\<close>.\<close>

definition aws_iot_shadow_init :: "nat option \<Rightarrow> AWS_IoT_Client option \<Rightarrow> ShadowInitParameters_t option \<Rightarrow> 'w Shadow \<Rightarrow> 'w shadow_outcome" where
  "aws_iot_shadow_init junk pClient pParams s =
     on_client pClient s (\<lambda>c. case pParams of
        None \<Rightarrow> Done (NULL_VALUE_ERROR, c, s)
      | Some p \<Rightarrow>
          (case aws_iot_mqtt_init c (Some \<lparr>enableAutoReconnect = sh_enableAutoReconnect p, pHostURL = pHost p, port = sh_port p,
              pRootCALocation = pRootCA p, pDeviceCertLocation = pClientCRT p, pDevicePrivateKeyLocation = pClientKey p,
              mqttCommandTimeout_ms = 20000, tlsHandshakeTimeout_ms = 5000, isSSLHostnameVerify = True,
              init_disconnectHandler = sh_disconnectHandler p, init_disconnectHandlerData = junk\<rparr>) of (rc, c) \<Rightarrow>
           if rc \<noteq> SUCCESS then Done (rc, c, s)
           else Done (SUCCESS, c,
             initDeltaTokens (aws_iot_shadow_reset_last_received_version (s\<lparr>json := resetClientTokenSequenceNum (json s)\<rparr>)))))"

text \<open>The address of \<open>myThingName\<close>, as handler data.\<close>

definition MY_THING_NAME :: nat where "MY_THING_NAME = 0"

text \<open>
  A NULL thing name is undefined. The topic of the delete handler is a local array of the function;
  the handler table keeps its text here, while the code keeps a pointer to the array.
\<close>

definition aws_iot_shadow_connect :: "'w Shadow Env \<Rightarrow> nat \<Rightarrow> AWS_IoT_Client option \<Rightarrow> ShadowConnectParameters_t option \<Rightarrow> 'w Shadow \<Rightarrow> 'w shadow_outcome" where
  "aws_iot_shadow_connect E n pClient pParams s =
     on_client pClient s (\<lambda>c. case pParams of
        None \<Rightarrow> Done (NULL_VALUE_ERROR, c, s)
      | Some p \<Rightarrow> (case pMqttClientId p of None \<Rightarrow> Done (NULL_VALUE_ERROR, c, s)
      | Some cid \<Rightarrow> (case pMyThingName p of None \<Rightarrow> Fault
      | Some thing \<Rightarrow>
          bnd (of_opt (snprintf (myThingName s) 0 MAX_SIZE_OF_THING_NAME thing)) (\<lambda>(r, nm).
          bnd (of_opt (snprintf (mqttClientID (json s)) 0 MAX_SIZE_OF_UNIQUE_CLIENT_ID_BYTES cid)) (\<lambda>(r, idm).
          let s = s\<lparr>myThingName := nm, json := (json s)\<lparr>mqttClientID := idm\<rparr>\<rparr> in
          bnd (aws_iot_mqtt_connect E n c (Some (iotClientConnectParamsDefault\<lparr>keepAliveIntervalInSec := 10,
                 MQTTVersion := MQTT_3_1_1, isCleanSession := True, isWillMsgPresent := False, pClientID := Some cid,
                 clientIDLen := mqttClientIdLen p, pPassword := None, pUsername := None\<rparr>)) s) (\<lambda>(rc, c, s).
          let s = (if rc = SUCCESS then initializeRecords s else s) in
          case deleteActionHandler p of
            None \<Rightarrow> Done (rc, c, s)
          | Some h \<Rightarrow>
              bnd (of_opt (cstr_of (myThingName s))) (\<lambda>mine.
              bnd (of_opt (snprintf (replicate MAX_SHADOW_TOPIC_LENGTH_BYTES (uninit_byte E)) 0 MAX_SHADOW_TOPIC_LENGTH_BYTES
                     (bytes_of ''$aws/things/'' @ mine @ bytes_of ''/shadow/delete/accepted''))) (\<lambda>(r, topic).
              bnd (of_opt (cstr_of topic)) (\<lambda>t.
              aws_iot_mqtt_subscribe E n c (Some t) (of_nat (length t)) QOS1 (Some h) (Some MY_THING_NAME) s)))))))))"

definition aws_iot_shadow_register_delta :: "'w Shadow Env \<Rightarrow> nat \<Rightarrow> AWS_IoT_Client option \<Rightarrow> nat option \<Rightarrow> 'w Shadow \<Rightarrow> 'w shadow_outcome" where
  "aws_iot_shadow_register_delta E n pClient p s =
     on_client pClient s (\<lambda>c. case p of
        None \<Rightarrow> Done (NULL_VALUE_ERROR, c, s)
      | Some p \<Rightarrow> if \<not> aws_iot_mqtt_is_client_connected c then Done (MQTT_CONNECTION_ERROR, c, s)
                  else registerJsonTokenOnDelta E n c p s)"

definition aws_iot_shadow_yield :: "'w Shadow Env \<Rightarrow> 'w ShadowApp \<Rightarrow> nat \<Rightarrow> AWS_IoT_Client option \<Rightarrow> u32 \<Rightarrow> 'w Shadow \<Rightarrow> 'w shadow_outcome" where
  "aws_iot_shadow_yield E A n pClient timeout s =
     on_client pClient s (\<lambda>c. bnd (HandleExpiredResponseCallbacks E A n c s) (\<lambda>(c, s). aws_iot_mqtt_yield E n c timeout s))"

definition aws_iot_shadow_disconnect :: "'w Shadow Env \<Rightarrow> nat \<Rightarrow> AWS_IoT_Client option \<Rightarrow> 'w Shadow \<Rightarrow> 'w shadow_outcome" where
  "aws_iot_shadow_disconnect E n pClient s = on_client pClient s (\<lambda>c. aws_iot_mqtt_disconnect E n c s)"

definition aws_iot_shadow_update :: "'w Shadow Env \<Rightarrow> nat \<Rightarrow> AWS_IoT_Client option \<Rightarrow> cstring option \<Rightarrow> byte list option \<Rightarrow> nat option \<Rightarrow> nat option \<Rightarrow> u8 \<Rightarrow> bool
     \<Rightarrow> 'w Shadow \<Rightarrow> 'w shadow_outcome" where
  "aws_iot_shadow_update E n pClient pThingName doc fn ctx timeout_seconds sticky s =
     on_client pClient s (\<lambda>c.
       if \<not> aws_iot_mqtt_is_client_connected c then Done (MQTT_CONNECTION_ERROR, c, s)
       else aws_iot_shadow_internal_action E n c pThingName SHADOW_UPDATE doc fn ctx (ucast timeout_seconds) sticky s)"

text \<open>The request document is written to a local array.\<close>

definition request_buffer :: "'w Shadow Env \<Rightarrow> byte list" where
  "request_buffer E = replicate MAX_SIZE_CLIENT_TOKEN_CLIENT_SEQUENCE (uninit_byte E)"

definition aws_iot_shadow_delete :: "'w Shadow Env \<Rightarrow> nat \<Rightarrow> AWS_IoT_Client option \<Rightarrow> cstring option \<Rightarrow> nat option \<Rightarrow> nat option \<Rightarrow> u8 \<Rightarrow> bool
     \<Rightarrow> 'w Shadow \<Rightarrow> 'w shadow_outcome" where
  "aws_iot_shadow_delete E n pClient pThingName fn ctx timeout_seconds sticky s =
     on_client pClient s (\<lambda>c.
       if \<not> aws_iot_mqtt_is_client_connected c then Done (MQTT_CONNECTION_ERROR, c, s)
       else bnd (of_opt (aws_iot_shadow_internal_delete_request_json (json s) (request_buffer E))) (\<lambda>(doc, g).
         aws_iot_shadow_internal_action E n c pThingName SHADOW_DELETE (Some doc) fn ctx (ucast timeout_seconds) sticky (s\<lparr>json := g\<rparr>)))"

definition aws_iot_shadow_get :: "'w Shadow Env \<Rightarrow> nat \<Rightarrow> AWS_IoT_Client option \<Rightarrow> cstring option \<Rightarrow> nat option \<Rightarrow> nat option \<Rightarrow> u8 \<Rightarrow> bool
     \<Rightarrow> 'w Shadow \<Rightarrow> 'w shadow_outcome" where
  "aws_iot_shadow_get E n pClient pThingName fn ctx timeout_seconds sticky s =
     on_client pClient s (\<lambda>c.
       if \<not> aws_iot_mqtt_is_client_connected c then Done (MQTT_CONNECTION_ERROR, c, s)
       else bnd (of_opt (aws_iot_shadow_internal_get_request_json (json s) (request_buffer E))) (\<lambda>(doc, g).
         aws_iot_shadow_internal_action E n c pThingName SHADOW_GET (Some doc) fn ctx (ucast timeout_seconds) sticky (s\<lparr>json := g\<rparr>)))"

definition aws_iot_shadow_set_autoreconnect_status :: "AWS_IoT_Client option \<Rightarrow> bool \<Rightarrow> 'w Shadow \<Rightarrow> 'w shadow_outcome" where
  "aws_iot_shadow_set_autoreconnect_status pClient newStatus s =
     on_client pClient s (\<lambda>c. case aws_iot_mqtt_autoreconnect_set_status c newStatus of (rc, c) \<Rightarrow> Done (rc, c, s))"

end
