(* ===== verification/Shadow_Invariant.thy ===== *)
theory Shadow_Invariant
  imports Shadow
begin

text \<open>
  The invariant of the shadow layer and its preservation. The locale \<open>shadow_context\<close> extends
  \<open>world_invariant\<close> by the application's callbacks; every routine of the layer keeps the invariant in it. It
  is interpreted on the environment \<open>shadow_env\<close>, by induction on the depth to which handlers
  nest, and the invariant is carried to all sequences of calls by rule induction.
\<close>

subsection \<open>Sizes of the arrays the JSON routines write\<close>

lemma jsmn_step_length:
  assumes "jsmn_step js len (P, Some toks) n c = Some (Inr ((P', t), n'))"
  shows "\<exists>toks'. t = Some toks' \<and> length toks' = length toks"
  using assms
  by (auto simp: jsmn_step_def jsmn_open_def jsmn_close_def jsmn_alloc_token_def jsmn_parse_string_def jsmn_parse_primitive_def
      jsmn_emit_def grow_super_def Let_def split: if_splits option.splits sum.splits elim!: bind_SomeE)

lemma jsmn_step_error_length:
  assumes "jsmn_step js len (P, Some toks) n c = Some (Inl (e, P', t))"
  shows "\<exists>toks'. t = Some toks' \<and> length toks' = length toks"
  using assms
  by (auto simp: jsmn_step_def jsmn_open_def jsmn_close_def jsmn_alloc_token_def jsmn_parse_string_def jsmn_parse_primitive_def
      jsmn_emit_def grow_super_def Let_def split: if_splits option.splits sum.splits elim!: bind_SomeE)

lemma jsmn_loop_length:
  assumes "jsmn_parse_loop js len P (Some toks) n = Some r"
  shows "\<exists>toks'. length toks' = length toks \<and> (case r of Inl (e, P', t) \<Rightarrow> t = Some toks' | Inr ((P', t), n') \<Rightarrow> t = Some toks')"
  using assms
proof (induction js len P "Some toks" n arbitrary: toks rule: jsmn_parse_loop.induct)
  case (1 js len P n)
  from "1.prems" consider "\<not> pos P < len" "r = Inr ((P, Some toks), n)"
    | "byte_at js (pos P) = Some 0" "r = Inr ((P, Some toks), n)"
    | c e P' t where "pos P < len" "byte_at js (pos P) = Some c" "c \<noteq> 0" "jsmn_step js len (P, Some toks) n c = Some (Inl (e, P', t))" "r = Inl (e, P', t)"
    | c P' t n' where "pos P < len" "byte_at js (pos P) = Some c" "c \<noteq> 0" "jsmn_step js len (P, Some toks) n c = Some (Inr ((P', t), n'))"
        "jsmn_parse_loop js len (P'\<lparr>pos := Suc (pos P')\<rparr>) t n' = Some r"
    by (subst (asm) jsmn_parse_loop.simps) (auto split: if_splits sum.splits elim!: bind_SomeE)
  then show ?case
  proof cases
    case (3 c e P' t)
    then show ?thesis using jsmn_step_error_length by fastforce
  next
    case (4 c P' t n')
    then obtain toks1 where t: "t = Some toks1" "length toks1 = length toks" using jsmn_step_length by blast
    show ?thesis using "1.hyps" [OF 4(1,2,3,4) refl refl, of P' toks1] 4(5) t by auto
  qed auto
qed

lemma jsmn_parse_length:
  assumes "jsmn_parse P js len (Some toks) = Some (r, P', t)"
  shows "\<exists>toks'. t = Some toks' \<and> length toks' = length toks"
  using assms jsmn_loop_length [of js len P toks 0]
  by (fastforce simp: jsmn_parse_def split: sum.splits prod.splits if_splits elim!: bind_SomeE)

subsection \<open>The invariant\<close>

text \<open>
  Every array has its declared size, the topics of the subscription list are terminated, and so are
  the tokens of the requests that wait; the delta entries in use are the first \<open>tokenTableIndex\<close> ones.
\<close>

definition wf_ack :: "ToBeReceivedAckRecord_t \<Rightarrow> bool" where
  "wf_ack a \<longleftrightarrow> length (clientTokenID a) = MAX_SIZE_CLIENT_ID_WITH_SEQUENCE \<and> length (thingName a) = MAX_SIZE_OF_THING_NAME \<and>
     (\<not> ack_isFree a \<longrightarrow> 0 \<in> set (clientTokenID a))"

definition wf_sub :: "SubscriptionRecord_t \<Rightarrow> bool" where
  "wf_sub e \<longleftrightarrow> length (Topic e) = MAX_SHADOW_TOPIC_LENGTH_BYTES \<and> 0 \<in> set (Topic e)"

definition wf_json :: "shadow_json \<Rightarrow> bool" where
  "wf_json g \<longleftrightarrow> length (jsonTokenStruct g) = MAX_JSON_TOKEN_EXPECTED \<and> length (mqttClientID g) = MAX_SIZE_OF_UNIQUE_CLIENT_ID_BYTES"

definition wf_shadow :: "'w Shadow \<Rightarrow> bool" where
  "wf_shadow s \<longleftrightarrow>
     length (AckWaitList s) = MAX_ACKS_TO_COMEIN_AT_ANY_GIVEN_TIME \<and> list_all wf_ack (AckWaitList s) \<and>
     length (SubscriptionList s) = MAX_TOPICS_AT_ANY_GIVEN_TIME \<and> list_all wf_sub (SubscriptionList s) \<and>
     length (shadowRxBuf s) = SHADOW_MAX_SIZE_OF_RX_BUFFER \<and>
     length (tokenTable s) = MAX_JSON_TOKEN_EXPECTED \<and> unat (tokenTableIndex s) \<le> MAX_JSON_TOKEN_EXPECTED \<and>
     (\<forall>i < unat (tokenTableIndex s). \<not> tt_isFree (tokenTable s ! i)) \<and>
     length (myThingName s) = MAX_SIZE_OF_THING_NAME \<and> length (shadowDeltaTopic s) = MAX_SHADOW_TOPIC_LENGTH_BYTES \<and>
     wf_json (json s)"

text \<open>The invariant with a lower bound for the version number.\<close>

definition shadow_ok :: "u32 \<Rightarrow> 'w Shadow \<Rightarrow> bool" where
  "shadow_ok v s \<longleftrightarrow> wf_shadow s \<and> v \<le> shadowJsonVersionNum s"

lemma snprintf_keeps:
  "snprintf mem off sz t = Some (r, mem') \<Longrightarrow> length mem' = length mem \<and> (0 < sz \<longrightarrow> 0 \<in> set mem')"
  by (auto simp: snprintf_def put_def Let_def split: if_splits)

lemma sprintf_keeps: "sprintf mem off t = Some mem' \<Longrightarrow> length mem' = length mem"
  by (auto simp: sprintf_def put_def Let_def split: if_splits)

lemma strncpy_keeps: "strncpy mem 0 src n = Some mem' \<Longrightarrow> length mem' = length mem \<and> (length src < n \<longrightarrow> 0 \<in> set mem')"
  by (auto simp: strncpy_def put_def Let_def split: if_splits)

lemma topic_keeps:
  "topicNameFromThingAndAction buf thing act ack = Some t \<Longrightarrow> length t = length buf \<and> 0 \<in> set t"
  using snprintf_keeps by (fastforce simp: topicNameFromThingAndAction_def shadow_config)

lemma cstr_of_length: "cstr_of mem = Some t \<Longrightarrow> length t < length mem"
proof -
  assume a: "cstr_of mem = Some t"
  then have t: "t = takeWhile (\<lambda>c. c \<noteq> 0) mem" "0 \<in> set mem" by (auto simp: cstr_of_def split: if_splits)
  then have "length (takeWhile (\<lambda>c. c \<noteq> 0) mem) \<noteq> length mem"
    by (metis (mono_tags, lifting) length_takeWhile_le set_takeWhileD take_all takeWhile_eq_take order_refl)
  then show ?thesis using t length_takeWhile_le [of "\<lambda>c. c \<noteq> 0" mem] by simp
qed

lemma parse_document_keeps: "parse_document g doc = Some (n, g') \<Longrightarrow> wf_json g \<Longrightarrow> wf_json g'"
  using jsmn_parse_length by (fastforce simp: parse_document_def wf_json_def elim!: bind_SomeE)

lemma isJsonValid_keeps: "isJsonValidAndParse g doc = Some (ok, cnt, g') \<Longrightarrow> wf_json g \<Longrightarrow> wf_json g'"
  using parse_document_keeps by (fastforce simp: isJsonValidAndParse_def split: if_splits elim!: bind_SomeE)

lemma extractClientToken_keeps:
  "extractClientToken g doc out = Some (ok, out', g') \<Longrightarrow> wf_json g \<Longrightarrow> wf_json g' \<and> length out' = length out"
  using parse_document_keeps
  by (fastforce simp: extractClientToken_def strncpy_def store_put Let_def split: if_splits option.splits dest!: put_SomeD
      elim!: bind_SomeE)

lemma request_json_keeps: "emptyJsonWithClientToken g buf = Some (doc, g') \<Longrightarrow> wf_json g \<Longrightarrow> wf_json g'"
  by (auto simp: emptyJsonWithClientToken_def FillWithClientToken_def wf_json_def elim!: bind_SomeE)

subsection \<open>Updates that keep the invariant\<close>

lemma ok_updates [simp]:
  "shadow_ok v (s\<lparr>world := w\<rparr>) = shadow_ok v s"
  "shadow_ok v (s\<lparr>structs := x\<rparr>) = shadow_ok v s"
  "shadow_ok v (s\<lparr>pMqttClient := b\<rparr>) = shadow_ok v s"
  "shadow_ok v (s\<lparr>deltaTopicSubscribedFlag := b\<rparr>) = shadow_ok v s"
  "shadow_ok v (s\<lparr>shadowDiscardOldDeltaFlag := b\<rparr>) = shadow_ok v s"
  by (simp_all add: shadow_ok_def wf_shadow_def)

lemma ok_json: "shadow_ok v s \<Longrightarrow> wf_json g \<Longrightarrow> shadow_ok v (s\<lparr>json := g\<rparr>)"
  and ok_rx: "shadow_ok v s \<Longrightarrow> length b = length (shadowRxBuf s) \<Longrightarrow> shadow_ok v (s\<lparr>shadowRxBuf := b\<rparr>)"
  and ok_delta_topic: "shadow_ok v s \<Longrightarrow> length t = length (shadowDeltaTopic s) \<Longrightarrow> shadow_ok v (s\<lparr>shadowDeltaTopic := t\<rparr>)"
  and ok_version: "shadow_ok v s \<Longrightarrow> shadowJsonVersionNum s < u \<Longrightarrow> shadow_ok v (s\<lparr>shadowJsonVersionNum := u\<rparr>)"
  and ok_wf_json: "shadow_ok v s \<Longrightarrow> wf_json (json s)"
  by (auto simp: shadow_ok_def wf_shadow_def)

lemma ok_upd_sub: "shadow_ok v s \<Longrightarrow> (\<And>e. wf_sub e \<Longrightarrow> wf_sub (f e)) \<Longrightarrow> shadow_ok v (upd_sub i f s)"
  by (auto simp: shadow_ok_def wf_shadow_def upd_sub_def intro!: list_all_update dest: list_all_nth)

lemma ok_free_ack: "shadow_ok v s \<Longrightarrow> shadow_ok v (free_ack i s)"
  by (auto simp: shadow_ok_def wf_shadow_def free_ack_def intro!: list_all_update) (auto dest: list_all_nth simp: wf_ack_def)

lemma ok_next_free: "shadow_ok v s \<Longrightarrow> getNextFreeIndexOfSubscriptionList s = (k, s') \<Longrightarrow> shadow_ok v s'"
  using ok_upd_sub [of v s "\<lambda>e. e\<lparr>sub_isFree := False\<rparr>"]
  by (auto simp: getNextFreeIndexOfSubscriptionList_def upd_sub_def wf_sub_def split: option.splits)

lemma ok_initialize: "shadow_ok v s \<Longrightarrow> shadow_ok v (initializeRecords s)"
  by (auto simp: shadow_ok_def wf_shadow_def initializeRecords_def list_all_iff wf_ack_def wf_sub_def)

lemma count_topics_keeps: "count_topics a r st es = Some es' \<Longrightarrow> list_all wf_sub es \<Longrightarrow> list_all wf_sub es' \<and> length es' = length es"
  by (induction es arbitrary: es') (auto simp: wf_sub_def split: if_splits elim!: bind_SomeE)

lemma ok_count:
  "shadow_ok v s \<Longrightarrow> count_topics a r st (SubscriptionList s) = Some es \<Longrightarrow> shadow_ok v (s\<lparr>SubscriptionList := es\<rparr>)"
  using count_topics_keeps by (fastforce simp: shadow_ok_def wf_shadow_def)

lemma ok_add_ack:
  "shadow_ok v s \<Longrightarrow> length (clientTokenID a) = MAX_SIZE_CLIENT_ID_WITH_SEQUENCE \<Longrightarrow> length (thingName a) = MAX_SIZE_OF_THING_NAME \<Longrightarrow>
   0 \<in> set (clientTokenID a) \<Longrightarrow> shadow_ok v (s\<lparr>AckWaitList := (AckWaitList s)[i := a]\<rparr>)"
  by (auto simp: shadow_ok_def wf_shadow_def wf_ack_def intro!: list_all_update)

lemma ok_register:
  assumes "shadow_ok v s" "unat (tokenTableIndex s) < MAX_JSON_TOKEN_EXPECTED" "\<not> tt_isFree t"
  shows "shadow_ok v (s\<lparr>tokenTable := (tokenTable s)[unat (tokenTableIndex s) := t], tokenTableIndex := tokenTableIndex s + 1\<rparr>)"
proof -
  have "unat (tokenTableIndex s + 1) = Suc (unat (tokenTableIndex s))"
    using assms(2) by (simp add: MAX_JSON_TOKEN_EXPECTED_def unat_word_ariths)
  then show ?thesis
    using assms by (auto simp: shadow_ok_def wf_shadow_def nth_list_update less_Suc_eq)
qed

text \<open>The invariant under a premise on the application.\<close>

definition kept :: "bool \<Rightarrow> u32 \<Rightarrow> 'w Shadow \<Rightarrow> bool" where
  "kept P v s \<longleftrightarrow> (P \<longrightarrow> shadow_ok v s)"

lemma kept_simps [simp]:
  "kept P v (s\<lparr>world := w\<rparr>) = kept P v s"
  "kept P v (s\<lparr>structs := x\<rparr>) = kept P v s"
  "kept P v (s\<lparr>pMqttClient := b\<rparr>) = kept P v s"
  "kept P v (s\<lparr>deltaTopicSubscribedFlag := b\<rparr>) = kept P v s"
  "kept P v (s\<lparr>shadowDiscardOldDeltaFlag := b\<rparr>) = kept P v s"
  by (simp_all add: kept_def)

lemma kept_json: "kept P v s \<Longrightarrow> (wf_json (json s) \<Longrightarrow> wf_json g) \<Longrightarrow> kept P v (s\<lparr>json := g\<rparr>)"
  and kept_rx: "kept P v s \<Longrightarrow> length b = length (shadowRxBuf s) \<Longrightarrow> kept P v (s\<lparr>shadowRxBuf := b\<rparr>)"
  and kept_delta_topic: "kept P v s \<Longrightarrow> length t = length (shadowDeltaTopic s) \<Longrightarrow> kept P v (s\<lparr>shadowDeltaTopic := t\<rparr>)"
  and kept_version: "kept P v s \<Longrightarrow> shadowJsonVersionNum s < u \<Longrightarrow> kept P v (s\<lparr>shadowJsonVersionNum := u\<rparr>)"
  and kept_free_ack: "kept P v s \<Longrightarrow> kept P v (free_ack i s)"
  and kept_initialize: "kept P v s \<Longrightarrow> kept P v (initializeRecords s)"
  and kept_count: "kept P v s \<Longrightarrow> count_topics a r st (SubscriptionList s) = Some es \<Longrightarrow> kept P v (s\<lparr>SubscriptionList := es\<rparr>)"
  and kept_register: "kept P v s \<Longrightarrow> unat (tokenTableIndex s) < MAX_JSON_TOKEN_EXPECTED \<Longrightarrow> \<not> tt_isFree e \<Longrightarrow>
    kept P v (s\<lparr>tokenTable := (tokenTable s)[unat (tokenTableIndex s) := e], tokenTableIndex := tokenTableIndex s + 1\<rparr>)"
  and kept_next_free: "kept P v s \<Longrightarrow> getNextFreeIndexOfSubscriptionList s = (k, s') \<Longrightarrow> kept P v s'"
  by (auto simp: kept_def intro: ok_json ok_wf_json ok_rx ok_delta_topic ok_version ok_free_ack ok_initialize ok_count ok_register ok_next_free)

lemma kept_upd_sub: "kept P v s \<Longrightarrow> (\<And>e. wf_sub e \<Longrightarrow> wf_sub (f e)) \<Longrightarrow> kept P v (upd_sub i f s)"
  by (auto simp: kept_def intro: ok_upd_sub)

lemma kept_topic:
  assumes k: "kept P v s" and t: "topicNameFromThingAndAction (Topic (SubscriptionList s ! i)) th act ack = Some t"
  shows "kept P v (upd_sub i (\<lambda>e. e\<lparr>Topic := t\<rparr>) s)"
  unfolding kept_def
proof
  assume P
  then have ok: "shadow_ok v s" using k by (simp add: kept_def)
  show "shadow_ok v (upd_sub i (\<lambda>e. e\<lparr>Topic := t\<rparr>) s)"
  proof (cases "i < length (SubscriptionList s)")
    case True
    then have "wf_sub (SubscriptionList s ! i)" using ok by (auto simp: shadow_ok_def wf_shadow_def dest: list_all_nth)
    with topic_keeps [OF t] show ?thesis by (intro ok_upd_sub [OF ok]) (simp add: wf_sub_def)
  qed (use ok in \<open>simp add: upd_sub_def list_update_beyond\<close>)
qed

lemma kept_register_flag: "kept P v s \<Longrightarrow> unat (tokenTableIndex s) < MAX_JSON_TOKEN_EXPECTED \<Longrightarrow> \<not> tt_isFree e \<Longrightarrow>
    kept P v (s\<lparr>deltaTopicSubscribedFlag := b, tokenTable := (tokenTable s)[unat (tokenTableIndex s) := e], tokenTableIndex := tokenTableIndex s + 1\<rparr>)"
  using kept_register [of P v "s\<lparr>deltaTopicSubscribedFlag := b\<rparr>" e] by simp

lemma kept_add_ack:
  assumes k: "kept P v s" "kept P v s'" and i: "i < MAX_ACKS_TO_COMEIN_AT_ANY_GIVEN_TIME"
    and t: "strncpy (clientTokenID (AckWaitList s ! i)) 0 tok MAX_SIZE_CLIENT_ID_WITH_SEQUENCE = Some ct"
      "length tok < MAX_SIZE_CLIENT_ID_WITH_SEQUENCE"
    and n: "strncpy (thingName (AckWaitList s ! i)) 0 th MAX_SIZE_OF_THING_NAME = Some tn"
    and b: "clientTokenID b = ct" "thingName b = tn"
  shows "kept P v (s'\<lparr>AckWaitList := (AckWaitList s')[i := b]\<rparr>)"
  unfolding kept_def
proof
  assume P
  then have ok: "shadow_ok v s" "shadow_ok v s'" using k by (simp_all add: kept_def)
  then have "wf_ack (AckWaitList s ! i)" using i by (auto simp: shadow_ok_def wf_shadow_def dest: list_all_nth)
  then show "shadow_ok v (s'\<lparr>AckWaitList := (AckWaitList s')[i := b]\<rparr>)"
    using strncpy_keeps [OF t(1)] strncpy_keeps [OF n] t(2) b by (intro ok_add_ack [OF ok(2)]) (auto simp: wf_ack_def)
qed

locale shadow_context = world_invariant E "kept P v"
  for E :: "'w Shadow Env" and P v +
  fixes A :: "'w ShadowApp"
  assumes action_I: "kept P v s \<Longrightarrow> post (action_callback A f th act st rx ctx c s) (\<lambda>(c', s'). kept P v s')"
    and delta_I: "kept P v s \<Longrightarrow> post (delta_callback A f t len p c s) (\<lambda>(c', s'). kept P v s')"
begin

lemma mqtt_subscribe_I: "kept P v s \<Longrightarrow> post (mqtt_subscribe E n c t h s) (\<lambda>(rc, c', s'). kept P v s')"
  by (auto simp: mqtt_subscribe_def intro!: post_mono [OF subscribe_I])

lemma mqtt_unsubscribe_I: "kept P v s \<Longrightarrow> post (mqtt_unsubscribe E n c t s) (\<lambda>(rc, c', s'). kept P v s')"
  by (auto simp: mqtt_unsubscribe_def intro!: post_mono [OF unsubscribe_I])

lemma register_delta_I: "kept P v s \<Longrightarrow> post (registerJsonTokenOnDelta E n c p s) (\<lambda>(rc, c', s'). kept P v s')"
  by (auto simp: registerJsonTokenOnDelta_def Let_def dest!: snprintf_keeps
      intro!: post_mono [OF mqtt_subscribe_I] kept_delta_topic kept_register kept_register_flag)

lemma release_topic_I: "kept P v s \<Longrightarrow> post (release_topic E n c t s) (\<lambda>(c', s'). kept P v s')"
  by (auto simp: release_topic_def wf_sub_def split: option.splits intro!: post_mono [OF mqtt_unsubscribe_I] kept_upd_sub)

lemma release_both_I: "kept P v s \<Longrightarrow> post (unsubscribeFromAcceptedAndRejected E n c i s) (\<lambda>(c', s'). kept P v s')"
  by (auto simp: unsubscribeFromAcceptedAndRejected_def local_topic_def Let_def intro!: post_mono [OF release_topic_I])

lemma wait_expired_I: "kept P v s \<Longrightarrow> post (wait_expired E k t s) (\<lambda>s'. kept P v s')"
proof (induction k arbitrary: s)
  case (Suc k)
  then show ?case by (auto split: prod.splits dest: timer_I)
qed simp

lemma subscribe_entry_I: "kept P v s \<Longrightarrow> post (subscribe_entry E n c th act ack st i s) (\<lambda>(rc, c', s'). kept P v s')"
  unfolding subscribe_entry_def post_bnd post_of_opt
  by (intro allI impI post_mono [OF mqtt_subscribe_I]) (auto simp: wf_sub_def intro: kept_topic intro!: kept_upd_sub [where f = "\<lambda>e. e\<lparr>sub_count := 1, isSticky := st\<rparr>"])

lemma clear_I: "kept P v s \<Longrightarrow> post (clear_entries E n c ia s) (\<lambda>(c', s'). kept P v s')"
  by (auto simp: clear_entries_def Let_def wf_sub_def split: option.splits intro!: post_mono [OF mqtt_unsubscribe_I] kept_upd_sub)

lemma subscribe_acks_I:
  assumes "kept P v s"
  shows "post (subscribeToShadowActionAcks E n c th act st s) (\<lambda>(rc, c', s'). kept P v s')"
proof -
  obtain ia s1 where 1: "getNextFreeIndexOfSubscriptionList s = (ia, s1)" by fastforce
  obtain ir s2 where 2: "getNextFreeIndexOfSubscriptionList s1 = (ir, s2)" by fastforce
  have k: "kept P v s2" using kept_next_free assms 1 2 by blast
  let ?body = "case (ia, ir) of
             (Some a, Some r) \<Rightarrow>
               bnd (subscribe_entry E n c th act SHADOW_ACCEPTED st a s2) (\<lambda>(rc, c, s).
               if rc \<noteq> SUCCESS then Done (rc, True, c, s)
               else bnd (subscribe_entry E n c th act SHADOW_REJECTED st r s) (\<lambda>(rc, c, s).
               if rc \<noteq> SUCCESS then Done (rc, True, c, s)
               else case start_sec E SUBSCRIBE_SETTLING_TIME s of (t, s) \<Rightarrow>
                 bnd (wait_expired E n t s) (\<lambda>s. Done (rc, False, c, s))))
           | _ \<Rightarrow> Done (SUCCESS, True, c, s2)"
  have "post ?body (\<lambda>(rc, b, c', s'). kept P v s')"
    using k by (auto split: option.splits prod.splits dest: timer_I
        intro!: post_mono [OF subscribe_entry_I] post_mono [OF wait_expired_I])
  then show ?thesis
    unfolding subscribeToShadowActionAcks_def 1 2 prod.case post_bnd
    by (rule post_mono) (auto intro!: post_mono [OF clear_I])
qed

lemma increment_I: "kept P v s \<Longrightarrow> post (incrementSubscriptionCnt E th act st s) (\<lambda>s'. kept P v s')"
  by (auto simp: incrementSubscriptionCnt_def local_topic_def intro: kept_count)

lemma publish_action_I: "kept P v s \<Longrightarrow> post (publishToShadowAction E n c th act doc s) (\<lambda>(rc, c', s'). kept P v s')"
  by (auto simp: publishToShadowAction_def local_topic_def drop_params_def split: option.splits
      intro!: post_mono [OF publish_I])

lemma call_action_I: "kept P v s \<Longrightarrow> post (call_action_callback A i st c s) (\<lambda>(c', s'). kept P v s')"
  by (auto simp: call_action_callback_def Let_def split: option.splits intro!: post_mono [OF action_I])

lemma expired_loop_I: "kept P v s \<Longrightarrow> post (expired_loop E A n k i c s) (\<lambda>(c', s'). kept P v s')"
proof (induction k arbitrary: i c s)
  case (Suc k)
  then show ?case
    by (auto split: prod.splits dest: timer_I intro!: post_mono [OF call_action_I] post_mono [OF release_both_I] kept_free_ack)
qed simp

lemma copy_payload_I: "kept P v s \<Longrightarrow> post (copy_payload c msg s) (\<lambda>r. case r of None \<Rightarrow> True | Some s' \<Rightarrow> kept P v s')"
  by (auto simp: copy_payload_def rx_slice_def store_put dest!: put_SomeD elim!: bind_SomeE intro!: kept_rx)

lemma add_ack_I:
  assumes k: "kept P v s" and tok: "length tok < MAX_SIZE_CLIENT_ID_WITH_SEQUENCE" and i: "i < MAX_ACKS_TO_COMEIN_AT_ANY_GIVEN_TIME"
  shows "post (addToAckWaitList E i th act tok f ctx sec s) (\<lambda>s'. kept P v s')"
  unfolding addToAckWaitList_def Let_def post_bnd post_of_opt
  by (auto split: prod.splits intro!: kept_add_ack [OF k timer_I(3) [OF _ k] i _ tok])

text \<open>The parts of the handlers after the payload has been copied.\<close>

lemma ack_callback_I:
  assumes "kept P v s"
  shows "post (AckStatusCallback E A n c topic msg s) (\<lambda>(c', s'). kept P v s')"
  using assms
  by (auto simp: AckStatusCallback_def topic_string_def Let_def split: option.splits
      intro!: post_mono [OF copy_payload_I] post_mono [OF call_action_I] post_mono [OF release_both_I] kept_free_ack kept_version
        kept_json dest!: extractClientToken_keeps [THEN conjunct1] isJsonValid_keeps)

lemma delta_loop_I: "kept P v s \<Longrightarrow> post (delta_loop A k i cnt c s) (\<lambda>(c', s'). kept P v s')"
proof (induction k arbitrary: i c s)
  case (Suc k)
  then show ?case by (auto simp: Let_def split: option.splits intro!: post_mono [OF delta_I])
qed simp

lemma delta_callback_I:
  assumes "kept P v s"
  shows "post (shadow_delta_callback A n c msg s) (\<lambda>(c', s'). kept P v s')"
  using assms
  by (auto simp: shadow_delta_callback_def Let_def split: option.splits
      intro!: post_mono [OF copy_payload_I] post_mono [OF delta_loop_I] kept_version kept_json dest!: isJsonValid_keeps)

end

lemma post_True: "post m (\<lambda>x. True)"
  by (cases m) simp_all

context shadow_context
begin

lemma internal_action_I:
  assumes k: "kept P v s"
  shows "post (aws_iot_shadow_internal_action E n c th act doc f ctx sec st s) (\<lambda>(rc, c', s'). kept P v s')"
proof (cases P)
  case True
  have idx: "i < MAX_ACKS_TO_COMEIN_AT_ANY_GIVEN_TIME"
    if "getNextFreeIndexOfAckWaitList s1 = Some i" "kept P v s1" for i s1
    using that True
    by (auto simp: getNextFreeIndexOfAckWaitList_def free_from_def Let_def kept_def shadow_ok_def wf_shadow_def split: if_splits)
  have g: "kept P v (s\<lparr>json := g'\<rparr>)" if "extractClientToken (json s) d out = Some (b, tok, g')" for d out b tok g'
    using k that by (auto intro!: kept_json dest: extractClientToken_keeps)
  have tok: "length t < MAX_SIZE_CLIENT_ID_WITH_SEQUENCE"
    if "extractClientToken (json s) d (replicate MAX_SIZE_CLIENT_ID_WITH_SEQUENCE u) = Some (b, tk, g')" "cstr_of tk = Some t" for d u b tk g' t
    using that cstr_of_length [OF that(2)] extractClientToken_keeps [OF that(1)] True k by (simp add: kept_def ok_wf_json)
  show ?thesis
    by (auto simp: aws_iot_shadow_internal_action_def isSubscriptionPresent_def local_topic_def Let_def k split: option.splits
        intro!: post_mono [OF subscribe_acks_I] post_mono [OF increment_I] post_mono [OF publish_action_I] post_mono [OF add_ack_I]
        intro: g) (use tok idx g in blast)+
qed (simp add: kept_def split_def post_True)

lemma on_client_I:
  "kept P v s \<Longrightarrow> (\<And>c. post (f c) (\<lambda>(rc, c', s'). kept P v s')) \<Longrightarrow> post (on_client p s f) (\<lambda>(rc, p', s'). kept P v s')"
  by (cases p) (simp_all add: on_client_def split_def)

lemma shadow_yield_I: "kept P v s \<Longrightarrow> post (aws_iot_shadow_yield E A n p ms s) (\<lambda>(rc, p', s'). kept P v s')"
  unfolding aws_iot_shadow_yield_def HandleExpiredResponseCallbacks_def
  by (rule on_client_I) (auto intro!: post_mono [OF expired_loop_I] post_mono [OF yield_I])

lemma shadow_connect_I: "kept P v s \<Longrightarrow> post (aws_iot_shadow_connect E n p pp s) (\<lambda>(rc, p', s'). kept P v s')"
proof -
  assume k: "kept P v s"
  have nm: "kept P v (s\<lparr>myThingName := nm, json := (json s)\<lparr>mqttClientID := idm\<rparr>\<rparr>)"
    if "snprintf (myThingName s) 0 MAX_SIZE_OF_THING_NAME t = Some (r, nm)"
      "snprintf (mqttClientID (json s)) 0 MAX_SIZE_OF_UNIQUE_CLIENT_ID_BYTES i = Some (r', idm)" for t r nm i r' idm
    using k snprintf_keeps [OF that(1)] snprintf_keeps [OF that(2)]
    by (auto simp: kept_def shadow_ok_def wf_shadow_def wf_json_def)
  show ?thesis
    unfolding aws_iot_shadow_connect_def
    by (rule on_client_I [OF k])
      (auto simp: k Let_def split: option.splits intro!: post_mono [OF mqtt_connect_I] post_mono [OF subscribe_I] kept_initialize
        intro: nm)
qed

lemma shadow_register_I: "kept P v s \<Longrightarrow> post (aws_iot_shadow_register_delta E n p q s) (\<lambda>(rc, p', s'). kept P v s')"
  unfolding aws_iot_shadow_register_delta_def
  by (rule on_client_I) (auto split: option.splits intro!: post_mono [OF register_delta_I])

lemma shadow_disconnect_I: "kept P v s \<Longrightarrow> post (aws_iot_shadow_disconnect E n p s) (\<lambda>(rc, p', s'). kept P v s')"
  unfolding aws_iot_shadow_disconnect_def by (rule on_client_I) (auto intro!: post_mono [OF mqtt_disconnect_I])

lemma shadow_update_I:
  "kept P v s \<Longrightarrow> post (aws_iot_shadow_update E n p th doc f ctx sec st s) (\<lambda>(rc, p', s'). kept P v s')"
  unfolding aws_iot_shadow_update_def by (rule on_client_I) (auto intro!: post_mono [OF internal_action_I])

lemma shadow_get_I:
  "kept P v s \<Longrightarrow> post (aws_iot_shadow_get E n p th f ctx sec st s) (\<lambda>(rc, p', s'). kept P v s')"
  unfolding aws_iot_shadow_get_def aws_iot_shadow_internal_get_request_json_def
  by (rule on_client_I) (auto intro!: post_mono [OF internal_action_I] kept_json dest!: request_json_keeps)

lemma shadow_delete_I:
  "kept P v s \<Longrightarrow> post (aws_iot_shadow_delete E n p th f ctx sec st s) (\<lambda>(rc, p', s'). kept P v s')"
  unfolding aws_iot_shadow_delete_def aws_iot_shadow_internal_delete_request_json_def
  by (rule on_client_I) (auto intro!: post_mono [OF internal_action_I] kept_json dest!: request_json_keeps)

end

text \<open>The application's callbacks keep the invariant and the lower bound of the version.\<close>

definition app_keeps :: "'w ShadowApp \<Rightarrow> u32 \<Rightarrow> bool" where
  "app_keeps A v \<longleftrightarrow>
     (\<forall>f c p l m d s. shadow_ok v s \<longrightarrow> post (user_handler A f c p l m d s) (\<lambda>(c', m', s'). shadow_ok v s')) \<and>
     (\<forall>f c d s. shadow_ok v s \<longrightarrow> post (user_disc_handler A f c d s) (\<lambda>(c', s'). shadow_ok v s')) \<and>
     (\<forall>f th act st rx ctx c s. shadow_ok v s \<longrightarrow> post (action_callback A f th act st rx ctx c s) (\<lambda>(c', s'). shadow_ok v s')) \<and>
     (\<forall>f t len p c s. shadow_ok v s \<longrightarrow> post (delta_callback A f t len p c s) (\<lambda>(c', s'). shadow_ok v s'))"

lemma app_kept:
  assumes "kept (app_keeps A v) v s"
  shows "post (user_handler A f c p l m d s) (\<lambda>(c', m', s'). kept (app_keeps A v) v s')"
    and "post (user_disc_handler A f c d s) (\<lambda>(c', s'). kept (app_keeps A v) v s')"
    and "post (action_callback A f th act st rx ctx c s) (\<lambda>(c', s'). kept (app_keeps A v) v s')"
    and "post (delta_callback A f t len q c s) (\<lambda>(c', s'). kept (app_keeps A v) v s')"
  using assms by (cases "app_keeps A v"; simp add: kept_def split_def post_True; simp add: app_keeps_def split_def)+

lemma lift_env_context:
  assumes h: "\<And>f c p l m d s. kept (app_keeps A v) v s \<Longrightarrow> post (h f c p l m d s) (\<lambda>(c', m', s'). kept (app_keeps A v) v s')"
  shows "shadow_context (lift_env E A h) (app_keeps A v) v A"
  by unfold_locales
    (auto simp: lift_env_def in_world_def run_world_def app_kept h split: prod.splits intro!: postI [of "net_connect _ _ _ _"] postI [of "net_read _ _ _ _"]
      postI [of "net_write _ _ _ _"] postI [of "net_disconnect _ _"] postI [of "net_destroy _ _"])

lemma shadow_handler_kept:
  "kept (app_keeps A v) v s \<Longrightarrow> post (shadow_handler k E A n f c p l m d s) (\<lambda>(c', m', s'). kept (app_keeps A v) v s')"
proof (induction k arbitrary: f c p l m d s)
  case (Suc k)
  note ctx = lift_env_context [of A v "shadow_handler k E A n" E, OF Suc.IH]
  show ?case
    using Suc.prems
    by (auto intro!: post_mono [OF shadow_context.ack_callback_I [OF ctx]] post_mono [OF shadow_context.delta_callback_I [OF ctx]] app_kept(1))
qed simp

interpretation shadow: shadow_context "shadow_env d E A n" "app_keeps A v" v A for d E A n v
  unfolding shadow_env_def by (rule lift_env_context) (rule shadow_handler_kept)

subsection \<open>Sequences of calls\<close>

text \<open>One constructor per function of the interface that runs on a client, and one turn of an application.\<close>

datatype ShadowCall =
    Sh_Connect "ShadowConnectParameters_t option"
  | Sh_Register_Delta "nat option"
  | Sh_Yield u32
  | Sh_Disconnect
  | Sh_Update "cstring option" "byte list option" "nat option" "nat option" u8 bool
  | Sh_Get "cstring option" "nat option" "nat option" u8 bool
  | Sh_Delete "cstring option" "nat option" "nat option" u8 bool
  | Sh_Autoreconnect bool

fun shadow_call :: "'w Shadow Env \<Rightarrow> 'w ShadowApp \<Rightarrow> nat \<Rightarrow> ShadowCall \<Rightarrow> AWS_IoT_Client option \<Rightarrow> 'w Shadow \<Rightarrow> 'w shadow_outcome" where
  "shadow_call E A n (Sh_Connect p) c s = aws_iot_shadow_connect E n c p s"
| "shadow_call E A n (Sh_Register_Delta p) c s = aws_iot_shadow_register_delta E n c p s"
| "shadow_call E A n (Sh_Yield ms) c s = aws_iot_shadow_yield E A n c ms s"
| "shadow_call E A n Sh_Disconnect c s = aws_iot_shadow_disconnect E n c s"
| "shadow_call E A n (Sh_Update t d f x sec st) c s = aws_iot_shadow_update E n c t d f x sec st s"
| "shadow_call E A n (Sh_Get t f x sec st) c s = aws_iot_shadow_get E n c t f x sec st s"
| "shadow_call E A n (Sh_Delete t f x sec st) c s = aws_iot_shadow_delete E n c t f x sec st s"
| "shadow_call E A n (Sh_Autoreconnect b) c s = aws_iot_shadow_set_autoreconnect_status c b s"

inductive shadow_run :: "'w Env \<Rightarrow> 'w ShadowApp \<Rightarrow> AWS_IoT_Client option \<times> 'w Shadow \<Rightarrow> AWS_IoT_Client option \<times> 'w Shadow \<Rightarrow> bool"
  for E :: "'w Env" and A :: "'w ShadowApp" where
  refl: "shadow_run E A x x"
| step: "shadow_run E A x (c, s) \<Longrightarrow> shadow_call (shadow_env d E A n) A n call c s = Done (rc, c', s') \<Longrightarrow> shadow_run E A x (c', s')"

lemma shadow_call_kept:
  "kept (app_keeps A v) v s \<Longrightarrow> post (shadow_call (shadow_env d E A n) A n call c s) (\<lambda>(rc, c', s'). kept (app_keeps A v) v s')"
  by (cases call)
    (simp_all add: shadow.shadow_connect_I shadow.shadow_register_I shadow.shadow_yield_I shadow.shadow_disconnect_I
      shadow.shadow_update_I shadow.shadow_get_I shadow.shadow_delete_I aws_iot_shadow_set_autoreconnect_status_def
      aws_iot_mqtt_autoreconnect_set_status_def shadow.on_client_I)

lemma shadow_run_kept:
  "shadow_run E A x y \<Longrightarrow> kept (app_keeps A v) v (snd x) \<Longrightarrow> kept (app_keeps A v) v (snd y)"
proof (induction rule: shadow_run.induct)
  case (step x c s d n call rc c' s')
  then show ?case using shadow_call_kept [of A v s d E n call c] by (auto dest: postD)
qed

text \<open>The variables as the program starts, all zero, after \<open>aws_iot_shadow_init\<close>.\<close>

definition fresh_shadow :: "(nat \<Rightarrow> jsonStruct_t) \<Rightarrow> 'w \<Rightarrow> 'w Shadow" where
  "fresh_shadow ss w = initDeltaTokens \<lparr>
     AckWaitList = replicate MAX_ACKS_TO_COMEIN_AT_ANY_GIVEN_TIME \<lparr>clientTokenID = replicate MAX_SIZE_CLIENT_ID_WITH_SEQUENCE 0,
       thingName = replicate MAX_SIZE_OF_THING_NAME 0, action = SHADOW_GET, callback = None, pCallbackContext = None,
       ack_isFree = False, timer = init_timer\<rparr>,
     pMqttClient = False,
     myThingName = replicate MAX_SIZE_OF_THING_NAME 0,
     shadowDeltaTopic = replicate MAX_SHADOW_TOPIC_LENGTH_BYTES 0,
     SubscriptionList = replicate MAX_TOPICS_AT_ANY_GIVEN_TIME
       \<lparr>Topic = replicate MAX_SHADOW_TOPIC_LENGTH_BYTES 0, sub_count = 0, sub_isFree = False, isSticky = False\<rparr>,
     shadowRxBuf = replicate SHADOW_MAX_SIZE_OF_RX_BUFFER 0,
     tokenTable = replicate MAX_JSON_TOKEN_EXPECTED \<lparr>tt_pKey = None, pStruct = 0, tt_callback = None, tt_isFree = False\<rparr>,
     tokenTableIndex = 0, deltaTopicSubscribedFlag = False, shadowJsonVersionNum = 0, shadowDiscardOldDeltaFlag = True,
     json = \<lparr>clientTokenNum = 0, mqttClientID = replicate MAX_SIZE_OF_UNIQUE_CLIENT_ID_BYTES 0,
       shadowJsonParser = \<lparr>pos = 0, toknext = 0, toksuper = 0\<rparr>, jsonTokenStruct = replicate MAX_JSON_TOKEN_EXPECTED blank_tok\<rparr>,
     structs = ss, world = w\<rparr>"

lemma fresh_shadow_wf: "wf_shadow (fresh_shadow ss w)"
  by (simp add: fresh_shadow_def initDeltaTokens_def wf_shadow_def wf_ack_def wf_sub_def wf_json_def list_all_iff shadow_config)


definition idle_app :: "float_lib \<Rightarrow> 'w ShadowApp" where
  "idle_app fl = \<lparr>user_handler = (\<lambda>f c p l m d s. Done (c, m, s)), user_disc_handler = (\<lambda>f c d s. Done (c, s)),
     action_callback = (\<lambda>f th act st rx ctx c s. Done (c, s)), delta_callback = (\<lambda>f t len p c s. Done (c, s)), floats = fl\<rparr>"

lemma idle_app_keeps: "app_keeps (idle_app fl) v"
  by (simp add: app_keeps_def idle_app_def)


end
