(* ===== verification/Shadow_Token.thy ===== *)
theory Shadow_Token
  imports Shadow_Json
begin

text \<open>
  The documents of get and delete requests: an object with one string member, the client token. What
  the tokeniser makes of such a document, what \<open>extractClientToken\<close> finds in it, and how
  \<open>emptyJsonWithClientToken\<close> writes it.
\<close>

text \<open>The tokens of an object with one string member.\<close>

definition plain :: "cstring \<Rightarrow> bool" where
  "plain s \<longleftrightarrow> 0 \<notin> set s \<and> 34 \<notin> set s \<and> 92 \<notin> set s"

definition pair_doc :: "cstring \<Rightarrow> cstring \<Rightarrow> byte list" where
  "pair_doc k v = [123, 34] @ k @ [34, 58, 34] @ v @ [34, 125]"

lemma string_scan_plain:
  assumes "plain s" "js = pre @ s @ 34 # r" "length pre + length s < len"
  shows "string_scan js len (length pre) = Some (Inr (length pre + length s))"
  using assms
proof (induction s arbitrary: pre)
  case Nil
  then show ?case by (subst string_scan.simps) (simp add: byte_at_def nth_append)
next
  case (Cons c s)
  have "string_scan js len (Suc (length pre)) = Some (Inr (Suc (length pre) + length s))"
    using Cons.IH [of "pre @ [c]"] Cons.prems by (simp add: plain_def)
  then show ?case
    using Cons.prems by (subst string_scan.simps) (auto simp: byte_at_def nth_append plain_def)
qed

lemma pair_doc_bytes:
  assumes "js = pair_doc k v @ r"
  shows "byte_at js 0 = Some 123" "byte_at js (Suc 0) = Some 34" "byte_at js (3 + length k) = Some 58"
    "byte_at js (4 + length k) = Some 34" "byte_at js (6 + length k + length v) = Some 125"
  using assms by (auto simp: pair_doc_def byte_at_def nth_append nth_Cons')

definition pair_tokens :: "cstring \<Rightarrow> cstring \<Rightarrow> jsmntok_t list \<Rightarrow> jsmntok_t list" where
  "pair_tokens k v toks =
     [\<lparr>tok_type = JSMN_OBJECT, tok_start = 0, tok_end = int (7 + length k + length v), tok_size = 2\<rparr>,
      \<lparr>tok_type = JSMN_STRING, tok_start = 2, tok_end = int (2 + length k), tok_size = 0\<rparr>,
      \<lparr>tok_type = JSMN_STRING, tok_start = int (5 + length k), tok_end = int (5 + length k + length v), tok_size = 0\<rparr>] @ drop 3 toks"

lemma loop_step:
  assumes "pos P < len" "byte_at js (pos P) = Some c" "c \<noteq> 0" "jsmn_step js len (P, tokens) n c = Some (Inr ((P', tokens'), n'))"
  shows "jsmn_parse_loop js len P tokens n = jsmn_parse_loop js len (P'\<lparr>pos := Suc (pos P')\<rparr>) tokens' n'"
  using assms by (subst jsmn_parse_loop.simps) simp

lemmas jsmn_step_defs = jsmn_step_def jsmn_open_def jsmn_close_def jsmn_alloc_token_def
  jsmn_parse_string_def jsmn_emit_def jsmn_fill_token_def grow_super_def ignored_def tok_open_def Let_def

lemma jsmn_parse_pair:
  assumes p: "plain k" "plain v" and js: "js = pair_doc k v @ r" and len: "len = 7 + length k + length v" and t: "3 \<le> length toks"
  shows "\<exists>p. jsmn_parse (jsmn_init parser) js len (Some toks) = Some (3, p, Some (pair_tokens k v toks))"
proof -
  obtain a b c ts where toks: "toks = a # b # c # ts"
    using t by (metis Suc_le_length_iff numeral_3_eq_3)
  have upd: "x\<lparr>tok_start := s, tok_end := e, tok_size := z, tok_type := ty\<rparr> = \<lparr>tok_type = ty, tok_start = s, tok_end = e, tok_size = z\<rparr>" for x :: jsmntok_t and s e z ty
    by (cases x) simp
  have ini: "jsmn_init parser = \<lparr>pos = 0, toknext = 0, toksuper = - 1\<rparr>" by (cases parser) (simp add: jsmn_init_def)
  note at = pair_doc_bytes [OF js]
  have s1: "string_scan js len (Suc (Suc 0)) = Some (Inr (2 + length k))"
    using string_scan_plain [OF p(1), of js "[123, 34]" "[58, 34] @ v @ [34, 125] @ r" len] js len by (simp add: pair_doc_def)
  have s2: "string_scan js len (5 + length k) = Some (Inr (5 + length k + length v))"
    using string_scan_plain [OF p(2), of js "[123, 34] @ k @ [34, 58, 34]" "[125] @ r" len] js len
    by (simp add: pair_doc_def) (simp add: numeral_eq_Suc add.commute add.left_commute)
  have sc: "Suc (Suc (Suc (length k))) = 3 + length k" "Suc (3 + length k) = 4 + length k" "Suc (5 + length k + length v) = 6 + length k + length v"
      "Suc (6 + length k + length v) = 7 + length k + length v" "int (Suc (4 + length k)) = 5 + int (length k)" by simp_all
  let ?st = "\<lambda>n. \<lparr>tok_type = JSMN_STRING, tok_start = 2, tok_end = 2 + int (length k), tok_size = n\<rparr> :: jsmntok_t"
  let ?obj = "\<lambda>e n. \<lparr>tok_type = JSMN_OBJECT, tok_start = 0, tok_end = e, tok_size = n\<rparr> :: jsmntok_t"
  let ?val = "\<lparr>tok_type = JSMN_STRING, tok_start = 5 + int (length k), tok_end = 5 + int (length k) + int (length v), tok_size = 0\<rparr> :: jsmntok_t"
  let ?P = "\<lambda>i n s. \<lparr>pos = i, toknext = n, toksuper = s\<rparr> :: jsmn_parser"
  let ?e = "7 + (int (length k) + int (length v))"
  have "jsmn_parse_loop js len (?P 0 0 (- 1)) (Some toks) 0 = jsmn_parse_loop js len (?P 1 1 0) (Some (?obj (- 1) 0 # b # c # ts)) 1"
    by (subst loop_step [where c = 123]) (simp_all add: len at toks jsmn_step_defs upd)+
  also have "\<dots> = jsmn_parse_loop js len (?P (3 + length k) (Suc 1) 0) (Some (?obj (- 1) 1 # ?st 0 # c # ts)) 2"
    by (subst loop_step [where c = 34]) (simp_all add: len at s1 [unfolded len] jsmn_step_defs upd sc)+
  also have "\<dots> = jsmn_parse_loop js len (?P (4 + length k) (Suc 1) 0) (Some (?obj (- 1) 1 # ?st 0 # c # ts)) 2"
    by (subst loop_step [where c = 58]) (simp_all add: len at jsmn_step_defs upd sc)+
  also have "\<dots> = jsmn_parse_loop js len (?P (6 + length k + length v) (Suc (Suc 1)) 0) (Some (?obj (- 1) 2 # ?st 0 # ?val # ts)) 3"
    by (subst loop_step [where c = 34]) (simp_all add: len at s2 [unfolded len] jsmn_step_defs upd sc)+
  also have "\<dots> = jsmn_parse_loop js len (?P (7 + length k + length v) (Suc (Suc 1)) (- 1)) (Some (?obj ?e 2 # ?st 0 # ?val # ts)) 3"
    by (subst loop_step [where c = 125]) (simp_all add: len at jsmn_step_defs upd sc)+
  also have "\<dots> = Some (Inr ((?P (7 + length k + length v) (Suc (Suc 1)) (- 1), Some (?obj ?e 2 # ?st 0 # ?val # ts)), 3))"
    by (subst jsmn_parse_loop.simps) (simp add: len)
  finally show ?thesis
    by (simp add: jsmn_parse_def ini pair_tokens_def toks tok_open_def numeral_3_eq_3)
qed

text \<open>The document requests are made of, and the token found in it.\<close>

lemma extract_pair_token:
  assumes p: "plain v" and h: "holds_text doc (pair_doc SHADOW_CLIENT_TOKEN_STRING v)" and t: "3 \<le> length (jsonTokenStruct g)"
    and v: "length v < 256"
  shows "\<exists>p. extractClientToken g doc out =
    (if length v < length out
     then Some (True, v @ 0 # drop (Suc (length v)) out, g\<lparr>shadowJsonParser := p, jsonTokenStruct := pair_tokens SHADOW_CLIENT_TOKEN_STRING v (jsonTokenStruct g)\<rparr>)
     else None)"
proof -
  let ?k = SHADOW_CLIENT_TOKEN_STRING
  have k: "plain ?k" "length ?k = 11" by (simp_all add: plain_def SHADOW_CLIENT_TOKEN_STRING_def bytes_of_def)
  obtain r where doc: "doc = pair_doc ?k v @ 0 # r" using h by (auto simp: holds_text_def)
  have len: "cstrlen doc = Some (18 + length v)" using holds_text_len [OF h] by (simp add: pair_doc_def k)
  obtain q where q: "jsmn_parse (jsmn_init (shadowJsonParser g)) doc (18 + length v) (Some (jsonTokenStruct g)) =
      Some (3, q, Some (pair_tokens ?k v (jsonTokenStruct g)))"
    using jsmn_parse_pair [OF k(1) p doc, of "18 + length v" "jsonTokenStruct g" "shadowJsonParser g"] t k by auto
  let ?g = "g\<lparr>shadowJsonParser := q, jsonTokenStruct := pair_tokens ?k v (jsonTokenStruct g)\<rparr>"
  let ?j = "pair_doc ?k v"
  have toks: "token_at ?g 1 = Some \<lparr>tok_type = JSMN_STRING, tok_start = 2, tok_end = 13, tok_size = 0\<rparr>"
    "token_at ?g 2 = Some \<lparr>tok_type = JSMN_STRING, tok_start = 16, tok_end = 16 + int (length v), tok_size = 0\<rparr>"
    "tok_type (jsonTokenStruct ?g ! 0) = JSMN_OBJECT"
    by (simp_all add: token_at_def pair_tokens_def k)
  have eq: "jsoneq ?j \<lparr>tok_type = JSMN_STRING, tok_start = 2, tok_end = 13, tok_size = 0\<rparr> ?k = Some 0"
    by (simp add: jsoneq_def text_from_def pair_doc_def k)
  have val: "text_from ?j \<lparr>tok_type = JSMN_STRING, tok_start = 16, tok_end = 16 + int (length v), tok_size = 0\<rparr> = Some (v @ [34, 125])"
    by (simp add: text_from_def pair_doc_def k)
  have u: "unat (of_int (int (length v)) :: u8) = length v" using v by (simp add: unat_of_nat)
  show ?thesis
    using toks eq val u
    by (auto simp: extractClientToken_def parse_document_def len q holds_text_cstr [OF h] numeral_2_eq_2 key_eq_def
        strncpy_def put_def store_def list_update_append Let_def)
      (simp add: Cons_nth_drop_Suc [symmetric])
qed

lemma length_dec: "n < 10 ^ Suc k \<Longrightarrow> length (dec n) \<le> Suc k"
proof (induction k arbitrary: n)
  case 0
  then show ?case by (subst dec.simps) simp
next
  case (Suc k)
  then have "n div 10 < 10 ^ Suc k" by (simp add: less_mult_imp_div_less mult.commute)
  then show ?case using Suc.IH [of "n div 10"] by (subst dec.simps) simp
qed

lemma length_dec_u32: "length (dec_int (sint (w :: u32))) \<le> 11"
proof -
  have "- (2 ^ 31) \<le> sint w" "sint w < 2 ^ 31" using sint_ge [of w] sint_lt [of w] by simp_all
  then have "nat \<bar>sint w\<bar> < 10 ^ Suc 9" by simp
  from length_dec [OF this] show ?thesis by (auto simp: dec_int_def)
qed

lemma empty_json:
  assumes t: "token_text g = Some tk" "0 \<notin> set tk" and room: "18 + length tk < length buf"
  shows "\<exists>doc. emptyJsonWithClientToken g buf = Some (doc, g\<lparr>clientTokenNum := clientTokenNum g + 1\<rparr>) \<and>
    holds_text doc (pair_doc SHADOW_CLIENT_TOKEN_STRING tk) \<and> length doc = length buf"
proof -
  let ?a = "bytes_of ''{\"clientToken\":\"''" and ?z = "bytes_of ''\"}''"
  have l: "length ?a = 16" "0 \<notin> set ?a" "length ?z = 2" "0 \<notin> set ?z" by (simp_all add: bytes_of_def)
  have app: "\<exists>m'. sprintf m (length p) x = Some m' \<and> holds_text m' (p @ x) \<and> length m' = length m"
    if "holds_text m p" "0 \<notin> set x" "length p + length x < length m" for m p x
    using put_text [of "length p" p m x] that by (auto simp: sprintf_def holds_text_def)
  obtain d1 where d1: "sprintf buf 0 ?a = Some d1" "holds_text d1 ?a" "length d1 = length buf"
    using put_text [of 0 "[]" buf ?a] l room by (auto simp: sprintf_def)
  obtain d2 where d2: "sprintf d1 16 tk = Some d2" "holds_text d2 (?a @ tk)" "length d2 = length buf"
    using app [OF d1(2), of tk] l t room d1(3) by auto
  obtain d3 where d3: "sprintf d2 (16 + length tk) ?z = Some d3" "holds_text d3 ((?a @ tk) @ ?z)" "length d3 = length buf"
    using app [OF d2(2), of ?z] l room d2(3) by auto
  have "(?a @ tk) @ ?z = pair_doc SHADOW_CLIENT_TOKEN_STRING tk"
    by (simp add: pair_doc_def SHADOW_CLIENT_TOKEN_STRING_def bytes_of_def)
  then show ?thesis
    using d1 d2 d3 l t holds_text_len [OF d1(2)] holds_text_len [OF d2(2)]
    by (simp add: emptyJsonWithClientToken_def FillWithClientToken_def)
qed

end
