(* ===== verification/Shadow_Requests.thy ===== *)
theory Shadow_Requests
  imports Shadow_Invariant Shadow_Token
begin

text \<open>
  Requests and their acknowledgements: the token of a request, how an acknowledgement finds the request that waits for it,
  what an overlong token does, and how subscribing to the acknowledgement topics fails.
\<close>

lemma digit_plain_char: "is_digit 10 c \<Longrightarrow> c \<noteq> 0 \<and> c \<noteq> 34 \<and> c \<noteq> 92"
  by (auto simp: is_digit_def digit_val_def)

lemma token_plain:
  assumes "token_text g = Some tk" "cstr_of (mqttClientID g) = Some cid" "plain cid"
  shows "plain tk" "length tk \<le> length cid + 12"
proof -
  have "plain (dec n)" for n using dec_digits [of _ n] digit_plain_char by (auto simp: plain_def)
  then have "plain (dec_int v)" for v by (auto simp: plain_def dec_int_def)
  then show "plain tk" "length tk \<le> length cid + 12"
    using assms length_dec_u32 [of "clientTokenNum g"] by (auto simp: token_text_def plain_def bytes_of_def)
qed

text \<open>
  C28. The client token of a get or delete request. For a client identifier of plain characters that
  fits its array, the request document fits the 110 bytes reserved for it and holds exactly one member,
  the token; the token number advances. \<open>extractClientToken\<close> then finds that token in the
  document, but the 90 bytes the caller reserves for it do not always suffice: it is written past
  the array exactly when it has 90 characters or more.
\<close>

theorem request_token_round_trip:
  assumes id: "cstr_of (mqttClientID g) = Some cid" "plain cid" "length cid < MAX_SIZE_OF_UNIQUE_CLIENT_ID_BYTES"
    and buf: "length buf = MAX_SIZE_CLIENT_TOKEN_CLIENT_SEQUENCE" and toks: "3 \<le> length (jsonTokenStruct g)"
    and out: "length out = MAX_SIZE_CLIENT_ID_WITH_SEQUENCE"
  shows "\<exists>tk doc p. token_text g = Some tk \<and>
    aws_iot_shadow_internal_get_request_json g buf = Some (doc, g\<lparr>clientTokenNum := clientTokenNum g + 1\<rparr>) \<and>
    aws_iot_shadow_internal_delete_request_json g buf = Some (doc, g\<lparr>clientTokenNum := clientTokenNum g + 1\<rparr>) \<and>
    holds_text doc (pair_doc SHADOW_CLIENT_TOKEN_STRING tk) \<and>
    extractClientToken (g\<lparr>clientTokenNum := clientTokenNum g + 1\<rparr>) doc out =
      (if length tk < MAX_SIZE_CLIENT_ID_WITH_SEQUENCE
       then Some (True, tk @ 0 # drop (Suc (length tk)) out,
         g\<lparr>clientTokenNum := clientTokenNum g + 1, shadowJsonParser := p,
           jsonTokenStruct := pair_tokens SHADOW_CLIENT_TOKEN_STRING tk (jsonTokenStruct g)\<rparr>)
       else None)"
proof -
  obtain tk where tk: "token_text g = Some tk" using id(1) by (simp add: token_text_def)
  note pl = token_plain [OF tk id(1,2)]
  have rm: "18 + length tk < length buf" using pl(2) id(3) buf by (simp add: shadow_config)
  obtain doc where doc: "emptyJsonWithClientToken g buf = Some (doc, g\<lparr>clientTokenNum := clientTokenNum g + 1\<rparr>)"
      "holds_text doc (pair_doc SHADOW_CLIENT_TOKEN_STRING tk)"
    using empty_json [OF tk _ rm] pl(1) by (auto simp: plain_def)
  have "length tk < 256" using pl(2) id(3) by (simp add: shadow_config)
  with extract_pair_token [OF pl(1) doc(2), of "g\<lparr>clientTokenNum := clientTokenNum g + 1\<rparr>" out] toks
  obtain p where "extractClientToken (g\<lparr>clientTokenNum := clientTokenNum g + 1\<rparr>) doc out =
      (if length tk < length out
       then Some (True, tk @ 0 # drop (Suc (length tk)) out, g\<lparr>clientTokenNum := clientTokenNum g + 1, shadowJsonParser := p,
         jsonTokenStruct := pair_tokens SHADOW_CLIENT_TOKEN_STRING tk (jsonTokenStruct g)\<rparr>)
       else None)"
    by (auto cong: if_cong)
  then show ?thesis
    using tk doc out
    by (auto simp: aws_iot_shadow_internal_get_request_json_def aws_iot_shadow_internal_delete_request_json_def)
qed

text \<open>What the handler has done with a one-member document before it looks for a waiting request.\<close>

lemma token_document_received:
  assumes v: "plain v" "length v < 256" and msg: "unat (rx_payloadLen msg) = 18 + length v"
      "take (18 + length v) (drop (rx_payload msg) (readBuf c)) = pair_doc SHADOW_CLIENT_TOKEN_STRING v"
    and s: "length (shadowRxBuf s) = SHADOW_MAX_SIZE_OF_RX_BUFFER" "length (jsonTokenStruct (json s)) = MAX_JSON_TOKEN_EXPECTED"
    and ver: "length v \<noteq> 7"
  obtains buf q where "copy_payload c msg s = Done (Some (s\<lparr>shadowRxBuf := buf\<rparr>))"
    "holds_text buf (pair_doc SHADOW_CLIENT_TOKEN_STRING v)"
    "isJsonValidAndParse (json s) buf =
       Some (True, Some 3, (json s)\<lparr>shadowJsonParser := q, jsonTokenStruct := pair_tokens SHADOW_CLIENT_TOKEN_STRING v (jsonTokenStruct (json s))\<rparr>)"
    "extractVersionNumber ((json s)\<lparr>shadowJsonParser := q, jsonTokenStruct := pair_tokens SHADOW_CLIENT_TOKEN_STRING v (jsonTokenStruct (json s))\<rparr>) buf 3 = Some None"
proof -
  let ?k = SHADOW_CLIENT_TOKEN_STRING and ?d = "pair_doc SHADOW_CLIENT_TOKEN_STRING v"
  have k: "plain ?k" "length ?k = 11" by (simp_all add: plain_def SHADOW_CLIENT_TOKEN_STRING_def bytes_of_def)
  have ld: "length ?d = 18 + length v" by (simp add: pair_doc_def k)
  have room: "18 + length v < 513" using v(2) by simp
  have sl: "rx_payload msg + (18 + length v) \<le> length (readBuf c)"
    using arg_cong [OF msg(2), of length] ld by simp
  obtain x r where xr: "drop (18 + length v) (shadowRxBuf s) = x # r"
    using room s(1) by (cases "drop (18 + length v) (shadowRxBuf s)") (auto simp: shadow_config config_defs)
  obtain buf where buf: "put ?d (shadowRxBuf s, 0) \<bind> (\<lambda>bp. store 0 bp \<bind> (\<lambda>bp. Some (fst bp))) = Some buf" "holds_text buf ?d"
    using room s(1) ld v(1) k(1)
    by (auto simp: put_def store_def holds_text_def shadow_config config_defs list_update_append pair_doc_def plain_def xr)
  have cp: "copy_payload c msg s = Done (Some (s\<lparr>shadowRxBuf := buf\<rparr>))"
    using msg sl buf(1) room by (simp add: copy_payload_def rx_slice_def of_opt_def shadow_config config_defs)
  obtain q where q: "jsmn_parse (jsmn_init (shadowJsonParser (json s))) buf (18 + length v) (Some (jsonTokenStruct (json s))) =
      Some (3, q, Some (pair_tokens ?k v (jsonTokenStruct (json s))))"
    using jsmn_parse_pair [OF k(1) v(1), of buf _ "18 + length v" "jsonTokenStruct (json s)" "shadowJsonParser (json s)"] buf(2) s(2) k
    by (auto simp: holds_text_def MAX_JSON_TOKEN_EXPECTED_def)
  let ?g = "(json s)\<lparr>shadowJsonParser := q, jsonTokenStruct := pair_tokens ?k v (jsonTokenStruct (json s))\<rparr>"
  have valid: "isJsonValidAndParse (json s) buf = Some (True, Some 3, ?g)"
    using holds_text_len [OF buf(2)] q ld by (simp add: isJsonValidAndParse_def parse_document_def pair_tokens_def)
  have ver: "extractVersionNumber ?g buf 3 = Some None"
    using ver holds_text_cstr [OF buf(2)] k
    by (simp add: extractVersionNumber_def numeral_2_eq_2 token_at_def pair_tokens_def jsoneq_def SHADOW_VERSION_STRING_def
        bytes_of_def shadow_config)
  show thesis by (rule that [OF cp buf(2) valid ver])
qed

lemma strcmp_eq_text: "0 \<notin> set v \<Longrightarrow> strcmp_eq (v @ 0 # r) (v @ 0 # r') = Some True"
  by (induction v) auto

text \<open>
  A remote overflow in the acknowledgement handler. A message whose payload is an object with the
  single member \<open>clientToken\<close>, a string of plain characters at least as long as the handler's local
  array, makes \<open>AckStatusCallback\<close> leave that array, whatever the state of the shadow layer.
\<close>

theorem ack_token_overflow:
  assumes v: "plain v" "MAX_SIZE_CLIENT_TOKEN_CLIENT_SEQUENCE \<le> length v" "length v < 256"
    and msg: "unat (rx_payloadLen msg) = 18 + length v"
      "take (18 + length v) (drop (rx_payload msg) (readBuf c)) = pair_doc SHADOW_CLIENT_TOKEN_STRING v"
    and s: "length (shadowRxBuf s) = SHADOW_MAX_SIZE_OF_RX_BUFFER" "length (jsonTokenStruct (json s)) = MAX_JSON_TOKEN_EXPECTED"
  shows "AckStatusCallback E A n c topic msg s = Fault"
proof -
  have "length v \<noteq> 7" using v(2) by (auto simp: shadow_config)
  from token_document_received [OF v(1,3) msg s this]
  obtain buf q where b: "copy_payload c msg s = Done (Some (s\<lparr>shadowRxBuf := buf\<rparr>))"
    "holds_text buf (pair_doc SHADOW_CLIENT_TOKEN_STRING v)"
    "isJsonValidAndParse (json s) buf =
       Some (True, Some 3, (json s)\<lparr>shadowJsonParser := q, jsonTokenStruct := pair_tokens SHADOW_CLIENT_TOKEN_STRING v (jsonTokenStruct (json s))\<rparr>)"
    "extractVersionNumber ((json s)\<lparr>shadowJsonParser := q, jsonTokenStruct := pair_tokens SHADOW_CLIENT_TOKEN_STRING v (jsonTokenStruct (json s))\<rparr>) buf 3 = Some None"
    by metis
  let ?g = "(json s)\<lparr>shadowJsonParser := q, jsonTokenStruct := pair_tokens SHADOW_CLIENT_TOKEN_STRING v (jsonTokenStruct (json s))\<rparr>"
  have t3: "3 \<le> length (jsonTokenStruct ?g)" by (simp add: pair_tokens_def)
  have "extractClientToken ?g buf (replicate MAX_SIZE_CLIENT_TOKEN_CLIENT_SEQUENCE u) = None" for u
    using extract_pair_token [OF v(1) b(2) t3 v(3), of "replicate MAX_SIZE_CLIENT_TOKEN_CLIENT_SEQUENCE u"] v(2) by simp
  then show ?thesis
    by (auto simp: AckStatusCallback_def b(1,3,4) of_opt_def topic_string_def Let_def split: option.splits)
qed

lemma ack_token_overflow_witness:
  "\<forall>E A n c s topic. AckStatusCallback E A n (c\<lparr>readBuf := pair_doc SHADOW_CLIENT_TOKEN_STRING (replicate 110 97)\<rparr>) topic
     \<lparr>rx_qos = QOS0, rx_isRetained = 0, rx_isDup = 0, rx_id = 0, rx_payload = 0, rx_payloadLen = 128\<rparr>
     (s\<lparr>shadowRxBuf := replicate SHADOW_MAX_SIZE_OF_RX_BUFFER 0,
        json := (json s)\<lparr>jsonTokenStruct := replicate MAX_JSON_TOKEN_EXPECTED blank_tok\<rparr>\<rparr>) = Fault"
proof -
  have v: "plain (replicate 110 97)" by (simp add: plain_def)
  have l: "length (pair_doc SHADOW_CLIENT_TOKEN_STRING (replicate 110 97)) = 128"
    by (simp add: pair_doc_def SHADOW_CLIENT_TOKEN_STRING_def bytes_of_def)
  show ?thesis
    by (intro allI ack_token_overflow [OF v]) (simp_all add: shadow_config l)
qed



lemma next_free_None: "\<forall>e \<in> set (SubscriptionList s). \<not> sub_isFree e \<Longrightarrow> getNextFreeIndexOfSubscriptionList s = (None, s)"
proof -
  assume "\<forall>e \<in> set (SubscriptionList s). \<not> sub_isFree e"
  then have tw: "takeWhile (\<lambda>e. \<not> sub_isFree e) (SubscriptionList s) = SubscriptionList s" by (simp add: takeWhile_eq_all_conv)
  show ?thesis unfolding getNextFreeIndexOfSubscriptionList_def free_from_def tw by simp
qed

lemma next_free_Some:
  assumes "SubscriptionList s = xs @ e # ys" "\<forall>x \<in> set xs. \<not> sub_isFree x" "sub_isFree e"
  shows "getNextFreeIndexOfSubscriptionList s = (Some (length xs), s\<lparr>SubscriptionList := xs @ e\<lparr>sub_isFree := False\<rparr> # ys\<rparr>)"
  using assms by (simp add: getNextFreeIndexOfSubscriptionList_def free_from_def takeWhile_append2 list_update_append)

lemma topic_written:
  assumes "length buf = MAX_SHADOW_TOPIC_LENGTH_BYTES"
  shows "\<exists>t. topicNameFromThingAndAction buf thing act ack = Some t"
proof -
  have "length (take (MAX_SHADOW_TOPIC_LENGTH_BYTES - 1) t @ [0]) \<le> MAX_SHADOW_TOPIC_LENGTH_BYTES" for t :: cstring
    by (simp add: shadow_config)
  then show ?thesis
    using assms by (auto simp: topicNameFromThingAndAction_def snprintf_def put_def shadow_config Let_def simp del: append_assoc take_append length_append)
qed

text \<open>
  Subscribing to acknowledgement topics when it cannot succeed. Without a free entry in the subscription
  list, the routine reads entry -1. With one free entry it subscribes to nothing and still returns
  SUCCESS. With two free entries and a client that is not connected it returns the error, but
  only the first of the two entries is given back; the second stays taken for ever.
\<close>

theorem subscribe_acks_exhausted:
  "((\<forall>e \<in> set (SubscriptionList s). \<not> sub_isFree e) \<longrightarrow>
      subscribeToShadowActionAcks E n c thing act sticky s = Fault) \<and>
   (\<forall>xs e ys. SubscriptionList s = xs @ e # ys \<and> sub_isFree e \<and> (\<forall>x \<in> set (xs @ ys). \<not> sub_isFree x) \<and> sub_count e \<noteq> 1 \<longrightarrow>
      subscribeToShadowActionAcks E n c thing act sticky s = Done (SUCCESS, c, s)) \<and>
   (\<forall>xs a ys r zs. SubscriptionList s = xs @ a # ys @ r # zs \<and> sub_isFree a \<and> sub_isFree r \<and> (\<forall>x \<in> set (xs @ ys). \<not> sub_isFree x) \<and>
      sub_count a \<noteq> 1 \<and> length (Topic a) = MAX_SHADOW_TOPIC_LENGTH_BYTES \<and> pMqttClient s \<and> \<not> aws_iot_mqtt_is_client_connected c \<longrightarrow>
      (\<exists>t. subscribeToShadowActionAcks E n c thing act sticky s =
         Done (NETWORK_DISCONNECTED_ERROR, c, s\<lparr>SubscriptionList := xs @ a\<lparr>Topic := t\<rparr> # ys @ r\<lparr>sub_isFree := False\<rparr> # zs\<rparr>)))"
proof (intro conjI impI allI)
  assume "\<forall>e \<in> set (SubscriptionList s). \<not> sub_isFree e"
  then show "subscribeToShadowActionAcks E n c thing act sticky s = Fault"
    by (simp add: subscribeToShadowActionAcks_def next_free_None clear_entries_def)
next
  fix xs e ys
  assume a: "SubscriptionList s = xs @ e # ys \<and> sub_isFree e \<and> (\<forall>x \<in> set (xs @ ys). \<not> sub_isFree x) \<and> sub_count e \<noteq> 1"
  let ?s = "s\<lparr>SubscriptionList := xs @ e\<lparr>sub_isFree := False\<rparr> # ys\<rparr>"
  have 1: "getNextFreeIndexOfSubscriptionList s = (Some (length xs), ?s)" using a by (intro next_free_Some) auto
  have 2: "getNextFreeIndexOfSubscriptionList ?s = (None, ?s)" using a by (intro next_free_None) auto
  have 3: "e\<lparr>sub_isFree := True\<rparr> = e" "s\<lparr>SubscriptionList := xs @ e # ys\<rparr> = s" using a by (cases e, simp, cases s, simp)
  show "subscribeToShadowActionAcks E n c thing act sticky s = Done (SUCCESS, c, s)"
    using a by (simp add: subscribeToShadowActionAcks_def 1 2 clear_entries_def upd_sub_def Let_def list_update_append 3)
next
  fix xs a ys r zs
  assume as: "SubscriptionList s = xs @ a # ys @ r # zs \<and> sub_isFree a \<and> sub_isFree r \<and> (\<forall>x \<in> set (xs @ ys). \<not> sub_isFree x) \<and>
      sub_count a \<noteq> 1 \<and> length (Topic a) = MAX_SHADOW_TOPIC_LENGTH_BYTES \<and> pMqttClient s \<and> \<not> aws_iot_mqtt_is_client_connected c"
  let ?s1 = "s\<lparr>SubscriptionList := xs @ a\<lparr>sub_isFree := False\<rparr> # ys @ r # zs\<rparr>"
  let ?s2 = "s\<lparr>SubscriptionList := xs @ a\<lparr>sub_isFree := False\<rparr> # ys @ r\<lparr>sub_isFree := False\<rparr> # zs\<rparr>"
  have 1: "getNextFreeIndexOfSubscriptionList s = (Some (length xs), ?s1)" using as by (intro next_free_Some) auto
  have 2: "getNextFreeIndexOfSubscriptionList ?s1 = (Some (length (xs @ a # ys)), ?s2)"
    using as next_free_Some [of ?s1 "xs @ a\<lparr>sub_isFree := False\<rparr> # ys" r zs] by auto
  obtain t where t: "topicNameFromThingAndAction (Topic a) thing act SHADOW_ACCEPTED = Some t"
    using as topic_written [of "Topic a" thing act SHADOW_ACCEPTED] by auto
  have "0 \<in> set t" using topic_keeps [OF t] by simp
  then obtain u where u: "cstr_of t = Some u" by (simp add: cstr_of_def)
  have 3: "a\<lparr>Topic := t, sub_isFree := True\<rparr> = a\<lparr>Topic := t\<rparr>" using as by (cases a) simp
  show "\<exists>t. subscribeToShadowActionAcks E n c thing act sticky s =
         Done (NETWORK_DISCONNECTED_ERROR, c, s\<lparr>SubscriptionList := xs @ a\<lparr>Topic := t\<rparr> # ys @ r\<lparr>sub_isFree := False\<rparr> # zs\<rparr>)"
    using as t u 3
    by (intro exI [of _ t])
      (simp add: subscribeToShadowActionAcks_def 1 2 subscribe_entry_def mqtt_subscribe_def aws_iot_mqtt_subscribe_def of_opt_def
        clear_entries_def upd_sub_def Let_def list_update_append)
qed

lemma subscribe_acks_exhausted_witness:
  "\<forall>E n c s. subscribeToShadowActionAcks E n c (bytes_of ''lamp'') SHADOW_GET False
     (s\<lparr>SubscriptionList := [\<lparr>Topic = [0], sub_count = 0, sub_isFree = True, isSticky = False\<rparr>]\<rparr>) =
   Done (SUCCESS, c, s\<lparr>SubscriptionList := [\<lparr>Topic = [0], sub_count = 0, sub_isFree = True, isSticky = False\<rparr>]\<rparr>)"
proof (intro allI)
  fix E :: "'a Shadow Env" and n and c and s :: "'a Shadow"
  let ?e = "\<lparr>Topic = [0], sub_count = 0, sub_isFree = True, isSticky = False\<rparr> :: SubscriptionRecord_t"
  have "SubscriptionList (s\<lparr>SubscriptionList := [?e]\<rparr>) = [] @ ?e # [] \<and> sub_isFree ?e \<and>
      (\<forall>x \<in> set ([] @ []). \<not> sub_isFree x) \<and> sub_count ?e \<noteq> 1" by simp
  with subscribe_acks_exhausted [of "s\<lparr>SubscriptionList := [?e]\<rparr>" E n c "bytes_of ''lamp''" SHADOW_GET False]
  show "subscribeToShadowActionAcks E n c (bytes_of ''lamp'') SHADOW_GET False (s\<lparr>SubscriptionList := [?e]\<rparr>) =
      Done (SUCCESS, c, s\<lparr>SubscriptionList := [?e]\<rparr>)"
    by blast
qed

lemma request_token_round_trip_witness:
  "\<exists>doc out'. aws_iot_shadow_internal_get_request_json
      \<lparr>clientTokenNum = 7, mqttClientID = bytes_of ''dev'' @ [0], shadowJsonParser = \<lparr>pos = 0, toknext = 0, toksuper = 0\<rparr>,
       jsonTokenStruct = replicate MAX_JSON_TOKEN_EXPECTED blank_tok\<rparr> (replicate MAX_SIZE_CLIENT_TOKEN_CLIENT_SEQUENCE 0) =
      Some (doc, \<lparr>clientTokenNum = 8, mqttClientID = bytes_of ''dev'' @ [0], shadowJsonParser = \<lparr>pos = 0, toknext = 0, toksuper = 0\<rparr>,
       jsonTokenStruct = replicate MAX_JSON_TOKEN_EXPECTED blank_tok\<rparr>) \<and>
    holds_text doc (bytes_of ''{\"clientToken\":\"dev-7\"}'')"
proof -
  let ?g = "\<lparr>clientTokenNum = 7, mqttClientID = bytes_of ''dev'' @ [0], shadowJsonParser = \<lparr>pos = 0, toknext = 0, toksuper = 0\<rparr>,
       jsonTokenStruct = replicate MAX_JSON_TOKEN_EXPECTED blank_tok\<rparr> :: shadow_json"
  have c: "cstr_of (mqttClientID ?g) = Some (bytes_of ''dev'')" "plain (bytes_of ''dev'')"
    by (simp_all add: cstr_of_def bytes_of_def plain_def)
  have t: "token_text ?g = Some (bytes_of ''dev-7'')"
    by (simp add: token_text_def cstr_of_def bytes_of_def dec_int_def dec.simps)
  have d: "pair_doc SHADOW_CLIENT_TOKEN_STRING (bytes_of ''dev-7'') = bytes_of ''{\"clientToken\":\"dev-7\"}''"
    by (simp add: pair_doc_def SHADOW_CLIENT_TOKEN_STRING_def bytes_of_def)
  show ?thesis
    using request_token_round_trip [OF c, of "replicate MAX_SIZE_CLIENT_TOKEN_CLIENT_SEQUENCE 0" "replicate MAX_SIZE_CLIENT_ID_WITH_SEQUENCE 0"] t d
    by (auto simp: bytes_of_def MAX_JSON_TOKEN_EXPECTED_def MAX_SIZE_OF_UNIQUE_CLIENT_ID_BYTES_def)
qed

end
