(* ===== verification/Threads.thy ===== *)
theory Threads
  imports Mqtt_World
begin

text \<open>
  Thread support: the build with \<open>_ENABLE_THREAD_SUPPORT_\<close>. The wrapper around POSIX mutexes
  (src/platform/linux/pthread/threads_pthread_wrapper.c), locking and unlocking on behalf of a client
  (src/src/aws_iot_mqtt_client.c) and the functions of the client that take a mutex: initialisation,
  change of the client state, sending a packet and one read cycle.

  The pthread library is a record of functions on the world; \<open>pthread_mutex_lock\<close> is \<open>None\<close> when the
  calling thread stays blocked, and a call of the client that blocks does not return (\<open>NoFuel\<close>). What
  POSIX documents of a mutex with default attributes are the laws of the locale \<open>posix_mutexes\<close>, where
  \<open>owner w m\<close> is the thread that holds the mutex \<open>m\<close>. Functions that exist in both builds have the suffix
  \<open>_mt\<close> here. The theory \<open>Thread_Interleaving\<close> runs several threads at once.
\<close>

type_synonym thread_id = nat
type_synonym mutex = nat

record 'w Pthread =
  pthread_mutex_init :: "mutex \<Rightarrow> 'w \<Rightarrow> int \<times> 'w"
  pthread_mutex_lock :: "thread_id \<Rightarrow> mutex \<Rightarrow> 'w \<Rightarrow> (int \<times> 'w) option"
  pthread_mutex_trylock :: "thread_id \<Rightarrow> mutex \<Rightarrow> 'w \<Rightarrow> int \<times> 'w"
  pthread_mutex_unlock :: "thread_id \<Rightarrow> mutex \<Rightarrow> 'w \<Rightarrow> int \<times> 'w"
  pthread_mutex_destroy :: "mutex \<Rightarrow> 'w \<Rightarrow> int \<times> 'w"

subsection \<open>The wrapper around POSIX mutexes\<close>

definition aws_iot_thread_mutex_init :: "'w Pthread \<Rightarrow> mutex \<Rightarrow> 'w \<Rightarrow> IoT_Error_t \<times> 'w" where
  "aws_iot_thread_mutex_init P pMutex w =
     (case pthread_mutex_init P pMutex w of (rc, w) \<Rightarrow> (if 0 \<noteq> rc then MUTEX_INIT_ERROR else SUCCESS, w))"

definition aws_iot_thread_mutex_lock ::
    "'w Pthread \<Rightarrow> thread_id \<Rightarrow> mutex \<Rightarrow> 'w \<Rightarrow> (IoT_Error_t \<times> 'w) option" where
  "aws_iot_thread_mutex_lock P t pMutex w =
     map_option (\<lambda>(rc, w). (if 0 \<noteq> rc then MUTEX_LOCK_ERROR else SUCCESS, w)) (pthread_mutex_lock P t pMutex w)"

definition aws_iot_thread_mutex_trylock :: "'w Pthread \<Rightarrow> thread_id \<Rightarrow> mutex \<Rightarrow> 'w \<Rightarrow> IoT_Error_t \<times> 'w" where
  "aws_iot_thread_mutex_trylock P t pMutex w =
     (case pthread_mutex_trylock P t pMutex w of (rc, w) \<Rightarrow> (if 0 \<noteq> rc then MUTEX_LOCK_ERROR else SUCCESS, w))"

definition aws_iot_thread_mutex_unlock :: "'w Pthread \<Rightarrow> thread_id \<Rightarrow> mutex \<Rightarrow> 'w \<Rightarrow> IoT_Error_t \<times> 'w" where
  "aws_iot_thread_mutex_unlock P t pMutex w =
     (case pthread_mutex_unlock P t pMutex w of (rc, w) \<Rightarrow> (if 0 \<noteq> rc then MUTEX_UNLOCK_ERROR else SUCCESS, w))"

definition aws_iot_thread_mutex_destroy :: "'w Pthread \<Rightarrow> mutex \<Rightarrow> 'w \<Rightarrow> IoT_Error_t \<times> 'w" where
  "aws_iot_thread_mutex_destroy P pMutex w =
     (case pthread_mutex_destroy P pMutex w of (rc, w) \<Rightarrow> (if 0 \<noteq> rc then MUTEX_DESTROY_ERROR else SUCCESS, w))"

subsection \<open>Locking on behalf of a client\<close>

text \<open>The fields of \<open>ClientData\<close> that exist only with thread support; a mutex is named by its address.\<close>

record Thread_Data =
  isBlockOnThreadLockEnabled :: bool
  state_change_mutex :: mutex
  tls_read_mutex :: mutex
  tls_write_mutex :: mutex

definition aws_iot_mqtt_client_lock_mutex ::
    "'w Pthread \<Rightarrow> Thread_Data \<Rightarrow> thread_id \<Rightarrow> mutex option \<Rightarrow> 'w \<Rightarrow> (IoT_Error_t \<times> 'w) option" where
  "aws_iot_mqtt_client_lock_mutex P D t pMutex w =
     (case pMutex of None \<Rightarrow> Some (NULL_VALUE_ERROR, w) | Some m \<Rightarrow>
      map_option (\<lambda>(threadRc, w). if SUCCESS \<noteq> threadRc then (threadRc, w) else (SUCCESS, w))
        (if \<not> isBlockOnThreadLockEnabled D then Some (aws_iot_thread_mutex_trylock P t m w)
         else aws_iot_thread_mutex_lock P t m w))"

definition aws_iot_mqtt_client_unlock_mutex ::
    "'w Pthread \<Rightarrow> thread_id \<Rightarrow> mutex option \<Rightarrow> 'w \<Rightarrow> IoT_Error_t \<times> 'w" where
  "aws_iot_mqtt_client_unlock_mutex P t pMutex w =
     (case pMutex of None \<Rightarrow> (NULL_VALUE_ERROR, w) | Some m \<Rightarrow> aws_iot_thread_mutex_unlock P t m w)"

text \<open>A lock that is not obtained blocks the caller.\<close>

definition lock_run :: "'w Pthread \<Rightarrow> Thread_Data \<Rightarrow> thread_id \<Rightarrow> mutex \<Rightarrow> 'w \<Rightarrow> (IoT_Error_t \<times> 'w) run" where
  "lock_run P D t m w = (case aws_iot_mqtt_client_lock_mutex P D t (Some m) w of None \<Rightarrow> NoFuel | Some r \<Rightarrow> Done r)"

subsection \<open>The functions of the client that take a mutex\<close>

definition aws_iot_mqtt_set_client_state_mt ::
    "'w Pthread \<Rightarrow> Thread_Data \<Rightarrow> thread_id \<Rightarrow> AWS_IoT_Client \<Rightarrow> ClientState \<Rightarrow> ClientState \<Rightarrow> 'w \<Rightarrow> 'w outcome" where
  "aws_iot_mqtt_set_client_state_mt P D t pClient expectedCurrentState newState w =
     bnd (lock_run P D t (state_change_mutex D) w) (\<lambda>(rc, w).
     if SUCCESS \<noteq> rc then Done (rc, pClient, w)
     else
     let (rc, c) = (if expectedCurrentState = aws_iot_mqtt_get_client_state pClient
                    then (SUCCESS, pClient\<lparr>clientState := newState\<rparr>)
                    else (MQTT_UNEXPECTED_CLIENT_STATE_ERROR, pClient));
         (threadRc, w) = aws_iot_mqtt_client_unlock_mutex P t (Some (state_change_mutex D)) w
     in Done (if SUCCESS = rc \<and> SUCCESS \<noteq> threadRc then threadRc else rc, c, w))"

definition aws_iot_mqtt_init_mt ::
    "'w Pthread \<Rightarrow> Thread_Data \<Rightarrow> bool \<Rightarrow> AWS_IoT_Client \<Rightarrow> IoT_Client_Init_Params option \<Rightarrow> 'w
       \<Rightarrow> IoT_Error_t \<times> AWS_IoT_Client \<times> Thread_Data \<times> 'w" where
  "aws_iot_mqtt_init_mt P D block pClient pInitParams w =
     (case pInitParams of None \<Rightarrow> (NULL_VALUE_ERROR, pClient, D, w) | Some ip \<Rightarrow>
      if pHostURL ip = None \<or> port ip = 0 \<or> pRootCALocation ip = None \<or> pDevicePrivateKeyLocation ip = None
         \<or> pDeviceCertLocation ip = None
      then (NULL_VALUE_ERROR, pClient, D, w)
      else
      let c = pClient
           \<lparr>messageHandlers := map (\<lambda>h. h\<lparr>topicName := None, pApplicationHandler := None,
              pApplicationHandlerData := None, mh_qos := QOS0\<rparr>) (messageHandlers pClient),
            commandTimeoutMs := mqttCommandTimeout_ms ip,
            writeBufSize := AWS_IOT_MQTT_TX_BUF_LEN,
            readBufSize := AWS_IOT_MQTT_RX_BUF_LEN,
            counterNetworkDisconnected := 0,
            disconnectHandler := init_disconnectHandler ip,
            disconnectHandlerData := init_disconnectHandlerData ip,
            nextPacketId := 1\<rparr>;
          (rc, c) = aws_iot_mqtt_set_connect_params c (Some iotClientConnectParamsDefault)
      in if rc \<noteq> SUCCESS then (rc, c, D, w)
      else
      let D = D\<lparr>isBlockOnThreadLockEnabled := block\<rparr>;
          (rc, w) = aws_iot_thread_mutex_init P (state_change_mutex D) w
      in if rc \<noteq> SUCCESS then (rc, c, D, w)
      else
      let (rc, w) = aws_iot_thread_mutex_init P (tls_read_mutex D) w
      in if rc \<noteq> SUCCESS then (rc, c, D, w)
      else
      let (rc, w) = aws_iot_thread_mutex_init P (tls_write_mutex D) w
      in if rc \<noteq> SUCCESS then (rc, c, D, w)
      else
      let c = c\<lparr>isPingOutstanding := False, isAutoReconnectEnabled := enableAutoReconnect ip\<rparr>;
          (rc, net) = iot_tls_init (pRootCALocation ip) (pDeviceCertLocation ip) (pDevicePrivateKeyLocation ip)
             (pHostURL ip) (port ip) (tlsHandshakeTimeout_ms ip) (isSSLHostnameVerify ip) (networkStack c);
          c = c\<lparr>networkStack := net\<rparr>
      in if rc \<noteq> SUCCESS then (rc, c\<lparr>clientState := CLIENT_STATE_INVALID\<rparr>, D, w)
      else (SUCCESS, c\<lparr>pingTimer := init_timer, reconnectDelayTimer := init_timer,
                       clientState := CLIENT_STATE_INITIALIZED\<rparr>, D, w))"

definition aws_iot_mqtt_internal_send_packet_mt ::
    "'w Pthread \<Rightarrow> Thread_Data \<Rightarrow> thread_id \<Rightarrow> 'w Env \<Rightarrow> nat \<Rightarrow> AWS_IoT_Client \<Rightarrow> nat \<Rightarrow> Timer \<Rightarrow> 'w
       \<Rightarrow> (IoT_Error_t \<times> 'w) run" where
  "aws_iot_mqtt_internal_send_packet_mt P D t E n pClient len pTimer w =
     (if writeBufSize pClient \<le> len then Done (MQTT_TX_BUFFER_TOO_SHORT_ERROR, w)
      else
      bnd (lock_run P D t (tls_write_mutex D) w) (\<lambda>(rc, w).
      if SUCCESS \<noteq> rc then Done (rc, w)
      else
      bnd (send_packet_loop E n (writeBuf pClient) len 0 pTimer w) (\<lambda>(sent, w).
      let (rc, w) = aws_iot_mqtt_client_unlock_mutex P t (Some (tls_write_mutex D)) w in
      if SUCCESS \<noteq> rc then Done (rc, w)
      else Done (if sent = len then SUCCESS else FAILURE, w))))"

definition aws_iot_mqtt_internal_deliver_message_mt ::
    "'w Pthread \<Rightarrow> Thread_Data \<Rightarrow> thread_id \<Rightarrow> 'w Env \<Rightarrow> AWS_IoT_Client \<Rightarrow> nat \<Rightarrow> u16 \<Rightarrow> Rx_Message \<Rightarrow> 'w
       \<Rightarrow> (IoT_Error_t \<times> AWS_IoT_Client \<times> Rx_Message \<times> 'w) run" where
  "aws_iot_mqtt_internal_deliver_message_mt P D t E c topic len msg w =
     (let state = aws_iot_mqtt_get_client_state c in
      bnd (aws_iot_mqtt_set_client_state_mt P D t c state CLIENT_STATE_CONNECTED_WAIT_FOR_CB_RETURN w) (\<lambda>(_, c, w).
      bnd (deliver_loop E AWS_IOT_MQTT_NUM_SUBSCRIBE_HANDLERS 0 topic len c msg w) (\<lambda>(c, msg, w).
      bnd (aws_iot_mqtt_set_client_state_mt P D t c CLIENT_STATE_CONNECTED_WAIT_FOR_CB_RETURN state w) (\<lambda>(rc, c, w).
        Done (rc, c, msg, w)))))"

definition aws_iot_mqtt_internal_handle_publish_mt ::
    "'w Pthread \<Rightarrow> Thread_Data \<Rightarrow> thread_id \<Rightarrow> 'w Env \<Rightarrow> nat \<Rightarrow> AWS_IoT_Client \<Rightarrow> Timer \<Rightarrow> 'w \<Rightarrow> 'w outcome" where
  "aws_iot_mqtt_internal_handle_publish_mt P D t E n c pTimer w =
     bnd (of_opt (aws_iot_mqtt_internal_deserialize_publish (readBuf c) (readBufSize c))) (\<lambda>r.
     case r of Inl rc \<Rightarrow> Done (rc, c, w) | Inr (msg, topic, len) \<Rightarrow>
     bnd (aws_iot_mqtt_internal_deliver_message_mt P D t E c topic len msg w) (\<lambda>(rc, c, msg, w).
     if rc \<noteq> SUCCESS then Done (rc, c, w)
     else if rx_qos msg = QOS0 then Done (SUCCESS, c, w)
     else
     bnd (of_opt (aws_iot_mqtt_internal_serialize_ack (writeBuf c) (writeBufSize c) PUBACK 0 (rx_id msg))) (\<lambda>(rc, b, len).
     let c = c\<lparr>writeBuf := b\<rparr> in
     if rc \<noteq> SUCCESS then Done (rc, c, w)
     else bnd (aws_iot_mqtt_internal_send_packet_mt P D t E n c len pTimer w) (\<lambda>(rc, w).
       if rc \<noteq> SUCCESS then Done (rc, c, w) else Done (SUCCESS, c, w)))))"

definition aws_iot_mqtt_internal_cycle_read_mt ::
    "'w Pthread \<Rightarrow> Thread_Data \<Rightarrow> thread_id \<Rightarrow> 'w Env \<Rightarrow> nat \<Rightarrow> AWS_IoT_Client \<Rightarrow> Timer \<Rightarrow> u8 \<Rightarrow> 'w
       \<Rightarrow> (IoT_Error_t \<times> u8 \<times> AWS_IoT_Client \<times> 'w) run" where
  "aws_iot_mqtt_internal_cycle_read_mt P D t E n c pTimer pt w =
     bnd (lock_run P D t (tls_read_mutex D) w) (\<lambda>(threadRc, w).
     if SUCCESS \<noteq> threadRc then Done (threadRc, pt, c, w)
     else
     bnd (aws_iot_mqtt_internal_read_packet E n c pTimer w) (\<lambda>(rc, ptype, c, w).
     let pt = (case ptype of None \<Rightarrow> pt | Some x \<Rightarrow> x);
         (threadRc, w) = aws_iot_mqtt_client_unlock_mutex P t (Some (tls_read_mutex D)) w in
     if SUCCESS \<noteq> threadRc \<and> (MQTT_NOTHING_TO_READ = rc \<or> SUCCESS = rc) then Done (threadRc, pt, c, w)
     else if rc = MQTT_NOTHING_TO_READ then Done (SUCCESS, pt, c, w)
     else if rc \<noteq> SUCCESS then Done (rc, pt, c, w)
     else if uint pt \<in> {msg_code CONNACK, msg_code PUBACK, msg_code SUBACK, msg_code UNSUBACK} then Done (rc, pt, c, w)
     else if uint pt = msg_code PUBLISH then
       bnd (aws_iot_mqtt_internal_handle_publish_mt P D t E n c pTimer w) (\<lambda>(rc, c, w). Done (rc, pt, c, w))
     else if uint pt \<in> {msg_code PUBREC, msg_code PUBCOMP} then Done (rc, pt, c, w)
     else if uint pt = msg_code PINGRESP then
       (case start_sec E (ucast (keepAliveInterval c)) w of (t, w) \<Rightarrow>
         Done (rc, pt, c\<lparr>isPingOutstanding := False, pingTimer := t\<rparr>, w))
     else Done (MQTT_RX_MESSAGE_PACKET_TYPE_INVALID_ERROR, pt, c, w)))"

subsection \<open>POSIX mutexes\<close>

text \<open>
  The documented behaviour of a mutex with default attributes: lock and trylock of a free mutex give
  it to the caller, lock of a held one blocks, trylock of a held one fails at once, and unlock by the
  owner frees it. No call touches another mutex.
\<close>

locale posix_mutexes =
  fixes P :: "'w Pthread" and owner :: "'w \<Rightarrow> mutex \<Rightarrow> thread_id option"
  assumes lock_free: "owner w m = None \<Longrightarrow>
        \<exists>w'. pthread_mutex_lock P t m w = Some (0, w') \<and> owner w' = (owner w)(m := Some t)"
    and lock_held: "owner w m \<noteq> None \<Longrightarrow> pthread_mutex_lock P t m w = None"
    and trylock_free: "owner w m = None \<Longrightarrow>
        \<exists>w'. pthread_mutex_trylock P t m w = (0, w') \<and> owner w' = (owner w)(m := Some t)"
    and trylock_held: "owner w m \<noteq> None \<Longrightarrow>
        \<exists>rc w'. pthread_mutex_trylock P t m w = (rc, w') \<and> rc \<noteq> 0 \<and> owner w' = owner w"
    and unlock_own: "owner w m = Some t \<Longrightarrow>
        \<exists>w'. pthread_mutex_unlock P t m w = (0, w') \<and> owner w' = (owner w)(m := None)"
begin

lemma client_lock_free:
  assumes "owner w m = None"
  shows "\<exists>w'. aws_iot_mqtt_client_lock_mutex P D t (Some m) w = Some (SUCCESS, w') \<and> owner w' = (owner w)(m := Some t)"
  using lock_free [OF assms, of t] trylock_free [OF assms, of t]
  by (cases "isBlockOnThreadLockEnabled D")
    (auto simp: aws_iot_mqtt_client_lock_mutex_def aws_iot_thread_mutex_lock_def aws_iot_thread_mutex_trylock_def)

lemma client_lock_held:
  assumes "owner w m \<noteq> None"
  shows "if isBlockOnThreadLockEnabled D then aws_iot_mqtt_client_lock_mutex P D t (Some m) w = None
     else \<exists>w'. aws_iot_mqtt_client_lock_mutex P D t (Some m) w = Some (MUTEX_LOCK_ERROR, w') \<and> owner w' = owner w"
  using lock_held [OF assms, of t] trylock_held [OF assms, of t]
  by (cases "isBlockOnThreadLockEnabled D")
    (auto simp: aws_iot_mqtt_client_lock_mutex_def aws_iot_thread_mutex_lock_def aws_iot_thread_mutex_trylock_def)

lemma client_lockE:
  assumes "aws_iot_mqtt_client_lock_mutex P D t (Some m) w = Some (rc, w')"
  obtains (got) "rc = SUCCESS" "owner w m = None" "owner w' = (owner w)(m := Some t)"
    | (refused) "rc = MUTEX_LOCK_ERROR" "\<not> isBlockOnThreadLockEnabled D" "owner w m \<noteq> None" "owner w' = owner w"
proof (cases "owner w m = None")
  case True
  then show ?thesis using client_lock_free [OF True, of D t] assms got by auto
next
  case False
  then show ?thesis using client_lock_held [OF False, of D t] assms refused by (auto split: if_splits)
qed

lemma client_unlock:
  assumes "owner w m = Some t"
  shows "\<exists>w'. aws_iot_mqtt_client_unlock_mutex P t (Some m) w = (SUCCESS, w') \<and> owner w' = (owner w)(m := None)"
  using unlock_own [OF assms]
  by (auto simp: aws_iot_mqtt_client_unlock_mutex_def aws_iot_thread_mutex_unlock_def)

text \<open>Taking a mutex, and giving it back: the owners of the mutexes are as before.\<close>

lemma lock_run_post:
  assumes "\<And>w'. owner w m = None \<Longrightarrow> owner w' = (owner w)(m := Some t) \<Longrightarrow> Q (SUCCESS, w')"
    and "\<And>w'. owner w' = owner w \<Longrightarrow> Q (MUTEX_LOCK_ERROR, w')"
  shows "post (lock_run P D t m w) Q"
  using assms by (auto simp: lock_run_def split: option.splits elim: client_lockE)

lemma unlock_restores:
  assumes "aws_iot_mqtt_client_unlock_mutex P t (Some m) w' = (rc, w'')"
    and "owner w m = None" "owner w' = (owner w)(m := Some t)"
  shows "rc = SUCCESS \<and> owner w'' = owner w"
  using client_unlock [of w' m t] assms by (auto simp: fun_upd_idem_iff)

end

text \<open>An implementation of the laws: beside the rest of the world, the owner of each mutex.\<close>

definition owner_mutexes :: "('w \<times> (mutex \<Rightarrow> thread_id option)) Pthread" where
  "owner_mutexes = \<lparr>
     pthread_mutex_init = (\<lambda>m (w, own). (0, w, own(m := None))),
     pthread_mutex_lock = (\<lambda>t m (w, own). if own m = None then Some (0, w, own(m := Some t)) else None),
     pthread_mutex_trylock = (\<lambda>t m (w, own). if own m = None then (0, w, own(m := Some t)) else (16, w, own)),
     pthread_mutex_unlock = (\<lambda>t m (w, own). if own m = Some t then (0, w, own(m := None)) else (1, w, own)),
     pthread_mutex_destroy = (\<lambda>m (w, own). if own m = None then (0, w, own) else (16, w, own))\<rparr>"

interpretation owner_map: posix_mutexes owner_mutexes snd
  by unfold_locales (auto simp: owner_mutexes_def split: prod.splits)

subsection \<open>No call keeps a mutex\<close>

text \<open>
  Clock and network leave the mutexes alone; a callback, when it is entered with the three mutexes of
  the client free, returns with the mutexes as it found them.
\<close>

definition client_mutexes :: "Thread_Data \<Rightarrow> mutex set" where
  "client_mutexes D = {state_change_mutex D, tls_read_mutex D, tls_write_mutex D}"

locale threaded_client = posix_mutexes P owner
  for P :: "'w Pthread" and owner :: "'w \<Rightarrow> mutex \<Rightarrow> thread_id option" +
  fixes E :: "'w Env" and D :: Thread_Data
  assumes io: "io_invariant E (\<lambda>w. owner w = held)"
    and callback: "\<forall>m \<in> client_mutexes D. owner w m = None \<Longrightarrow>
        post (app_handler E f c topic len msg d w) (\<lambda>(c', msg', w'). owner w' = owner w)"
begin

lemmas send_loop_owner = io_invariant.send_loop_I [OF io]
lemmas read_packet_owner = io_invariant.read_packet_I [OF io]
lemmas timer_owner = io_invariant.timer_I [OF io]

lemma set_client_state_owner:
  "post (aws_iot_mqtt_set_client_state_mt P D t c e s w) (\<lambda>(rc, c', w'). owner w' = owner w)"
  unfolding aws_iot_mqtt_set_client_state_mt_def post_bnd
  by (rule lock_run_post) (auto simp: Let_def split: prod.splits dest: unlock_restores)

lemma send_packet_owner:
  "post (aws_iot_mqtt_internal_send_packet_mt P D t E n c len T w) (\<lambda>(rc, w'). owner w' = owner w)"
  unfolding aws_iot_mqtt_internal_send_packet_mt_def
  by (auto simp: Let_def split: prod.splits dest: unlock_restores
      intro!: lock_run_post post_mono [OF send_loop_owner])

lemma deliver_loop_owner:
  assumes free: "\<forall>m \<in> client_mutexes D. owner w0 m = None"
  shows "owner w = owner w0 \<Longrightarrow> post (deliver_loop E k i p l c msg w) (\<lambda>(c', msg', w'). owner w' = owner w0)"
proof (induction k arbitrary: i c msg w)
  case (Suc k)
  have app: "post (app_handler E f c p l msg d w) (\<lambda>(c', msg', w'). owner w' = owner w)" for f c msg d
    using free Suc.prems by (intro callback) simp
  show ?case
    using Suc by (auto simp: Let_def rx_slice_def split: option.splits intro!: post_mono [OF app])
qed simp

lemma deliver_message_owner:
  assumes "\<forall>m \<in> client_mutexes D. owner w m = None"
  shows "post (aws_iot_mqtt_internal_deliver_message_mt P D t E c p l msg w) (\<lambda>(rc, c', msg', w'). owner w' = owner w)"
  unfolding aws_iot_mqtt_internal_deliver_message_mt_def
  by (auto simp: Let_def intro!: post_mono [OF set_client_state_owner] post_mono [OF deliver_loop_owner [OF assms]])

lemma handle_publish_owner:
  assumes "\<forall>m \<in> client_mutexes D. owner w m = None"
  shows "post (aws_iot_mqtt_internal_handle_publish_mt P D t E n c T w) (\<lambda>(rc, c', w'). owner w' = owner w)"
  unfolding aws_iot_mqtt_internal_handle_publish_mt_def
  by (auto simp: Let_def split: sum.splits prod.splits
      intro!: post_mono [OF deliver_message_owner [OF assms]] post_mono [OF send_packet_owner])

lemma cycle_read_owner:
  assumes "\<forall>m \<in> client_mutexes D. owner w m = None"
  shows "post (aws_iot_mqtt_internal_cycle_read_mt P D t E n c T pt w) (\<lambda>(rc, pt', c', w'). owner w' = owner w)"
  using assms unfolding aws_iot_mqtt_internal_cycle_read_mt_def
  by (auto simp: Let_def split: prod.splits dest!: unlock_restores dest: timer_owner
      intro!: lock_run_post post_mono [OF read_packet_owner] post_mono [OF handle_publish_owner])

end

text \<open>The in-memory environment beside such mutexes: it leaves them alone.\<close>

definition beside :: "'s \<Rightarrow> (('a \<times> 'w) \<Rightarrow> 'a \<times> ('w \<times> 's))" where
  "beside own = (\<lambda>(r, w). (r, w, own))"

definition mutex_sim_env :: "(Sim \<times> (mutex \<Rightarrow> thread_id option)) Env" where
  "mutex_sim_env = \<lparr>
     gettimeofday = (\<lambda>(w, own). beside own (gettimeofday sim_env w)),
     net_connect = (\<lambda>net p w. Done (SUCCESS, net, w)),
     net_read = (\<lambda>len T (w, own). bnd (net_read sim_env len T w) (\<lambda>(rc, bs, k, w). Done (rc, bs, k, w, own))),
     net_write = (\<lambda>bs T (w, own). bnd (net_write sim_env bs T w) (\<lambda>(rc, k, w). Done (rc, k, w, own))),
     net_disconnect = (\<lambda>w. Done (SUCCESS, w)),
     net_isConnected = Some (\<lambda>w. (NETWORK_PHYSICAL_LAYER_CONNECTED, w)),
     net_destroy = (\<lambda>w. Done (SUCCESS, w)),
     app_handler = (\<lambda>f c topic len msg d (w, own).
        bnd (app_handler sim_env f c topic len msg d w) (\<lambda>(c, msg, w). Done (c, msg, w, own))),
     disc_handler = (\<lambda>f c d w. Done (c, w)),
     uninit_byte = 0\<rparr>"

interpretation mutex_sim: threaded_client owner_mutexes snd mutex_sim_env D for D
  by unfold_locales (auto simp: io_invariant_def mutex_sim_env_def beside_def split: prod.splits
      intro!: postI)

text \<open>
  C26. No call keeps a mutex: on every path, errors included, changing the client state, sending a packet
  and a read cycle return with every mutex held by whom it was before. For the read cycle the three
  mutexes of the client are free at the start, and the callbacks it makes are entered with them free, so
  a callback may itself use the client.
\<close>

theorem no_mutex_kept:
  assumes "threaded_client P owner E D" and "\<forall>m \<in> client_mutexes D. owner w m = None"
  shows "post (aws_iot_mqtt_set_client_state_mt P D t c e s w) (\<lambda>(rc, c', w'). owner w' = owner w) \<and>
    post (aws_iot_mqtt_internal_send_packet_mt P D t E n c len T w) (\<lambda>(rc, w'). owner w' = owner w) \<and>
    post (aws_iot_mqtt_internal_cycle_read_mt P D t E n c T pt w) (\<lambda>(rc, pt', c', w'). owner w' = owner w)"
  using threaded_client.set_client_state_owner [OF assms(1)] threaded_client.send_packet_owner [OF assms(1)]
    threaded_client.cycle_read_owner [OF assms]
  by blast

theorem no_mutex_kept_witness:
  "let D = \<lparr>isBlockOnThreadLockEnabled = True, state_change_mutex = 0, tls_read_mutex = 1, tls_write_mutex = 2\<rparr>;
       w = (\<lparr>sim_in = [0xD0, 0], sim_out = [], sim_clock = 0, sim_calls = []\<rparr>, \<lambda>m. None);
       r = aws_iot_mqtt_internal_cycle_read_mt owner_mutexes D 7 mutex_sim_env 9 sim_client
             \<lparr>end_time = \<lparr>tv_sec = 5, tv_usec = 0\<rparr>\<rparr> 0 w
   in threaded_client owner_mutexes snd mutex_sim_env D \<and> (\<forall>m \<in> client_mutexes D. snd w m = None) \<and>
      post r (\<lambda>(rc, pt, c', w'). snd w' = snd w)"
  unfolding Let_def
  by (intro conjI mutex_sim.threaded_client_axioms ballI
      no_mutex_kept [OF mutex_sim.threaded_client_axioms, THEN conjunct2, THEN conjunct2]) simp_all

text \<open>
  A change of state that finds the mutex free does what the build without threads does; one that finds it
  held is refused, or blocks, without touching the client.
\<close>

lemma set_client_state_mt_result:
  assumes "posix_mutexes P owner"
  shows "owner w (state_change_mutex D) = None \<Longrightarrow>
      \<exists>w'. aws_iot_mqtt_set_client_state_mt P D t c e s w =
        (case aws_iot_mqtt_set_client_state c e s of (rc, c') \<Rightarrow> Done (rc, c', w'))"
    and "owner w (state_change_mutex D) \<noteq> None \<Longrightarrow>
      if isBlockOnThreadLockEnabled D then aws_iot_mqtt_set_client_state_mt P D t c e s w = NoFuel
      else \<exists>w'. aws_iot_mqtt_set_client_state_mt P D t c e s w = Done (MUTEX_LOCK_ERROR, c, w')"
proof -
  assume free: "owner w (state_change_mutex D) = None"
  obtain w1 where l: "aws_iot_mqtt_client_lock_mutex P D t (Some (state_change_mutex D)) w = Some (SUCCESS, w1)"
      "owner w1 = (owner w)(state_change_mutex D := Some t)"
    using posix_mutexes.client_lock_free [OF assms free] by blast
  obtain w2 where "aws_iot_mqtt_client_unlock_mutex P t (Some (state_change_mutex D)) w1 = (SUCCESS, w2)"
    using posix_mutexes.client_unlock [OF assms, of w1 "state_change_mutex D" t] l(2) by auto
  then show "\<exists>w'. aws_iot_mqtt_set_client_state_mt P D t c e s w =
        (case aws_iot_mqtt_set_client_state c e s of (rc, c') \<Rightarrow> Done (rc, c', w'))"
    using l(1) by (simp add: aws_iot_mqtt_set_client_state_mt_def lock_run_def aws_iot_mqtt_set_client_state_def)
next
  assume "owner w (state_change_mutex D) \<noteq> None"
  note held = posix_mutexes.client_lock_held [OF assms this, of D t]
  show "if isBlockOnThreadLockEnabled D then aws_iot_mqtt_set_client_state_mt P D t c e s w = NoFuel
      else \<exists>w'. aws_iot_mqtt_set_client_state_mt P D t c e s w = Done (MUTEX_LOCK_ERROR, c, w')"
  proof (cases "isBlockOnThreadLockEnabled D")
    case True
    then show ?thesis using held by (simp add: aws_iot_mqtt_set_client_state_mt_def lock_run_def)
  next
    case False
    then obtain w' where "lock_run P D t (state_change_mutex D) w = Done (MUTEX_LOCK_ERROR, w')"
      using held by (auto simp: lock_run_def)
    then have "aws_iot_mqtt_set_client_state_mt P D t c e s w = Done (MUTEX_LOCK_ERROR, c, w')"
      by (simp add: aws_iot_mqtt_set_client_state_mt_def)
    then show ?thesis using False by auto
  qed
qed

text \<open>
  Initialisation with thread support succeeds when the one without does and the three mutexes can be made; it
  then leaves the same client. A mutex that cannot be made leaves the client state as it was.
\<close>

lemma init_mt_result:
  assumes "aws_iot_mqtt_init_mt P D b c ip w = (rc, c', D', w')"
  shows "rc = SUCCESS \<Longrightarrow> aws_iot_mqtt_init c ip = (SUCCESS, c') \<and> D' = D\<lparr>isBlockOnThreadLockEnabled := b\<rparr>"
    and "rc = MUTEX_INIT_ERROR \<Longrightarrow> clientState c' = clientState c"
    and "rc \<notin> {SUCCESS, MUTEX_INIT_ERROR} \<Longrightarrow> aws_iot_mqtt_init c ip = (rc, c')"
  using assms
  by (auto simp: aws_iot_mqtt_init_mt_def aws_iot_mqtt_init_def aws_iot_mqtt_set_connect_params_def Let_def
      aws_iot_thread_mutex_init_def iot_tls_init_def split: option.splits if_splits prod.splits)
end
