(* ===== verification/Thread_Interleaving.thy ===== *)
theory Thread_Interleaving
  imports Threads
begin

text \<open>
  Several threads changing the state of one client. \<open>set_state_step\<close> cuts
  \<open>aws_iot_mqtt_set_client_state\<close> (with thread support) into its accesses to shared memory: lock,
  compare, write, unlock; \<open>step_thread\<close> lets one thread of a configuration make one such step, and a
  schedule is the list of the threads that move. The atomic system makes every call in one step; the
  abstraction \<open>abs_config\<close> relates the two, and the theorems show that the mutex makes the calls atomic
  and that all of them return. \<open>Assign\<close> is a plain assignment to \<open>clientState\<close>, as in
  \<open>aws_iot_mqtt_disconnect\<close> and the disconnect paths of yield, which take no mutex.
\<close>

datatype state_call = Set_State ClientState ClientState | Assign ClientState

datatype call_pc = Waiting | Locked | Compared bool | Answer IoT_Error_t

datatype progress = Next call_pc | Return IoT_Error_t

fun set_state_step :: "'w Pthread \<Rightarrow> Thread_Data \<Rightarrow> thread_id \<Rightarrow> ClientState \<Rightarrow> ClientState \<Rightarrow> call_pc
    \<Rightarrow> AWS_IoT_Client \<Rightarrow> 'w \<Rightarrow> (progress \<times> AWS_IoT_Client \<times> 'w) option" where
  "set_state_step P D t expected new Waiting c w =
     map_option (\<lambda>(rc, w). (if SUCCESS \<noteq> rc then Return rc else Next Locked, c, w))
       (aws_iot_mqtt_client_lock_mutex P D t (Some (state_change_mutex D)) w)"
| "set_state_step P D t expected new Locked c w =
     Some (Next (Compared (expected = aws_iot_mqtt_get_client_state c)), c, w)"
| "set_state_step P D t expected new (Compared equal) c w =
     (if equal then Some (Next (Answer SUCCESS), c\<lparr>clientState := new\<rparr>, w)
      else Some (Next (Answer MQTT_UNEXPECTED_CLIENT_STATE_ERROR), c, w))"
| "set_state_step P D t expected new (Answer rc) c w =
     (case aws_iot_mqtt_client_unlock_mutex P t (Some (state_change_mutex D)) w of (threadRc, w) \<Rightarrow>
      Some (Return (if SUCCESS = rc \<and> SUCCESS \<noteq> threadRc then threadRc else rc), c, w))"

text \<open>A thread: the calls it has still to make, of which the first is at \<open>pc\<close>, and the codes returned.\<close>

record Thread =
  todo :: "state_call list"
  pc :: call_pc
  results :: "IoT_Error_t list"

record 'w Config =
  client :: AWS_IoT_Client
  mutexes :: 'w
  threads :: "Thread list"

definition step_thread :: "'w Pthread \<Rightarrow> Thread_Data \<Rightarrow> thread_id \<Rightarrow> 'w Config \<Rightarrow> 'w Config option" where
  "step_thread P D i x =
     (if length (threads x) \<le> i then None
      else let T = threads x ! i in
      case todo T of [] \<Rightarrow> None
      | Assign s # cs \<Rightarrow> Some (x\<lparr>client := (client x)\<lparr>clientState := s\<rparr>, threads := (threads x)[i := T\<lparr>todo := cs\<rparr>]\<rparr>)
      | Set_State e s # cs \<Rightarrow>
        (case set_state_step P D i e s (pc T) (client x) (mutexes x) of None \<Rightarrow> None
         | Some (Next p, c, w) \<Rightarrow> Some \<lparr>client = c, mutexes = w, threads = (threads x)[i := T\<lparr>pc := p\<rparr>]\<rparr>
         | Some (Return rc, c, w) \<Rightarrow> Some \<lparr>client = c, mutexes = w,
             threads = (threads x)[i := \<lparr>todo = cs, pc = Waiting, results = results T @ [rc]\<rparr>]\<rparr>))"

primrec run_schedule :: "'w Pthread \<Rightarrow> Thread_Data \<Rightarrow> thread_id list \<Rightarrow> 'w Config \<Rightarrow> 'w Config option" where
  "run_schedule P D [] x = Some x"
| "run_schedule P D (i # is) x = Option.bind (step_thread P D i x) (run_schedule P D is)"

definition start_config :: "AWS_IoT_Client \<Rightarrow> 'w \<Rightarrow> state_call list list \<Rightarrow> 'w Config" where
  "start_config c w calls = \<lparr>client = c, mutexes = w,
     threads = map (\<lambda>cs. \<lparr>todo = cs, pc = Waiting, results = []\<rparr>) calls\<rparr>"

subsection \<open>The atomic system\<close>

record Atomic =
  a_client :: AWS_IoT_Client
  a_todo :: "state_call list list"
  a_answers :: "IoT_Error_t list list"

inductive atomic_step :: "bool \<Rightarrow> Atomic \<Rightarrow> Atomic \<Rightarrow> bool" for blocking :: bool where
  change: "i < length (a_todo a) \<Longrightarrow> a_todo a ! i = Set_State e s # cs \<Longrightarrow>
     aws_iot_mqtt_set_client_state (a_client a) e s = (rc, c) \<Longrightarrow>
     atomic_step blocking a \<lparr>a_client = c, a_todo = (a_todo a)[i := cs],
       a_answers = (a_answers a)[i := a_answers a ! i @ [rc]]\<rparr>"
| refuse: "\<not> blocking \<Longrightarrow> i < length (a_todo a) \<Longrightarrow> a_todo a ! i = Set_State e s # cs \<Longrightarrow>
     atomic_step blocking a \<lparr>a_client = a_client a, a_todo = (a_todo a)[i := cs],
       a_answers = (a_answers a)[i := a_answers a ! i @ [MUTEX_LOCK_ERROR]]\<rparr>"

text \<open>A call has taken effect once its answer is known, before it unlocks.\<close>

definition abs_todo :: "Thread \<Rightarrow> state_call list" where
  "abs_todo T = (case pc T of Answer rc \<Rightarrow> tl (todo T) | _ \<Rightarrow> todo T)"

definition abs_answers :: "Thread \<Rightarrow> IoT_Error_t list" where
  "abs_answers T = (case pc T of Answer rc \<Rightarrow> results T @ [rc] | _ \<Rightarrow> results T)"

definition abs_config :: "'w Config \<Rightarrow> Atomic" where
  "abs_config x = \<lparr>a_client = client x, a_todo = map abs_todo (threads x), a_answers = map abs_answers (threads x)\<rparr>"

subsection \<open>The invariant of the interleaving\<close>

definition guarded :: "state_call list \<Rightarrow> bool" where
  "guarded cs = list_all (\<lambda>c. case c of Set_State e s \<Rightarrow> True | Assign s \<Rightarrow> False) cs"

text \<open>
  A thread is past the lock exactly when it owns the mutex; the outcome of its comparison is still true
  of the client; unlocking is all that is left after the answer.
\<close>

definition thread_ok :: "AWS_IoT_Client \<Rightarrow> Thread \<Rightarrow> bool" where
  "thread_ok c T \<longleftrightarrow> guarded (todo T) \<and> (pc T \<noteq> Waiting \<longrightarrow> todo T \<noteq> []) \<and>
     (\<forall>b e s cs. pc T = Compared b \<longrightarrow> todo T = Set_State e s # cs \<longrightarrow> b = (e = clientState c))"

definition config_ok :: "('w \<Rightarrow> mutex \<Rightarrow> thread_id option) \<Rightarrow> Thread_Data \<Rightarrow> 'w Config \<Rightarrow> bool" where
  "config_ok owner D x \<longleftrightarrow>
     (\<forall>i < length (threads x). thread_ok (client x) (threads x ! i) \<and>
        (pc (threads x ! i) \<noteq> Waiting \<longleftrightarrow> owner (mutexes x) (state_change_mutex D) = Some i)) \<and>
     (\<forall>i. owner (mutexes x) (state_change_mutex D) = Some i \<longrightarrow> i < length (threads x))"

text \<open>Shared-memory accesses still to be made, at most.\<close>

definition call_work :: "Thread \<Rightarrow> nat" where
  "call_work T = 4 * length (todo T) - (case pc T of Waiting \<Rightarrow> 0 | Locked \<Rightarrow> 1 | Compared _ \<Rightarrow> 2 | Answer _ \<Rightarrow> 3)"

definition config_work :: "'w Config \<Rightarrow> nat" where
  "config_work x = sum_list (map call_work (threads x))"

definition finished :: "'w Config \<Rightarrow> bool" where
  "finished x \<longleftrightarrow> (\<forall>T \<in> set (threads x). todo T = [])"


subsection \<open>The steps of one thread are the function\<close>

text \<open>
  Run alone, the steps compute \<open>aws_iot_mqtt_set_client_state_mt\<close>: one step when the lock is refused, four
  otherwise, none when the thread blocks.
\<close>

lemma steps_alone:
  fixes P :: "'w Pthread" and D :: Thread_Data and c :: AWS_IoT_Client and w :: 'w and e s :: ClientState
  defines "lock \<equiv> aws_iot_mqtt_client_lock_mutex P D 0 (Some (state_change_mutex D)) w"
    and "call \<equiv> aws_iot_mqtt_set_client_state_mt P D 0 c e s w" and "x \<equiv> start_config c w [[Set_State e s]]"
  shows "lock = None \<Longrightarrow> call = NoFuel \<and> step_thread P D 0 x = None"
    and "lock = Some (rc, w') \<Longrightarrow> rc \<noteq> SUCCESS \<Longrightarrow> call = Done (rc, c, w') \<and>
      run_schedule P D [0] x = Some \<lparr>client = c, mutexes = w', threads = [\<lparr>todo = [], pc = Waiting, results = [rc]\<rparr>]\<rparr>"
    and "lock = Some (SUCCESS, w1) \<Longrightarrow> \<exists>rc c' w'. call = Done (rc, c', w') \<and>
      run_schedule P D [0, 0, 0, 0] x =
        Some \<lparr>client = c', mutexes = w', threads = [\<lparr>todo = [], pc = Waiting, results = [rc]\<rparr>]\<rparr>"
proof -
  assume "lock = Some (SUCCESS, w1)"
  moreover obtain trc w2 where "aws_iot_mqtt_client_unlock_mutex P 0 (Some (state_change_mutex D)) w1 = (trc, w2)"
    by fastforce
  ultimately show "\<exists>rc c' w'. call = Done (rc, c', w') \<and> run_schedule P D [0, 0, 0, 0] x =
        Some \<lparr>client = c', mutexes = w', threads = [\<lparr>todo = [], pc = Waiting, results = [rc]\<rparr>]\<rparr>"
    unfolding lock_def call_def x_def
    by (cases "e = aws_iot_mqtt_get_client_state c")
      (simp_all add: aws_iot_mqtt_set_client_state_mt_def lock_run_def step_thread_def start_config_def)
qed (simp_all add: lock_def call_def x_def aws_iot_mqtt_set_client_state_mt_def lock_run_def step_thread_def start_config_def)

subsection \<open>Lemmas on one step\<close>

text \<open>The ways a guarded thread can move.\<close>

lemma step_threadE:
  assumes "step_thread P D i x = Some y" and "guarded (todo (threads x ! i))"
  obtains (next_pc) e s cs p c w where "i < length (threads x)" "todo (threads x ! i) = Set_State e s # cs"
      "set_state_step P D i e s (pc (threads x ! i)) (client x) (mutexes x) = Some (Next p, c, w)"
      "y = \<lparr>client = c, mutexes = w, threads = (threads x)[i := (threads x ! i)\<lparr>pc := p\<rparr>]\<rparr>"
  | (finish) e s cs rc c w where "i < length (threads x)" "todo (threads x ! i) = Set_State e s # cs"
      "set_state_step P D i e s (pc (threads x ! i)) (client x) (mutexes x) = Some (Return rc, c, w)"
      "y = \<lparr>client = c, mutexes = w, threads =
        (threads x)[i := \<lparr>todo = cs, pc = Waiting, results = results (threads x ! i) @ [rc]\<rparr>]\<rparr>"
  using assms
  by (auto simp: step_thread_def Let_def guarded_def split: if_splits list.splits state_call.splits option.splits progress.splits)

lemma guarded_nonempty: "guarded cs \<Longrightarrow> cs \<noteq> [] \<Longrightarrow> \<exists>e s cs'. cs = Set_State e s # cs'"
  by (cases cs) (auto simp: guarded_def split: state_call.splits)

lemma set_state_step_pc:
  "set_state_step P D t e s p c w = Some (Next q, c', w') \<Longrightarrow>
     (p = Waiting \<and> q = Locked) \<or> (p = Locked \<and> (\<exists>b. q = Compared b)) \<or> (\<exists>b rc. p = Compared b \<and> q = Answer rc)"
  "set_state_step P D t e s p c w = Some (Return r, c', w') \<Longrightarrow> p = Waiting \<or> (\<exists>rc. p = Answer rc)"
  by (cases p; auto split: if_splits prod.splits)+

lemma thread_update_ok:
  assumes "config_ok owner D x" "i < length (threads x)"
    and "thread_ok c T" "pc T \<noteq> Waiting \<longleftrightarrow> owner w (state_change_mutex D) = Some i"
    and "\<And>j. j \<noteq> i \<Longrightarrow> owner w (state_change_mutex D) = Some j \<longleftrightarrow> owner (mutexes x) (state_change_mutex D) = Some j"
    and "clientState c \<noteq> clientState (client x) \<Longrightarrow> owner (mutexes x) (state_change_mutex D) = Some i"
  shows "config_ok owner D \<lparr>client = c, mutexes = w, threads = (threads x)[i := T]\<rparr>"
proof -
  have other: "thread_ok c (threads x ! j)" if "j < length (threads x)" "j \<noteq> i" for j
  proof (cases "clientState c = clientState (client x)")
    case True
    then show ?thesis using assms(1) that by (simp add: config_ok_def thread_ok_def)
  next
    case False
    then have "pc (threads x ! j) = Waiting"
      using assms(1) assms(6) [OF False] that by (auto simp: config_ok_def)
    then show ?thesis using assms(1) that by (simp add: config_ok_def thread_ok_def)
  qed
  have "j < length (threads x)" if "owner w (state_change_mutex D) = Some j" for j
    using that assms(1,2,5) by (cases "j = i") (auto simp: config_ok_def)
  then show ?thesis
    using assms(1-5) other by (auto simp: config_ok_def nth_list_update)
qed

context posix_mutexes
begin

text \<open>What one step of a call does to the mutex and to the client.\<close>

lemma set_state_step_cases:
  assumes "set_state_step P D t e s p c w = Some (r, c', w')"
    and "p \<noteq> Waiting \<longleftrightarrow> owner w (state_change_mutex D) = Some t"
  obtains (lock) "p = Waiting" "r = Next Locked" "c' = c" "owner w (state_change_mutex D) = None"
      "owner w' = (owner w)(state_change_mutex D := Some t)"
  | (refused) "p = Waiting" "r = Return MUTEX_LOCK_ERROR" "c' = c" "\<not> isBlockOnThreadLockEnabled D" "owner w' = owner w"
  | (compare) "p = Locked" "r = Next (Compared (e = clientState c))" "c' = c" "w' = w"
  | (answer) b where "p = Compared b" "w' = w"
      "r = Next (Answer (if b then SUCCESS else MQTT_UNEXPECTED_CLIENT_STATE_ERROR))"
      "c' = (if b then c\<lparr>clientState := s\<rparr> else c)"
  | (unlock) rc where "p = Answer rc" "r = Return rc" "c' = c" "owner w' = (owner w)(state_change_mutex D := None)"
proof (cases p)
  case Waiting
  then obtain rc where l: "aws_iot_mqtt_client_lock_mutex P D t (Some (state_change_mutex D)) w = Some (rc, w')"
      "r = (if SUCCESS \<noteq> rc then Return rc else Next Locked)" "c' = c"
    using assms(1) by auto
  from l(1) show ?thesis
    by (cases rule: client_lockE) (use Waiting l in \<open>simp_all add: lock refused\<close>)
next
  case Locked
  then show ?thesis using assms(1) by (intro compare) (auto simp: aws_iot_mqtt_get_client_state_def)
next
  case (Compared b)
  then show ?thesis using assms(1) by (intro answer) (auto split: if_splits)
next
  case (Answer rc)
  then obtain w1 where "aws_iot_mqtt_client_unlock_mutex P t (Some (state_change_mutex D)) w = (SUCCESS, w1)"
      "owner w1 = (owner w)(state_change_mutex D := None)"
    using client_unlock [of w "state_change_mutex D" t] assms(2) by auto
  then show ?thesis using Answer assms(1) by (intro unlock) auto
qed

lemma step_thread_ok:
  assumes ok: "config_ok owner D x" and step: "step_thread P D i x = Some y"
  shows "config_ok owner D y"
proof -
  have i: "i < length (threads x)" using step by (auto simp: step_thread_def split: if_splits)
  let ?T = "threads x ! i"
  have T: "thread_ok (client x) ?T" and pc: "pc ?T \<noteq> Waiting \<longleftrightarrow> owner (mutexes x) (state_change_mutex D) = Some i"
    using ok i by (auto simp: config_ok_def)
  have g: "guarded (todo ?T)" using T by (simp add: thread_ok_def)
  from step g show ?thesis
  proof (cases rule: step_threadE)
    case (next_pc e s cs p c w)
    from next_pc(3) pc show ?thesis
      by (cases rule: set_state_step_cases)
        (use T g pc in \<open>auto simp: next_pc(2,4) thread_ok_def intro!: thread_update_ok [OF ok i]\<close>)
  next
    case (finish e s cs rc c w)
    have "guarded cs" using g by (simp add: finish(2) guarded_def)
    from finish(3) pc show ?thesis
      by (cases rule: set_state_step_cases)
        (use pc in \<open>auto simp: finish(4) \<open>guarded cs\<close> thread_ok_def intro!: thread_update_ok [OF ok i]\<close>)
  qed
qed

text \<open>The abstraction: every step is invisible or one atomic step of the thread that moves.\<close>

lemma step_thread_simulates:
  assumes ok: "config_ok owner D x" and step: "step_thread P D i x = Some y"
  shows "abs_config y = abs_config x \<or> atomic_step (isBlockOnThreadLockEnabled D) (abs_config x) (abs_config y)"
proof -
  have i: "i < length (threads x)" using step by (auto simp: step_thread_def split: if_splits)
  let ?T = "threads x ! i"
  have T: "thread_ok (client x) ?T" and pc: "pc ?T \<noteq> Waiting \<longleftrightarrow> owner (mutexes x) (state_change_mutex D) = Some i"
    using ok i by (auto simp: config_ok_def)
  have g: "guarded (todo ?T)" using T by (simp add: thread_ok_def)
  have abs: "abs_config \<lparr>client = c, mutexes = w, threads = (threads x)[i := T']\<rparr> =
      \<lparr>a_client = c, a_todo = (a_todo (abs_config x))[i := abs_todo T'],
       a_answers = (a_answers (abs_config x))[i := abs_answers T']\<rparr>" for c w T'
    by (simp add: abs_config_def map_update)
  have same: "abs_config \<lparr>client = client x, mutexes = w, threads = (threads x)[i := T']\<rparr> = abs_config x"
    if "abs_todo T' = abs_todo ?T" "abs_answers T' = abs_answers ?T" for w T'
    using that i by (simp add: abs_config_def map_update list_update_same_conv)
  have nth: "a_todo (abs_config x) ! i = abs_todo ?T" "a_answers (abs_config x) ! i = abs_answers ?T"
      "i < length (a_todo (abs_config x))" "a_client (abs_config x) = client x"
    using i by (simp_all add: abs_config_def)
  note change = atomic_step.change [of i "abs_config x", unfolded nth]
  note refuse = atomic_step.refuse [of _ i "abs_config x", unfolded nth]
  from step g show ?thesis
  proof (cases rule: step_threadE)
    case (next_pc e s cs p c w)
    from next_pc(3) pc show ?thesis
    proof (cases rule: set_state_step_cases)
      case (answer b)
      then have "b = (e = clientState (client x))" using T next_pc(2) by (auto simp: thread_ok_def)
      then have "aws_iot_mqtt_set_client_state (client x) e s =
          (if b then SUCCESS else MQTT_UNEXPECTED_CLIENT_STATE_ERROR, c)"
        using answer by (simp add: aws_iot_mqtt_set_client_state_def aws_iot_mqtt_get_client_state_def)
      from change [OF nth(3) _ this] answer next_pc(2,4) show ?thesis
        by (simp add: abs abs_todo_def abs_answers_def)
    qed (use next_pc(2,4) in \<open>auto simp: abs_todo_def abs_answers_def intro!: same\<close>)
  next
    case (finish e s cs rc c w)
    from finish(3) pc show ?thesis
    proof (cases rule: set_state_step_cases)
      case refused
      then show ?thesis
        using refuse [of "isBlockOnThreadLockEnabled D" e s cs] finish(2,4) nth(3)
        by (simp add: abs abs_todo_def abs_answers_def)
    qed (use finish(2,4) in \<open>auto simp: abs_todo_def abs_answers_def intro!: same\<close>)
  qed
qed

lemma run_schedule_simulates:
  assumes "config_ok owner D x" "run_schedule P D is x = Some y"
  shows "config_ok owner D y \<and> (atomic_step (isBlockOnThreadLockEnabled D))\<^sup>*\<^sup>* (abs_config x) (abs_config y)"
  using assms
proof (induction "is" arbitrary: x)
  case (Cons i "is")
  then obtain x1 where x1: "step_thread P D i x = Some x1" "run_schedule P D is x1 = Some y"
    by (auto simp: Option.bind_eq_Some_conv)
  have "(atomic_step (isBlockOnThreadLockEnabled D))\<^sup>*\<^sup>* (abs_config x) (abs_config x1)"
    using step_thread_simulates [OF Cons.prems(1) x1(1)] by auto
  then show ?case
    using Cons.IH [OF step_thread_ok [OF Cons.prems(1) x1(1)] x1(2)] by (auto intro: rtranclp_trans)
qed simp

text \<open>A thread that has not finished: the owner of the mutex can move, and if there is none, any thread.\<close>

lemma owner_moves:
  assumes "config_ok owner D x" "owner (mutexes x) (state_change_mutex D) = Some i"
  shows "step_thread P D i x \<noteq> None"
proof -
  have i: "i < length (threads x)" "pc (threads x ! i) \<noteq> Waiting" "thread_ok (client x) (threads x ! i)"
    using assms by (auto simp: config_ok_def)
  then obtain e s cs where "todo (threads x ! i) = Set_State e s # cs"
    using guarded_nonempty [of "todo (threads x ! i)"] by (auto simp: thread_ok_def)
  then show ?thesis
    using i(1,2) by (cases "pc (threads x ! i)") (auto simp: step_thread_def Let_def split: prod.splits)
qed

lemma unfinished_moves:
  assumes ok: "config_ok owner D x" and "\<not> finished x"
  shows "\<exists>i y. step_thread P D i x = Some y"
proof (cases "owner (mutexes x) (state_change_mutex D)")
  case None
  obtain i where i: "i < length (threads x)" "todo (threads x ! i) \<noteq> []"
    using assms(2) by (auto simp: finished_def in_set_conv_nth)
  have T: "thread_ok (client x) (threads x ! i)" "pc (threads x ! i) = Waiting"
    using ok i(1) None by (auto simp: config_ok_def)
  then obtain e s cs where "todo (threads x ! i) = Set_State e s # cs"
    using i(2) guarded_nonempty [of "todo (threads x ! i)"] by (auto simp: thread_ok_def)
  then have "step_thread P D i x \<noteq> None"
    using i(1) T(2) client_lock_free [OF None, of D i] by (auto simp: step_thread_def Let_def)
  then show ?thesis by blast
next
  case (Some i)
  then show ?thesis using owner_moves [OF ok] by blast
qed

end

subsection \<open>Every call returns\<close>

lemma step_thread_work:
  assumes step: "step_thread P D i x = Some y" and ok: "thread_ok (client x) (threads x ! i)"
  shows "config_work y < config_work x"
proof -
  have i: "i < length (threads x)" using step by (auto simp: step_thread_def split: if_splits)
  have g: "guarded (todo (threads x ! i))" using ok by (simp add: thread_ok_def)
  have less: "config_work \<lparr>client = c, mutexes = w, threads = (threads x)[i := T]\<rparr> < config_work x"
    if "call_work T < call_work (threads x ! i)" for c w T
    using that i elem_le_sum_list [of i "map call_work (threads x)"]
    by (simp add: config_work_def map_update sum_list_update)
  from step g show ?thesis
  proof (cases rule: step_threadE)
    case (next_pc e s cs p c w)
    then show ?thesis
      by (auto simp: call_work_def dest!: set_state_step_pc(1) intro!: less)
  next
    case (finish e s cs rc c w)
    then show ?thesis
      by (auto simp: call_work_def dest!: set_state_step_pc(2) intro!: less)
  qed
qed

lemma step_thread_calls:
  assumes step: "step_thread P D i x = Some y" and g: "guarded (todo (threads x ! i))"
  shows "map (\<lambda>T. length (results T) + length (todo T)) (threads y) =
    map (\<lambda>T. length (results T) + length (todo T)) (threads x)"
  using assms
  by (cases rule: step_threadE) (simp_all add: map_update list_update_same_conv)


lemma finished_stuck: "finished x \<Longrightarrow> step_thread P D i x = None"
  using nth_mem [of i "threads x"] by (auto simp: finished_def step_thread_def Let_def)

context posix_mutexes
begin

lemma runs_are_bounded:
  assumes "config_ok owner D x" "run_schedule P D is x = Some y"
  shows "length is + config_work y \<le> config_work x \<and>
    map (\<lambda>T. length (results T) + length (todo T)) (threads y) =
    map (\<lambda>T. length (results T) + length (todo T)) (threads x)"
  using assms
proof (induction "is" arbitrary: x)
  case (Cons i "is")
  then obtain x1 where x1: "step_thread P D i x = Some x1" "run_schedule P D is x1 = Some y"
    by (auto simp: Option.bind_eq_Some_conv)
  have "thread_ok (client x) (threads x ! i)"
    using Cons.prems(1) x1(1) by (auto simp: config_ok_def step_thread_def split: if_splits)
  then show ?case
    using Cons.IH [OF step_thread_ok [OF Cons.prems(1) x1(1)] x1(2)]
      step_thread_work [OF x1(1)] step_thread_calls [OF x1(1)]
    by (simp add: thread_ok_def)
qed simp

lemma can_finish:
  assumes "config_ok owner D x"
  shows "\<exists>is y. run_schedule P D is x = Some y \<and> finished y"
  using assms
proof (induction "config_work x" arbitrary: x rule: less_induct)
  case less
  show ?case
  proof (cases "finished x")
    case True
    then show ?thesis by (auto intro: exI [of _ "[]"])
  next
    case False
    then obtain i x1 where x1: "step_thread P D i x = Some x1" using unfinished_moves [OF less.prems] by blast
    have "thread_ok (client x) (threads x ! i)"
      using less.prems x1 by (auto simp: config_ok_def step_thread_def split: if_splits)
    then obtain "is" y where "run_schedule P D is x1 = Some y" "finished y"
      using less.hyps [OF step_thread_work [OF x1] step_thread_ok [OF less.prems x1]] by blast
    then show ?thesis using x1 by (intro exI [of _ "i # is"]) auto
  qed
qed

lemma start_config_ok:
  assumes "owner w (state_change_mutex D) = None" "list_all guarded calls"
  shows "config_ok owner D (start_config c w calls)"
  using assms by (auto simp: config_ok_def start_config_def thread_ok_def list_all_length)

end

subsection \<open>Competing for the same state\<close>

text \<open>Calls that all leave the same state \<open>s0\<close> for another one.\<close>

definition claims :: "ClientState \<Rightarrow> state_call list \<Rightarrow> bool" where
  "claims s0 cs = list_all (\<lambda>c. case c of Set_State e s \<Rightarrow> e = s0 \<and> s \<noteq> s0 | Assign s \<Rightarrow> False) cs"

definition wins :: "IoT_Error_t list list \<Rightarrow> nat" where
  "wins rs = sum_list (map (\<lambda>r. count_list r SUCCESS) rs)"

lemma claims_guarded: "claims s0 cs \<Longrightarrow> guarded cs"
  by (auto simp: claims_def guarded_def list_all_iff split: state_call.splits)

lemma wins_update:
  "i < length rs \<Longrightarrow> wins (rs[i := rs ! i @ [rc]]) = wins rs + (if rc = SUCCESS then 1 else 0)"
  using elem_le_sum_list [of i "map (\<lambda>r. count_list r SUCCESS) rs"]
  by (simp add: wins_def map_update sum_list_update)

lemma claims_Cons [simp]: "claims s0 (Set_State e s # cs) \<longleftrightarrow> e = s0 \<and> s \<noteq> s0 \<and> claims s0 cs"
  by (simp add: claims_def)

lemma atomic_wins:
  assumes "(atomic_step b)\<^sup>*\<^sup>* a a'"
    and "list_all (claims s0) (a_todo a)" "length (a_answers a) = length (a_todo a)" "wins (a_answers a) = 0"
  shows "list_all (claims s0) (a_todo a') \<and> length (a_answers a') = length (a_todo a') \<and> wins (a_answers a') \<le> 1 \<and>
    (clientState (a_client a') = s0 \<longrightarrow> wins (a_answers a') = 0)"
  using assms
proof (induction rule: rtranclp_induct)
  case (step a1 a2)
  have cl: "claims s0 (a_todo a1 ! i)" if "i < length (a_todo a1)" for i
    using step.IH [OF step.prems] that by (simp add: list_all_length)
  from step.hyps(2) step.IH [OF step.prems] show ?case
    by (cases rule: atomic_step.cases)
      (auto simp: wins_update aws_iot_mqtt_set_client_state_def aws_iot_mqtt_get_client_state_def
        split: if_splits intro!: list_all_update dest!: cl)
qed auto

lemma wins_results_le: "wins (map results (threads x)) \<le> wins (a_answers (abs_config x))"
  unfolding wins_def abs_config_def
  by (auto simp: o_def abs_answers_def intro!: sum_list_mono split: call_pc.splits)

subsection \<open>A run of two threads\<close>

text \<open>The second thread tries the lock while the first holds it, and is refused.\<close>

definition two_threads :: Thread_Data where
  "two_threads = \<lparr>isBlockOnThreadLockEnabled = False, state_change_mutex = 0, tls_read_mutex = 1, tls_write_mutex = 2\<rparr>"

definition two_calls :: "state_call list list" where
  "two_calls = [[Set_State CLIENT_STATE_CONNECTED_IDLE CLIENT_STATE_CONNECTED_PUBLISH_IN_PROGRESS],
                [Set_State CLIENT_STATE_CONNECTED_IDLE CLIENT_STATE_CONNECTED_YIELD_IN_PROGRESS]]"

definition two_start :: "(unit \<times> (mutex \<Rightarrow> thread_id option)) Config" where
  "two_start = start_config (sim_client\<lparr>clientState := CLIENT_STATE_CONNECTED_IDLE\<rparr>) ((), \<lambda>m. None) two_calls"

definition two_end :: "(unit \<times> (mutex \<Rightarrow> thread_id option)) Config" where
  "two_end = \<lparr>client = sim_client\<lparr>clientState := CLIENT_STATE_CONNECTED_PUBLISH_IN_PROGRESS\<rparr>,
     mutexes = ((), \<lambda>m. None),
     threads = [\<lparr>todo = [], pc = Waiting, results = [SUCCESS]\<rparr>, \<lparr>todo = [], pc = Waiting, results = [MUTEX_LOCK_ERROR]\<rparr>]\<rparr>"

lemma two_run: "run_schedule owner_mutexes two_threads [0, 0, 1, 0, 0] two_start = Some two_end"
  by (simp add: two_end_def two_start_def two_calls_def two_threads_def start_config_def step_thread_def owner_mutexes_def
      aws_iot_mqtt_client_lock_mutex_def aws_iot_mqtt_client_unlock_mutex_def aws_iot_thread_mutex_trylock_def
      aws_iot_thread_mutex_unlock_def aws_iot_mqtt_get_client_state_def)

lemma two_hyps: "snd ((), \<lambda>m. None) (state_change_mutex two_threads) = None"
  "list_all (claims CLIENT_STATE_CONNECTED_IDLE) two_calls" "list_all guarded two_calls"
  by (simp_all add: two_calls_def guarded_def claims_def)

subsection \<open>Properties\<close>

text \<open>
  C11. The mutex makes changing the client state atomic. Whatever the schedule, a configuration reached by
  threads that change the state of a client with \<open>aws_iot_mqtt_set_client_state\<close> abstracts to one the atomic
  system reaches, in which every call is one uninterrupted compare-and-set of the build without
  threads, or, without the blocking option, is refused with the lock error and no effect. The client is the same in
  both, and in between no two threads are past the lock.
\<close>

theorem set_client_state_atomic:
  assumes "posix_mutexes P owner" and "owner w (state_change_mutex D) = None" and "list_all guarded calls"
    and "run_schedule P D is (start_config c w calls) = Some x"
  shows "(atomic_step (isBlockOnThreadLockEnabled D))\<^sup>*\<^sup>* (abs_config (start_config c w calls)) (abs_config x) \<and>
    a_client (abs_config x) = client x \<and>
    (\<forall>i j. i < length (threads x) \<and> j < length (threads x) \<and> pc (threads x ! i) \<noteq> Waiting \<and> pc (threads x ! j) \<noteq> Waiting \<longrightarrow>
       i = j)"
proof -
  note run = posix_mutexes.run_schedule_simulates [OF assms(1)
      posix_mutexes.start_config_ok [OF assms(1-3)] assms(4)]
  then have "config_ok owner D x" ..
  then have "i = j" if "i < length (threads x)" "j < length (threads x)"
      "pc (threads x ! i) \<noteq> Waiting" "pc (threads x ! j) \<noteq> Waiting" for i j
    using that unfolding config_ok_def by (metis option.inject)
  with run show ?thesis by (simp add: abs_config_def)
qed

theorem set_client_state_atomic_witness:
  "run_schedule owner_mutexes two_threads [0, 0, 1, 0, 0] two_start = Some two_end \<and>
     (atomic_step (isBlockOnThreadLockEnabled two_threads))\<^sup>*\<^sup>* (abs_config two_start) (abs_config two_end) \<and>
     a_answers (abs_config two_end) = [[SUCCESS], [MUTEX_LOCK_ERROR]]"
  using set_client_state_atomic [OF owner_map.posix_mutexes_axioms two_hyps(1,3),
      OF two_run [unfolded two_start_def], folded two_start_def]
  by (intro conjI two_run) (simp_all add: two_end_def abs_config_def abs_answers_def)

text \<open>
  Every call returns. No schedule of guarded threads is longer than four steps per call; from any
  configuration reached, some schedule makes all threads finish, so there is no deadlock; and a finished
  configuration has exactly one code for every call.
\<close>

theorem set_client_state_returns:
  assumes "posix_mutexes P owner" and "owner w (state_change_mutex D) = None" and "list_all guarded calls"
    and "run_schedule P D is (start_config c w calls) = Some x"
  shows "length is \<le> 4 * sum_list (map length calls) \<and>
    (\<exists>js y. run_schedule P D js x = Some y \<and> finished y) \<and>
    (finished x \<longrightarrow> map (\<lambda>T. length (results T)) (threads x) = map length calls) \<and>
    (finished x \<longleftrightarrow> (\<forall>i. step_thread P D i x = None))"
proof -
  note ok0 = posix_mutexes.start_config_ok [OF assms(1-3), of c]
  note b = posix_mutexes.runs_are_bounded [OF assms(1) ok0 assms(4)]
  have ok: "config_ok owner D x"
    using posix_mutexes.run_schedule_simulates [OF assms(1) ok0 assms(4)] by blast
  have "config_work (start_config c w calls) = 4 * sum_list (map length calls)"
    by (simp add: config_work_def start_config_def call_work_def o_def sum_list_const_mult)
  then have "length is \<le> 4 * sum_list (map length calls)" using b by simp
  moreover have "map (\<lambda>T. length (results T)) (threads x) = map length calls" if "finished x"
  proof -
    have "map (\<lambda>T. length (results T)) (threads x) = map (\<lambda>T. length (results T) + length (todo T)) (threads x)"
      using that by (simp add: finished_def)
    also have "\<dots> = map length calls" using b by (simp add: start_config_def o_def)
    finally show ?thesis .
  qed
  moreover have "finished x \<longleftrightarrow> (\<forall>i. step_thread P D i x = None)"
    using posix_mutexes.unfinished_moves [OF assms(1) ok] finished_stuck by fastforce
  ultimately show ?thesis
    using posix_mutexes.can_finish [OF assms(1) ok] by blast
qed

theorem set_client_state_returns_witness:
  "run_schedule owner_mutexes two_threads [0, 0, 1, 0, 0] two_start = Some two_end \<and> finished two_end \<and>
     (\<forall>i. step_thread owner_mutexes two_threads i two_end = None)"
proof -
  have "finished two_end" by (simp add: two_end_def finished_def)
  then show ?thesis
    using set_client_state_returns [OF owner_map.posix_mutexes_axioms two_hyps(1,3),
      OF two_run [unfolded two_start_def]] two_run
    by blast
qed




text \<open>
  A plain assignment to the client state, which disconnect and the disconnect paths of yield make without the
  mutex, can be lost. A thread compares the state, another assigns, the first then writes: its call succeeds and
  the assignment is gone. In either order of the two without interruption the assigned state
  survives, or the call fails.
\<close>

theorem unlocked_assignment_lost:
  assumes "posix_mutexes P owner" and "owner w (state_change_mutex D) = None" and "s' \<noteq> e"
  shows "let start = start_config (c\<lparr>clientState := e\<rparr>) w [[Set_State e s], [Assign s']] in
    (\<exists>x. run_schedule P D [0, 0, 1, 0, 0] start = Some x \<and> clientState (client x) = s \<and>
       map results (threads x) = [[SUCCESS], []] \<and> finished x) \<and>
    (\<exists>x. run_schedule P D [0, 0, 0, 0, 1] start = Some x \<and> clientState (client x) = s' \<and>
       map results (threads x) = [[SUCCESS], []] \<and> finished x) \<and>
    (\<exists>x. run_schedule P D [1, 0, 0, 0, 0] start = Some x \<and> clientState (client x) = s' \<and>
       map results (threads x) = [[MQTT_UNEXPECTED_CLIENT_STATE_ERROR], []] \<and> finished x)"
proof -
  obtain w1 where l: "aws_iot_mqtt_client_lock_mutex P D 0 (Some (state_change_mutex D)) w = Some (SUCCESS, w1)"
      "owner w1 = (owner w)(state_change_mutex D := Some 0)"
    using posix_mutexes.client_lock_free [OF assms(1,2)] by blast
  obtain w2 where "aws_iot_mqtt_client_unlock_mutex P 0 (Some (state_change_mutex D)) w1 = (SUCCESS, w2)"
    using posix_mutexes.client_unlock [OF assms(1), of w1 "state_change_mutex D" 0] l(2) by auto
  with l(1) assms(3) show ?thesis
    by (simp add: start_config_def step_thread_def finished_def aws_iot_mqtt_get_client_state_def)
qed

theorem unlocked_assignment_lost_witness:
  "\<exists>x. run_schedule owner_mutexes two_threads [0, 0, 1, 0, 0] (start_config
       (sim_client\<lparr>clientState := CLIENT_STATE_CONNECTED_IDLE\<rparr>) ((), \<lambda>m. None)
       [[Set_State CLIENT_STATE_CONNECTED_IDLE CLIENT_STATE_CONNECTED_PUBLISH_IN_PROGRESS],
        [Assign CLIENT_STATE_DISCONNECTED_ERROR]]) = Some x \<and>
     clientState (client x) = CLIENT_STATE_CONNECTED_PUBLISH_IN_PROGRESS"
  using unlocked_assignment_lost [OF owner_map.posix_mutexes_axioms two_hyps(1), of CLIENT_STATE_DISCONNECTED_ERROR
      CLIENT_STATE_CONNECTED_IDLE sim_client CLIENT_STATE_CONNECTED_PUBLISH_IN_PROGRESS]
  unfolding Let_def by blast

end
