(* ===== verification/Tirtos_Timer.thy ===== *)
theory Tirtos_Timer
  imports Prelude
begin

text \<open>
  The timer of the TI-RTOS platform (src/platform/tirtos/timer.c): a timer is a start and a length in
  ticks of a 32-bit counter that wraps around. \<open>Clock_tickPeriod\<close>, the length of a tick in microseconds, and the
  reading \<open>now\<close> of \<open>Clock_getTicks\<close> are arguments. A failed \<open>Assert_isTrue\<close> is \<open>None\<close>. Reading a timer
  may change it, so \<open>left_ms_tirtos\<close> and \<open>has_timer_expired_tirtos\<close> return the timer too.
\<close>

definition TIRTOS_MAX_TIMEOUT_MS :: u32 where "TIRTOS_MAX_TIMEOUT_MS = 4000000"

definition TIRTOS_MAX_TIMEOUT_SEC :: u32 where "TIRTOS_MAX_TIMEOUT_SEC = 4000"

record Timer_tirtos =
  tick_start :: u32
  tick_length :: u32

definition ticksToMs :: "u32 \<Rightarrow> u32 \<Rightarrow> u32" where
  "ticksToMs Clock_tickPeriod ticks = (if Clock_tickPeriod = 1000 then ticks else (ticks * Clock_tickPeriod) div 1000)"

definition msToTicks :: "u32 \<Rightarrow> u32 \<Rightarrow> u32" where
  "msToTicks Clock_tickPeriod ms = (if Clock_tickPeriod = 1000 then ms else (ms * 1000) div Clock_tickPeriod)"

definition left_ms_tirtos :: "u32 \<Rightarrow> u32 \<Rightarrow> Timer_tirtos \<Rightarrow> u32 \<times> Timer_tirtos" where
  "left_ms_tirtos period now timer =
     (let diff = now - tick_start timer in
      if tick_length timer \<le> diff then (0, timer\<lparr>tick_length := 0\<rparr>)
      else (ticksToMs period (tick_length timer - diff), timer))"

definition has_timer_expired_tirtos :: "u32 \<Rightarrow> u32 \<Rightarrow> Timer_tirtos \<Rightarrow> bool \<times> Timer_tirtos" where
  "has_timer_expired_tirtos period now timer =
     (case left_ms_tirtos period now timer of (left, timer) \<Rightarrow> (left = 0, timer))"

definition countdown_ms_tirtos :: "u32 \<Rightarrow> u32 \<Rightarrow> u32 \<Rightarrow> Timer_tirtos option" where
  "countdown_ms_tirtos period now tms =
     (if tms < TIRTOS_MAX_TIMEOUT_MS then Some \<lparr>tick_start = now, tick_length = msToTicks period tms\<rparr> else None)"

definition countdown_sec_tirtos :: "u32 \<Rightarrow> u32 \<Rightarrow> u32 \<Rightarrow> Timer_tirtos option" where
  "countdown_sec_tirtos period now tsec =
     (if tsec < TIRTOS_MAX_TIMEOUT_SEC then countdown_ms_tirtos period now (tsec * 1000) else None)"

definition init_timer_tirtos :: Timer_tirtos where
  "init_timer_tirtos = \<lparr>tick_start = 0, tick_length = 0\<rparr>"

subsection \<open>No conversion overflows\<close>

lemma uint_less_4000000: "(tms :: u32) < TIRTOS_MAX_TIMEOUT_MS \<longleftrightarrow> uint tms < 4000000"
  by (simp add: TIRTOS_MAX_TIMEOUT_MS_def word_less_def)

lemma msToTicks_exact:
  assumes "tms < TIRTOS_MAX_TIMEOUT_MS" "0 < uint period"
  shows "uint (msToTicks period tms) = uint tms * 1000 div uint period"
proof (cases "period = 1000")
  case True
  then show ?thesis by (simp add: msToTicks_def)
next
  case False
  have "uint tms * 1000 < 2 ^ 32" using assms(1) by (simp add: uint_less_4000000)
  then have "uint (tms * 1000) = uint tms * 1000" by (simp add: uint_word_ariths)
  then show ?thesis using False by (simp add: msToTicks_def uint_div)
qed

lemma ticksToMs_exact:
  assumes "uint ticks * uint period < 2 ^ 32"
  shows "uint (ticksToMs period ticks) = uint ticks * uint period div 1000"
proof (cases "period = 1000")
  case True
  then show ?thesis by (simp add: ticksToMs_def)
next
  case False
  have "uint (ticks * period) = uint ticks * uint period" using assms by (simp add: uint_word_ariths)
  then show ?thesis using False by (simp add: ticksToMs_def uint_div)
qed

text \<open>The counter after \<open>k\<close> more ticks, however often it wrapped before.\<close>

lemma ticks_elapsed: "k < 2 ^ 32 \<Longrightarrow> uint ((of_nat (T + k) :: u32) - of_nat T) = int k"
  by (simp add: unsigned_of_nat take_bit_eq_mod)

text \<open>The length of a timer in whole ticks.\<close>

definition timer_ticks :: "u32 \<Rightarrow> u32 \<Rightarrow> int" where
  "timer_ticks period tms = uint tms * 1000 div uint period"

lemma timer_ticks_bounds:
  assumes "0 < uint period"
  shows "timer_ticks period tms * uint period \<le> uint tms * 1000"
    and "uint tms * 1000 < timer_ticks period tms * uint period + uint period"
  using div_mult_mod_eq [of "uint tms * 1000" "uint period"] pos_mod_bound [OF assms, of "uint tms * 1000"]
    pos_mod_sign [OF assms, of "uint tms * 1000"]
  by (simp_all only: timer_ticks_def)

lemma left_ms_tirtos_exact:
  fixes k T :: nat
  assumes tms: "tms < TIRTOS_MAX_TIMEOUT_MS" and p: "0 < uint period" and k: "k < 2 ^ 32"
  shows "uint (fst (left_ms_tirtos period (of_nat (T + k)) \<lparr>tick_start = of_nat T, tick_length = msToTicks period tms\<rparr>)) =
    max 0 ((timer_ticks period tms - int k) * uint period div 1000)"
proof -
  let ?L = "msToTicks period tms" and ?d = "(of_nat (T + k) :: u32) - of_nat T"
  have L: "uint ?L = timer_ticks period tms" using msToTicks_exact [OF tms p] by (simp add: timer_ticks_def)
  have d: "uint ?d = int k" by (rule ticks_elapsed [OF k])
  show ?thesis
  proof (cases "?L \<le> ?d")
    case True
    then have "timer_ticks period tms - int k \<le> 0" using L d by (simp add: word_le_def)
    then have "(timer_ticks period tms - int k) * uint period div 1000 \<le> 0"
      using p by (smt (verit) mult_nonneg_nonneg mult_minus_left div_neg_pos_less0 div_0)
    with True show ?thesis by (simp add: left_ms_tirtos_def Let_def)
  next
    case False
    then have lt: "int k < timer_ticks period tms" using L d by (simp add: word_le_def not_le)
    have diff: "uint (?L - ?d) = timer_ticks period tms - int k"
      using False L d by (metis linear uint_minus_simple_alt)
    note timer_ticks_bounds(1) [OF p, of tms]
    moreover have "(timer_ticks period tms - int k) * uint period \<le> timer_ticks period tms * uint period"
      using p by simp
    moreover have "uint tms < 4000000" using tms by (simp add: uint_less_4000000)
    ultimately have "(timer_ticks period tms - int k) * uint period < 2 ^ 32" by simp
    from ticksToMs_exact [of "?L - ?d" period, unfolded diff, OF this] lt p False
    show ?thesis by (simp add: left_ms_tirtos_def Let_def pos_imp_zdiv_nonneg_iff)
  qed
qed

subsection \<open>Properties\<close>

text \<open>
  C35. The TI-RTOS timer works across a wrap-around of the tick counter: set for \<open>tms\<close> milliseconds and read
  \<open>k\<close> ticks later (fewer than a full turn of the counter), \<open>left_ms\<close> is the time that remains, with no
  overflow in either conversion; the timer has expired once \<open>tms\<close> milliseconds have passed, and never
  earlier than by a tick and a millisecond. Once its ticks have passed and it has been read it stays expired, however far the counter goes.
\<close>

theorem tirtos_timer_correct:
  fixes k T :: nat
  assumes set: "countdown_ms_tirtos period (of_nat T) tms = Some t" and p: "0 < uint period" and k: "k < 2 ^ 32"
    and rd: "left_ms_tirtos period (of_nat (T + k)) t = (left, t')"
    and ex: "has_timer_expired_tirtos period (of_nat (T + k)) t = (expired, t'')"
  shows "uint left = max 0 ((timer_ticks period tms - int k) * uint period div 1000) \<and> t'' = t' \<and>
    (uint tms * 1000 \<le> int k * uint period \<longrightarrow> expired) \<and>
    (expired \<longrightarrow> uint tms * 1000 < int k * uint period + uint period + 1000) \<and>
    (timer_ticks period tms \<le> int k \<longrightarrow> (\<forall>now. fst (has_timer_expired_tirtos period now t')))"
proof -
  have tms: "tms < TIRTOS_MAX_TIMEOUT_MS" and t: "t = \<lparr>tick_start = of_nat T, tick_length = msToTicks period tms\<rparr>"
    using set by (auto simp: countdown_ms_tirtos_def split: if_splits)
  note exact = left_ms_tirtos_exact [OF tms p k, of T, folded t]
  have left: "uint left = max 0 ((timer_ticks period tms - int k) * uint period div 1000)" using exact rd by simp
  have e: "t'' = t'" "expired \<longleftrightarrow> uint left = 0"
    using rd ex by (simp_all add: has_timer_expired_tirtos_def unsigned_eq_0_iff)
  note bounds = timer_ticks_bounds [OF p, of tms]
  have late: expired if "uint tms * 1000 \<le> int k * uint period"
  proof -
    have "(timer_ticks period tms - int k) * uint period \<le> 0" using bounds(1) that by (simp add: left_diff_distrib)
    then show ?thesis using left e(2) by simp
  qed
  have early: "uint tms * 1000 < int k * uint period + uint period + 1000" if expired
  proof -
    have "(timer_ticks period tms - int k) * uint period div 1000 \<le> 0" using left e(2) that by simp
    then have "(timer_ticks period tms - int k) * uint period < 1000" by simp
    then show ?thesis using bounds(2) by (simp add: left_diff_distrib)
  qed
  have stays: "fst (has_timer_expired_tirtos period now t')" if "timer_ticks period tms \<le> int k" for now
  proof -
    have "msToTicks period tms \<le> of_nat (T + k) - of_nat T"
      using that ticks_elapsed [OF k, of T] msToTicks_exact [OF tms p] by (simp add: word_le_def timer_ticks_def)
    then have "tick_length t' = 0" using rd by (auto simp: left_ms_tirtos_def Let_def t)
    then show ?thesis by (simp add: has_timer_expired_tirtos_def left_ms_tirtos_def Let_def)
  qed
  show ?thesis using left e(1) late early stays by blast
qed

text \<open>A clock of 500 microseconds, read 20 ticks after it was set shortly before the counter wraps.\<close>

theorem tirtos_timer_correct_witness:
  "countdown_ms_tirtos 500 (of_nat 4294967290) 25 = Some \<lparr>tick_start = of_nat 4294967290, tick_length = 50\<rparr> \<and>
   left_ms_tirtos 500 (of_nat (4294967290 + 20)) \<lparr>tick_start = of_nat 4294967290, tick_length = 50\<rparr> =
     (15, \<lparr>tick_start = of_nat 4294967290, tick_length = 50\<rparr>) \<and> uint (15 :: u32) = 15"
proof -
  have 1: "countdown_ms_tirtos 500 (of_nat 4294967290) 25 = Some \<lparr>tick_start = of_nat 4294967290, tick_length = 50\<rparr>"
    by (simp add: countdown_ms_tirtos_def TIRTOS_MAX_TIMEOUT_MS_def msToTicks_def)
  have 2: "left_ms_tirtos 500 (of_nat (4294967290 + 20)) \<lparr>tick_start = of_nat 4294967290, tick_length = 50\<rparr> =
     (15, \<lparr>tick_start = of_nat 4294967290, tick_length = 50\<rparr>)"
    by (simp add: left_ms_tirtos_def ticksToMs_def)
  have "uint (15 :: u32) = max 0 ((timer_ticks 500 25 - int 20) * uint (500 :: u32) div 1000)"
    using tirtos_timer_correct [OF 1 _ _ 2, of False "\<lparr>tick_start = of_nat 4294967290, tick_length = 50\<rparr>"] 2
    by (simp add: has_timer_expired_tirtos_def)
  then show ?thesis using 1 2 by simp
qed

end
