(* ===== verification/Tirtos_Network.thy ===== *)
theory Tirtos_Network
  imports Tirtos_Timer Mqtt_Types Iot_Error
begin

text \<open>
  The network layer of the TI-RTOS platform (src/platform/tirtos/network_sl.c). The calls of the
  operating system's network services, which are not part of the repository, are a record of functions on the world; a
  handle is a number, NULL is \<open>None\<close>. \<open>Ssock_delete\<close> and \<open>TLS_delete\<close> get a pointer to a handle and
  return what they leave in it. The functions have the suffix \<open>_sl\<close>, since the
  Linux layer has the same names. A NULL argument of a function is \<open>None\<close>.
\<close>

record 'w Simplelink =
  TLS_create :: "'w \<Rightarrow> nat option \<times> 'w"
  TLS_delete :: "nat option \<Rightarrow> 'w \<Rightarrow> nat option \<times> 'w"
  sl_gethostbyname :: "cstring option \<Rightarrow> 'w \<Rightarrow> int \<times> u32 \<times> 'w"
  sl_socket :: "'w \<Rightarrow> int \<times> 'w"
  sl_connect :: "int \<Rightarrow> u16 \<Rightarrow> u32 \<Rightarrow> 'w \<Rightarrow> int \<times> 'w"
  sl_setsockopt :: "int \<Rightarrow> u32 \<Rightarrow> u32 \<Rightarrow> 'w \<Rightarrow> int \<times> 'w"
  sl_close :: "int \<Rightarrow> 'w \<Rightarrow> 'w"
  Ssock_create :: "int \<Rightarrow> 'w \<Rightarrow> nat option \<times> 'w"
  Ssock_delete :: "nat option \<Rightarrow> 'w \<Rightarrow> nat option \<times> 'w"
  Ssock_startTLS :: "nat option \<Rightarrow> nat option \<Rightarrow> 'w \<Rightarrow> int \<times> 'w"
  Ssock_getSocket :: "nat \<Rightarrow> 'w \<Rightarrow> int \<times> 'w"
  Ssock_send :: "nat \<Rightarrow> byte list \<Rightarrow> 'w \<Rightarrow> int \<times> 'w"
  Ssock_recvall :: "nat \<Rightarrow> nat \<Rightarrow> 'w \<Rightarrow> int \<times> byte list \<times> 'w"
  Ssock_TIMEOUT :: int
  NetWiFi_isConnected :: "'w \<Rightarrow> u32 \<times> 'w"
  Clock_getTicks :: "'w \<Rightarrow> u32 \<times> 'w"
  Clock_tickPeriod :: u32

text \<open>
  \<open>Network\<close> of this platform; \<open>sl_installed\<close> says that its six function pointers are set (they are set and
  cleared together).
\<close>

record Sl_Network =
  sl_tlsConnectParams :: TLSConnectParams
  ssock :: "nat option"
  tlsH :: "nat option"
  sl_installed :: bool

definition iot_tls_set_connect_params_sl ::
    "cstring option \<Rightarrow> cstring option \<Rightarrow> cstring option \<Rightarrow> cstring option \<Rightarrow> u16 \<Rightarrow> u32 \<Rightarrow> bool \<Rightarrow> Sl_Network \<Rightarrow> Sl_Network" where
  "iot_tls_set_connect_params_sl rootCA cert key url portno timeout verify net = net\<lparr>sl_tlsConnectParams :=
     \<lparr>tls_pRootCALocation = rootCA, tls_pDeviceCertLocation = cert, tls_pDevicePrivateKeyLocation = key,
      tls_pDestinationURL = url, tls_DestinationPort = portno, tls_timeout_ms = timeout,
      tls_ServerVerificationFlag = verify\<rparr>\<rparr>"

definition iot_tls_init_sl ::
    "Sl_Network option \<Rightarrow> cstring option \<Rightarrow> cstring option \<Rightarrow> cstring option \<Rightarrow> cstring option \<Rightarrow> u16 \<Rightarrow> u32 \<Rightarrow> bool
       \<Rightarrow> IoT_Error_t \<times> Sl_Network option" where
  "iot_tls_init_sl pNetwork rootCA cert key url portno timeout verify =
     (case pNetwork of None \<Rightarrow> (NULL_VALUE_ERROR, None) | Some net \<Rightarrow>
      (SUCCESS, Some ((iot_tls_set_connect_params_sl rootCA cert key url portno timeout verify net)
         \<lparr>sl_installed := True, ssock := None, tlsH := None\<rparr>)))"

text \<open>\<open>iot_tls_connect\<close> up to the label \<open>QUIT\<close>: the code, the local \<open>skt\<close> and the network.\<close>

definition connect_attempt_sl :: "'w Simplelink \<Rightarrow> Sl_Network \<Rightarrow> 'w \<Rightarrow> IoT_Error_t \<times> int \<times> Sl_Network \<times> 'w" where
  "connect_attempt_sl S net w =
     (let params = sl_tlsConnectParams net;
          (h, w) = TLS_create S w; net = net\<lparr>tlsH := h\<rparr>
      in if h = None then (NETWORK_SSL_INIT_ERROR, 0, net, w)
      else
      let (r, ip, w) = sl_gethostbyname S (tls_pDestinationURL params) w
      in if r < 0 then (NETWORK_ERR_NET_UNKNOWN_HOST, 0, net, w)
      else
      let (skt, w) = sl_socket S w
      in if skt < 0 then (NETWORK_ERR_NET_SOCKET_FAILED, skt, net, w)
      else
      let (s, w) = Ssock_create S skt w; net = net\<lparr>ssock := s\<rparr>
      in if s = None then (NETWORK_ERR_NET_SOCKET_FAILED, skt, net, w)
      else
      let (r, w) = Ssock_startTLS S (ssock net) (tlsH net) w
      in if r \<noteq> 0 then (NETWORK_SSL_CERT_ERROR, skt, net, w)
      else
      let (r, w) = sl_connect S skt (tls_DestinationPort params) ip w
      in if r < 0 then (NETWORK_ERR_NET_CONNECT_FAILED, skt, net, w)
      else (SUCCESS, skt, net, w))"

definition iot_tls_connect_sl :: "'w Simplelink \<Rightarrow> Sl_Network option \<Rightarrow> 'w \<Rightarrow> IoT_Error_t \<times> Sl_Network option \<times> 'w" where
  "iot_tls_connect_sl S pNetwork w =
     (case pNetwork of None \<Rightarrow> (NULL_VALUE_ERROR, None, w) | Some net \<Rightarrow>
      let (ret, skt, net, w) = connect_attempt_sl S net w
      in if ret = SUCCESS then (ret, Some net, w)
      else
      let (net, w) = (if ssock net \<noteq> None then case Ssock_delete S (ssock net) w of (h, w) \<Rightarrow> (net\<lparr>ssock := h\<rparr>, w) else (net, w));
          (net, w) = (if tlsH net \<noteq> None then case TLS_delete S (tlsH net) w of (h, w) \<Rightarrow> (net\<lparr>tlsH := h\<rparr>, w) else (net, w));
          w = (if 0 \<le> skt then sl_close S skt w else w)
      in (ret, Some net, w))"

text \<open>\<open>NetWiFi_isConnected\<close> is cast to the error type: its value is read as an error number.\<close>

definition iot_tls_is_connected_sl :: "'w Simplelink \<Rightarrow> 'w \<Rightarrow> int \<times> 'w" where
  "iot_tls_is_connected_sl S w = (case NetWiFi_isConnected S w of (r, w) \<Rightarrow> (sint r, w))"

text \<open>Write and read return \<open>*numbytes\<close> when they assign it; read also returns the bytes stored and the timer.\<close>

definition iot_tls_write_sl ::
    "'w Simplelink \<Rightarrow> Sl_Network option \<Rightarrow> byte list option \<Rightarrow> 'w \<Rightarrow> IoT_Error_t \<times> nat option \<times> 'w" where
  "iot_tls_write_sl S pNetwork pMsg w =
     (case (pNetwork, pMsg) of (Some net, Some msg) \<Rightarrow>
        (case ssock net of None \<Rightarrow> (NULL_VALUE_ERROR, None, w)
         | Some s \<Rightarrow> (case Ssock_send S s msg w of (bytes, w) \<Rightarrow>
             if 0 < bytes then (SUCCESS, Some (nat bytes), w) else (NETWORK_SSL_WRITE_ERROR, None, w)))
      | _ \<Rightarrow> (NULL_VALUE_ERROR, None, w))"

definition iot_tls_read_sl ::
    "'w Simplelink \<Rightarrow> Sl_Network option \<Rightarrow> nat \<Rightarrow> Timer_tirtos option \<Rightarrow> 'w
       \<Rightarrow> IoT_Error_t \<times> byte list \<times> nat option \<times> Timer_tirtos option \<times> 'w" where
  "iot_tls_read_sl S pNetwork len timer w =
     (case (pNetwork, timer) of (Some net, Some t) \<Rightarrow>
        (case ssock net of None \<Rightarrow> (NULL_VALUE_ERROR, [], None, timer, w)
         | Some s \<Rightarrow>
           let (now, w) = Clock_getTicks S w;
               (timeout, t) = left_ms_tirtos (Clock_tickPeriod S) now t;
               timeout = (if timeout = 0 then 1 else timeout);
               (skt, w) = Ssock_getSocket S s w;
               (r, w) = sl_setsockopt S skt 0 (timeout * 1000) w
           in if r = 0 then
                let (bytes, bs, w) = Ssock_recvall S s len w in
                if 0 < bytes then (SUCCESS, bs, Some (nat bytes), Some t, w)
                else if bytes = Ssock_TIMEOUT S then (NETWORK_SSL_NOTHING_TO_READ, bs, None, Some t, w)
                else (NETWORK_SSL_READ_ERROR, bs, None, Some t, w)
              else (NETWORK_SSL_READ_ERROR, [], None, Some t, w))
      | _ \<Rightarrow> (NULL_VALUE_ERROR, [], None, timer, w))"

definition iot_tls_disconnect_sl :: "'w Simplelink \<Rightarrow> Sl_Network option \<Rightarrow> 'w \<Rightarrow> IoT_Error_t \<times> Sl_Network option \<times> 'w" where
  "iot_tls_disconnect_sl S pNetwork w =
     (case pNetwork of None \<Rightarrow> (NULL_VALUE_ERROR, None, w) | Some net \<Rightarrow>
      (case ssock net of None \<Rightarrow> (NULL_VALUE_ERROR, Some net, w)
       | Some s \<Rightarrow>
         let (h, w) = TLS_delete S (tlsH net) w; net = net\<lparr>tlsH := h\<rparr>;
             (skt, w) = Ssock_getSocket S s w;
             (_, w) = Ssock_delete S (Some s) w;
             w = sl_close S skt w
         in (SUCCESS, Some net, w)))"

definition iot_tls_destroy_sl :: "Sl_Network option \<Rightarrow> IoT_Error_t \<times> Sl_Network option" where
  "iot_tls_destroy_sl pNetwork =
     (case pNetwork of None \<Rightarrow> (NULL_VALUE_ERROR, None) | Some net \<Rightarrow> (SUCCESS, Some (net\<lparr>sl_installed := False\<rparr>)))"

subsection \<open>Specification vocabulary\<close>

text \<open>Deleting leaves NULL in the handle it was given a pointer to.\<close>

definition deletes_clear :: "'w Simplelink \<Rightarrow> bool" where
  "deletes_clear S \<longleftrightarrow> (\<forall>h w. fst (Ssock_delete S h w) = None \<and> fst (TLS_delete S h w) = None)"

text \<open>A library that records the calls that release something; what it answers is part of its world.\<close>

datatype release = Deleted_TLS "nat option" | Deleted_Ssock "nat option" | Closed int

record Sl_World =
  host_known :: bool
  tls_available :: bool
  released :: "release list"

definition recording_sl :: "Sl_World Simplelink" where
  "recording_sl = \<lparr>
     TLS_create = (\<lambda>w. (if tls_available w then Some 7 else None, w)),
     TLS_delete = (\<lambda>h w. (None, w\<lparr>released := released w @ [Deleted_TLS h]\<rparr>)),
     sl_gethostbyname = (\<lambda>u w. (if host_known w then 0 else -1, 0, w)),
     sl_socket = (\<lambda>w. (5, w)),
     sl_connect = (\<lambda>s p ip w. (0, w)),
     sl_setsockopt = (\<lambda>s sec usec w. (0, w)),
     sl_close = (\<lambda>s w. w\<lparr>released := released w @ [Closed s]\<rparr>),
     Ssock_create = (\<lambda>s w. (Some 9, w)),
     Ssock_delete = (\<lambda>h w. (None, w\<lparr>released := released w @ [Deleted_Ssock h]\<rparr>)),
     Ssock_startTLS = (\<lambda>s t w. (0, w)),
     Ssock_getSocket = (\<lambda>s w. (5, w)),
     Ssock_send = (\<lambda>s bs w. (int (length bs), w)),
     Ssock_recvall = (\<lambda>s n w. (int n, replicate n 0, w)),
     Ssock_TIMEOUT = -10,
     NetWiFi_isConnected = (\<lambda>w. (1, w)),
     Clock_getTicks = (\<lambda>w. (0, w)),
     Clock_tickPeriod = 1000\<rparr>"

definition recording_net :: Sl_Network where
  "recording_net = \<lparr>sl_tlsConnectParams = \<lparr>tls_pRootCALocation = None, tls_pDeviceCertLocation = None,
     tls_pDevicePrivateKeyLocation = None, tls_pDestinationURL = Some [104], tls_DestinationPort = 8883,
     tls_timeout_ms = 5000, tls_ServerVerificationFlag = True\<rparr>, ssock = None, tlsH = None, sl_installed = True\<rparr>"

lemmas recording_defs = recording_sl_def recording_net_def iot_tls_connect_sl_def connect_attempt_sl_def
  iot_tls_disconnect_sl_def deletes_clear_def

lemma connect_attempt_result:
  "connect_attempt_sl S net w = (rc, skt, net', w') \<Longrightarrow>
     (rc = SUCCESS \<longrightarrow> ssock net' \<noteq> None \<and> tlsH net' \<noteq> None) \<and>
     rc \<in> {SUCCESS, NETWORK_SSL_INIT_ERROR, NETWORK_ERR_NET_UNKNOWN_HOST, NETWORK_ERR_NET_SOCKET_FAILED,
       NETWORK_SSL_CERT_ERROR, NETWORK_ERR_NET_CONNECT_FAILED} \<and>
     sl_tlsConnectParams net' = sl_tlsConnectParams net \<and> sl_installed net' = sl_installed net"
  by (auto simp: connect_attempt_sl_def Let_def split: prod.splits if_splits)

text \<open>The receive time-out: the timer's remaining time, at least a millisecond, never zero (which would block).\<close>

lemma read_timeout_positive:
  assumes "countdown_ms_tirtos period t0 tms = Some t" "0 < uint period"
    and left_def: "left = fst (left_ms_tirtos period now t)"
  shows "uint ((if left = 0 then 1 else left) * 1000) = max 1 (uint left) * 1000"
proof -
  have tms: "tms < TIRTOS_MAX_TIMEOUT_MS" and t: "t = \<lparr>tick_start = t0, tick_length = msToTicks period tms\<rparr>"
    using assms(1) by (auto simp: countdown_ms_tirtos_def split: if_splits)
  let ?T = "unat t0" and ?k = "unat (now - t0)"
  have now: "now = of_nat (?T + ?k)" and t0: "t0 = of_nat ?T" by simp_all
  have k: "?k < 2 ^ 32" using unsigned_less [of "now - t0"] by simp
  have "uint left = max 0 ((timer_ticks period tms - int ?k) * uint period div 1000)"
    using left_ms_tirtos_exact [OF tms assms(2) k, of ?T] now by (simp add: left_def t)
  moreover have "(timer_ticks period tms - int ?k) * uint period \<le> timer_ticks period tms * uint period"
    using assms(2) by simp
  moreover note timer_ticks_bounds(1) [OF assms(2), of tms]
  ultimately have "uint left \<le> max 0 (uint tms * 1000 div 1000)"
    by (auto simp del: nonzero_mult_div_cancel_right intro!: max.mono zdiv_mono1)
  then have "uint left \<le> uint tms" by simp
  then have "uint left < 4000000" using tms by (simp add: uint_less_4000000)
  then have "left \<noteq> 0 \<Longrightarrow> uint (left * 1000) = uint left * 1000" by (simp add: uint_word_ariths)
  moreover have "left \<noteq> 0 \<Longrightarrow> 1 \<le> uint left" using uint_ge_0 [of left] unsigned_eq_0_iff [of left, where ?'a = int] by linarith
  ultimately show ?thesis by (auto simp: max_def)
qed

subsection \<open>Properties\<close>

text \<open>
  Connecting on TI-RTOS leaves the handles of the network consistent with the code it returns: both set on
  success, both NULL on every failure, with a code that says how far it came.
\<close>

theorem connect_sl_handles:
  assumes "deletes_clear S" and "iot_tls_connect_sl S (Some net) w = (rc, Some net', w')"
  shows "(rc = SUCCESS \<longrightarrow> ssock net' \<noteq> None \<and> tlsH net' \<noteq> None) \<and>
    (rc \<noteq> SUCCESS \<longrightarrow> ssock net' = None \<and> tlsH net' = None) \<and>
    rc \<in> {SUCCESS, NETWORK_SSL_INIT_ERROR, NETWORK_ERR_NET_UNKNOWN_HOST, NETWORK_ERR_NET_SOCKET_FAILED,
      NETWORK_SSL_CERT_ERROR, NETWORK_ERR_NET_CONNECT_FAILED} \<and>
    sl_tlsConnectParams net' = sl_tlsConnectParams net \<and> sl_installed net' = sl_installed net"
proof -
  obtain ret skt n w1 where at: "connect_attempt_sl S net w = (ret, skt, n, w1)" by (cases "connect_attempt_sl S net w") auto
  have none: "fst (Ssock_delete S h v) = None" "fst (TLS_delete S h v) = None" for h v
    using assms(1) by (simp_all add: deletes_clear_def)
  obtain v1 v2 v3 where d: "Ssock_delete S (ssock n) w1 = (None, v1)" "TLS_delete S (tlsH n) v1 = (None, v2)"
      "TLS_delete S (tlsH n) w1 = (None, v3)"
    using none by (metis prod.collapse)
  have "\<exists>v. iot_tls_connect_sl S (Some net) w =
      (ret, Some (if ret = SUCCESS then n else n\<lparr>ssock := None, tlsH := None\<rparr>), v)"
    using d by (cases n; cases "ssock n"; cases "tlsH n") (simp_all add: iot_tls_connect_sl_def at)
  with connect_attempt_result [OF at] assms(2) show ?thesis by (auto split: if_splits)
qed

theorem connect_sl_handles_witness:
  "\<exists>net' w'. iot_tls_connect_sl recording_sl (Some recording_net) \<lparr>host_known = False, tls_available = True, released = []\<rparr> =
       (NETWORK_ERR_NET_UNKNOWN_HOST, Some net', w') \<and> ssock net' = None \<and> tlsH net' = None"
  using connect_sl_handles [of recording_sl recording_net "\<lparr>host_known = False, tls_available = True, released = []\<rparr>"
      NETWORK_ERR_NET_UNKNOWN_HOST recording_net]
  by (simp add: recording_defs)

text \<open>
  Disconnecting on TI-RTOS deletes the secure socket through a copy of its handle, so the network keeps the deleted
  handle: a later write still hands it to the library, and a reconnect whose TLS context cannot be created deletes
  it a second time and closes descriptor 0, which it never opened.
\<close>

theorem disconnect_sl_keeps_handle:
  assumes "ssock net = Some s" and "iot_tls_disconnect_sl S (Some net) w = (rc, Some net', w')"
  shows "rc = SUCCESS \<and> ssock net' = Some s \<and>
    iot_tls_write_sl S (Some net') (Some msg) v = (case Ssock_send S s msg v of (bytes, v') \<Rightarrow>
       if 0 < bytes then (SUCCESS, Some (nat bytes), v') else (NETWORK_SSL_WRITE_ERROR, None, v')) \<and>
    (\<forall>v v'. TLS_create S v = (None, v') \<longrightarrow>
       snd (snd (iot_tls_connect_sl S (Some net') v)) = sl_close S 0 (snd (Ssock_delete S (Some s) v')))"
  using assms
  by (auto simp: iot_tls_disconnect_sl_def iot_tls_write_sl_def iot_tls_connect_sl_def connect_attempt_sl_def Let_def
      split: prod.splits)

theorem disconnect_sl_keeps_handle_witness:
  "let w = \<lparr>host_known = True, tls_available = False, released = []\<rparr>;
       net = recording_net\<lparr>ssock := Some 9, tlsH := Some 7\<rparr>;
       (rc, n, w1) = iot_tls_disconnect_sl recording_sl (Some net) w
   in released (snd (snd (iot_tls_connect_sl recording_sl n w1))) =
      [Deleted_TLS (Some 7), Deleted_Ssock (Some 9), Closed 5, Deleted_Ssock (Some 9), Closed 0]"
  using disconnect_sl_keeps_handle [of "recording_net\<lparr>ssock := Some 9, tlsH := Some 7\<rparr>" 9 recording_sl
      "\<lparr>host_known = True, tls_available = False, released = []\<rparr>" SUCCESS "recording_net\<lparr>ssock := Some 9, tlsH := None\<rparr>"]
  by (simp add: recording_defs)

end
