(* ===== verification/Feed_List.thy ===== *)
theory Feed_List
  imports Shadow_Token
begin

text \<open>
  The feeds of the Paasmer application (src/samples/linux/subscribe_publish_sample): the linked list of
  feeds that \<open>add\<close> builds on the heap (subscribe_publish_sample.c), and the access to the board's pins through
  shell commands (paasmerGpio.h).

  The heap maps addresses to nodes, \<open>malloc\<close> is the function \<open>mal\<close> from heaps to addresses. \<open>deviceType\<close>, which comes
  from a header the installation writes, and the shell are the record \<open>Board\<close>; \<open>read_line cmd\<close> is the text that
  \<open>fgets(data, 10, fp)\<close> leaves in \<open>data\<close>. A string that does not fit the array it is copied to is a \<open>Fault\<close>. Comparisons of
  string literals by address, as in \<open>mode == "OUT"\<close>, compare the texts: equal literals of one source file are one
  object in the build.
\<close>

subsection \<open>Pins\<close>

record 'w Board =
  deviceType :: cstring
  system_cmd :: "cstring \<Rightarrow> 'w \<Rightarrow> 'w"
  read_line :: "cstring \<Rightarrow> 'w \<Rightarrow> cstring \<times> 'w"
  sleep_1s :: "'w \<Rightarrow> 'w"

definition wiring_board :: "'w Board \<Rightarrow> bool" where
  "wiring_board B \<longleftrightarrow> deviceType B \<in> {bytes_of ''raspberrypi'', bytes_of ''bananapi'', bytes_of ''orangepi'', bytes_of ''odroidxu4''}"

definition beaglebone :: "'w Board \<Rightarrow> bool" where
  "beaglebone B \<longleftrightarrow> deviceType B = bytes_of ''beaglebone''"

text \<open>\<open>sprintf(command, ...); system(command)\<close>, with \<open>char command[100]\<close>.\<close>

definition run_command :: "'w Board \<Rightarrow> cstring \<Rightarrow> 'w \<Rightarrow> 'w run" where
  "run_command B text w = (if length text < 100 then Done (system_cmd B text w) else Fault)"

definition gpioModesetup :: "'w Board \<Rightarrow> int \<Rightarrow> cstring \<Rightarrow> 'w \<Rightarrow> 'w run" where
  "gpioModesetup B pinNum mode w =
     (if wiring_board B then
        if mode = bytes_of ''OUT'' then run_command B (bytes_of ''gpio -1 mode '' @ dec_int pinNum @ bytes_of '' out'') w
        else if mode = bytes_of ''IN'' then run_command B (bytes_of ''gpio -1 mode '' @ dec_int pinNum @ bytes_of '' in'') w
        else Done w
      else if beaglebone B then
        if mode = bytes_of ''OUT'' then
          bnd (run_command B (bytes_of ''sudo echo '' @ dec_int pinNum @ bytes_of '' > /sys/class/gpio/export'') w)
            (run_command B (bytes_of ''sudo echo out > /sys/class/gpio/gpio'' @ dec_int pinNum @ bytes_of ''/direction''))
        else if mode = bytes_of ''IN'' then
          bnd (run_command B (bytes_of ''sudo echo '' @ dec_int pinNum @ bytes_of '' > /sys/class/gpio/export'') w)
            (run_command B (bytes_of ''sudo echo in > /sys/class/gpio/gpio'' @ dec_int pinNum @ bytes_of ''/direction''))
        else Done w
      else Done w)"

definition gpioWrite :: "'w Board \<Rightarrow> int \<Rightarrow> int \<Rightarrow> 'w \<Rightarrow> 'w run" where
  "gpioWrite B pinNum state w =
     (if wiring_board B then
        run_command B (bytes_of ''gpio -1 write '' @ dec_int pinNum @ bytes_of '' '' @ dec_int state) w
      else if beaglebone B then
        run_command B (bytes_of ''sudo echo '' @ dec_int state @ bytes_of '' > /sys/class/gpio/gpio'' @ dec_int pinNum @
          bytes_of ''/value'') w
      else Done w)"

definition atoi :: "cstring \<Rightarrow> int" where
  "atoi s = (case scan_u s of None \<Rightarrow> 0 | Some v \<Rightarrow> v)"

definition read_command :: "'w Board \<Rightarrow> cstring \<Rightarrow> 'w \<Rightarrow> (int \<times> 'w) run" where
  "read_command B text w =
     (if length text < 100 then case read_line B text w of (data, w) \<Rightarrow> Done (atoi data, w) else Fault)"

definition gpioRead :: "'w Board \<Rightarrow> int \<Rightarrow> 'w \<Rightarrow> (int \<times> 'w) run" where
  "gpioRead B pinNum w =
     (if wiring_board B then read_command B (bytes_of ''gpio -1 read '' @ dec_int pinNum) w
      else if beaglebone B then
        read_command B (bytes_of ''sudo cat /sys/class/gpio/gpio'' @ dec_int pinNum @ bytes_of ''/value'') w
      else Done (0, w))"

subsection \<open>The list of feeds\<close>

record FD =
  fd_pre :: "nat option"
  fd_feedname :: cstring
  fd_feedtype :: cstring
  fd_feedpin :: int
  fd_next :: "nat option"

record Feed_Heap =
  fd_nodes :: "nat \<rightharpoonup> FD"
  hptr :: "nat option"

text \<open>\<open>while(old->next != NULL) old = old->next;\<close>\<close>

primrec last_node :: "nat \<Rightarrow> (nat \<rightharpoonup> FD) \<Rightarrow> nat \<Rightarrow> nat run" where
  "last_node 0 h old = NoFuel"
| "last_node (Suc n) h old =
     (case h old of None \<Rightarrow> Fault
      | Some d \<Rightarrow> (case fd_next d of None \<Rightarrow> Done old | Some q \<Rightarrow> last_node n h q))"

definition feed_add :: "((nat \<rightharpoonup> FD) \<Rightarrow> nat option) \<Rightarrow> nat \<Rightarrow> cstring \<Rightarrow> cstring \<Rightarrow> int \<Rightarrow> Feed_Heap \<Rightarrow> Feed_Heap run" where
  "feed_add mal n feednames feedtypes feedpins H =
     (case mal (fd_nodes H) of None \<Rightarrow> Fault | Some new \<Rightarrow>
      if 20 \<le> length feednames \<or> 10 \<le> length feedtypes then Fault
      else
      let h = fd_nodes H;
          d = \<lparr>fd_pre = None, fd_feedname = feednames, fd_feedtype = feedtypes, fd_feedpin = feedpins, fd_next = None\<rparr>
      in case hptr H of
        None \<Rightarrow> Done \<lparr>fd_nodes = h(new \<mapsto> d\<lparr>fd_next := None, fd_pre := None\<rparr>), hptr = Some new\<rparr>
      | Some p \<Rightarrow> bnd (last_node n h p) (\<lambda>old.
          case h old of None \<Rightarrow> Fault
          | Some o_d \<Rightarrow> Done \<lparr>fd_nodes = h(new \<mapsto> d\<lparr>fd_next := fd_next o_d, fd_pre := Some old\<rparr>,
              old \<mapsto> o_d\<lparr>fd_next := Some new\<rparr>), hptr = Some p\<rparr>))"

text \<open>
  \<open>feedadd\<close>: the \<open>do ... while(i < j)\<close> over the configured arrays, from index \<open>i\<close>; the loop body runs at least once.
  \<open>print\<close>, which it calls at the end, only writes to the terminal.
\<close>

definition feed_step :: "'w Board \<Rightarrow> ((nat \<rightharpoonup> FD) \<Rightarrow> nat option) \<Rightarrow> nat \<Rightarrow> cstring list \<Rightarrow> cstring list \<Rightarrow> int list \<Rightarrow> nat
    \<Rightarrow> Feed_Heap \<Rightarrow> 'w \<Rightarrow> (Feed_Heap \<times> 'w) run" where
  "feed_step B mal n feedname feedtype feedpin i H w =
     (if length feedname \<le> i \<or> length feedtype \<le> i \<or> length feedpin \<le> i then Fault
      else
      bnd (feed_add mal n (feedname ! i) (feedtype ! i) (feedpin ! i) H) (\<lambda>H.
      bnd (if feedtype ! i = bytes_of ''actuator'' then gpioModesetup B (feedpin ! i) (bytes_of ''OUT'') w
           else gpioModesetup B (feedpin ! i) (bytes_of ''IN'') w) (\<lambda>w.
      Done (H, w))))"

primrec feedadd_loop :: "'w Board \<Rightarrow> ((nat \<rightharpoonup> FD) \<Rightarrow> nat option) \<Rightarrow> nat \<Rightarrow> cstring list \<Rightarrow> cstring list \<Rightarrow> int list
    \<Rightarrow> nat \<Rightarrow> nat \<Rightarrow> Feed_Heap \<Rightarrow> 'w \<Rightarrow> (Feed_Heap \<times> 'w) run" where
  "feedadd_loop B mal n names types pins 0 i H w = NoFuel"
| "feedadd_loop B mal n names types pins (Suc k) i H w =
     bnd (feed_step B mal n names types pins i H w) (\<lambda>(H, w).
       if Suc i < length names then feedadd_loop B mal n names types pins k (Suc i) H w else Done (H, w))"

definition feedadd :: "'w Board \<Rightarrow> ((nat \<rightharpoonup> FD) \<Rightarrow> nat option) \<Rightarrow> nat \<Rightarrow> cstring list \<Rightarrow> cstring list \<Rightarrow> int list
    \<Rightarrow> 'w \<Rightarrow> (Feed_Heap \<times> 'w) run" where
  "feedadd B mal n names types pins w =
     feedadd_loop B mal n names types pins n 0 \<lparr>fd_nodes = Map.empty, hptr = None\<rparr> w"

subsection \<open>The list a heap represents\<close>

text \<open>A feed as the application configures it, and what a node holds of it.\<close>

type_synonym feed = "cstring \<times> cstring \<times> int"

definition feed_of :: "FD \<Rightarrow> feed" where
  "feed_of d = (fd_feedname d, fd_feedtype d, fd_feedpin d)"

text \<open>
  The doubly linked list at \<open>p\<close> whose nodes are at the addresses \<open>as\<close> and hold the feeds \<open>fs\<close>; \<open>prev\<close> is the
  back pointer of its first node.
\<close>

fun feed_list :: "(nat \<rightharpoonup> FD) \<Rightarrow> nat option \<Rightarrow> nat option \<Rightarrow> nat list \<Rightarrow> feed list \<Rightarrow> bool" where
  "feed_list h prev p [] fs \<longleftrightarrow> p = None \<and> fs = []"
| "feed_list h prev p (a # as) fs \<longleftrightarrow>
     (\<exists>d fs'. p = Some a \<and> h a = Some d \<and> fd_pre d = prev \<and> fs = feed_of d # fs' \<and>
        feed_list h (Some a) (fd_next d) as fs')"

definition holds_feeds :: "Feed_Heap \<Rightarrow> feed list \<Rightarrow> bool" where
  "holds_feeds H fs \<longleftrightarrow> finite (dom (fd_nodes H)) \<and> (\<exists>as. distinct as \<and> feed_list (fd_nodes H) None (hptr H) as fs)"

lemma feed_list_upd [simp]: "b \<notin> set as \<Longrightarrow> feed_list (h(b := v)) prev p as fs \<longleftrightarrow> feed_list h prev p as fs"
  by (induction as arbitrary: prev p fs) auto

lemma feed_list_length: "feed_list h prev p as fs \<Longrightarrow> length fs = length as"
  by (induction as arbitrary: prev p fs) auto

lemma feed_list_dom: "feed_list h prev p as fs \<Longrightarrow> set as \<subseteq> dom h"
  by (induction as arbitrary: prev p fs) fastforce+

lemma last_node_last:
  "feed_list h prev (Some p) as fs \<Longrightarrow> length as \<le> n \<Longrightarrow>
     last_node n h p = Done (last as) \<and> as \<noteq> [] \<and> (\<exists>d. h (last as) = Some d \<and> fd_next d = None)"
proof (induction as arbitrary: n p prev fs)
  case (Cons a as)
  then obtain m d fs' where d: "n = Suc m" "h a = Some d" "p = a" "feed_list h (Some a) (fd_next d) as fs'"
    by (cases n) auto
  show ?case
  proof (cases as)
    case Nil
    then show ?thesis using d by simp
  next
    case (Cons b bs)
    then have "fd_next d = Some b" using d(4) by auto
    then show ?thesis using Cons.IH [of "Some a" b fs' m] d Cons.prems Cons by simp
  qed
qed simp

text \<open>Linking a new node behind the last one.\<close>

lemma feed_list_snoc:
  assumes "feed_list h prev (Some p) as fs" "distinct as" "new \<notin> set as" "as \<noteq> []" "h (last as) = Some o_d"
    and "fd_next d = None" "fd_pre d = Some (last as)"
  shows "feed_list (h(new \<mapsto> d, last as \<mapsto> o_d\<lparr>fd_next := Some new\<rparr>)) prev (Some p) (as @ [new]) (fs @ [feed_of d])"
  using assms
proof (induction as arbitrary: p prev fs)
  case (Cons a as)
  show ?case
  proof (cases as)
    case Nil
    then show ?thesis using Cons.prems by (auto simp: feed_of_def)
  next
    case (Cons b bs)
    obtain e fs' where e: "h a = Some e" "fd_pre e = prev" "p = a" "fs = feed_of e # fs'"
        "feed_list h (Some a) (fd_next e) as fs'"
      using Cons.prems(1) by auto
    have "fd_next e = Some b" using e(5) Cons by auto
    moreover have "a \<noteq> last as" "last (a # as) = last as" using Cons Cons.prems(2) by auto
    ultimately show ?thesis
      using Cons.IH [of "Some a" b fs'] Cons.prems e Cons by auto
  qed
qed simp

lemma feed_add_refines:
  assumes "holds_feeds H fs" "length fs \<le> n" "mal (fd_nodes H) = Some new" "new \<notin> dom (fd_nodes H)"
    and "length name < 20" "length typ < 10"
  shows "\<exists>H'. feed_add mal n name typ pin H = Done H' \<and> holds_feeds H' (fs @ [(name, typ, pin)])"
proof -
  obtain as where as: "distinct as" "feed_list (fd_nodes H) None (hptr H) as fs"
    using assms(1) by (auto simp: holds_feeds_def)
  have fin: "finite (dom (fd_nodes H))" using assms(1) by (simp add: holds_feeds_def)
  have new: "new \<notin> set as" using feed_list_dom [OF as(2)] assms(4) by blast
  show ?thesis
  proof (cases "hptr H")
    case None
    then have "as = []" "fs = []" using as(2) by (cases as; simp)+
    then show ?thesis
      using assms(3,5,6) None fin
      by (auto simp: feed_add_def holds_feeds_def feed_of_def intro!: exI [of _ "[new]"])
  next
    case (Some p)
    obtain o_d where l: "last_node n (fd_nodes H) p = Done (last as)" "as \<noteq> []"
        "fd_nodes H (last as) = Some o_d" "fd_next o_d = None"
      using last_node_last [of "fd_nodes H" None p as fs n] as(2) Some assms(2) feed_list_length [OF as(2)] by auto
    let ?d = "\<lparr>fd_pre = Some (last as), fd_feedname = name, fd_feedtype = typ, fd_feedpin = pin, fd_next = None\<rparr>"
    have "feed_list ((fd_nodes H)(new \<mapsto> ?d, last as \<mapsto> o_d\<lparr>fd_next := Some new\<rparr>)) None (Some p) (as @ [new])
        (fs @ [feed_of ?d])"
      using as l new Some by (intro feed_list_snoc) auto
    moreover have "feed_add mal n name typ pin H =
        Done \<lparr>fd_nodes = (fd_nodes H)(new \<mapsto> ?d, last as \<mapsto> o_d\<lparr>fd_next := Some new\<rparr>), hptr = Some p\<rparr>"
      using assms(3,5,6) Some l by (simp add: feed_add_def)
    ultimately show ?thesis
      using as(1) new fin by (auto simp: holds_feeds_def feed_of_def intro!: exI [of _ "as @ [new]"])
  qed
qed

lemma feed_add_too_long:
  "20 \<le> length name \<or> 10 \<le> length typ \<Longrightarrow> feed_add mal n name typ pin H = Fault"
  by (auto simp: feed_add_def split: option.splits)

subsection \<open>Commands fit their buffer\<close>

definition int32 :: "int \<Rightarrow> bool" where
  "int32 v \<longleftrightarrow> - (2 ^ 31) \<le> v \<and> v < 2 ^ 31"

lemma length_dec_int32: "int32 v \<Longrightarrow> length (dec_int v) \<le> 11"
proof -
  assume "int32 v"
  then have "sint (of_int v :: u32) = v"
    by (simp add: int32_def signed_of_int signed_take_bit_int_eq_self)
  then show ?thesis using length_dec_u32 [of "of_int v"] by simp
qed

lemma gpioModesetup_done: "int32 pin \<Longrightarrow> \<exists>w'. gpioModesetup B pin mode w = Done w'"
  using length_dec_int32 [of pin] by (auto simp: gpioModesetup_def run_command_def bytes_of_def)

lemma gpioWrite_done: "int32 pin \<Longrightarrow> int32 v \<Longrightarrow> \<exists>w'. gpioWrite B pin v w = Done w'"
  using length_dec_int32 [of pin] length_dec_int32 [of v] by (auto simp: gpioWrite_def run_command_def bytes_of_def)

lemma gpioRead_done: "int32 pin \<Longrightarrow> \<exists>v w'. gpioRead B pin w = Done (v, w')"
  using length_dec_int32 [of pin] by (auto simp: gpioRead_def read_command_def bytes_of_def split: prod.splits)

subsection \<open>Building the list\<close>

text \<open>What the application relies on: \<open>malloc\<close> finds room and gives an address not in use.\<close>

definition malloc_fresh :: "((nat \<rightharpoonup> FD) \<Rightarrow> nat option) \<Rightarrow> bool" where
  "malloc_fresh mal \<longleftrightarrow> (\<forall>h. finite (dom h) \<longrightarrow> (\<exists>a. mal h = Some a \<and> a \<notin> dom h))"

text \<open>The pins are set up in the order of the feeds.\<close>

primrec setup_pins :: "'w Board \<Rightarrow> feed list \<Rightarrow> 'w \<Rightarrow> 'w run" where
  "setup_pins B [] w = Done w"
| "setup_pins B (f # fs) w =
     bnd (gpioModesetup B (snd (snd f)) (bytes_of (if fst (snd f) = bytes_of ''actuator'' then ''OUT'' else ''IN'')) w)
       (setup_pins B fs)"

definition feed_fits :: "feed \<Rightarrow> bool" where
  "feed_fits f \<longleftrightarrow> length (fst f) < 20 \<and> length (fst (snd f)) < 10"

lemma feedadd_loop_result:
  fixes B :: "'w Board"
  assumes mal: "malloc_fresh mal" and len: "length types = length names" "length pins = length names"
    and pins: "list_all int32 pins" and n: "length names \<le> n"
  shows "i < length names \<Longrightarrow> length names - i \<le> k \<Longrightarrow> length fs = i \<Longrightarrow> holds_feeds H fs \<Longrightarrow>
    (let gs = drop i (zip names (zip types pins)) in
     if list_all feed_fits gs
     then \<exists>H' w'. feedadd_loop B mal n names types pins k i H w = Done (H', w') \<and> holds_feeds H' (fs @ gs) \<and>
        setup_pins B gs w = Done w'
     else feedadd_loop B mal n names types pins k i H w = Fault)"
proof (induction k arbitrary: i fs H w)
  case (Suc k)
  let ?z = "zip names (zip types pins)" and ?f = "(names ! i, types ! i, pins ! i)"
  have drop: "drop i ?z = ?f # drop (Suc i) ?z"
    using Suc.prems(1) len by (simp add: Cons_nth_drop_Suc [symmetric])
  obtain a where a: "mal (fd_nodes H) = Some a" "a \<notin> dom (fd_nodes H)"
    using mal Suc.prems(4) by (auto simp: malloc_fresh_def holds_feeds_def)
  have pin: "int32 (pins ! i)" using pins len Suc.prems(1) by (simp add: list_all_length)
  obtain w1 where w1: "gpioModesetup B (pins ! i) (bytes_of (if types ! i = bytes_of ''actuator'' then ''OUT'' else ''IN'')) w = Done w1"
    by (rule gpioModesetup_done [OF pin, THEN exE])
  show ?case
  proof (cases "feed_fits ?f")
    case False
    then have "feed_add mal n (names ! i) (types ! i) (pins ! i) H = Fault"
      by (intro feed_add_too_long) (auto simp: feed_fits_def)
    then show ?thesis using False Suc.prems(1) len by (simp add: drop feed_step_def)
  next
    case True
    then have fit: "length (names ! i) < 20" "length (types ! i) < 10" by (simp_all add: feed_fits_def)
    have "length fs \<le> n" using n Suc.prems(1,3) by simp
    from feed_add_refines [where mal = mal and pin = "pins ! i", OF Suc.prems(4) this a fit]
    obtain H1 where H1: "feed_add mal n (names ! i) (types ! i) (pins ! i) H = Done H1" "holds_feeds H1 (fs @ [?f])"
      by blast
    have step: "feed_step B mal n names types pins i H w = Done (H1, w1)"
      using Suc.prems(1) len H1(1) w1 by (auto simp: feed_step_def split: if_splits)
    show ?thesis
    proof (cases "Suc i < length names")
      case False
      then have "drop (Suc i) ?z = []" using len by simp
      then show ?thesis using True False step H1(2) w1 by (simp add: drop)
    next
      case more: True
      have "length names - Suc i \<le> k" "length (fs @ [?f]) = Suc i" using Suc.prems(2,3) by simp_all
      note ih = Suc.IH [OF more this H1(2), of w1]
      have "setup_pins B (drop i ?z) w = setup_pins B (drop (Suc i) ?z) w1" by (simp add: drop w1)
      with ih True more step show ?thesis by (simp add: drop Let_def cong: if_cong)
    qed
  qed
qed simp


subsection \<open>Properties\<close>

text \<open>
  C24. Building the feed list on the heap refines the list of configured feeds: when every name and type fits
  its array, \<open>feedadd\<close> ends with a well-linked list that holds exactly the configured feeds in order,
  and has set up the pins in that order; when some name or type does not fit, it writes past the node it allocated.
\<close>

theorem feedadd_refines_feeds:
  assumes "malloc_fresh mal" and "names \<noteq> []" and "length types = length names" and "length pins = length names"
    and "list_all int32 pins" and "length names \<le> n"
  shows "if list_all feed_fits (zip names (zip types pins))
    then \<exists>H w'. feedadd B mal n names types pins w = Done (H, w') \<and> holds_feeds H (zip names (zip types pins)) \<and>
      setup_pins B (zip names (zip types pins)) w = Done w'
    else feedadd B mal n names types pins w = Fault"
proof -
  have "holds_feeds \<lparr>fd_nodes = Map.empty, hptr = None\<rparr> []"
    by (auto simp: holds_feeds_def intro!: exI [of _ "[]"])
  from feedadd_loop_result [OF assms(1,3-6), of 0 n "[]", OF _ _ _ this, of B w] assms(2,6) show ?thesis
    by (simp add: feedadd_def Let_def cong: if_cong)
qed

definition demo_board :: "cstring list Board" where
  "demo_board = \<lparr>deviceType = bytes_of ''raspberrypi'', system_cmd = (\<lambda>c w. w @ [c]), read_line = (\<lambda>c w. ([49], w)), sleep_1s = (\<lambda>w. w)\<rparr>"

definition next_address :: "(nat \<rightharpoonup> FD) \<Rightarrow> nat option" where
  "next_address h = Some (Suc (Max (insert 0 (dom h))))"

lemma next_address_fresh: "malloc_fresh next_address"
proof -
  have "Suc (Max (insert 0 (dom h))) \<notin> dom h" if "finite (dom h)" for h :: "nat \<rightharpoonup> FD"
    using that by (metis Max_ge Suc_n_not_le_n finite.insertI insert_iff)
  then show ?thesis by (simp add: malloc_fresh_def next_address_def)
qed

theorem feedadd_refines_feeds_witness:
  "let names = [bytes_of ''lamp'', bytes_of ''door'']; types = [bytes_of ''actuator'', bytes_of ''sensor'']; pins = [3, 5] in
   \<exists>H w'. feedadd demo_board next_address 2 names types pins [] = Done (H, w') \<and> holds_feeds H (zip names (zip types pins)) \<and>
     setup_pins demo_board (zip names (zip types pins)) [] = Done w'"
  using feedadd_refines_feeds [OF next_address_fresh, of "[bytes_of ''lamp'', bytes_of ''door'']"
      "[bytes_of ''actuator'', bytes_of ''sensor'']" "[3, 5]" 2 demo_board "[]"]
  by (simp add: feed_fits_def bytes_of_def int32_def)

end
