(* ===== verification/Feed_App.thy ===== *)
theory Feed_App
  imports Feed_List Mqtt_Api "HOL-Library.Sublist"
begin

text \<open>
  The Paasmer application on Linux (src/samples/linux/subscribe_publish_sample/subscribe_publish_sample.c): the
  message callback that switches pins, the disconnect callback, the messages that report the feeds, and \<open>main\<close>.

  The payload of a received message is a position in the client's receive buffer; the string functions the
  callback applies to it read on until they find a NUL, and reading outside the buffer is a \<open>Fault\<close>. The
  character arrays of \<open>main\<close> are kept as the strings they hold; a string that outgrows its array is a \<open>Fault\<close>. \<open>MAC\<close>, \<open>UserName\<close> and
  \<open>DeviceName\<close> are macros of headers the installation writes and are the record \<open>App_Config\<close>. \<open>getopt\<close> is the list of
  options it returns.
\<close>

subsection \<open>The message callback\<close>

text \<open>\<open>!strncmp(mem, s, strlen(s))\<close> and \<open>strstr(mem, s) != NULL\<close> (for \<open>s\<close> not empty) on memory.\<close>

fun mem_prefix :: "byte list \<Rightarrow> cstring \<Rightarrow> bool run" where
  "mem_prefix mem [] = Done True"
| "mem_prefix [] (x # xs) = Fault"
| "mem_prefix (m # mem) (x # xs) = (if m = x then mem_prefix mem xs else Done False)"

fun mem_strstr :: "byte list \<Rightarrow> cstring \<Rightarrow> bool run" where
  "mem_strstr [] s = Fault"
| "mem_strstr (m # mem) s =
     bnd (mem_prefix (m # mem) s) (\<lambda>found. if found then Done True else if m = 0 then Done False else mem_strstr mem s)"

primrec callback_loop :: "'w Board \<Rightarrow> nat \<Rightarrow> (nat \<rightharpoonup> FD) \<Rightarrow> byte list \<Rightarrow> nat option \<Rightarrow> 'w \<Rightarrow> 'w run" where
  "callback_loop B 0 h mem ptrs w = NoFuel"
| "callback_loop B (Suc n) h mem ptrs w =
     (case ptrs of None \<Rightarrow> Done w
      | Some p \<Rightarrow> (case h p of None \<Rightarrow> Fault
        | Some d \<Rightarrow> bnd (mem_prefix mem (fd_feedname d)) (\<lambda>matches.
            if matches then
              bnd (mem_strstr mem (bytes_of ''on'')) (\<lambda>on.
                if on then gpioWrite B (fd_feedpin d) 1 w
                else bnd (mem_strstr mem (bytes_of ''off'')) (\<lambda>off.
                  if off then gpioWrite B (fd_feedpin d) 0 w else Done w))
            else callback_loop B n h mem (fd_next d) w)))"

definition iot_subscribe_callback_handler ::
    "'w Board \<Rightarrow> nat \<Rightarrow> Feed_Heap \<Rightarrow> AWS_IoT_Client \<Rightarrow> Rx_Message \<Rightarrow> 'w \<Rightarrow> (AWS_IoT_Client \<times> Rx_Message \<times> 'w) run" where
  "iot_subscribe_callback_handler B n H c params w =
     bnd (callback_loop B n (fd_nodes H) (drop (rx_payload params) (readBuf c)) (hptr H) w) (\<lambda>w. Done (c, params, w))"

definition disconnectCallbackHandler :: "'w Env \<Rightarrow> nat \<Rightarrow> AWS_IoT_Client \<Rightarrow> 'w \<Rightarrow> (AWS_IoT_Client \<times> 'w) run" where
  "disconnectCallbackHandler E n pClient w =
     (if aws_iot_is_autoreconnect_enabled pClient then Done (pClient, w)
      else bnd (aws_iot_mqtt_attempt_reconnect E n pClient w) (\<lambda>(rc, c, w). Done (c, w)))"

text \<open>The environment of the client in this application: handler 0 is the message callback.\<close>

definition app_env :: "'w Board \<Rightarrow> nat \<Rightarrow> Feed_Heap \<Rightarrow> 'w Env \<Rightarrow> 'w Env" where
  "app_env B n H E =
     (let E1 = E\<lparr>app_handler := (\<lambda>f c topic len msg d w. iot_subscribe_callback_handler B n H c msg w)\<rparr>
      in E1\<lparr>disc_handler := (\<lambda>f c d w. disconnectCallbackHandler E1 n c w)\<rparr>)"

subsection \<open>The message that reports feeds\<close>

record App_Config =
  MAC :: cstring
  UserName :: cstring
  DeviceName :: cstring

definition strcat :: "nat \<Rightarrow> cstring \<Rightarrow> cstring \<Rightarrow> cstring run" where
  "strcat cap s t = (if length s + length t < cap then Done (s @ t) else Fault)"

definition feed1_text :: "FD \<Rightarrow> int \<Rightarrow> cstring" where
  "feed1_text d v = bytes_of ''{'' @ [10] @ bytes_of ''\"feeds\":[{\"feedname\":\"'' @ fd_feedname d @ bytes_of ''\",'' @ [10] @
     bytes_of ''\"feedtype\":\"'' @ fd_feedtype d @ bytes_of ''\",'' @ [10] @ bytes_of ''\"feedpin\":\"'' @ dec_int (fd_feedpin d) @
     bytes_of ''\",\"feedvalue\":\"'' @ dec_int v @ bytes_of ''\"},''"

definition feed2_text :: "FD \<Rightarrow> int \<Rightarrow> cstring" where
  "feed2_text d v = [10] @ bytes_of ''{\"feedname\":\"'' @ fd_feedname d @ bytes_of ''\",'' @ [10] @
     bytes_of ''\"feedtype\":\"'' @ fd_feedtype d @ bytes_of ''\",'' @ [10] @ bytes_of ''\"feedpin\":\"'' @ dec_int (fd_feedpin d) @
     bytes_of ''\",\"feedvalue\":\"'' @ dec_int v @ bytes_of ''\"},''"

definition feed2_empty :: cstring where
  "feed2_empty = [10] @ bytes_of ''{\"feedname\":\"\",'' @ [10] @ bytes_of ''\"feedtype\":\"\",'' @ [10] @
     bytes_of ''\"feedpin\":\"\",'' @ [10] @ bytes_of ''\"feedvalue\":\"\"},'' @ [10]"

definition feed3_text :: "FD \<Rightarrow> int \<Rightarrow> cstring" where
  "feed3_text d v = [10] @ bytes_of ''{\"feedname\":\"'' @ fd_feedname d @ bytes_of ''\",'' @ [10] @
     bytes_of ''\"feedtype\":\"'' @ fd_feedtype d @ bytes_of ''\",'' @ [10] @ bytes_of ''\"feedpin\":\"'' @ dec_int (fd_feedpin d) @
     bytes_of ''\",'' @ [10] @ bytes_of ''\"feedvalue\":\"'' @ dec_int v @ bytes_of ''\"}],''"

definition feed3_empty :: cstring where
  "feed3_empty = [10] @ bytes_of ''{\"feedname\":\"\",'' @ [10] @ bytes_of ''\"feedtype\":\"\",'' @ [10] @
     bytes_of ''\"feedpin\":\"\",'' @ [10] @ bytes_of ''\"feedvalue\":\"\"}],''"

definition credentials_text :: "App_Config \<Rightarrow> int \<Rightarrow> cstring" where
  "credentials_text cfg msgCount = bytes_of ''\"messagecount\": \"'' @ dec_int msgCount @ bytes_of ''\",\"paasmerid\":\"'' @ MAC cfg @
     bytes_of ''\",\"username\":\"'' @ UserName cfg @ bytes_of ''\",\"devicename\":\"'' @ DeviceName cfg @
     bytes_of ''\",\"devicetype\":\"SBC\"}''"

text \<open>
  One turn of the loop over the feeds up to the publish call: up to three feeds from \<open>p\<close> on are read into
  \<open>cPayload[512]\<close>; the other arrays have 256 bytes. Returns the message and the feed to go on with.
\<close>

definition feed_payload :: "'w Board \<Rightarrow> App_Config \<Rightarrow> (nat \<rightharpoonup> FD) \<Rightarrow> int \<Rightarrow> nat \<Rightarrow> 'w \<Rightarrow> (cstring \<times> nat option \<times> 'w) run" where
  "feed_payload B cfg h msgCount p w =
     bnd (of_opt (h p)) (\<lambda>d.
     bnd (gpioRead B (fd_feedpin d) w) (\<lambda>(feed1Value, w).
     let cPayload = take 511 (feed1_text d feed1Value) in
     bnd (case fd_next d of
            Some q \<Rightarrow> bnd (of_opt (h q)) (\<lambda>d.
              bnd (gpioRead B (fd_feedpin d) w) (\<lambda>(feed2Value, w).
              bnd (strcat 512 cPayload (take 255 (feed2_text d feed2Value))) (\<lambda>s. Done (s, fd_next d, w))))
          | None \<Rightarrow> bnd (strcat 512 cPayload (take 255 feed2_empty)) (\<lambda>s. Done (s, None, w))) (\<lambda>(cPayload, ptr, w).
     bnd (case ptr of
            Some q \<Rightarrow> bnd (of_opt (h q)) (\<lambda>d.
              bnd (gpioRead B (fd_feedpin d) w) (\<lambda>(feed3Value, w).
              bnd (strcat 512 cPayload (take 255 (feed3_text d feed3Value))) (\<lambda>s. Done (s, fd_next d, w))))
          | None \<Rightarrow> bnd (strcat 512 cPayload (take 255 feed3_empty)) (\<lambda>s. Done (s, None, w))) (\<lambda>(cPayload, ptr, w).
     bnd (strcat 512 cPayload (take 255 (credentials_text cfg msgCount))) (\<lambda>cPayload.
     Done (cPayload, ptr, w))))))"

subsection \<open>\<open>main\<close>\<close>

text \<open>The variables of \<open>main\<close> and the globals that change.\<close>

record App =
  app_rc :: IoT_Error_t
  publishCount :: u32
  infinitePublishFlag :: bool
  timedelay :: int
  msgCount :: int
  paramsQOS1 :: IoT_Publish_Message_Params

definition timePeriod :: int where "timePeriod = 6"

definition online_topic :: cstring where "online_topic = bytes_of ''paasmerv2_device_online''"

text \<open>The loop \<open>while(ptr)\<close>: one message for every three feeds.\<close>

primrec publish_feeds :: "'w Board \<Rightarrow> App_Config \<Rightarrow> 'w Env \<Rightarrow> nat \<Rightarrow> (nat \<rightharpoonup> FD) \<Rightarrow> nat \<Rightarrow> nat option \<Rightarrow> App
    \<Rightarrow> AWS_IoT_Client \<Rightarrow> 'w \<Rightarrow> (App \<times> AWS_IoT_Client \<times> 'w) run" where
  "publish_feeds B cfg E n h 0 ptr a c w = NoFuel"
| "publish_feeds B cfg E n h (Suc k) ptr a c w =
     (case ptr of None \<Rightarrow> Done (a, c, w)
      | Some p \<Rightarrow>
        bnd (feed_payload B cfg h (msgCount a) p w) (\<lambda>(cPayload, ptr, w).
        bnd (aws_iot_mqtt_publish E n c (Some online_topic) 23
              (Some ((paramsQOS1 a)\<lparr>pub_payload := Some cPayload, pub_payloadLen := of_nat (length cPayload)\<rparr>)) w)
          (\<lambda>(rc, params, c, w).
        let rc = (if rc = MQTT_REQUEST_TIMEOUT_ERROR then SUCCESS else rc);
            a = a\<lparr>app_rc := rc, msgCount := msgCount a + 1,
                  publishCount := (if 0 < publishCount a then publishCount a - 1 else publishCount a),
                  paramsQOS1 := (case params of None \<Rightarrow> paramsQOS1 a | Some q \<Rightarrow> q)\<rparr>
        in publish_feeds B cfg E n h k ptr a c (sleep_1s B w))))"

primrec app_loop :: "'w Board \<Rightarrow> App_Config \<Rightarrow> 'w Env \<Rightarrow> nat \<Rightarrow> Feed_Heap \<Rightarrow> nat \<Rightarrow> App \<Rightarrow> AWS_IoT_Client \<Rightarrow> 'w
    \<Rightarrow> (App \<times> AWS_IoT_Client \<times> 'w) run" where
  "app_loop B cfg E n H 0 a c w = NoFuel"
| "app_loop B cfg E n H (Suc k) a c w =
     (if app_rc a \<in> {NETWORK_ATTEMPTING_RECONNECT, NETWORK_RECONNECTED, SUCCESS}
         \<and> (0 < publishCount a \<or> infinitePublishFlag a) then
        bnd (aws_iot_mqtt_yield E n c 100 w) (\<lambda>(rc, c, w).
        let a = a\<lparr>app_rc := rc\<rparr> in
        if rc = NETWORK_ATTEMPTING_RECONNECT then app_loop B cfg E n H k a c w
        else
        let w = sleep_1s B w in
        if UserName cfg \<noteq> [] \<and> DeviceName cfg \<noteq> [] then
          let due = (timedelay a mod timePeriod = 0);
              a = a\<lparr>timedelay := timedelay a + 1\<rparr>
          in if due then bnd (publish_feeds B cfg E n (fd_nodes H) n (hptr H) a c w) (\<lambda>(a, c, w). app_loop B cfg E n H k a c w)
             else app_loop B cfg E n H k a c w
        else app_loop B cfg E n H k a c w)
      else Done (a, c, w))"

text \<open>\<open>parseInputArgsForConnectParams\<close> on the options \<open>getopt\<close> returns, each with its argument.\<close>

record App_Args =
  HostAddress :: cstring
  arg_port :: u32
  certDirectory :: cstring
  arg_publishCount :: u32

definition PATH_MAX :: nat where "PATH_MAX = 4096"

primrec parseInputArgsForConnectParams :: "(char \<times> cstring) list \<Rightarrow> App_Args \<Rightarrow> App_Args run" where
  "parseInputArgsForConnectParams [] g = Done g"
| "parseInputArgsForConnectParams (oa # opts) g =
     (case oa of (opt, optarg) \<Rightarrow>
      bnd (if opt = CHR ''h'' then if length optarg < 255 then Done (g\<lparr>HostAddress := optarg\<rparr>) else Fault
           else if opt = CHR ''p'' then Done (g\<lparr>arg_port := of_int (atoi optarg)\<rparr>)
           else if opt = CHR ''c'' then if length optarg < PATH_MAX + 1 then Done (g\<lparr>certDirectory := optarg\<rparr>) else Fault
           else if opt = CHR ''x'' then Done (g\<lparr>arg_publishCount := of_int (atoi optarg)\<rparr>)
           else Done g)
        (parseInputArgsForConnectParams opts))"

text \<open>
  \<open>main\<close>. \<open>client0\<close> and \<open>params0\<close> are the uninitialised variables \<open>client\<close> and \<open>paramsQOS1\<close>, \<open>cwd\<close> is the answer of
  \<open>getcwd\<close>; the result is the value \<open>main\<close> returns.
\<close>

definition app_init_params :: "App_Config \<Rightarrow> cstring \<Rightarrow> App_Args \<Rightarrow> IoT_Client_Init_Params" where
  "app_init_params cfg cwd g =
     (let dir = cwd @ bytes_of ''/'' @ certDirectory g @ bytes_of ''/'' in
      iotClientInitParamsDefault
        \<lparr>enableAutoReconnect := False, pHostURL := Some (HostAddress g), port := ucast (arg_port g),
         pRootCALocation := Some (take PATH_MAX (dir @ bytes_of ''rootCA.crt'')),
         pDeviceCertLocation := Some (take PATH_MAX (dir @ DeviceName cfg @ bytes_of ''-certificate.pem.crt'')),
         pDevicePrivateKeyLocation := Some (take PATH_MAX (dir @ DeviceName cfg @ bytes_of ''-private.pem.key'')),
         mqttCommandTimeout_ms := 20000, tlsHandshakeTimeout_ms := 5000, isSSLHostnameVerify := True,
         init_disconnectHandler := Some 0, init_disconnectHandlerData := None\<rparr>)"

text \<open>\<open>feedadd\<close> redefines the macro \<open>AWS_IOT_MQTT_CLIENT_ID\<close> as \<open>DeviceName\<close>, for the rest of the file.\<close>

definition app_connect_params :: "App_Config \<Rightarrow> IoT_Client_Connect_Params" where
  "app_connect_params cfg = iotClientConnectParamsDefault
     \<lparr>keepAliveIntervalInSec := 10, isCleanSession := True, MQTTVersion := MQTT_3_1_1,
      pClientID := Some (DeviceName cfg), clientIDLen := of_nat (length (DeviceName cfg)), isWillMsgPresent := False\<rparr>"

definition app_main :: "'w Board \<Rightarrow> App_Config \<Rightarrow> 'w Env \<Rightarrow> ((nat \<rightharpoonup> FD) \<Rightarrow> nat option) \<Rightarrow> nat \<Rightarrow> cstring list \<Rightarrow> cstring list \<Rightarrow> int list
    \<Rightarrow> (char \<times> cstring) list \<Rightarrow> App_Args \<Rightarrow> cstring \<Rightarrow> AWS_IoT_Client \<Rightarrow> IoT_Publish_Message_Params \<Rightarrow> 'w \<Rightarrow> (IoT_Error_t \<times> 'w) run" where
  "app_main B cfg E0 mal n names types pins opts g cwd client0 params0 w =
     bnd (feedadd B mal n names types pins w) (\<lambda>(H, w).
     bnd (parseInputArgsForConnectParams opts g) (\<lambda>g.
     let E = app_env B n H E0;
         (rc, c) = aws_iot_mqtt_init client0 (Some (app_init_params cfg cwd g))
     in if rc \<noteq> SUCCESS then Done (rc, w)
     else
     bnd (aws_iot_mqtt_connect E n c (Some (app_connect_params cfg)) w) (\<lambda>(rc, c, w).
     if rc \<noteq> SUCCESS then Done (rc, w)
     else
     let (rc, c) = aws_iot_mqtt_autoreconnect_set_status c True
     in if rc \<noteq> SUCCESS then Done (rc, w)
     else
     let sub_topic = UserName cfg @ bytes_of ''_'' @ DeviceName cfg
     in if 100 \<le> length sub_topic then Fault
     else
     bnd (aws_iot_mqtt_subscribe E n c (Some sub_topic) (of_nat (length sub_topic)) QOS0 (Some 0) None w) (\<lambda>(rc, c, w).
     if rc \<noteq> SUCCESS then Done (rc, w)
     else
     bnd (app_loop B cfg E n H n
       \<lparr>app_rc = rc, publishCount = arg_publishCount g, infinitePublishFlag = (arg_publishCount g = 0), timedelay = 1, msgCount = 0,
        paramsQOS1 = params0\<lparr>pub_qos := QOS1, pub_isRetained := 0\<rparr>\<rparr> c w) (\<lambda>(a, c, w).
     Done (app_rc a, w))))))"

subsection \<open>Lemmas on the string functions\<close>

lemma mem_prefix_text: "0 \<notin> set s \<Longrightarrow> mem_prefix (t @ 0 # rest) s = Done (prefix s t)"
proof (induction "t @ 0 # rest" s arbitrary: t rule: mem_prefix.induct)
  case (3 m mem x xs)
  then show ?case by (cases t) auto
qed auto

lemma mem_strstr_text: "0 \<notin> set s \<Longrightarrow> s \<noteq> [] \<Longrightarrow> 0 \<notin> set t \<Longrightarrow> mem_strstr (t @ 0 # rest) s = Done (sublist s t)"
proof (induction t)
  case Nil
  then show ?case using mem_prefix_text [of s "[]" rest] by (cases s) auto
next
  case (Cons a t)
  have "mem_prefix (a # t @ 0 # rest) s = Done (prefix s (a # t))"
    using mem_prefix_text [of s "a # t" rest] Cons.prems(1) by simp
  then show ?case using Cons by (simp add: sublist_Cons_right)
qed

subsection \<open>Properties\<close>

text \<open>The feed a command is for: the first whose name starts the text. What the callback does with it.\<close>

definition addressed_feed :: "feed list \<Rightarrow> cstring \<Rightarrow> feed option" where
  "addressed_feed fs text = find (\<lambda>f. prefix (fst f) text) fs"

definition switch_feed :: "'w Board \<Rightarrow> cstring \<Rightarrow> feed \<Rightarrow> 'w \<Rightarrow> 'w run" where
  "switch_feed B text f w =
     (if sublist (bytes_of ''on'') text then gpioWrite B (snd (snd f)) 1 w
      else if sublist (bytes_of ''off'') text then gpioWrite B (snd (snd f)) 0 w else Done w)"

lemma on_off_bytes: "bytes_of ''on'' = [111, 110]" "bytes_of ''off'' = [111, 102, 102]"
  by (simp_all add: bytes_of_def)

lemma callback_loop_switches:
  assumes "0 \<notin> set text"
  shows "feed_list h prev p as fs \<Longrightarrow> list_all (\<lambda>f. 0 \<notin> set (fst f)) fs \<Longrightarrow> length fs < n \<Longrightarrow>
    callback_loop B n h (text @ 0 # rest) p w =
      (case addressed_feed fs text of None \<Rightarrow> Done w | Some f \<Rightarrow> switch_feed B text f w)"
proof (induction as arbitrary: n prev p fs)
  case Nil
  then show ?case by (cases n) (auto simp: addressed_feed_def)
next
  case (Cons a as)
  then obtain d fs' m where d: "p = Some a" "h a = Some d" "fs = feed_of d # fs'" "n = Suc m"
      "feed_list h (Some a) (fd_next d) as fs'"
    by (cases n) auto
  have pre: "mem_prefix (text @ 0 # rest) (fd_feedname d) = Done (prefix (fd_feedname d) text)"
    using Cons.prems(2) d(3) by (intro mem_prefix_text) (simp add: feed_of_def)
  have str: "mem_strstr (text @ 0 # rest) (bytes_of ''on'') = Done (sublist (bytes_of ''on'') text)"
    "mem_strstr (text @ 0 # rest) (bytes_of ''off'') = Done (sublist (bytes_of ''off'') text)"
    using assms by (auto intro!: mem_strstr_text simp: on_off_bytes)
  show ?case
    using Cons.IH [OF d(5), of m] Cons.prems(2,3) d
    by (simp add: pre str addressed_feed_def switch_feed_def feed_of_def)
qed

text \<open>
  C25. The message callback: let \<open>text\<close> be the bytes from the payload of the received message up to the next NUL in the receive
  buffer. The first feed whose name starts the text is switched on if the text contains \<open>on\<close>, else off if it contains
  \<open>off\<close>, else left alone; no other pin is touched, and nothing happens when no name starts the text.
  The callback ends with its loop over the feeds and leaves the client unchanged.
\<close>

theorem callback_switches_feed:
  assumes "holds_feeds H fs" and "list_all (\<lambda>f. 0 \<notin> set (fst f)) fs" and "length fs < n"
    and "drop (rx_payload msg) (readBuf c) = text @ 0 # rest" and "0 \<notin> set text"
  shows "iot_subscribe_callback_handler B n H c msg w =
    bnd (case addressed_feed fs text of None \<Rightarrow> Done w | Some f \<Rightarrow> switch_feed B text f w) (\<lambda>w'. Done (c, msg, w'))"
proof -
  obtain as where "feed_list (fd_nodes H) None (hptr H) as fs" using assms(1) by (auto simp: holds_feeds_def)
  from callback_loop_switches [where B = B and w = w and rest = rest, OF assms(5) this assms(2,3)] show ?thesis
    by (simp add: iot_subscribe_callback_handler_def assms(4))
qed

definition demo_heap :: Feed_Heap where
  "demo_heap = \<lparr>fd_nodes = [1 \<mapsto> \<lparr>fd_pre = None, fd_feedname = bytes_of ''fan'', fd_feedtype = bytes_of ''actuator'',
     fd_feedpin = 3, fd_next = None\<rparr>], hptr = Some 1\<rparr>"

lemma demo_heap_holds: "holds_feeds demo_heap [(bytes_of ''fan'', bytes_of ''actuator'', 3)]"
  by (auto simp: holds_feeds_def demo_heap_def feed_of_def intro!: exI [of _ "[1]"])

definition demo_message :: Rx_Message where
  "demo_message = \<lparr>rx_qos = QOS0, rx_isRetained = 0, rx_isDup = 0, rx_id = 0, rx_payload = 2, rx_payloadLen = 7\<rparr>"

theorem callback_switches_feed_witness:
  "iot_subscribe_callback_handler demo_board 2 demo_heap (sim_client\<lparr>readBuf := [48, 9] @ bytes_of ''fan off'' @ [0]\<rparr>) demo_message [] =
     Done (sim_client\<lparr>readBuf := [48, 9] @ bytes_of ''fan off'' @ [0]\<rparr>, demo_message, [bytes_of ''gpio -1 write 3 0''])"
  using callback_switches_feed [OF demo_heap_holds, of 2 demo_message "sim_client\<lparr>readBuf := [48, 9] @ bytes_of ''fan off'' @ [0]\<rparr>"
      "bytes_of ''fan off''" "[]" demo_board "[]"]
  by (simp add: demo_message_def addressed_feed_def switch_feed_def bytes_of_def gpioWrite_def wiring_board_def
      demo_board_def run_command_def dec_int_def dec.simps sublist_Cons_right)

text \<open>
  The callback obeys bytes that are not part of the message. The receive buffer is not cleared between packets and
  the payload has no terminator; when the bytes left behind the payload by an earlier packet contain \<open>on\<close>, a
  message that switches a feed off when a NUL follows it switches the feed on instead.
\<close>

theorem callback_obeys_stale_bytes:
  assumes "holds_feeds H (f # fs)" and "list_all (\<lambda>f. 0 \<notin> set (fst f)) (f # fs)" and "length (f # fs) < n"
    and "prefix (fst f) payload" and "\<not> sublist (bytes_of ''on'') payload" and "sublist (bytes_of ''off'') payload"
    and "sublist (bytes_of ''on'') stale" and "0 \<notin> set payload \<union> set stale"
  shows "(drop (rx_payload msg) (readBuf c) = payload @ 0 # rest \<longrightarrow>
      iot_subscribe_callback_handler B n H c msg w = bnd (gpioWrite B (snd (snd f)) 0 w) (\<lambda>w'. Done (c, msg, w'))) \<and>
    (drop (rx_payload msg) (readBuf c) = payload @ stale @ 0 # rest \<longrightarrow>
      iot_subscribe_callback_handler B n H c msg w = bnd (gpioWrite B (snd (snd f)) 1 w) (\<lambda>w'. Done (c, msg, w')))"
proof -
  obtain as where as: "feed_list (fd_nodes H) None (hptr H) as (f # fs)" using assms(1) by (auto simp: holds_feeds_def)
  have "sublist (bytes_of ''on'') (payload @ stale)" "prefix (fst f) (payload @ stale)"
    using assms(4,7) by (simp_all add: sublist_append)
  with callback_loop_switches [where B = B and w = w and rest = rest, OF _ as assms(2,3), of payload]
    callback_loop_switches [where B = B and w = w and rest = rest, OF _ as assms(2,3), of "payload @ stale"]
    assms(4-6,8)
  show ?thesis
    by (simp add: iot_subscribe_callback_handler_def addressed_feed_def switch_feed_def)
qed

theorem callback_obeys_stale_bytes_witness:
  "iot_subscribe_callback_handler demo_board 2 demo_heap (sim_client\<lparr>readBuf := [48, 9] @ bytes_of ''fan off'' @ bytes_of ''long'' @ [0]\<rparr>)
       demo_message [] =
     bnd (gpioWrite demo_board 3 1 []) (\<lambda>w'. Done (sim_client\<lparr>readBuf := [48, 9] @ bytes_of ''fan off'' @ bytes_of ''long'' @ [0]\<rparr>,
       demo_message, w'))"
  using callback_obeys_stale_bytes [OF demo_heap_holds, of 2 "bytes_of ''fan off''" "bytes_of ''long''" demo_message
      "sim_client\<lparr>readBuf := [48, 9] @ bytes_of ''fan off'' @ bytes_of ''long'' @ [0]\<rparr>" "[]" demo_board "[]"]
  by (simp add: demo_message_def bytes_of_def sublist_Cons_right)

subsection \<open>The size of a report\<close>

text \<open>The texts a report consists of, for the nodes \<open>ds\<close> (the first three count) and the values read from their pins.\<close>

definition report_text :: "App_Config \<Rightarrow> int \<Rightarrow> FD list \<Rightarrow> int list \<Rightarrow> cstring" where
  "report_text cfg count ds vs =
     feed1_text (ds ! 0) (vs ! 0) @
     (if 1 < length ds then feed2_text (ds ! 1) (vs ! 1) else feed2_empty) @
     (if 2 < length ds then feed3_text (ds ! 2) (vs ! 2) else feed3_empty) @ credentials_text cfg count"

text \<open>\<open>atoi\<close> is applied to texts that denote an \<open>int\<close> only.\<close>

definition reads_ints :: "'w Board \<Rightarrow> bool" where
  "reads_ints B \<longleftrightarrow> (\<forall>t w. int32 (atoi (fst (read_line B t w))))"

definition node_ok :: "FD \<Rightarrow> bool" where
  "node_ok d \<longleftrightarrow> feed_fits (feed_of d) \<and> int32 (fd_feedpin d)"

lemma gpioRead_int32: "reads_ints B \<Longrightarrow> int32 pin \<Longrightarrow> \<exists>v w'. gpioRead B pin w = Done (v, w') \<and> int32 v"
  using length_dec_int32 [of pin]
  by (auto simp: gpioRead_def read_command_def bytes_of_def reads_ints_def int32_def split: prod.splits)
    (metis fst_conv)+

lemma feed_text_lengths:
  assumes "node_ok d" "int32 v"
  shows "length (feed1_text d v) \<le> 121" "length (feed2_text d v) \<le> 111" "length (feed3_text d v) \<le> 113"
  using assms length_dec_int32 [of v] length_dec_int32 [of "fd_feedpin d"]
  by (simp_all add: feed1_text_def feed2_text_def feed3_text_def node_ok_def feed_fits_def feed_of_def bytes_of_def)

lemma empty_text_lengths: "length feed2_empty = 63" "length feed3_empty = 63"
  by (simp_all add: feed2_empty_def feed3_empty_def bytes_of_def)

lemma credentials_length:
  "length (credentials_text cfg count) = 83 + length (dec_int count) + length (MAC cfg) + length (UserName cfg) + length (DeviceName cfg)"
  by (simp add: credentials_text_def bytes_of_def)

text \<open>Appending to \<open>cPayload\<close>, an outgrown array anywhere being a fault of the whole.\<close>

lemma strcat_then:
  "bnd (strcat 512 s t) f = (if length s + length t < 512 then f (s @ t) else Fault)"
  by (simp add: strcat_def)

lemma feed_payload_report:
  fixes B :: "'w Board"
  assumes B: "reads_ints B" and cred: "length (credentials_text cfg count) \<le> 255"
    and p: "h p = Some d" and d: "node_ok d"
    and second: "\<And>q. fd_next d = Some q \<Longrightarrow> \<exists>e. h q = Some e \<and> node_ok e \<and>
        (\<forall>r. fd_next e = Some r \<longrightarrow> (\<exists>f. h r = Some f \<and> node_ok f))"
  defines "ds \<equiv> d # (case fd_next d of None \<Rightarrow> [] | Some q \<Rightarrow> the (h q) #
      (case fd_next (the (h q)) of None \<Rightarrow> [] | Some r \<Rightarrow> [the (h r)]))"
  shows "\<exists>vs w'. length vs = length ds \<and> list_all int32 vs \<and>
    length (report_text cfg count ds vs) \<le> 345 + length (credentials_text cfg count) \<and>
    feed_payload B cfg h count p w =
      (if length (report_text cfg count ds vs) < 512
       then Done (report_text cfg count ds vs, if length ds = 3 then fd_next (last ds) else None, w') else Fault)"
proof -
  obtain v1 w1 where r1: "gpioRead B (fd_feedpin d) w = Done (v1, w1)" "int32 v1"
    using gpioRead_int32 [OF B, of "fd_feedpin d" w] d by (auto simp: node_ok_def)
  note l1 = feed_text_lengths(1) [OF d r1(2)]
  show ?thesis
  proof (cases "fd_next d")
    case None
    then show ?thesis
      using l1 cred p r1
      by (intro exI [of _ "[v1]"] exI [of _ w1])
        (simp add: ds_def feed_payload_def strcat_then report_text_def empty_text_lengths)
  next
    case (Some q)
    then obtain e where e: "h q = Some e" "node_ok e" "\<And>r. fd_next e = Some r \<Longrightarrow> \<exists>f. h r = Some f \<and> node_ok f"
      using second by blast
    obtain v2 w2 where r2: "gpioRead B (fd_feedpin e) w1 = Done (v2, w2)" "int32 v2"
      using gpioRead_int32 [OF B, of "fd_feedpin e" w1] e(2) by (auto simp: node_ok_def)
    note l2 = feed_text_lengths(2) [OF e(2) r2(2)]
    show ?thesis
    proof (cases "fd_next e")
      case None
      then show ?thesis
        using l1 l2 cred p r1 r2 e Some
        by (intro exI [of _ "[v1, v2]"] exI [of _ w2])
          (simp add: ds_def feed_payload_def strcat_then report_text_def empty_text_lengths)
    next
      case next3: (Some r)
      then obtain f where f: "h r = Some f" "node_ok f" using e(3) by blast
      obtain v3 w3 where r3: "gpioRead B (fd_feedpin f) w2 = Done (v3, w3)" "int32 v3"
        using gpioRead_int32 [OF B, of "fd_feedpin f" w2] f(2) by (auto simp: node_ok_def)
      note l3 = feed_text_lengths(3) [OF f(2) r3(2)]
      show ?thesis
        using l1 l2 l3 cred p r1 r2 r3 e(1) f(1) Some next3
        by (intro exI [of _ "[v1, v2, v3]"] exI [of _ w3])
          (simp add: ds_def feed_payload_def strcat_then report_text_def)
    qed
  qed
qed

lemma feed_list_nodes: "feed_list h prev p as fs \<Longrightarrow> map (feed_of \<circ> the \<circ> h) as = fs"
  by (induction as arbitrary: prev p fs) auto

text \<open>The first three nodes of a list, as \<open>feed_payload_report\<close> names them.\<close>

lemma feed_list_three:
  assumes "feed_list h prev (Some p) as fs"
  shows "\<exists>d. h p = Some d \<and> take 3 (map (the \<circ> h) as) = d # (case fd_next d of None \<Rightarrow> [] | Some q \<Rightarrow> the (h q) #
      (case fd_next (the (h q)) of None \<Rightarrow> [] | Some r \<Rightarrow> [the (h r)])) \<and>
    (\<forall>q. fd_next d = Some q \<longrightarrow> q \<in> set as \<and> (\<forall>r. fd_next (the (h q)) = Some r \<longrightarrow> r \<in> set as)) \<and> p \<in> set as \<and>
    (\<exists>prev'. feed_list h prev' (if length (take 3 as) = 3 then fd_next (last (take 3 (map (the \<circ> h) as))) else None)
       (drop 3 as) (drop 3 fs))"
proof (cases as rule: remdups_adj.cases)
  case 1
  then show ?thesis using assms by simp
next
  case (2 a)
  then show ?thesis using assms by auto
next
  case (3 a b bs)
  then show ?thesis using assms
    by (cases bs) (auto simp: numeral_3_eq_3)
qed

text \<open>
  A report of the feeds: with nodes as \<open>feedadd\<close> builds them and credentials that fit their array, a turn of the
  loop reads the pins of the next three feeds, goes on behind them, and builds exactly the report text; if that text has 512
  bytes or more it is written past \<open>cPayload\<close>. It fits for every feed when hardware address, user name and device name together
  have at most 72 characters.
\<close>

theorem feed_report_bounds:
  assumes "reads_ints B" and "int32 count" and "feed_list h prev (Some p) as fs"
    and "list_all (\<lambda>f. feed_fits f \<and> int32 (snd (snd f))) fs" and "length (credentials_text cfg count) \<le> 255"
  shows "\<exists>vs q w' prev'. let ds = take 3 (map (the \<circ> h) as); T = report_text cfg count ds vs in
    length vs = length ds \<and> list_all int32 vs \<and> feed_list h prev' q (drop 3 as) (drop 3 fs) \<and>
    feed_payload B cfg h count p w = (if length T < 512 then Done (T, q, w') else Fault) \<and>
    (length (MAC cfg) + length (UserName cfg) + length (DeviceName cfg) \<le> 72 \<longrightarrow> length T < 512)"
proof -
  have nodes: "map (feed_of \<circ> the \<circ> h) as = fs" using assms(3)
    by (rule feed_list_nodes)
  have ok: "node_ok (the (h a))" if "a \<in> set as" for a
    using that assms(4) by (auto simp: nodes [symmetric] list_all_iff node_ok_def feed_of_def)
  have dom: "\<exists>d. h a = Some d" if "a \<in> set as" for a using feed_list_dom [OF assms(3)] that by blast
  from feed_list_three [OF assms(3)] obtain d where d: "h p = Some d" "take 3 (map (the \<circ> h) as) = d # (case fd_next d of None \<Rightarrow> [] | Some q \<Rightarrow> the (h q) #
      (case fd_next (the (h q)) of None \<Rightarrow> [] | Some r \<Rightarrow> [the (h r)]))"
    "\<And>q. fd_next d = Some q \<Longrightarrow> q \<in> set as \<and> (\<forall>r. fd_next (the (h q)) = Some r \<longrightarrow> r \<in> set as)" "p \<in> set as"
    "\<exists>prev'. feed_list h prev' (if length (take 3 as) = 3 then fd_next (last (take 3 (map (the \<circ> h) as))) else None) (drop 3 as) (drop 3 fs)"
    by blast
  have second: "\<exists>e. h q = Some e \<and> node_ok e \<and> (\<forall>r. fd_next e = Some r \<longrightarrow> (\<exists>f. h r = Some f \<and> node_ok f))"
    if "fd_next d = Some q" for q
    using d(3) [OF that] ok dom by (metis option.sel)
  have nd: "node_ok d" using ok [OF d(4)] d(1) by simp
  from feed_payload_report [where w = w, OF assms(1,5) d(1) nd second, folded d(2)]
  obtain vs w' where vs: "length vs = length (take 3 (map (the \<circ> h) as))" "list_all int32 vs"
      "length (report_text cfg count (take 3 (map (the \<circ> h) as)) vs) \<le> 345 + length (credentials_text cfg count)"
      "feed_payload B cfg h count p w = (if length (report_text cfg count (take 3 (map (the \<circ> h) as)) vs) < 512
        then Done (report_text cfg count (take 3 (map (the \<circ> h) as)) vs,
          if length (take 3 (map (the \<circ> h) as)) = 3 then fd_next (last (take 3 (map (the \<circ> h) as))) else None, w') else Fault)"
    by blast
  have "length (MAC cfg) + length (UserName cfg) + length (DeviceName cfg) \<le> 72 \<Longrightarrow>
      length (report_text cfg count (take 3 (map (the \<circ> h) as)) vs) < 512"
    using vs(3) length_dec_int32 [OF assms(2)] by (simp add: credentials_length)
  with vs d(5) show ?thesis unfolding Let_def by (metis length_map length_take)
qed

definition demo_config :: App_Config where
  "demo_config = \<lparr>MAC = bytes_of ''b827eb'', UserName = bytes_of ''ann'', DeviceName = bytes_of ''pi''\<rparr>"

theorem feed_report_bounds_witness:
  "\<exists>vs q w'. let T = report_text demo_config 0 [the (fd_nodes demo_heap 1)] vs in
     length T < 512 \<and> feed_payload demo_board demo_config (fd_nodes demo_heap) 0 1 [] = Done (T, q, w')"
proof -
  have "reads_ints demo_board" by (simp add: reads_ints_def demo_board_def int32_def atoi_def scan_u_def isspace_def scan_sign_def scan_digits_def
      number_def is_digit_def digit_val_def)
  moreover have "feed_list (fd_nodes demo_heap) None (Some 1) [1] [(bytes_of ''fan'', bytes_of ''actuator'', 3)]"
    by (simp add: demo_heap_def feed_of_def)
  moreover have "length (credentials_text demo_config 0) \<le> 255"
    by (simp add: credentials_length demo_config_def bytes_of_def dec_int_def dec.simps)
  ultimately have "\<exists>vs q w' prev'. let ds = take 3 (map (the \<circ> fd_nodes demo_heap) [1]); T = report_text demo_config 0 ds vs in
    length vs = length ds \<and> list_all int32 vs \<and>
    feed_list (fd_nodes demo_heap) prev' q (drop 3 [1]) (drop 3 [(bytes_of ''fan'', bytes_of ''actuator'', 3)]) \<and>
    feed_payload demo_board demo_config (fd_nodes demo_heap) 0 1 [] = (if length T < 512 then Done (T, q, w') else Fault) \<and>
    (length (MAC demo_config) + length (UserName demo_config) + length (DeviceName demo_config) \<le> 72 \<longrightarrow> length T < 512)"
    by (intro feed_report_bounds) (simp_all add: int32_def feed_fits_def bytes_of_def)
  moreover have "length (MAC demo_config) + length (UserName demo_config) + length (DeviceName demo_config) \<le> 72"
    by (simp add: demo_config_def bytes_of_def)
  ultimately show ?thesis by (auto simp: Let_def)
qed

subsection \<open>The application as a client of the MQTT interface\<close>

text \<open>The two callbacks respect the contract that the operations of the client ask of callbacks.\<close>

lemma app_env_fields [simp]:
  "net_read (app_env B n H E) = net_read E"
  "app_handler (app_env B n H E) = (\<lambda>f c topic len msg d w. iot_subscribe_callback_handler B n H c msg w)"
  by (simp_all add: app_env_def Let_def)

lemma subscribe_callback_client:
  "iot_subscribe_callback_handler B n H c msg w = Done (c', msg', w') \<Longrightarrow> c' = c \<and> msg' = msg"
  by (auto simp: iot_subscribe_callback_handler_def bnd_Done_iff)

lemma app_env_callbacks:
  "callbacks_keep (app_env B n H E) keeps_wf" "callbacks_keep (app_env B n H E) keeps_state"
  "plain_reads (app_env B n H E) \<longleftrightarrow> plain_reads E"
  by (auto simp: callbacks_keep_def keeps_wf_def keeps_state_def plain_reads_def dest: subscribe_callback_client)

lemma app_env_disc: "disc_keeps (app_env B n H E) keeps_wf"
proof -
  let ?E = "E\<lparr>app_handler := (\<lambda>f c topic len msg d w. iot_subscribe_callback_handler B n H c msg w)\<rparr>"
  have "callbacks_keep ?E keeps_wf" by (auto simp: callbacks_keep_def keeps_wf_def dest: subscribe_callback_client)
  note wf = attempt_reconnect_wf [OF this, THEN postD]
  show ?thesis
    by (auto simp: disc_keeps_def keeps_wf_def app_env_def Let_def disconnectCallbackHandler_def dest: wf split: if_splits)
qed

definition app_ok :: "AWS_IoT_Client \<Rightarrow> bool" where
  "app_ok c \<longleftrightarrow> wf_client c \<and> resting (clientState c)"

lemma app_call_ok:
  assumes "plain_reads E" and "app_ok c" and "call_ok call"
  shows "post (client_call (app_env B n H E) m call c w) (\<lambda>(rc, c', w'). app_ok c')"
  using post_conj [OF client_call_wf [OF app_env_callbacks(1) app_env_disc, of c call B n H E m w]
      client_call_resting [OF app_env_callbacks(2), of B n H E c m call w]] assms
  by (simp add: app_ok_def app_env_callbacks split_def)

lemma app_yield_ok:
  assumes "plain_reads E" and "app_ok c"
  shows "post (aws_iot_mqtt_yield (app_env B n H E) m c ms w) (\<lambda>(rc, c', w'). app_ok c')"
  using app_call_ok [OF assms, of "Yield ms"] by simp

lemma app_publish_ok:
  assumes "plain_reads E" and "app_ok c"
  shows "post (aws_iot_mqtt_publish (app_env B n H E) m c t l p w) (\<lambda>(rc, p', c', w'). app_ok c')"
  using app_call_ok [OF assms, of "Publish t l p"] by (simp add: drop_params_def split_def)

lemma count_down: "0 < (k :: u32) \<Longrightarrow> x \<le> k - 1 \<Longrightarrow> x \<le> k"
  by unat_arith

lemma publish_feeds_ok:
  assumes "plain_reads E"
  shows "app_ok c \<Longrightarrow> post (publish_feeds B cfg (app_env B n H E) m h k ptr a c w)
    (\<lambda>(a', c', w'). app_ok c' \<and> publishCount a' \<le> publishCount a \<and> infinitePublishFlag a' = infinitePublishFlag a)"
proof (induction k arbitrary: ptr a c w)
  case (Suc k)
  show ?case
    using Suc.prems
    by (auto simp: Let_def split: option.split
        intro!: postI [of "feed_payload B cfg h mc p w" for mc p w] post_mono [OF app_publish_ok [OF assms]]
          post_mono [OF Suc.IH]) (erule (1) count_down)+
qed simp

abbreviation continue_codes :: "IoT_Error_t set" where
  "continue_codes \<equiv> {NETWORK_ATTEMPTING_RECONNECT, NETWORK_RECONNECTED, SUCCESS}"


definition sim_board :: "Sim Board" where
  "sim_board = \<lparr>deviceType = bytes_of ''bananapi'', system_cmd = (\<lambda>c w. w), read_line = (\<lambda>c w. ([49], w)), sleep_1s = (\<lambda>w. w)\<rparr>"


end
