(* ===== verification/Mbedtls_Base64.thy ===== *)
theory Mbedtls_Base64
  imports Prelude
begin

unbundle bit_operations_syntax

text \<open>
  The base64 codec of the bundled mbedTLS (src/external_libs/mbedTLS/library/base64.c), through
  which every PEM credential the TLS layer loads passes.

  A pair (pointer, length) of the C interface is the list of its bytes: \<open>slen = length src\<close>,
  \<open>dlen = length dst\<close>, and a NULL destination is \<open>None\<close>. The scanning pass walks the input by
  its remaining suffix \<open>src[i..slen)\<close>; both writing loops go through a cursor on \<open>dst\<close>, where a
  write outside \<open>dst\<close> is \<open>None\<close>. The sizes are computed in \<open>size_t\<close> as the code does. Shown:
  the encoder writes exactly the RFC 4648 text and its terminator, the decoder never leaves its
  buffer, whatever the input, and decodes what the encoder wrote, also when line breaks have been
  put into it.
\<close>

subsection \<open>The program\<close>

definition MBEDTLS_ERR_BASE64_BUFFER_TOO_SMALL :: int where
  "MBEDTLS_ERR_BASE64_BUFFER_TOO_SMALL = - 0x2A"

definition MBEDTLS_ERR_BASE64_INVALID_CHARACTER :: int where
  "MBEDTLS_ERR_BASE64_INVALID_CHARACTER = - 0x2C"

definition base64_enc_map :: "byte list" where
  "base64_enc_map = bytes_of ''ABCDEFGHIJKLMNOPQRSTUVWXYZabcdefghijklmnopqrstuvwxyz0123456789+/''"

definition base64_dec_map :: "byte list" where
  "base64_dec_map = [
     127, 127, 127, 127, 127, 127, 127, 127, 127, 127, 127, 127, 127, 127, 127, 127,
     127, 127, 127, 127, 127, 127, 127, 127, 127, 127, 127, 127, 127, 127, 127, 127,
     127, 127, 127, 127, 127, 127, 127, 127, 127, 127, 127, 62, 127, 127, 127, 63,
     52, 53, 54, 55, 56, 57, 58, 59, 60, 61, 127, 127, 127, 64, 127, 127,
     127, 0, 1, 2, 3, 4, 5, 6, 7, 8, 9, 10, 11, 12, 13, 14,
     15, 16, 17, 18, 19, 20, 21, 22, 23, 24, 25, 127, 127, 127, 127, 127,
     127, 26, 27, 28, 29, 30, 31, 32, 33, 34, 35, 36, 37, 38, 39, 40,
     41, 42, 43, 44, 45, 46, 47, 48, 49, 50, 51, 127, 127, 127, 127, 127]"

text \<open>\<open>base64_enc_map[x & 0x3F]\<close>; the operands are \<open>int\<close>s between 0 and 255.\<close>

definition enc_char :: "u32 \<Rightarrow> byte" where
  "enc_char x = base64_enc_map ! unat (x AND 0x3F)"

text \<open>The number of characters the encoder will write, as the \<open>switch\<close> computes it.\<close>

definition encoded_size :: "size_t \<Rightarrow> size_t" where
  "encoded_size slen = (let n = push_bit 3 slen div 6; r = push_bit 3 slen - n * 6 in
     if r = 2 then n + 3 else if r = 4 then n + 2 else n)"

text \<open>The loop over complete groups of three bytes, then the padded last group.\<close>

primrec encode_groups :: "nat \<Rightarrow> byte list \<Rightarrow> nat \<Rightarrow> cursor \<Rightarrow> cursor option" where
  "encode_groups 0 src s p = Some p"
| "encode_groups (Suc g) src s p = do {
     c1 \<leftarrow> byte_at src s; c2 \<leftarrow> byte_at src (s + 1); c3 \<leftarrow> byte_at src (s + 2);
     let C1 = ucast c1; let C2 = ucast c2; let C3 = ucast c3;
     p \<leftarrow> store (enc_char (drop_bit 2 C1)) p;
     p \<leftarrow> store (enc_char (push_bit 4 (C1 AND 3) + drop_bit 4 C2)) p;
     p \<leftarrow> store (enc_char (push_bit 2 (C2 AND 15) + drop_bit 6 C3)) p;
     p \<leftarrow> store (enc_char C3) p;
     encode_groups g src (s + 3) p }"

definition encode_rest :: "byte list \<Rightarrow> nat \<Rightarrow> cursor \<Rightarrow> cursor option" where
  "encode_rest src i p = (if i < length src then do {
       c1 \<leftarrow> byte_at src i;
       c2 \<leftarrow> (if i + 1 < length src then byte_at src (i + 1) else Some 0);
       let C1 = ucast c1; let C2 = ucast c2;
       p \<leftarrow> store (enc_char (drop_bit 2 C1)) p;
       p \<leftarrow> store (enc_char (push_bit 4 (C1 AND 3) + drop_bit 4 C2)) p;
       p \<leftarrow> (if i + 1 < length src then store (enc_char (push_bit 2 (C2 AND 15))) p
             else store 0x3D p);
       store 0x3D p }
     else Some p)"

definition mbedtls_base64_encode :: "byte list \<Rightarrow> byte list \<Rightarrow> (int \<times> byte list \<times> size_t) option" where
  "mbedtls_base64_encode dst src = (let slen = of_nat (length src) :: size_t in
     if slen = 0 then Some (0, dst, 0)
     else let n = encoded_size slen in
     if (of_nat (length dst) :: size_t) < n + 1 then Some (MBEDTLS_ERR_BASE64_BUFFER_TOO_SMALL, dst, n + 1)
     else do {
       let g = length src div 3;
       p \<leftarrow> encode_groups g src 0 (dst, 0);
       p \<leftarrow> encode_rest src (3 * g) p;
       let olen = of_nat (snd p);
       p \<leftarrow> store 0 p;
       Some (0, fst p, olen) })"

text \<open>
  The decoder's first pass: spaces (counted in the \<open>uint32_t x\<close>) only before an end of line or the
  end of the buffer, at most two \<open>=\<close> and nothing but \<open>=\<close> after the first. It yields the number \<open>n\<close> of
  characters and \<open>j\<close> of \<open>=\<close>.
\<close>

fun skip_spaces :: "byte list \<Rightarrow> u32 \<Rightarrow> byte list \<times> u32" where
  "skip_spaces [] x = ([], x)"
| "skip_spaces (c # cs) x = (if c = 0x20 then skip_spaces cs (x + 1) else (c # cs, x))"

lemma skip_spaces_length: "length (fst (skip_spaces cs x)) \<le> length cs"
  by (induction cs x rule: skip_spaces.induct) auto

lemma skip_spaces_shorter: "(c # cs, y) = skip_spaces src x \<Longrightarrow> length cs < length src"
  using skip_spaces_length [of src x] by (metis Suc_le_eq fst_conv length_Cons)

definition dec_char :: "byte \<Rightarrow> byte" where
  "dec_char c = base64_dec_map ! unat c"

function decode_scan :: "byte list \<Rightarrow> size_t \<Rightarrow> u32 \<Rightarrow> int + (size_t \<times> u32)" where
  "decode_scan src n j = (case skip_spaces src 0 of
     ([], x) \<Rightarrow> Inr (n, j)
   | (c # cs, x) \<Rightarrow>
       if c = 0x0D \<and> cs \<noteq> [] \<and> hd cs = 0x0A then decode_scan cs n j
       else if c = 0x0A then decode_scan cs n j
       else if x \<noteq> 0 then Inl MBEDTLS_ERR_BASE64_INVALID_CHARACTER
       else let j' = (if c = 0x3D then j + 1 else j) in
       if c = 0x3D \<and> 2 < j' then Inl MBEDTLS_ERR_BASE64_INVALID_CHARACTER
       else if 127 < c \<or> dec_char c = 127 then Inl MBEDTLS_ERR_BASE64_INVALID_CHARACTER
       else if dec_char c < 64 \<and> j' \<noteq> 0 then Inl MBEDTLS_ERR_BASE64_INVALID_CHARACTER
       else decode_scan cs (n + 1) j')"
  by pat_completeness auto
termination
  by (relation "measure (\<lambda>(src, n, j). length src)") (auto dest: skip_spaces_shorter)

declare decode_scan.simps [simp del]

text \<open>The second pass: \<open>j\<close> starts at 3 and counts down with each \<open>=\<close>, four characters give a group.\<close>

definition decode_group :: "u32 \<Rightarrow> u32 \<Rightarrow> cursor \<Rightarrow> cursor option" where
  "decode_group j x p = do {
     p \<leftarrow> (if 0 < j then store (ucast (drop_bit 16 x)) p else Some p);
     p \<leftarrow> (if 1 < j then store (ucast (drop_bit 8 x)) p else Some p);
     (if 2 < j then store (ucast x) p else Some p) }"

primrec decode_emit :: "byte list \<Rightarrow> u32 \<Rightarrow> nat \<Rightarrow> u32 \<Rightarrow> cursor \<Rightarrow> cursor option" where
  "decode_emit [] j n x p = Some p"
| "decode_emit (c # cs) j n x p =
     (if c = 0x0D \<or> c = 0x0A \<or> c = 0x20 then decode_emit cs j n x p
      else do {
        d \<leftarrow> byte_at base64_dec_map (unat c);
        let j = (if d = 64 then j - 1 else j);
        let x = push_bit 6 x OR ucast (d AND 0x3F);
        if Suc n = 4 then do { p \<leftarrow> decode_group j x p; decode_emit cs j 0 x p }
        else decode_emit cs j (Suc n) x p })"

definition mbedtls_base64_decode ::
    "byte list option \<Rightarrow> size_t \<Rightarrow> byte list \<Rightarrow> (int \<times> byte list option \<times> size_t) option" where
  "mbedtls_base64_decode dst olen src = (case decode_scan src 0 0 of
     Inl e \<Rightarrow> Some (e, dst, olen)
   | Inr (n, j) \<Rightarrow>
       if n = 0 then Some (0, dst, olen)
       else let n = drop_bit 3 (n * 6 + 7) - ucast j in
       (case dst of
          None \<Rightarrow> Some (MBEDTLS_ERR_BASE64_BUFFER_TOO_SMALL, dst, n)
        | Some d \<Rightarrow>
            if (of_nat (length d) :: size_t) < n then Some (MBEDTLS_ERR_BASE64_BUFFER_TOO_SMALL, dst, n)
            else do {
              p \<leftarrow> decode_emit src 3 0 0 (d, 0);
              Some (0, Some (fst p), of_nat (snd p)) }))"

subsection \<open>The encoder against RFC 4648\<close>

fun base64_text :: "byte list \<Rightarrow> byte list" where
  "base64_text [] = []"
| "base64_text [a] = [enc_char (drop_bit 2 (ucast a)), enc_char (push_bit 4 (ucast a AND 3)), 0x3D, 0x3D]"
| "base64_text [a, b] = [enc_char (drop_bit 2 (ucast a)),
     enc_char (push_bit 4 (ucast a AND 3) + drop_bit 4 (ucast b)),
     enc_char (push_bit 2 (ucast b AND 15)), 0x3D]"
| "base64_text (a # b # c # cs) = [enc_char (drop_bit 2 (ucast a)),
     enc_char (push_bit 4 (ucast a AND 3) + drop_bit 4 (ucast b)),
     enc_char (push_bit 2 (ucast b AND 15) + drop_bit 6 (ucast c)), enc_char (ucast c)] @ base64_text cs"

lemma base64_text_length: "length (base64_text cs) = 4 * ((length cs + 2) div 3)"
proof (induction cs rule: base64_text.induct)
  case (4 a b c cs)
  have "(length cs + 5) div 3 = (length cs + 2) div 3 + 1" by presburger
  with 4 show ?case by (simp add: ac_simps)
qed simp_all

lemma base64_text_append:
  "length cs mod 3 = 0 \<Longrightarrow> base64_text (cs @ ds) = base64_text cs @ base64_text ds"
proof (induction cs rule: base64_text.induct)
  case (4 a b c cs)
  have "length cs mod 3 = 0" using 4(2) by (simp add: mod_simps)
  with 4 show ?case by simp
qed simp_all

lemma put_Some_Nil: "Some p = put [] p \<longleftrightarrow> snd p \<le> length (fst p)"
  by (cases p) (simp add: put_def)

lemma put_store: "Option.bind (put xs p) (store c) = put (xs @ [c]) p"
  using put_put [of xs p "[c]"] by (simp add: store_put [abs_def])

text \<open>The group loop writes the text of the groups it covers.\<close>

lemma drop_3: "s + 3 \<le> length src \<Longrightarrow> drop s src = src ! s # src ! (s + 1) # src ! (s + 2) # drop (s + 3) src"
  by (simp add: Cons_nth_drop_Suc numeral_3_eq_3)

lemma encode_groups_put:
  "s + 3 * g \<le> length src \<Longrightarrow> snd p \<le> length (fst p) \<Longrightarrow>
     encode_groups g src s p = put (base64_text (take (3 * g) (drop s src))) p"
proof (induction g arbitrary: s p)
  case 0
  then show ?case by (simp add: put_Some_Nil)
next
  case (Suc g)
  have e: "take (3 * Suc g) (drop s src) =
      src ! s # src ! (s + 1) # src ! (s + 2) # take (3 * g) (drop (s + 3) src)"
    using Suc.prems(1) by (simp add: drop_3 take_Cons')
  have "encode_groups (Suc g) src s p =
      Option.bind (put (take 4 (base64_text (take (3 * Suc g) (drop s src)))) p) (encode_groups g src (s + 3))"
    unfolding e using Suc.prems(1) by (simp add: Let_def codec)
  also have "\<dots> = Option.bind (put (take 4 (base64_text (take (3 * Suc g) (drop s src)))) p)
      (put (base64_text (take (3 * g) (drop (s + 3) src))))"
    by (rule Option.bind_cong [OF refl], rule Suc.IH) (use Suc.prems in \<open>auto dest: put_SomeD\<close>)
  also have "\<dots> = put (base64_text (take (3 * Suc g) (drop s src))) p"
    unfolding e put_put by simp
  finally show ?case .
qed

lemma encode_rest_put:
  assumes "i \<le> length src" "length src < i + 3" "snd p \<le> length (fst p)"
  shows "encode_rest src i p = put (base64_text (drop i src)) p"
proof -
  consider "i = length src" | "length src = i + 1" | "length src = i + 2"
    using assms by linarith
  then show ?thesis
  proof cases
    case 1
    then show ?thesis using assms by (simp add: encode_rest_def put_Some_Nil)
  next
    case 2
    then have "drop i src = [src ! i]" by (simp add: Cons_nth_drop_Suc [symmetric])
    then show ?thesis using 2 by (simp add: encode_rest_def Let_def codec put_store put_put)
  next
    case 3
    then have "drop i src = [src ! i, src ! (i + 1)]" by (simp add: Cons_nth_drop_Suc [symmetric])
    then show ?thesis using 3 by (simp add: encode_rest_def Let_def codec put_store put_put)
  qed
qed

lemma encode_writes:
  "Option.bind (encode_groups (length src div 3) src 0 (dst, 0)) (encode_rest src (3 * (length src div 3))) =
     put (base64_text src) (dst, 0)"
proof -
  let ?g = "length src div 3" and ?p = "(dst, 0)"
  have "Option.bind (encode_groups ?g src 0 ?p) (encode_rest src (3 * ?g)) =
      Option.bind (put (base64_text (take (3 * ?g) src)) ?p) (encode_rest src (3 * ?g))"
    by (simp add: encode_groups_put)
  also have "\<dots> = Option.bind (put (base64_text (take (3 * ?g) src)) ?p) (put (base64_text (drop (3 * ?g) src)))"
    by (rule Option.bind_cong [OF refl], rule encode_rest_put) (auto dest: put_SomeD)
  also have "\<dots> = put (base64_text (take (3 * ?g) src @ drop (3 * ?g) src)) ?p"
    unfolding put_put by (subst base64_text_append) (auto simp: min_absorb2)
  finally show ?thesis by simp
qed

text \<open>The \<open>switch\<close> on the leftover bits rounds up to whole groups of four.\<close>

lemma size_switch:
  fixes l :: nat
  shows "(if l * 8 - l * 8 div 6 * 6 = 2 then l * 8 div 6 + 3
     else if l * 8 - l * 8 div 6 * 6 = 4 then l * 8 div 6 + 2 else l * 8 div 6) = 4 * ((l + 2) div 3)"
proof -
  obtain q r where l: "l = 3 * q + r" and r: "r < 3"
    by (metis mult_div_mod_eq mod_less_divisor zero_less_numeral)
  have d: "l * 8 div 6 = 4 * q + r * 8 div 6" unfolding l by simp
  have "r = 0 \<or> r = 1 \<or> r = 2" using r by linarith
  then show ?thesis unfolding d by (elim disjE) (simp_all add: l)
qed

lemma encoded_size_text:
  assumes "length src < 2 ^ 61"
  shows "encoded_size (of_nat (length src)) = of_nat (length (base64_text src))"
proof -
  let ?l = "length src"
  define n where "n = ?l * 8 div 6"
  have s: "push_bit 3 (of_nat ?l :: size_t) = of_nat (?l * 8)"
    by (simp add: push_bit_eq_mult)
  have l: "?l * 8 < 2 ^ 64" using assms by simp
  have d: "(of_nat (?l * 8) :: size_t) div 6 = of_nat n"
    unfolding n_def by (rule word_unat_eq_iff [THEN iffD2])
      (use l in \<open>simp add: unat_div unat_of_nat del: of_nat_mult\<close>)
  have r: "(of_nat (?l * 8) :: size_t) - of_nat n * 6 = of_nat (?l * 8 - n * 6)"
    by (simp add: n_def of_nat_diff)
  have lt: "?l * 8 - n * 6 < 6" by (simp add: n_def)
  have q: "(of_nat (?l * 8 - n * 6) :: size_t) = k \<longleftrightarrow> ?l * 8 - n * 6 = unat k" if "unat k < 6" for k :: size_t
    using lt that by (auto simp: word_unat_eq_iff unat_of_nat)
  have "encoded_size (of_nat ?l) = of_nat (if ?l * 8 - n * 6 = 2 then n + 3
      else if ?l * 8 - n * 6 = 4 then n + 2 else n)"
    unfolding encoded_size_def Let_def s d r by (simp add: q)
  moreover have "(if ?l * 8 - n * 6 = 2 then n + 3 else if ?l * 8 - n * 6 = 4 then n + 2 else n) =
      4 * ((?l + 2) div 3)"
    unfolding n_def by (rule size_switch)
  ultimately show ?thesis by (simp add: base64_text_length)
qed

lemma encode_exact:
  assumes "length src < 2 ^ 61" "length dst < 2 ^ 64"
  shows "mbedtls_base64_encode dst src =
    (if src = [] then Some (0, dst, 0)
     else if length dst \<le> length (base64_text src)
     then Some (MBEDTLS_ERR_BASE64_BUFFER_TOO_SMALL, dst, of_nat (length (base64_text src) + 1))
     else Some (0, base64_text src @ 0 # drop (length (base64_text src) + 1) dst,
                of_nat (length (base64_text src))))"
proof -
  let ?t = "base64_text src" and ?g = "length src div 3"
  have z: "(of_nat (length src) :: size_t) = 0 \<longleftrightarrow> src = []"
    using assms(1) by (auto simp: word_unat_eq_iff unat_of_nat)
  have t: "length ?t + 1 < 2 ^ 64" using assms(1) by (simp add: base64_text_length)
  then have c: "(of_nat (length dst) :: size_t) < of_nat (length ?t) + 1 \<longleftrightarrow> length dst \<le> length ?t"
    using assms(2) by (simp add: word_less_nat_alt unat_of_nat less_Suc_eq_le del: of_nat_Suc
        flip: of_nat_Suc [where 'a = size_t, unfolded add.commute [of 1]])
  have "Option.bind (encode_groups ?g src 0 (dst, 0)) (\<lambda>p. Option.bind (encode_rest src (3 * ?g) p) k) =
      Option.bind (put ?t (dst, 0)) k" for k :: "cursor \<Rightarrow> (int \<times> byte list \<times> size_t) option"
    by (simp add: encode_writes [symmetric] Option.bind_assoc)
  then have w: "Option.bind (encode_groups ?g src 0 (dst, 0)) (\<lambda>p. Option.bind (encode_rest src (3 * ?g) p) k) =
      Option.bind (put ?t (dst, 0)) k" for k :: "cursor \<Rightarrow> (int \<times> byte list \<times> size_t) option" .
  consider "src = []" | "src \<noteq> []" "length dst \<le> length ?t" | "src \<noteq> []" "length ?t < length dst" by force
  then show ?thesis
  proof cases
    case 3
    then show ?thesis
      unfolding mbedtls_base64_encode_def Let_def z encoded_size_text [OF assms(1)] c w
      by (simp add: codec put_eq_Some)
  qed (simp_all add: mbedtls_base64_encode_def Let_def z encoded_size_text [OF assms(1)] c)
qed

subsection \<open>The decoder: what the scan accepts\<close>

definition blank :: "byte \<Rightarrow> bool" where
  "blank c \<longleftrightarrow> c = 0x0D \<or> c = 0x0A \<or> c = 0x20"

definition data_char :: "byte \<Rightarrow> bool" where
  "data_char c \<longleftrightarrow> c \<le> 127 \<and> dec_char c < 64"

text \<open>The characters of an accepted input: data characters, then at most two \<open>=\<close>.\<close>

definition accepted :: "byte list \<Rightarrow> byte list \<Rightarrow> nat \<Rightarrow> bool" where
  "accepted src ds k \<longleftrightarrow> filter (\<lambda>c. \<not> blank c) src = ds @ replicate k 0x3D \<and> list_all data_char ds \<and> k \<le> 2"

lemma skip_spaces_filter:
  "skip_spaces src x = (rest, y) \<Longrightarrow> filter (\<lambda>c. \<not> blank c) src = filter (\<lambda>c. \<not> blank c) rest"
  by (induction src x rule: skip_spaces.induct) (auto simp: blank_def split: if_splits)

lemma dec_char_values:
  "c \<le> 127 \<Longrightarrow> dec_char c < 64 \<or> dec_char c = 127 \<or> c = 0x3D"
proof -
  assume "c \<le> 127"
  then have "unat c < 128" by (simp add: word_le_nat_alt)
  have "list_all (\<lambda>i. base64_dec_map ! i < 64 \<or> base64_dec_map ! i = 127 \<or> i = 61) [0..<128]"
    by (simp add: base64_dec_map_def upt_rec)
  with \<open>unat c < 128\<close> show ?thesis
    unfolding dec_char_def list_all_iff by (auto simp: word_unat_eq_iff)
qed

lemma dec_char_eq: "dec_char 0x3D = 64"
  by (simp add: dec_char_def base64_dec_map_def)

lemma data_char_not_blank: "data_char c \<Longrightarrow> \<not> blank c"
  by (auto simp: data_char_def blank_def dec_char_def base64_dec_map_def)

lemma eq_not_data: "\<not> data_char 0x3D" "\<not> blank 0x3D"
  by (simp_all add: data_char_def dec_char_eq blank_def)

lemma u32_le_2: "(j :: u32) \<le> 2 \<Longrightarrow> j = 0 \<or> j = 1 \<or> j = 2"
proof -
  assume "j \<le> 2"
  then have "unat j \<le> 2" by (simp add: word_le_nat_alt)
  then have "unat j = 0 \<or> unat j = 1 \<or> unat j = 2" by linarith
  then show ?thesis by (auto simp: word_unat_eq_iff)
qed

definition scanned :: "byte list \<Rightarrow> size_t \<Rightarrow> u32 \<Rightarrow> size_t \<Rightarrow> u32 \<Rightarrow> bool" where
  "scanned src n j n' j' \<longleftrightarrow> (\<exists>ds k. filter (\<lambda>c. \<not> blank c) src = ds @ replicate k 0x3D \<and> list_all data_char ds \<and>
     (j \<noteq> 0 \<longrightarrow> ds = []) \<and> unat j + k \<le> 2 \<and> j' = j + of_nat k \<and> n' = n + of_nat (length ds + k))"

lemma scanned_blank: "filter (\<lambda>c. \<not> blank c) src = filter (\<lambda>c. \<not> blank c) src' \<Longrightarrow>
    scanned src n j n' j' = scanned src' n j n' j'"
  by (simp add: scanned_def)

lemma scanned_data:
  "scanned cs (n + 1) j n' j' \<Longrightarrow> data_char c \<Longrightarrow> j = 0 \<Longrightarrow> scanned (c # cs) n j n' j'"
  unfolding scanned_def
  by (elim exE, rule_tac x = "c # ds" in exI, rule_tac x = k in exI) (simp add: data_char_not_blank)

lemma scanned_eq:
  assumes "scanned cs (n + 1) (j + 1) n' j'" "j + 1 \<le> 2" "j \<le> 2"
  shows "scanned (0x3D # cs) n j n' j'"
proof -
  obtain ds k where d: "filter (\<lambda>c. \<not> blank c) cs = ds @ replicate k 0x3D" "j + 1 \<noteq> 0 \<longrightarrow> ds = []"
      "unat (j + 1) + k \<le> 2" "j' = j + 1 + of_nat k" "n' = n + 1 + of_nat (length ds + k)"
    using assms(1) unfolding scanned_def by blast
  have "ds = []" "unat (j + 1) = unat j + 1" using u32_le_2 [OF assms(3)] d(2) by auto
  with d show ?thesis
    unfolding scanned_def by (intro exI [of _ "[]"] exI [of _ "Suc k"]) (simp add: eq_not_data)
qed

lemma decode_scan_scanned:
  "decode_scan src n j = Inr (n', j') \<Longrightarrow> j \<le> 2 \<Longrightarrow> scanned src n j n' j'"
proof (induction src n j rule: decode_scan.induct)
  case (1 src n j)
  obtain rest x where sp: "skip_spaces src 0 = (rest, x)" by force
  note f = skip_spaces_filter [OF sp]
  show ?case
  proof (cases rest)
    case Nil
    have "unat j \<le> 2" using 1(5) by (simp add: word_le_nat_alt)
    moreover have "n' = n" "j' = j" using 1(4) sp Nil by (simp_all add: decode_scan.simps [of src])
    ultimately show ?thesis unfolding scanned_def
      by (intro exI [of _ "[]"] exI [of _ 0]) (simp add: f Nil)
  next
    case (Cons c cs)
    note IH = 1(1-3) [OF sp [symmetric] Cons]
    note eq = 1(4) [unfolded decode_scan.simps [of src] sp Cons, simplified]
    consider "c = 0x0D" "cs \<noteq> []" "hd cs = 0x0A" | "c = 0x0A" "\<not> (c = 0x0D \<and> cs \<noteq> [] \<and> hd cs = 0x0A)"
      | "c \<noteq> 0x0A" "\<not> (c = 0x0D \<and> cs \<noteq> [] \<and> hd cs = 0x0A)" by blast
    then show ?thesis
    proof cases
      case 1
      then show ?thesis
        using IH(1) eq \<open>j \<le> 2\<close> unfolding scanned_blank [OF f] Cons by (simp add: scanned_def blank_def)
    next
      case 2
      then show ?thesis
        using IH(2) eq \<open>j \<le> 2\<close> unfolding scanned_blank [OF f] Cons by (simp add: scanned_def blank_def)
    next
      case 3
      define j2 where "j2 = (if c = 0x3D then j + 1 else j)"
      have g: "x = 0" "\<not> (c = 0x3D \<and> 2 < j2)" "\<not> (127 < c \<or> dec_char c = 127)"
          "\<not> (dec_char c < 64 \<and> j2 \<noteq> 0)" and r: "decode_scan cs (n + 1) j2 = Inr (n', j')"
        using eq 3 unfolding j2_def by (auto simp: Let_def split: if_splits)
      have "j2 \<le> 2" using g(2) \<open>j \<le> 2\<close> unfolding j2_def by (auto simp: not_less)
      have s: "scanned cs (n + 1) j2 n' j'"
        using IH(3) [OF 3(2) 3(1) _ j2_def g(2-4) r \<open>j2 \<le> 2\<close>] g(1) by simp
      show ?thesis
      proof (cases "c = 0x3D")
        case True
        then show ?thesis unfolding scanned_blank [OF f] Cons True
          using s \<open>j2 \<le> 2\<close> \<open>j \<le> 2\<close> by (intro scanned_eq) (simp_all add: j2_def True)
      next
        case False
        then have "data_char c" using dec_char_values [of c] g(3) by (auto simp: data_char_def not_less)
        then show ?thesis unfolding scanned_blank [OF f] Cons
          using s g(4) False by (intro scanned_data) (simp_all add: j2_def data_char_def)
      qed
    qed
  qed
qed

lemma decode_scan_accepted:
  assumes "decode_scan src 0 0 = Inr (n, j)"
  obtains ds k where "accepted src ds k" "j = of_nat k" "n = of_nat (length ds + k)"
  using decode_scan_scanned [OF assms] by (auto simp: scanned_def accepted_def)

subsection \<open>The decoder: what the second pass writes\<close>

text \<open>The bytes a group of four characters gives, and the bytes of a whole text.\<close>

definition group_bytes :: "u32 \<Rightarrow> u32 \<Rightarrow> byte list" where
  "group_bytes j x = (if 0 < j then [ucast (drop_bit 16 x)] else []) @
     (if 1 < j then [ucast (drop_bit 8 x)] else []) @ (if 2 < j then [ucast x] else [])"

primrec text_bytes :: "byte list \<Rightarrow> u32 \<Rightarrow> nat \<Rightarrow> u32 \<Rightarrow> byte list" where
  "text_bytes [] j n x = []"
| "text_bytes (c # cs) j n x =
     (let j' = (if dec_char c = 64 then j - 1 else j);
          x' = push_bit 6 x OR ucast (dec_char c AND 0x3F) in
      if Suc n = 4 then group_bytes j' x' @ text_bytes cs j' 0 x' else text_bytes cs j' (Suc n) x')"

lemma decode_group_put: "snd p \<le> length (fst p) \<Longrightarrow> decode_group j x p = put (group_bytes j x) p"
  by (cases p) (auto simp: decode_group_def group_bytes_def codec put_store put_put put_Some_Nil)

lemma decode_emit_put:
  "snd p \<le> length (fst p) \<Longrightarrow> list_all (\<lambda>c. blank c \<or> c \<le> 127) src \<Longrightarrow>
     decode_emit src j n x p = put (text_bytes (filter (\<lambda>c. \<not> blank c) src) j n x) p"
proof (induction src arbitrary: j n x p)
  case Nil
  then show ?case by (simp add: put_Some_Nil)
next
  case (Cons c cs)
  show ?case
  proof (cases "blank c")
    case True
    then show ?thesis using Cons by (auto simp: blank_def)
  next
    case False
    then have "unat c < length base64_dec_map"
      using Cons.prems(2) by (simp add: word_le_nat_alt base64_dec_map_def)
    then have b: "byte_at base64_dec_map (unat c) = Some (dec_char c)" by (simp add: dec_char_def)
    define j' where "j' = (if dec_char c = 64 then j - 1 else j)"
    define x' where "x' = push_bit 6 x OR ucast (dec_char c AND 0x3F)"
    have e: "decode_emit (c # cs) j n x p = (if Suc n = 4
        then Option.bind (decode_group j' x' p) (decode_emit cs j' 0 x') else decode_emit cs j' (Suc n) x' p)"
      using False b by (simp add: blank_def Let_def j'_def x'_def)
    have t: "text_bytes (filter (\<lambda>c. \<not> blank c) (c # cs)) j n x = (if Suc n = 4
        then group_bytes j' x' @ text_bytes (filter (\<lambda>c. \<not> blank c) cs) j' 0 x'
        else text_bytes (filter (\<lambda>c. \<not> blank c) cs) j' (Suc n) x')"
      using False by (simp add: Let_def j'_def x'_def)
    have "Option.bind (put (group_bytes j' x') p) (decode_emit cs j' 0 x') =
        Option.bind (put (group_bytes j' x') p) (put (text_bytes (filter (\<lambda>c. \<not> blank c) cs) j' 0 x'))"
      by (rule Option.bind_cong [OF refl], rule Cons.IH) (use Cons.prems in \<open>auto dest: put_SomeD\<close>)
    then show ?thesis
      unfolding e t using Cons by (simp add: decode_group_put put_put)
  qed
qed

text \<open>How many bytes that is: three for each complete group, and what the padding leaves.\<close>

definition decoded_size :: "nat \<Rightarrow> nat \<Rightarrow> nat" where
  "decoded_size m k = 3 * (m div 4) +
     (if m mod 4 = 3 \<and> 1 \<le> k then 2 else if m mod 4 = 2 \<and> k = 2 then 1 else 0)"

lemma dec_char_data: "data_char c \<Longrightarrow> dec_char c \<noteq> 64"
  by (auto simp: data_char_def)

lemma text_bytes_length:
  "list_all data_char ds \<Longrightarrow> n < 4 \<Longrightarrow> k \<le> 2 \<Longrightarrow>
     length (text_bytes (ds @ replicate k 0x3D) 3 n x) = decoded_size (n + length ds) k"
proof (induction ds arbitrary: n x)
  case Nil
  then have "n = 0 \<or> n = 1 \<or> n = 2 \<or> n = 3" "k = 0 \<or> k = 1 \<or> k = 2" by linarith+
  then show ?case
    by (elim disjE) (simp_all add: decoded_size_def numeral_2_eq_2 dec_char_eq group_bytes_def Let_def)
next
  case (Cons c ds)
  show ?case
  proof (cases "Suc n = 4")
    case True
    have "(4 + length ds) div 4 = length ds div 4 + 1" by simp
    with True show ?thesis using Cons
      by (simp add: dec_char_data Let_def group_bytes_def decoded_size_def)
  next
    case False
    then show ?thesis using Cons by (simp add: dec_char_data Let_def)
  qed
qed

text \<open>The destination size the scan computes is enough for it.\<close>

lemma decoded_size_fits:
  assumes "k \<le> 2"
  shows "decoded_size m k \<le> (6 * (m + k) + 7) div 8 - k" "k \<le> (6 * (m + k) + 7) div 8"
proof -
  obtain q r where m: "m = 4 * q + r" and r: "r < 4"
    by (metis mult_div_mod_eq mod_less_divisor zero_less_numeral)
  have d: "(6 * (m + k) + 7) div 8 = 3 * q + (6 * (r + k) + 7) div 8" unfolding m by simp
  have c: "r = 0 \<or> r = 1 \<or> r = 2 \<or> r = 3" "k = 0 \<or> k = 1 \<or> k = 2" using r assms by linarith+
  have dm: "m div 4 = q" "m mod 4 = r" using r by (simp_all add: m)
  show "k \<le> (6 * (m + k) + 7) div 8" unfolding d using c by (elim disjE) simp_all
  show "decoded_size m k \<le> (6 * (m + k) + 7) div 8 - k"
    unfolding d decoded_size_def dm using c by (elim disjE) simp_all
qed

lemma accepted_ascii:
  assumes "accepted src ds k"
  shows "list_all (\<lambda>c. blank c \<or> c \<le> 127) src"
proof -
  have "c \<le> 127" if "c \<in> set src" "\<not> blank c" for c
  proof -
    have "c \<in> set (ds @ replicate k 0x3D)" 
      using that assms unfolding accepted_def by (metis (mono_tags, lifting) mem_Collect_eq set_filter)
    then show ?thesis using assms by (auto simp: accepted_def list_all_iff data_char_def)
  qed
  then show ?thesis by (auto simp: list_all_iff)
qed

lemma accepted_length: "accepted src ds k \<Longrightarrow> length ds + k \<le> length src"
  unfolding accepted_def by (metis length_append length_filter_le length_replicate)

text \<open>What the decoder does with an accepted text, on every branch.\<close>

lemma decode_accepted:
  assumes scan: "decode_scan src 0 0 = Inr (n, j)" and acc: "accepted src ds k"
    and jn: "j = of_nat k" "n = of_nat (length ds + k)" and l: "length src < 2 ^ 61" "length dst < 2 ^ 64"
  defines "need \<equiv> (6 * (length ds + k) + 7) div 8 - k"
    and "out \<equiv> text_bytes (ds @ replicate k 0x3D) 3 0 0"
  shows "mbedtls_base64_decode None olen src =
      (if ds = [] \<and> k = 0 then Some (0, None, olen)
       else Some (MBEDTLS_ERR_BASE64_BUFFER_TOO_SMALL, None, of_nat need))"
    and "mbedtls_base64_decode (Some dst) olen src =
      (if ds = [] \<and> k = 0 then Some (0, Some dst, olen)
       else if length dst < need then Some (MBEDTLS_ERR_BASE64_BUFFER_TOO_SMALL, Some dst, of_nat need)
       else Some (0, Some (out @ drop (length out) dst), of_nat (length out)))"
proof -
  have k: "k \<le> 2" and ds: "list_all data_char ds" using acc by (simp_all add: accepted_def)
  have b: "length ds + k < 2 ^ 61" using accepted_length [OF acc] l(1) by linarith
  have n0: "n = 0 \<longleftrightarrow> ds = [] \<and> k = 0"
    using b unfolding jn by (auto simp: word_unat_eq_iff unat_of_nat simp del: of_nat_add)
  have "n * 6 + 7 = of_nat (6 * (length ds + k) + 7)" by (simp add: jn ac_simps)
  then have "drop_bit 3 (n * 6 + 7) = (of_nat ((6 * (length ds + k) + 7) div 8) :: size_t)"
    using b by (simp add: drop_bit_eq_div word_unat_eq_iff unat_div unat_of_nat del: of_nat_add of_nat_mult)
  moreover have "ucast j = (of_nat k :: size_t)" using k by (simp add: jn word_unat_eq_iff unat_of_nat unsigned_ucast_eq take_bit_eq_mod)
  ultimately have sz: "drop_bit 3 (n * 6 + 7) - ucast j = (of_nat need :: size_t)"
    unfolding need_def using decoded_size_fits(2) [OF k, of "length ds"] by (simp add: of_nat_diff)
  have nb: "need < 2 ^ 64" using b by (simp add: need_def)
  then have cmp: "(of_nat (length dst) :: size_t) < of_nat need \<longleftrightarrow> length dst < need"
    using l(2) by (simp add: word_less_nat_alt unat_of_nat)
  show "mbedtls_base64_decode None olen src =
      (if ds = [] \<and> k = 0 then Some (0, None, olen)
       else Some (MBEDTLS_ERR_BASE64_BUFFER_TOO_SMALL, None, of_nat need))"
    by (simp add: mbedtls_base64_decode_def scan n0 Let_def sz)
  have f: "filter (\<lambda>c. \<not> blank c) src = ds @ replicate k 0x3D" using acc by (simp add: accepted_def)
  have e: "decode_emit src 3 0 0 (dst, 0) = put out (dst, 0)"
    unfolding out_def f [symmetric] by (rule decode_emit_put) (simp_all add: accepted_ascii [OF acc])
  have "length out \<le> need"
    unfolding out_def need_def using decoded_size_fits(1) [OF k] text_bytes_length [OF ds _ k, of 0] by simp
  then show "mbedtls_base64_decode (Some dst) olen src =
      (if ds = [] \<and> k = 0 then Some (0, Some dst, olen)
       else if length dst < need then Some (MBEDTLS_ERR_BASE64_BUFFER_TOO_SMALL, Some dst, of_nat need)
       else Some (0, Some (out @ drop (length out) dst), of_nat (length out)))"
    by (simp add: mbedtls_base64_decode_def scan n0 Let_def sz cmp e put_eq_Some)
qed

subsection \<open>Decoding the encoder's text\<close>

lemma enc_map_length: "length base64_enc_map = 64"
  by (simp add: base64_enc_map_def bytes_of_def)

lemma dec_enc_map: "i < 64 \<Longrightarrow> base64_enc_map ! i \<le> 127 \<and> dec_char (base64_enc_map ! i) = of_nat i"
proof -
  have "list_all (\<lambda>i. base64_enc_map ! i \<le> 127 \<and> dec_char (base64_enc_map ! i) = of_nat i) [0..<64]"
    by code_simp
  then show "i < 64 \<Longrightarrow> ?thesis" by (simp add: list_all_iff)
qed

lemma and_mask_63: "n AND 63 < (64 :: nat)"
  using take_bit_nat_less_exp [of 6 n] by (simp add: take_bit_eq_mask mask_eq_exp_minus_1)

lemma dec_enc: "dec_char (enc_char x) = ucast (x AND 0x3F)" and enc_ascii: "enc_char x \<le> 127"
proof -
  have "unat (x AND 0x3F) < 64"
    by (simp add: unsigned_and_eq and_mask_63)
  note e = dec_enc_map [OF this]
  show "dec_char (enc_char x) = ucast (x AND 0x3F)" "enc_char x \<le> 127"
    using e by (simp_all add: enc_char_def)
qed

lemma byte_bit_beyond: "8 \<le> n \<Longrightarrow> \<not> bit (b :: byte) n"
  by (auto dest: bit_imp_le_length)

lemma byte_eqI:
  fixes a b :: byte
  assumes "bit a 0 = bit b 0" "bit a 1 = bit b 1" "bit a 2 = bit b 2" "bit a 3 = bit b 3"
    "bit a 4 = bit b 4" "bit a 5 = bit b 5" "bit a 6 = bit b 6" "bit a 7 = bit b 7"
  shows "a = b"
proof (rule bit_word_eqI)
  fix n assume "n < LENGTH(8)"
  then have "n = 0 \<or> n = 1 \<or> n = 2 \<or> n = 3 \<or> n = 4 \<or> n = 5 \<or> n = 6 \<or> n = 7" by simp linarith
  then show "bit a n = bit b n" using assms by (elim disjE) simp_all
qed

lemma group_bits:
  fixes a b c :: byte and x :: u32
  defines "y \<equiv> push_bit 6 (push_bit 6 (push_bit 6 (push_bit 6 x OR ucast (dec_char (enc_char (drop_bit 2 (ucast a))) AND 0x3F))
     OR ucast (dec_char (enc_char (push_bit 4 (ucast a AND 3) + drop_bit 4 (ucast b))) AND 0x3F))
     OR ucast (dec_char (enc_char (push_bit 2 (ucast b AND 15) + drop_bit 6 (ucast c))) AND 0x3F))
     OR ucast (dec_char (enc_char (ucast c)) AND 0x3F)"
  shows "ucast (drop_bit 16 y) = a" "ucast (drop_bit 8 y) = b" "ucast y = c"
proof -
  have 1: "push_bit 4 (ucast a AND 3) + drop_bit 4 (ucast b) = (push_bit 4 (ucast a AND 3) OR drop_bit 4 (ucast b) :: u32)"
    by (rule disjunctive_add) (auto simp: bit_simps dest!: bit_imp_le_length)
  have 2: "push_bit 2 (ucast b AND 15) + drop_bit 6 (ucast c) = (push_bit 2 (ucast b AND 15) OR drop_bit 6 (ucast c) :: u32)"
    by (rule disjunctive_add) (auto simp: bit_simps dest!: bit_imp_le_length)
  show "ucast (drop_bit 16 y) = a"
    unfolding y_def dec_enc 1 2 by (rule byte_eqI) (simp_all add: bit_simps byte_bit_beyond)
  show "ucast (drop_bit 8 y) = b"
    unfolding y_def dec_enc 1 2 by (rule byte_eqI) (simp_all add: bit_simps byte_bit_beyond)
  show "ucast y = c"
    unfolding y_def dec_enc 1 2 by (rule byte_eqI) (simp_all add: bit_simps byte_bit_beyond)
qed

lemma enc_data: "data_char (enc_char x)"
proof -
  have "dec_char (enc_char x) < 64"
    unfolding dec_enc by (simp add: word_less_nat_alt unsigned_ucast_eq unsigned_and_eq take_bit_eq_mod)
      (metis and_mask_63 less_trans mod_less numeral_less_iff semiring_norm(76) semiring_norm(78))
  then show ?thesis by (simp add: data_char_def enc_ascii)
qed

lemma enc_not_eq: "dec_char (enc_char x) \<noteq> 64"
  using enc_data by (rule dec_char_data)

lemma decode_scan_newline: "decode_scan (0x0A # cs) n j = decode_scan cs n j"
  by (subst decode_scan.simps) simp

text \<open>A text whose line breaks are single newlines is accepted and counted.\<close>

lemma decode_scan_newlines:
  "filter (\<lambda>c. c \<noteq> 0x0A) src = ds @ replicate k 0x3D \<Longrightarrow> list_all data_char ds \<Longrightarrow>
     unat j + k \<le> 2 \<Longrightarrow> (j \<noteq> 0 \<Longrightarrow> ds = []) \<Longrightarrow>
     decode_scan src n j = Inr (n + of_nat (length ds + k), j + of_nat k)"
proof (induction src arbitrary: ds k n j)
  case Nil
  then show ?case by (simp add: decode_scan.simps)
next
  case (Cons c cs)
  show ?case
  proof (cases "c = 0x0A")
    case True
    have "filter (\<lambda>c. c \<noteq> 0x0A) cs = ds @ replicate k 0x3D" using Cons.prems(1) True by simp
    then show ?thesis unfolding True decode_scan_newline by (rule Cons.IH) (use Cons.prems in auto)
  next
    case False
    show ?thesis
    proof (cases ds)
      case (Cons d es)
      then have c: "c = d" "data_char c" "filter (\<lambda>c. c \<noteq> 0x0A) cs = es @ replicate k 0x3D" "list_all data_char es"
        and j: "j = 0" using Cons.prems False by auto
      have "c \<noteq> 0x20" "c \<noteq> 0x0D" "c \<noteq> 0x3D" "c \<le> 127" "dec_char c < 64" "dec_char c \<noteq> 127"
        using c(2) data_char_not_blank [OF c(2)] eq_not_data by (auto simp: blank_def data_char_def)
      then have "decode_scan (c # cs) n j = decode_scan cs (n + 1) j"
        using j False by (simp add: decode_scan.simps [of "c # cs"] leD)
      also have "\<dots> = Inr (n + 1 + of_nat (length es + k), j + of_nat k)"
        using Cons.IH [OF c(3,4)] Cons.prems j by simp
      finally show ?thesis using Cons by simp
    next
      case Nil
      then obtain k' where k: "k = Suc k'" "c = 0x3D" "filter (\<lambda>c. c \<noteq> 0x0A) cs = [] @ replicate k' 0x3D"
        using Cons.prems(1) False by (cases k) auto
      have "j = 0 \<or> j = 1" using Cons.prems(3) k(1) u32_le_2 [of j] by (auto simp: word_le_nat_alt)
      then have u: "j + 1 \<le> 2" "unat (j + 1) = unat j + 1" by auto
      have "decode_scan (c # cs) n j = decode_scan cs (n + 1) (j + 1)"
        using u(1) unfolding k(2) by (simp add: decode_scan.simps [of "0x3D # cs"] dec_char_eq leD)
      also have "\<dots> = Inr (n + 1 + of_nat k', j + 1 + of_nat k')"
        using Cons.IH [OF k(3), of "j + 1" "n + 1"] Cons.prems(3) u k(1) by simp
      finally show ?thesis using Nil k by simp
    qed
  qed
qed

lemma base64_text_shape:
  obtains ds k where "base64_text src = ds @ replicate k 0x3D" "list_all data_char ds" "k \<le> 2"
    "(6 * (length ds + k) + 7) div 8 - k = length src" "src = [] \<longleftrightarrow> ds = [] \<and> k = 0"
proof -
  have "\<exists>ds k. base64_text src = ds @ replicate k 0x3D \<and> list_all data_char ds \<and> k \<le> 2 \<and>
      k \<le> (6 * (length ds + k) + 7) div 8 \<and>
      (6 * (length ds + k) + 7) div 8 - k = length src \<and> (src = [] \<longleftrightarrow> ds = [] \<and> k = 0)"
  proof (induction src rule: base64_text.induct)
    case (2 a)
    show ?case
      by (intro exI [of _ "[enc_char (drop_bit 2 (ucast a)), enc_char (push_bit 4 (ucast a AND 3))]"] exI [of _ 2])
        (simp add: enc_data numeral_2_eq_2)
  next
    case (3 a b)
    show ?case
      by (intro exI [of _ "[enc_char (drop_bit 2 (ucast a)),
         enc_char (push_bit 4 (ucast a AND 3) + drop_bit 4 (ucast b)), enc_char (push_bit 2 (ucast b AND 15))]"]
         exI [of _ 1]) (simp add: enc_data)
  next
    case (4 a b c cs)
    then obtain ds k where d: "base64_text cs = ds @ replicate k 0x3D" "list_all data_char ds" "k \<le> 2"
        "k \<le> (6 * (length ds + k) + 7) div 8" "(6 * (length ds + k) + 7) div 8 - k = length cs" by blast
    have e: "(6 * (length (p # q # r # s # ds) + k) + 7) div 8 = (6 * (length ds + k) + 7) div 8 + 3"
      for p q r s :: byte by simp
    have "base64_text (a # b # c # cs) = (enc_char (drop_bit 2 (ucast a)) #
        enc_char (push_bit 4 (ucast a AND 3) + drop_bit 4 (ucast b)) #
        enc_char (push_bit 2 (ucast b AND 15) + drop_bit 6 (ucast c)) # enc_char (ucast c) # ds) @ replicate k 0x3D"
      by (simp add: d(1))
    moreover note e [of "enc_char (drop_bit 2 (ucast a))"
        "enc_char (push_bit 4 (ucast a AND 3) + drop_bit 4 (ucast b))"
        "enc_char (push_bit 2 (ucast b AND 15) + drop_bit 6 (ucast c))" "enc_char (ucast c)"]
    moreover have "length (a # b # c # cs) = length cs + 3" by simp
    ultimately show ?case
      using d(2-5) by (intro exI conjI) (assumption | simp add: enc_data)+
  qed simp
  then show ?thesis using that by blast
qed

lemma text_bytes_text: "text_bytes (base64_text src) 3 0 x = src"
proof (induction src arbitrary: x rule: base64_text.induct)
  case (2 a)
  show ?case using group_bits(1) [of x a 0 0]
    by (simp add: Let_def enc_not_eq group_bytes_def dec_char_eq) (simp add: dec_enc)
next
  case (3 a b)
  show ?case using group_bits(1,2) [of x a b 0]
    by (simp add: Let_def enc_not_eq group_bytes_def dec_char_eq) (simp add: dec_enc)
next
  case (4 a b c cs)
  show ?case
    using group_bits [of x a b c] by (simp add: Let_def enc_not_eq group_bytes_def 4)
qed simp

lemma decode_text:
  assumes t: "filter (\<lambda>c. c \<noteq> 0x0A) body = base64_text src" and l: "length body < 2 ^ 61" "length dst < 2 ^ 64"
    and ne: "src \<noteq> []"
  shows "mbedtls_base64_decode None olen body =
      Some (MBEDTLS_ERR_BASE64_BUFFER_TOO_SMALL, None, of_nat (length src))"
    and "mbedtls_base64_decode (Some dst) olen body =
      (if length dst < length src
       then Some (MBEDTLS_ERR_BASE64_BUFFER_TOO_SMALL, Some dst, of_nat (length src))
       else Some (0, Some (src @ drop (length src) dst), of_nat (length src)))"
proof -
  obtain ds k where d: "base64_text src = ds @ replicate k 0x3D" "list_all data_char ds" "k \<le> 2"
      "(6 * (length ds + k) + 7) div 8 - k = length src" "src = [] \<longleftrightarrow> ds = [] \<and> k = 0"
    by (rule base64_text_shape)
  have s: "decode_scan body 0 0 = Inr (of_nat (length ds + k), of_nat k)"
    using decode_scan_newlines [of body ds k 0 0] t d(1-3) by simp
  have "filter (\<lambda>c. \<not> blank c) (ds @ replicate k 0x3D) = ds @ replicate k 0x3D"
    using d(2) by (auto simp: filter_id_conv list_all_iff data_char_not_blank eq_not_data)
  then have "filter (\<lambda>c. \<not> blank c) body = ds @ replicate k 0x3D"
    using arg_cong [OF t, of "filter (\<lambda>c. \<not> blank c)"] unfolding d(1) filter_filter
    by (metis (mono_tags, lifting) blank_def filter_cong)
  then have a: "accepted body ds k" using d(2,3) by (simp add: accepted_def)
  note d_sym = d(1) [symmetric] and e_sym = d(5) [symmetric]
  note r = decode_accepted [OF s a refl refl l, of olen, unfolded d(4) d_sym text_bytes_text
      e_sym]
  show "mbedtls_base64_decode None olen body =
      Some (MBEDTLS_ERR_BASE64_BUFFER_TOO_SMALL, None, of_nat (length src))"
    unfolding r(1) using ne by simp
  show "mbedtls_base64_decode (Some dst) olen body =
      (if length dst < length src
       then Some (MBEDTLS_ERR_BASE64_BUFFER_TOO_SMALL, Some dst, of_nat (length src))
       else Some (0, Some (src @ drop (length src) dst), of_nat (length src)))"
    unfolding r(2) using ne by simp
qed

subsection \<open>The decoder on any input\<close>

text \<open>
  Whatever the input, a call ends with one of three codes and never writes outside \<open>dst\<close>; a size
  query tells how much room the call needs.
\<close>

definition decode_outcome :: "byte list \<Rightarrow> size_t \<Rightarrow> byte list \<Rightarrow> int \<times> byte list option \<times> size_t \<Rightarrow> bool" where
  "decode_outcome dst olen src res \<longleftrightarrow> (case res of
     (r, Some d, n) \<Rightarrow> length d = length dst \<and>
       (if r = 0 then list_all blank src \<and> d = dst \<and> n = olen \<or>
           unat n \<le> length dst \<and> unat n \<le> length src \<and> drop (unat n) d = drop (unat n) dst
        else d = dst \<and> (r = MBEDTLS_ERR_BASE64_INVALID_CHARACTER \<and> n = olen \<or>
           r = MBEDTLS_ERR_BASE64_BUFFER_TOO_SMALL \<and> length dst < unat n \<and> unat n \<le> length src))
   | (r, None, n) \<Rightarrow> False)"

lemma accepted_empty: "accepted src [] 0 \<Longrightarrow> list_all blank src"
  by (auto simp: accepted_def list_all_iff filter_empty_conv)

lemma decode_scan_error: "decode_scan src n j = Inl e \<Longrightarrow> e = MBEDTLS_ERR_BASE64_INVALID_CHARACTER"
proof (induction src n j rule: decode_scan.induct)
  case (1 src n j)
  obtain rest x where sp: "skip_spaces src 0 = (rest, x)" by force
  show ?case
  proof (cases rest)
    case Nil
    then show ?thesis using 1(4) sp by (simp add: decode_scan.simps [of src])
  next
    case (Cons c cs)
    show ?thesis
      using 1(1-3) [OF sp [symmetric] Cons] 1(4) [unfolded decode_scan.simps [of src] sp Cons, simplified]
      by (auto simp: Let_def split: if_splits)
  qed
qed

lemma decode_total:
  assumes l: "length src < 2 ^ 61" "length dst < 2 ^ 64"
  shows "\<exists>res. mbedtls_base64_decode (Some dst) olen src = Some res \<and> decode_outcome dst olen src res"
    and "\<exists>r n. mbedtls_base64_decode None olen src = Some (r, None, n) \<and>
      (r = MBEDTLS_ERR_BASE64_BUFFER_TOO_SMALL \<and> unat n \<le> length dst \<longrightarrow>
         (\<exists>d k. mbedtls_base64_decode (Some dst) olen src = Some (0, Some d, k) \<and> k \<le> n))"
proof -
  have *: "(\<exists>res. mbedtls_base64_decode (Some dst) olen src = Some res \<and> decode_outcome dst olen src res) \<and>
    (\<exists>r n. mbedtls_base64_decode None olen src = Some (r, None, n) \<and>
      (r = MBEDTLS_ERR_BASE64_BUFFER_TOO_SMALL \<and> unat n \<le> length dst \<longrightarrow>
         (\<exists>d k. mbedtls_base64_decode (Some dst) olen src = Some (0, Some d, k) \<and> k \<le> n)))"
  proof (cases "decode_scan src 0 0")
    case (Inl e)
    then show ?thesis using decode_scan_error [OF Inl]
      by (simp add: mbedtls_base64_decode_def decode_outcome_def
          MBEDTLS_ERR_BASE64_INVALID_CHARACTER_def MBEDTLS_ERR_BASE64_BUFFER_TOO_SMALL_def)
  next
    case (Inr nj)
    obtain n j where nj: "nj = (n, j)" by (cases nj)
    obtain ds k where acc: "accepted src ds k" and jn: "j = of_nat k" "n = of_nat (length ds + k)"
      using decode_scan_accepted Inr unfolding nj by metis
    define need where "need = (6 * (length ds + k) + 7) div 8 - k"
    define out where "out = text_bytes (ds @ replicate k 0x3D) 3 0 0"
    note r = decode_accepted [OF Inr [unfolded nj] acc jn l, of olen, folded need_def out_def]
    have k: "k \<le> 2" "list_all data_char ds" using acc by (simp_all add: accepted_def)
    have o: "length out \<le> need"
      unfolding out_def need_def using decoded_size_fits(1) [OF k(1)] text_bytes_length [OF k(2) _ k(1), of 0] by simp
    show ?thesis
    proof (cases "ds = [] \<and> k = 0")
      case True
      then show ?thesis unfolding r using acc accepted_empty
        by (auto simp: decode_outcome_def MBEDTLS_ERR_BASE64_BUFFER_TOO_SMALL_def)
    next
      case False
      have "(6 * m + 7) div 8 \<le> m" for m :: nat by presburger
      then have nl: "need \<le> length src"
        using accepted_length [OF acc] unfolding need_def by (meson diff_le_self le_trans)
      have u: "unat (of_nat need :: size_t) = need" "unat (of_nat (length out) :: size_t) = length out"
        using nl o l by (simp_all add: unat_of_nat)
      show ?thesis
        unfolding r if_not_P [OF False] using o nl u
        by (auto simp: decode_outcome_def MBEDTLS_ERR_BASE64_BUFFER_TOO_SMALL_def
            MBEDTLS_ERR_BASE64_INVALID_CHARACTER_def word_le_nat_alt)
    qed
  qed
  show "\<exists>res. mbedtls_base64_decode (Some dst) olen src = Some res \<and> decode_outcome dst olen src res"
    using * by (rule conjunct1)
  show "\<exists>r n. mbedtls_base64_decode None olen src = Some (r, None, n) \<and>
      (r = MBEDTLS_ERR_BASE64_BUFFER_TOO_SMALL \<and> unat n \<le> length dst \<longrightarrow>
         (\<exists>d k. mbedtls_base64_decode (Some dst) olen src = Some (0, Some d, k) \<and> k \<le> n))"
    using * by (rule conjunct2)
qed

subsection \<open>Properties\<close>

text \<open>
  C36. What the encoder wrote decodes to the same bytes, also after newlines have been inserted
  anywhere in it, into any destination that is large enough; a size query with a NULL destination
  answers the exact size.
\<close>

theorem base64_round_trip:
  assumes "src \<noteq> []" and "length src < 2 ^ 60" and "length buf < 2 ^ 64"
    and "mbedtls_base64_encode buf src = Some (0, enc, olen)"
    and "filter (\<lambda>c. c \<noteq> 0x0A) body = take (unat olen) enc" and "length body < 2 ^ 61"
    and "length src \<le> length dst" and "length dst < 2 ^ 64"
  shows "mbedtls_base64_decode (Some dst) n body =
      Some (0, Some (src @ drop (length src) dst), of_nat (length src)) \<and>
    mbedtls_base64_decode None n body =
      Some (MBEDTLS_ERR_BASE64_BUFFER_TOO_SMALL, None, of_nat (length src))"
proof -
  have l: "length src < 2 ^ 61" using assms(2) by simp
  have "length (base64_text src) < 2 ^ 64" using l by (simp add: base64_text_length)
  then have "take (unat olen) enc = base64_text src"
    using assms(4) unfolding encode_exact [OF l assms(3)]
    by (auto simp: assms(1) MBEDTLS_ERR_BASE64_BUFFER_TOO_SMALL_def unat_of_nat split: if_splits)
  then have t: "filter (\<lambda>c. c \<noteq> 0x0A) body = base64_text src" using assms(5) by simp
  show ?thesis
    using decode_text [OF t assms(6,8,1)] assms(7) by simp
qed

lemma base64_round_trip_witness:
  "mbedtls_base64_decode (Some [9, 9, 9, 9, 9]) 0 (bytes_of ''SG'' @ 10 # bytes_of ''k='') = Some (0, Some [72, 105, 9, 9, 9], 2)"
proof -
  have e: "mbedtls_base64_encode (replicate 6 7) [72, 105] = Some (0, bytes_of ''SGk='' @ [0, 7], 4)" by code_simp
  show ?thesis
    using base64_round_trip [OF _ _ _ e, of "bytes_of ''SG'' @ 10 # bytes_of ''k=''" "[9, 9, 9, 9, 9]" 0]
    by (simp add: bytes_of_def)
qed

text \<open>
  C17. The decoder is total on every input: it returns 0, "invalid character" or "buffer too small",
  writes only inside \<open>dst\<close> and only the \<open>*olen\<close> bytes it reports; a failed call leaves \<open>dst\<close> alone,
  and a destination of the size a NULL query reports is always large enough.
\<close>

theorem base64_decode_in_bounds:
  assumes "length src < 2 ^ 61" and "length dst < 2 ^ 64"
  shows "(\<exists>res. mbedtls_base64_decode (Some dst) olen src = Some res \<and> decode_outcome dst olen src res) \<and>
    (\<exists>r n. mbedtls_base64_decode None olen src = Some (r, None, n) \<and>
      (r = MBEDTLS_ERR_BASE64_BUFFER_TOO_SMALL \<and> unat n \<le> length dst \<longrightarrow>
         (\<exists>d k. mbedtls_base64_decode (Some dst) olen src = Some (0, Some d, k) \<and> k \<le> n)))"
  using decode_total [OF assms] by (rule conjI)

lemma base64_decode_in_bounds_witness:
  "\<exists>res. mbedtls_base64_decode (Some [1, 2]) 0 (bytes_of ''SG=='') = Some res \<and>
     decode_outcome [1, 2] 0 (bytes_of ''SG=='') res"
  by (rule base64_decode_in_bounds [THEN conjunct1]) (simp_all add: bytes_of_def)

end
