(* ===== verification/Mbedtls_Pem.thy ===== *)
theory Mbedtls_Pem
  imports Mbedtls_Base64
begin

text \<open>
  How credentials reach the TLS layer: the PEM reader and writer
  (src/external_libs/mbedTLS/library/pem.c), the certificate file loader on top of them
  (\<open>mbedtls_x509_crt_parse\<close> of x509_crt.c) and \<open>mbedtls_pk_load_file\<close> of pkparse.c.

  The input is a memory \<open>m\<close> that holds a C string, pointers into it are indices, and a read outside
  it is \<open>None\<close>. The MD5 and CBC primitives, the DER parser, the allocator and the file system are
  the fields of a \<open>pem_env\<close> over an abstract world that holds the heap and the certificate chain;
  \<open>junk\<close> is the indeterminate value of the uninitialised local \<open>len\<close>. The build has DES, AES, MD5
  and CBC enabled, as the shipped configuration does.
\<close>

subsection \<open>The environment\<close>

datatype cipher_type = CIPHER_NONE | DES_CBC | DES_EDE3_CBC | AES_128_CBC | AES_192_CBC | AES_256_CBC

record 'w pem_env =
  calloc :: "size_t \<Rightarrow> 'w \<Rightarrow> bool \<times> 'w"
  md5 :: "byte list \<Rightarrow> byte list"
  cbc_decrypt :: "cipher_type \<Rightarrow> byte list \<Rightarrow> byte list \<Rightarrow> byte list \<Rightarrow> byte list"
  parse_der :: "byte list \<Rightarrow> 'w \<Rightarrow> int \<times> 'w"
  read_file :: "cstring \<Rightarrow> 'w \<Rightarrow> byte list option \<times> 'w"
  junk :: "'w \<Rightarrow> size_t"

record pem_context =
  pem_buf :: "byte list option"
  pem_buflen :: size_t
  pem_info :: "byte list option"

definition mbedtls_pem_init :: pem_context where
  "mbedtls_pem_init = \<lparr>pem_buf = None, pem_buflen = 0, pem_info = None\<rparr>"

definition MBEDTLS_ERR_PEM_NO_HEADER_FOOTER_PRESENT :: int where
  "MBEDTLS_ERR_PEM_NO_HEADER_FOOTER_PRESENT = - 0x1080"

definition MBEDTLS_ERR_PEM_INVALID_DATA :: int where
  "MBEDTLS_ERR_PEM_INVALID_DATA = - 0x1100"

definition MBEDTLS_ERR_PEM_ALLOC_FAILED :: int where
  "MBEDTLS_ERR_PEM_ALLOC_FAILED = - 0x1180"

definition MBEDTLS_ERR_PEM_INVALID_ENC_IV :: int where
  "MBEDTLS_ERR_PEM_INVALID_ENC_IV = - 0x1200"

definition MBEDTLS_ERR_PEM_UNKNOWN_ENC_ALG :: int where
  "MBEDTLS_ERR_PEM_UNKNOWN_ENC_ALG = - 0x1280"

definition MBEDTLS_ERR_PEM_PASSWORD_REQUIRED :: int where
  "MBEDTLS_ERR_PEM_PASSWORD_REQUIRED = - 0x1300"

definition MBEDTLS_ERR_PEM_PASSWORD_MISMATCH :: int where
  "MBEDTLS_ERR_PEM_PASSWORD_MISMATCH = - 0x1380"

definition MBEDTLS_ERR_PEM_BAD_INPUT_DATA :: int where
  "MBEDTLS_ERR_PEM_BAD_INPUT_DATA = - 0x1480"

subsection \<open>Strings in memory\<close>

text \<open>\<open>strstr\<close> of the library on the string at the start of \<open>m\<close>, and \<open>memcmp(m + i, str, n) == 0\<close>.\<close>

primrec find_str :: "cstring \<Rightarrow> cstring \<Rightarrow> nat option" where
  "find_str [] f = (if f = [] then Some 0 else None)"
| "find_str (c # cs) f = (if take (length f) (c # cs) = f then Some 0 else map_option Suc (find_str cs f))"

definition c_strstr :: "byte list \<Rightarrow> cstring \<Rightarrow> nat option option" where
  "c_strstr m f = (if 0 \<in> set m then Some (find_str (takeWhile (\<lambda>c. c \<noteq> 0) m) f) else None)"

definition memcmp_eq :: "byte list \<Rightarrow> nat \<Rightarrow> byte list \<Rightarrow> bool option" where
  "memcmp_eq m i str = (if i + length str \<le> length m then Some (take (length str) (drop i m) = str) else None)"

text \<open>\<open>if( *s == c ) s++\<close>, and the line end both parts of the reader require.\<close>

definition skip_if :: "byte \<Rightarrow> byte list \<Rightarrow> nat \<Rightarrow> nat option" where
  "skip_if c m s = do { b \<leftarrow> byte_at m s; Some (if b = c then Suc s else s) }"

definition skip_line_end :: "byte list \<Rightarrow> nat \<Rightarrow> nat option option" where
  "skip_line_end m s = do {
     s \<leftarrow> skip_if 0x0D m s;
     b \<leftarrow> byte_at m s;
     Some (if b = 0x0A then Some (Suc s) else None) }"

subsection \<open>Encrypted files\<close>

definition pem_hex_digit :: "byte \<Rightarrow> byte option" where
  "pem_hex_digit c = (if 0x30 \<le> c \<and> c \<le> 0x39 then Some (c - 0x30)
     else if 0x41 \<le> c \<and> c \<le> 0x46 then Some (c - 0x37)
     else if 0x61 \<le> c \<and> c \<le> 0x66 then Some (c - 0x57) else None)"

primrec pem_get_iv_loop :: "nat \<Rightarrow> byte list \<Rightarrow> nat \<Rightarrow> nat \<Rightarrow> byte list \<Rightarrow> (int \<times> byte list) option" where
  "pem_get_iv_loop 0 m s i iv = Some (0, iv)"
| "pem_get_iv_loop (Suc g) m s i iv = do {
     c \<leftarrow> byte_at m s;
     case pem_hex_digit c of
       None \<Rightarrow> Some (MBEDTLS_ERR_PEM_INVALID_ENC_IV, iv)
     | Some j \<Rightarrow>
         let k = (if odd i then j else push_bit 4 j) in
         pem_get_iv_loop g m (Suc s) (Suc i) (iv[i div 2 := iv ! (i div 2) OR k]) }"

definition pem_get_iv :: "byte list \<Rightarrow> nat \<Rightarrow> nat \<Rightarrow> (int \<times> byte list) option" where
  "pem_get_iv m s iv_len = pem_get_iv_loop (iv_len * 2) m s 0 (replicate iv_len 0)"

definition pem_pbkdf1 :: "(byte list \<Rightarrow> byte list) \<Rightarrow> nat \<Rightarrow> byte list \<Rightarrow> byte list \<Rightarrow> byte list" where
  "pem_pbkdf1 hash keylen iv pwd = (let md5sum = hash (pwd @ take 8 iv) in
     if keylen \<le> 16 then take keylen md5sum
     else let use_len = (if keylen < 32 then keylen - 16 else 16) in
       take 16 md5sum @ take use_len (hash (take 16 md5sum @ pwd @ take 8 iv)))"

definition pem_des_decrypt :: "'w pem_env \<Rightarrow> byte list \<Rightarrow> byte list \<Rightarrow> byte list \<Rightarrow> byte list" where
  "pem_des_decrypt E iv buf pwd = cbc_decrypt E DES_CBC (pem_pbkdf1 (md5 E) 8 iv pwd) iv buf"

definition pem_des3_decrypt :: "'w pem_env \<Rightarrow> byte list \<Rightarrow> byte list \<Rightarrow> byte list \<Rightarrow> byte list" where
  "pem_des3_decrypt E iv buf pwd = cbc_decrypt E DES_EDE3_CBC (pem_pbkdf1 (md5 E) 24 iv pwd) iv buf"

definition pem_aes_decrypt :: "'w pem_env \<Rightarrow> byte list \<Rightarrow> cipher_type \<Rightarrow> nat \<Rightarrow> byte list \<Rightarrow> byte list \<Rightarrow> byte list" where
  "pem_aes_decrypt E iv alg keylen buf pwd = cbc_decrypt E alg (pem_pbkdf1 (md5 E) keylen iv pwd) iv buf"

definition pem_decrypt :: "'w pem_env \<Rightarrow> cipher_type \<Rightarrow> byte list \<Rightarrow> byte list \<Rightarrow> byte list \<Rightarrow> byte list" where
  "pem_decrypt E alg iv buf pwd = (case alg of
     DES_EDE3_CBC \<Rightarrow> pem_des3_decrypt E iv buf pwd
   | DES_CBC \<Rightarrow> pem_des_decrypt E iv buf pwd
   | AES_128_CBC \<Rightarrow> pem_aes_decrypt E iv alg 16 buf pwd
   | AES_192_CBC \<Rightarrow> pem_aes_decrypt E iv alg 24 buf pwd
   | AES_256_CBC \<Rightarrow> pem_aes_decrypt E iv alg 32 buf pwd
   | CIPHER_NONE \<Rightarrow> buf)"

text \<open>
  The lines after \<open>Proc-Type: 4,ENCRYPTED\<close>: the two DES forms, then, not as an alternative, the
  AES forms. \<open>Inr\<close> carries the algorithm, the IV and the position.
\<close>

definition pem_dek_des :: "byte list \<Rightarrow> nat \<Rightarrow> (int + cipher_type \<times> byte list \<times> nat) option" where
  "pem_dek_des m s = do {
     des3 \<leftarrow> memcmp_eq m s (bytes_of ''DEK-Info: DES-EDE3-CBC,'');
     if des3 then do {
       (r, iv) \<leftarrow> pem_get_iv m (s + 23) 8;
       Some (if r \<noteq> 0 then Inl MBEDTLS_ERR_PEM_INVALID_ENC_IV else Inr (DES_EDE3_CBC, iv, s + 23 + 16)) }
     else do {
       des \<leftarrow> memcmp_eq m s (bytes_of ''DEK-Info: DES-CBC,'');
       if des then do {
         (r, iv) \<leftarrow> pem_get_iv m (s + 18) 8;
         Some (if r \<noteq> 0 then Inl MBEDTLS_ERR_PEM_INVALID_ENC_IV else Inr (DES_CBC, iv, s + 18 + 16)) }
       else Some (Inr (CIPHER_NONE, [], s)) } }"

definition pem_dek_aes ::
    "byte list \<Rightarrow> cipher_type \<times> byte list \<times> nat \<Rightarrow> (int + cipher_type \<times> byte list \<times> nat) option" where
  "pem_dek_aes m = (\<lambda>(alg, iv, s). do {
     aes \<leftarrow> memcmp_eq m s (bytes_of ''DEK-Info: AES-'');
     if \<not> aes then Some (Inr (alg, iv, s)) else do {
     a128 \<leftarrow> memcmp_eq m s (bytes_of ''DEK-Info: AES-128-CBC,'');
     a192 \<leftarrow> memcmp_eq m s (bytes_of ''DEK-Info: AES-192-CBC,'');
     a256 \<leftarrow> memcmp_eq m s (bytes_of ''DEK-Info: AES-256-CBC,'');
     if \<not> a128 \<and> \<not> a192 \<and> \<not> a256 then Some (Inl MBEDTLS_ERR_PEM_UNKNOWN_ENC_ALG)
     else do {
       let alg = (if a128 then AES_128_CBC else if a192 then AES_192_CBC else AES_256_CBC);
       (r, iv) \<leftarrow> pem_get_iv m (s + 22) 16;
       Some (if r \<noteq> 0 then Inl MBEDTLS_ERR_PEM_INVALID_ENC_IV else Inr (alg, iv, s + 22 + 32)) } } })"

definition pem_enc_header :: "byte list \<Rightarrow> nat \<Rightarrow> (int + cipher_type \<times> byte list \<times> nat) option" where
  "pem_enc_header m s = do {
     e \<leftarrow> skip_line_end m (s + 22);
     case e of None \<Rightarrow> Some (Inl MBEDTLS_ERR_PEM_INVALID_DATA) | Some s \<Rightarrow> do {
     d \<leftarrow> pem_dek_des m s;
     case d of Inl r \<Rightarrow> Some (Inl r) | Inr x \<Rightarrow> do {
     a \<leftarrow> pem_dek_aes m x;
     case a of Inl r \<Rightarrow> Some (Inl r) | Inr (alg, iv, s) \<Rightarrow>
       if alg = CIPHER_NONE then Some (Inl MBEDTLS_ERR_PEM_UNKNOWN_ENC_ALG) else do {
       e \<leftarrow> skip_line_end m s;
       Some (case e of None \<Rightarrow> Inl MBEDTLS_ERR_PEM_INVALID_DATA | Some s \<Rightarrow> Inr (alg, iv, s)) } } } }"

subsection \<open>Reading\<close>

text \<open>Where the armoured text starts and ends, and \<open>*use_len\<close>; \<open>None\<close> when it is not there.\<close>

definition pem_locate :: "cstring \<Rightarrow> cstring \<Rightarrow> byte list \<Rightarrow> (nat \<times> nat \<times> nat) option option" where
  "pem_locate header footer m = do {
     h \<leftarrow> c_strstr m header;
     f \<leftarrow> c_strstr m footer;
     (case (h, f) of
       (Some s1, Some s2) \<Rightarrow>
         if s2 \<le> s1 then Some None else do {
         s1 \<leftarrow> skip_if 0x20 m (s1 + length header);
         e \<leftarrow> skip_line_end m s1;
         case e of None \<Rightarrow> Some None | Some s1 \<Rightarrow> do {
         end1 \<leftarrow> skip_if 0x20 m (s2 + length footer);
         end2 \<leftarrow> skip_if 0x0D m end1;
         end3 \<leftarrow> skip_if 0x0A m end2;
         Some (Some (s1, s2, end3)) } }
     | _ \<Rightarrow> Some None) }"

text \<open>
  The part after the header lines: size query, allocation, decoding, decryption. \<open>enc\<close> is the
  algorithm and the IV of an encrypted file.
\<close>

definition pem_payload ::
    "'w pem_env \<Rightarrow> byte list \<Rightarrow> (cipher_type \<times> byte list) option \<Rightarrow> byte list option \<Rightarrow> pem_context \<Rightarrow> 'w \<Rightarrow>
       (int \<times> pem_context \<times> 'w) option" where
  "pem_payload E body enc pwd ctx w = do {
     (ret, d, len) \<leftarrow> mbedtls_base64_decode None (junk E w) body;
     if ret = MBEDTLS_ERR_BASE64_INVALID_CHARACTER then Some (MBEDTLS_ERR_PEM_INVALID_DATA + ret, ctx, w)
     else let (ok, w) = calloc E len w in
     if \<not> ok then Some (MBEDTLS_ERR_PEM_ALLOC_FAILED, ctx, w)
     else do {
       (ret, d, len) \<leftarrow> mbedtls_base64_decode (Some (replicate (unat len) 0)) len body;
       buf \<leftarrow> d;
       if ret \<noteq> 0 then Some (MBEDTLS_ERR_PEM_INVALID_DATA + ret, ctx, w)
       else case enc of
         None \<Rightarrow> Some (0, ctx\<lparr>pem_buf := Some buf, pem_buflen := len\<rparr>, w)
       | Some (alg, iv) \<Rightarrow>
         (case pwd of None \<Rightarrow> Some (MBEDTLS_ERR_PEM_PASSWORD_REQUIRED, ctx, w)
         | Some pwd \<Rightarrow> do {
             let n = unat len;
             let buf = pem_decrypt E alg iv (take n buf) pwd @ drop n buf;
             bad \<leftarrow> (if len \<le> 2 then Some True else do {
               b0 \<leftarrow> byte_at buf 0; b1 \<leftarrow> byte_at buf 1; Some (b0 \<noteq> 0x30 \<or> 0x83 < b1) });
             if bad then Some (MBEDTLS_ERR_PEM_PASSWORD_MISMATCH, ctx, w)
             else Some (0, ctx\<lparr>pem_buf := Some buf, pem_buflen := len\<rparr>, w) }) } }"

definition mbedtls_pem_read_buffer ::
    "'w pem_env \<Rightarrow> pem_context option \<Rightarrow> cstring \<Rightarrow> cstring \<Rightarrow> byte list \<Rightarrow> byte list option \<Rightarrow> size_t \<Rightarrow> 'w \<Rightarrow>
       (int \<times> pem_context option \<times> size_t \<times> 'w) option" where
  "mbedtls_pem_read_buffer E ctx header footer m pwd use_len w = (case ctx of
     None \<Rightarrow> Some (MBEDTLS_ERR_PEM_BAD_INPUT_DATA, None, use_len, w)
   | Some ctx \<Rightarrow> do {
     loc \<leftarrow> pem_locate header footer m;
     case loc of None \<Rightarrow> Some (MBEDTLS_ERR_PEM_NO_HEADER_FOOTER_PRESENT, Some ctx, use_len, w)
     | Some (s1, s2, stop) \<Rightarrow> do {
       let use_len = of_nat stop;
       is_enc \<leftarrow> memcmp_eq m s1 (bytes_of ''Proc-Type: 4,ENCRYPTED'');
       hd \<leftarrow> (if is_enc then pem_enc_header m s1 else Some (Inr (CIPHER_NONE, [], s1)));
       (case hd of Inl r \<Rightarrow> Some (r, Some ctx, use_len, w)
       | Inr (alg, iv, s1) \<Rightarrow>
         if s2 < s1 then None else do {
         (r, ctx, w) \<leftarrow> pem_payload E (take (s2 - s1) (drop s1 m)) (if is_enc then Some (alg, iv) else None) pwd ctx w;
         Some (r, Some ctx, use_len, w) }) } })"

text \<open>The writer: the encoder's text in lines of 64 characters between header and footer.\<close>

function pem_lines :: "byte list \<Rightarrow> cursor \<Rightarrow> cursor option" where
  "pem_lines c p = (if c = [] then Some p else do {
     p \<leftarrow> put (take 64 c) p;
     p \<leftarrow> store 0x0A p;
     pem_lines (drop 64 c) p })"
  by pat_completeness auto
termination by (relation "measure (\<lambda>(c, p). length c)") auto

declare pem_lines.simps [simp del]

definition mbedtls_pem_write_buffer ::
    "'w pem_env \<Rightarrow> cstring \<Rightarrow> cstring \<Rightarrow> byte list \<Rightarrow> byte list \<Rightarrow> size_t \<Rightarrow> 'w \<Rightarrow>
       (int \<times> byte list \<times> size_t \<times> 'w) option" where
  "mbedtls_pem_write_buffer E header footer der buf olen w = do {
     (r, d, use_len) \<leftarrow> mbedtls_base64_encode [] der;
     let add_len = of_nat (length header) + of_nat (length footer) + use_len div 64 + 1;
     if of_nat (length buf) < use_len + add_len
     then Some (MBEDTLS_ERR_BASE64_BUFFER_TOO_SMALL, buf, use_len + add_len, w)
     else let (ok, w) = calloc E use_len w in
     if \<not> ok then Some (MBEDTLS_ERR_PEM_ALLOC_FAILED, buf, olen, w)
     else do {
       (ret, encode_buf, use_len) \<leftarrow> mbedtls_base64_encode (replicate (unat use_len) 0) der;
       if ret \<noteq> 0 then Some (ret, buf, olen, w)
       else do {
         p \<leftarrow> put header (buf, 0);
         p \<leftarrow> pem_lines (take (unat use_len) encode_buf) p;
         p \<leftarrow> put footer p;
         p \<leftarrow> store 0 p;
         Some (0, fst p, of_nat (snd p), w) } } }"

subsection \<open>Loading certificate files\<close>

definition MBEDTLS_ERR_X509_CERT_UNKNOWN_FORMAT :: int where
  "MBEDTLS_ERR_X509_CERT_UNKNOWN_FORMAT = - 0x2780"

definition MBEDTLS_ERR_X509_BAD_INPUT_DATA :: int where
  "MBEDTLS_ERR_X509_BAD_INPUT_DATA = - 0x2800"

definition MBEDTLS_ERR_X509_ALLOC_FAILED :: int where
  "MBEDTLS_ERR_X509_ALLOC_FAILED = - 0x2880"

definition MBEDTLS_ERR_PK_ALLOC_FAILED :: int where
  "MBEDTLS_ERR_PK_ALLOC_FAILED = - 0x3F80"

definition MBEDTLS_ERR_PK_FILE_IO_ERROR :: int where
  "MBEDTLS_ERR_PK_FILE_IO_ERROR = - 0x3E00"

definition crt_header :: cstring where
  "crt_header = bytes_of ''-----BEGIN CERTIFICATE-----''"

definition crt_footer :: cstring where
  "crt_footer = bytes_of ''-----END CERTIFICATE-----''"

text \<open>The loop's variables: success, first_error, total_failed; the code after the loop.\<close>

definition crt_verdict :: "bool \<Rightarrow> int \<Rightarrow> int \<Rightarrow> int" where
  "crt_verdict success first_error total_failed =
     (if success then total_failed else if first_error \<noteq> 0 then first_error
      else MBEDTLS_ERR_X509_CERT_UNKNOWN_FORMAT)"

primrec crt_loop :: "nat \<Rightarrow> 'w pem_env \<Rightarrow> byte list \<Rightarrow> bool \<Rightarrow> int \<Rightarrow> int \<Rightarrow> 'w \<Rightarrow> (int \<times> 'w) run" where
  "crt_loop 0 E buf success first_error total_failed w = NoFuel"
| "crt_loop (Suc fuel) E buf success first_error total_failed w =
     (if length buf \<le> 1 then Done (crt_verdict success first_error total_failed, w)
      else bnd (of_opt (mbedtls_pem_read_buffer E (Some mbedtls_pem_init) crt_header crt_footer buf None 0 w))
        (\<lambda>(ret, pem, use_len, w).
          if ret = 0 then
            bnd (of_opt (do { pem \<leftarrow> pem; pem_buf pem })) (\<lambda>der.
              let (ret, w) = parse_der E (take (unat (pem_buflen (the pem))) der) w;
                  rest = drop (unat use_len) buf;
                  first_error' = (if first_error = 0 then ret else first_error) in
              if ret = 0 then crt_loop fuel E rest True first_error total_failed w
              else if ret = MBEDTLS_ERR_X509_ALLOC_FAILED then Done (ret, w)
              else crt_loop fuel E rest success first_error' (total_failed + 1) w)
          else if ret = MBEDTLS_ERR_PEM_BAD_INPUT_DATA then Done (ret, w)
          else if ret \<noteq> MBEDTLS_ERR_PEM_NO_HEADER_FOOTER_PRESENT then
            crt_loop fuel E (drop (unat use_len) buf) success
              (if first_error = 0 then ret else first_error) (total_failed + 1) w
          else Done (crt_verdict success first_error total_failed, w)))"

definition mbedtls_x509_crt_parse :: "nat \<Rightarrow> 'w pem_env \<Rightarrow> byte list option \<Rightarrow> 'w \<Rightarrow> (int \<times> 'w) run" where
  "mbedtls_x509_crt_parse fuel E buf w = (case buf of
     None \<Rightarrow> Done (MBEDTLS_ERR_X509_BAD_INPUT_DATA, w)
   | Some buf \<Rightarrow>
       bnd (of_opt (if buf \<noteq> [] \<and> last buf = 0 then map_option (\<lambda>f. f \<noteq> None) (c_strstr buf crt_header) else Some False))
         (\<lambda>is_pem. if is_pem then crt_loop fuel E buf False 0 0 w else Done (parse_der E buf w)))"

text \<open>
  \<open>mbedtls_pk_load_file\<close>: the file with a terminator behind it, counted only when the text has an
  armour line. \<open>read_file\<close> stands for fopen, fseek, ftell and fread.
\<close>

definition mbedtls_pk_load_file :: "'w pem_env \<Rightarrow> cstring \<Rightarrow> 'w \<Rightarrow> ((int + byte list \<times> nat) \<times> 'w) option" where
  "mbedtls_pk_load_file E path w = (let (file, w) = read_file E path w in
     case file of
       None \<Rightarrow> Some (Inl MBEDTLS_ERR_PK_FILE_IO_ERROR, w)
     | Some bytes \<Rightarrow>
         let n = of_nat (length bytes) :: size_t in
         if n + 1 = 0 then Some (Inl MBEDTLS_ERR_PK_ALLOC_FAILED, w)
         else let (ok, w) = calloc E (n + 1) w in
         if \<not> ok then Some (Inl MBEDTLS_ERR_PK_ALLOC_FAILED, w)
         else do {
           armour \<leftarrow> c_strstr (bytes @ [0]) (bytes_of ''-----BEGIN '');
           Some (Inr (bytes @ [0], if armour \<noteq> None then length bytes + 1 else length bytes), w) })"

definition mbedtls_x509_crt_parse_file :: "nat \<Rightarrow> 'w pem_env \<Rightarrow> cstring \<Rightarrow> 'w \<Rightarrow> (int \<times> 'w) run" where
  "mbedtls_x509_crt_parse_file fuel E path w =
     bnd (of_opt (mbedtls_pk_load_file E path w)) (\<lambda>(r, w). case r of
       Inl e \<Rightarrow> Done (e, w)
     | Inr (buf, n) \<Rightarrow> mbedtls_x509_crt_parse fuel E (Some (take n buf)) w)"

subsection \<open>Searching\<close>

text \<open>\<open>f\<close> can start nowhere in \<open>xs\<close>, whatever follows \<open>xs\<close>.\<close>

primrec clear_of :: "cstring \<Rightarrow> cstring \<Rightarrow> bool" where
  "clear_of f [] = True"
| "clear_of f (c # cs) = (take (Suc (length cs)) f \<noteq> take (length f) (c # cs) \<and> clear_of f cs)"

lemma find_str_clear: "clear_of f xs \<Longrightarrow> find_str (xs @ ys) f = map_option ((+) (length xs)) (find_str ys f)"
proof (induction xs)
  case (Cons c cs)
  have "take (length f) (c # cs @ ys) \<noteq> f"
  proof
    assume "take (length f) (c # cs @ ys) = f"
    then have "take (length (c # cs)) f = take (length (c # cs)) (take (length f) ((c # cs) @ ys))" by simp
    also have "\<dots> = take (length f) (take (length (c # cs)) ((c # cs) @ ys))" by (simp only: take_take min.commute)
    also have "\<dots> = take (length f) (c # cs)" by simp
    finally show False using Cons.prems by simp
  qed
  then show ?case using Cons by (simp add: option.map_comp comp_def)
qed (cases "find_str ys f"; simp)

lemma clear_of_hd: "f \<noteq> [] \<Longrightarrow> hd f \<notin> set xs \<Longrightarrow> clear_of f xs"
  by (induction xs) (auto simp: neq_Nil_conv)

lemma find_str_prefix: "find_str (f @ ys) f = Some 0"
proof (cases "f @ ys")
  case (Cons c cs)
  then have "take (length f) (c # cs) = f" by (metis append_eq_conv_conj)
  then show ?thesis unfolding Cons by simp
qed simp

lemma find_str_Some: "find_str s f = Some i \<Longrightarrow> take (length f) (drop i s) = f \<and> i + length f \<le> length s"
  by (induction s arbitrary: i) (force split: if_splits dest: arg_cong [of _ f length] simp: min_def)+

text \<open>Once a clear text has been read at \<open>i\<close>, an occurrence of \<open>f\<close> behind \<open>i\<close> is behind that text.\<close>

lemma clear_of_drop: "clear_of f xs \<Longrightarrow> j < length xs \<Longrightarrow> take (length xs - j) f \<noteq> take (length f) (drop j xs)"
  by (induction xs arbitrary: j) (auto simp: less_Suc_eq_0_disj drop_Cons')

lemma clear_of_skip:
  assumes "take (length xs) (drop i m) = xs" "clear_of f xs" "take (length f) (drop s m) = f" "i \<le> s"
  shows "i + length xs \<le> s"
proof (rule ccontr)
  assume "\<not> i + length xs \<le> s"
  define j where "j = s - i"
  have j: "j < length xs" "s = i + j" using assms(4) \<open>\<not> i + length xs \<le> s\<close> by (auto simp: j_def)
  have "take (length xs - j) f = take (length xs - j) (take (length f) (drop s m))" by (simp add: assms(3))
  also have "\<dots> = take (length f) (take (length xs - j) (drop s m))" by (simp add: min.commute)
  also have "take (length xs - j) (drop s m) = drop j xs"
    using arg_cong [OF assms(1), of "drop j"] by (simp add: drop_take j(2) add.commute)
  finally show False using clear_of_drop [OF assms(2) j(1)] by simp
qed

subsection \<open>What the writer writes\<close>

function pem_body :: "byte list \<Rightarrow> byte list" where
  "pem_body c = (if c = [] then [] else take 64 c @ 0x0A # pem_body (drop 64 c))"
  by pat_completeness auto
termination by (relation "measure length") auto

declare pem_body.simps [simp del]

lemma pem_body_Nil [simp]: "pem_body [] = []"
  by (simp add: pem_body.simps)

lemma pem_lines_put: "snd p \<le> length (fst p) \<Longrightarrow> pem_lines c p = put (pem_body c) p"
proof (induction c p rule: pem_lines.induct)
  case (1 c p)
  show ?case
  proof (cases "c = []")
    case True
    then show ?thesis using 1(2) by (simp add: pem_lines.simps put_Some_Nil)
  next
    case False
    have "pem_lines c p = Option.bind (put (take 64 c @ [0x0A]) p) (pem_lines (drop 64 c))"
      by (subst pem_lines.simps) (simp add: False codec)
    also have "\<dots> = Option.bind (put (take 64 c @ [0x0A]) p) (put (pem_body (drop 64 c)))"
    proof (rule Option.bind_cong [OF refl])
      fix q assume q: "put (take 64 c @ [0x0A]) p = Some q"
      then obtain p' where p': "put (take 64 c) p = Some p'" "store 0x0A p' = Some q"
        unfolding put_store [symmetric] by (auto elim: bind_SomeE)
      show "pem_lines (drop 64 c) q = put (pem_body (drop 64 c)) q"
        using 1(1) [OF False p'] put_SomeD [OF q] by simp
    qed
    also have "\<dots> = put (pem_body c) p"
      unfolding put_put by (subst (2) pem_body.simps) (simp add: False)
    finally show ?thesis .
  qed
qed

lemma pem_body_filter: "0x0A \<notin> set c \<Longrightarrow> filter (\<lambda>b. b \<noteq> 0x0A) (pem_body c) = c"
proof (induction c rule: pem_body.induct)
  case (1 c)
  show ?case
  proof (cases "c = []")
    case False
    have "filter (\<lambda>b. b \<noteq> 0x0A) (take 64 c) = take 64 c"
      using 1(2) by (auto simp: filter_id_conv dest: in_set_takeD)
    moreover have "0x0A \<notin> set (drop 64 c)" using 1(2) by (auto dest: in_set_dropD)
    ultimately show ?thesis using 1(1) False by (subst pem_body.simps) simp
  qed simp
qed

lemma pem_body_set: "set (pem_body c) \<subseteq> insert 0x0A (set c)"
proof (induction c rule: pem_body.induct)
  case (1 c)
  then show ?case by (subst pem_body.simps) (auto dest: in_set_takeD in_set_dropD)
qed

lemma pem_body_length: "length (pem_body c) = length c + (length c + 63) div 64"
proof (induction c rule: pem_body.induct)
  case (1 c)
  show ?case
  proof (cases "c = []")
    case False
    have d: "(length c - 64 + 63) div 64 = (length c + 63) div 64 - 1" by (cases "64 \<le> length c") (auto simp: le_imp_diff_is_add)
    have "1 \<le> (length c + 63) div 64" using False by (cases c) auto
    then show ?thesis
      by (subst pem_body.simps) (simp add: False 1 d)
  qed simp
qed

lemma base64_text_char:
  assumes "c \<in> set (base64_text src)"
  shows "c \<noteq> 0x0A" "c \<noteq> 0" "c \<noteq> 0x2D"
proof -
  obtain ds k where "base64_text src = ds @ replicate k 0x3D" "list_all data_char ds"
    by (rule base64_text_shape)
  then have "data_char c \<or> c = 0x3D" using assms by (auto simp: list_all_iff)
  then show "c \<noteq> 0x0A" "c \<noteq> 0" "c \<noteq> 0x2D"
    by (auto simp: data_char_def dec_char_def base64_dec_map_def)
qed

lemma encode_query:
  assumes "der \<noteq> []" "length der < 2 ^ 60"
  shows "mbedtls_base64_encode [] der =
    Some (MBEDTLS_ERR_BASE64_BUFFER_TOO_SMALL, [], of_nat (length (base64_text der) + 1))"
  using encode_exact [of der "[]"] assms by simp

text \<open>The text of an armoured file.\<close>

definition pem_text :: "cstring \<Rightarrow> cstring \<Rightarrow> byte list \<Rightarrow> byte list" where
  "pem_text header footer der = header @ [0x0A] @ pem_body (base64_text der) @ footer @ [0x0A]"

lemma pem_write_exact:
  assumes "der \<noteq> []" "length der < 2 ^ 58" "length h < 2 ^ 58" "length f < 2 ^ 58" "length buf < 2 ^ 64"
    and ok: "\<And>n w. calloc E n w = (True, w)"
  defines "out \<equiv> h @ pem_body (base64_text der) @ f @ [0]"
    and "need \<equiv> length (base64_text der) + 1 + (length h + length f + (length (base64_text der) + 1) div 64 + 1)"
  shows "mbedtls_pem_write_buffer E h f der buf olen w =
    (if length buf < need then Some (MBEDTLS_ERR_BASE64_BUFFER_TOO_SMALL, buf, of_nat need, w)
     else Some (0, out @ drop (length out) buf, of_nat (length out), w))"
    and "length out \<le> need"
proof -
  let ?t = "base64_text der"
  have t: "length ?t < 2 ^ 60" using assms(2) by (simp add: base64_text_length)
  define e where "e = (of_nat (length ?t + 1) :: size_t)"
  have u: "unat e = length ?t + 1" unfolding e_def using t by (simp add: unat_of_nat del: of_nat_Suc of_nat_add)
  have d64: "e div 64 = of_nat ((length ?t + 1) div 64)"
    unfolding e_def using t by (simp add: word_unat_eq_iff unat_div unat_of_nat del: of_nat_Suc of_nat_add)
  have need: "e + (of_nat (length h) + of_nat (length f) + e div 64 + 1) = of_nat need"
    unfolding d64 unfolding e_def need_def by simp
  have nb: "need < 2 ^ 64" using t assms(3,4) unfolding need_def by simp
  have cmp: "(of_nat (length buf) :: size_t) < of_nat need \<longleftrightarrow> length buf < need"
    using nb assms(5) by (simp add: word_less_nat_alt unat_of_nat)
  show len: "length out \<le> need"
    unfolding out_def need_def by (simp add: pem_body_length)
  have enc: "mbedtls_base64_encode (replicate (length ?t + 1) 0) der = Some (0, ?t @ [0], of_nat (length ?t))"
    using encode_exact [of der "replicate (length ?t + 1) 0"] assms(1,2) t by simp
  have ut: "unat (of_nat (length ?t) :: size_t) = length ?t" using t by (simp add: unat_of_nat)
  have fit: "put out (buf, 0) = Some (out @ drop (length out) buf, length out)" if "\<not> length buf < need"
    using that len by (simp add: put_eq_Some)
  have wr: "Option.bind (put h (buf, 0)) (\<lambda>p. Option.bind (pem_lines ?t p) (\<lambda>p. Option.bind (put f p) (\<lambda>p.
      Option.bind (store 0 p) k))) = Option.bind (put out (buf, 0)) k"
    for k :: "cursor \<Rightarrow> (int \<times> byte list \<times> size_t \<times> 'a) option"
  proof -
    have "Option.bind (put h (buf, 0)) (\<lambda>p. Option.bind (pem_lines ?t p) k') =
        Option.bind (put h (buf, 0)) (\<lambda>p. Option.bind (put (pem_body ?t) p) k')"
      for k' :: "cursor \<Rightarrow> (int \<times> byte list \<times> size_t \<times> 'a) option"
      by (rule Option.bind_cong [OF refl]) (auto dest: put_SomeD simp: pem_lines_put)
    then show ?thesis by (simp add: codec out_def)
  qed
  have q: "mbedtls_base64_encode [] der = Some (MBEDTLS_ERR_BASE64_BUFFER_TOO_SMALL, [], e)"
    unfolding e_def using assms(2) by (intro encode_query assms(1)) simp
  show "mbedtls_pem_write_buffer E h f der buf olen w =
    (if length buf < need then Some (MBEDTLS_ERR_BASE64_BUFFER_TOO_SMALL, buf, of_nat need, w)
     else Some (0, out @ drop (length out) buf, of_nat (length out), w))"
    unfolding mbedtls_pem_write_buffer_def q
    by (cases "length buf < need") (simp_all add: Let_def need cmp ok u enc [simplified] ut wr fit)
qed

subsection \<open>What the reader reads\<close>

text \<open>Labels the reader can tell from the armoured text.\<close>

definition pem_labels :: "cstring \<Rightarrow> cstring \<Rightarrow> bool" where
  "pem_labels h f \<longleftrightarrow> h \<noteq> [] \<and> 0 \<notin> set h \<and> 0 \<notin> set f \<and> 15 \<le> length f \<and> hd f = 0x2D \<and>
     clear_of f (h @ [0x0A])"

lemma pem_locate_text:
  assumes lab: "pem_labels h f" and body: "0 \<notin> set b" "0x2D \<notin> set b" and z: "0 \<in> set rest"
  shows "pem_locate h f (h @ [0x0A] @ b @ f @ [0x0A] @ rest) =
    Some (Some (length h + 1, length h + 1 + length b, length h + 1 + length b + length f + 1))"
proof -
  let ?m = "h @ [0x0A] @ b @ f @ [0x0A] @ rest" and ?z = "takeWhile (\<lambda>c. c \<noteq> 0) rest"
  have nz: "\<forall>c\<in>set (h @ [0x0A] @ b @ f @ [0x0A]). c \<noteq> 0"
    using lab body by (auto simp: pem_labels_def)
  then have "takeWhile (\<lambda>c. c \<noteq> 0) ((h @ [0x0A] @ b @ f @ [0x0A]) @ rest) = (h @ [0x0A] @ b @ f @ [0x0A]) @ ?z"
    by (intro takeWhile_append2) blast
  then have s: "takeWhile (\<lambda>c. c \<noteq> 0) ?m = h @ [0x0A] @ b @ f @ [0x0A] @ ?z" by simp
  have f: "f \<noteq> []" using lab by (auto simp: pem_labels_def)
  have h: "c_strstr ?m h = Some (Some 0)"
    using z unfolding c_strstr_def s find_str_prefix by simp
  have "find_str ((h @ [0x0A]) @ b @ f @ [0x0A] @ ?z) f = Some (length h + 1 + length b)"
    using lab body(2) f by (subst find_str_clear, simp add: pem_labels_def)
      (subst find_str_clear, auto intro!: clear_of_hd simp: pem_labels_def find_str_prefix)
  then have ff: "c_strstr ?m f = Some (Some (length h + 1 + length b))"
    using z unfolding c_strstr_def s by simp
  have 1: "byte_at ?m (length h) = Some 0x0A" by (simp add: byte_at_append)
  have 2: "byte_at ?m (length h + 1 + length b + length f) = Some 0x0A" by (simp add: byte_at_append)
  show ?thesis
    using lab by (simp add: pem_locate_def h [simplified] ff [simplified] skip_if_def skip_line_end_def 1 [simplified] 2 [simplified] pem_labels_def)
qed

lemma not_encrypted:
  assumes "4 < length b" "0x2D \<notin> set b" "22 \<le> length (b @ r)"
  shows "memcmp_eq (p @ b @ r) (length p) (bytes_of ''Proc-Type: 4,ENCRYPTED'') = Some False"
proof -
  have "take 22 (b @ r) \<noteq> bytes_of ''Proc-Type: 4,ENCRYPTED''"
  proof
    assume "take 22 (b @ r) = bytes_of ''Proc-Type: 4,ENCRYPTED''"
    then have "take 22 (b @ r) ! 4 = 0x2D" by (simp add: bytes_of_def)
    then have "b ! 4 = 0x2D" using assms(1) by (simp add: nth_append)
    then show False using assms(1,2) by (metis nth_mem)
  qed
  moreover have "length (bytes_of ''Proc-Type: 4,ENCRYPTED'') = 22" by (simp add: bytes_of_def)
  ultimately show ?thesis using assms(3) by (simp add: memcmp_eq_def del: take_append)
qed

lemma pem_payload_text:
  assumes "der \<noteq> []" "length der < 2 ^ 58" and ok: "\<And>n w. calloc E n w = (True, w)"
  shows "pem_payload E (pem_body (base64_text der)) None pwd ctx w =
    Some (0, ctx\<lparr>pem_buf := Some der, pem_buflen := of_nat (length der)\<rparr>, w)"
proof -
  let ?b = "pem_body (base64_text der)"
  have f: "filter (\<lambda>c. c \<noteq> 0x0A) ?b = base64_text der"
    by (rule pem_body_filter) (use base64_text_char(1) in blast)
  have l: "length ?b < 2 ^ 61" using assms(2) by (simp add: pem_body_length base64_text_length)
  have u: "unat (of_nat (length der) :: size_t) = length der" using assms(2) by (simp add: unat_of_nat)
  note q = decode_text(1) [OF f l _ assms(1), of "[]"]
    and d = decode_text(2) [OF f l _ assms(1), of "replicate (length der) 0"]
  show ?thesis
    unfolding pem_payload_def using q d assms(2)
    by (simp add: ok u Let_def MBEDTLS_ERR_BASE64_BUFFER_TOO_SMALL_def MBEDTLS_ERR_BASE64_INVALID_CHARACTER_def)
qed

lemma pem_read_text:
  assumes lab: "pem_labels h f" and "der \<noteq> []" "length der < 2 ^ 58" and z: "0 \<in> set rest"
    and ok: "\<And>n w. calloc E n w = (True, w)"
  shows "mbedtls_pem_read_buffer E (Some ctx) h f (pem_text h f der @ rest) pwd use_len w =
    Some (0, Some (ctx\<lparr>pem_buf := Some der, pem_buflen := of_nat (length der)\<rparr>),
      of_nat (length (pem_text h f der)), w)"
proof -
  let ?b = "pem_body (base64_text der)"
  have c: "c \<noteq> 0 \<and> c \<noteq> 0x2D" if "c \<in> set ?b" for c
    using that pem_body_set [of "base64_text der"] base64_text_char [of c der] by auto
  then have b: "0 \<notin> set ?b" "0x2D \<notin> set ?b" by blast+
  have "4 \<le> length (base64_text der)" using assms(2) by (cases der) (auto simp: base64_text_length)
  then have b5: "4 < length ?b" by (simp add: pem_body_length)
  have f15: "15 \<le> length f" using lab by (simp add: pem_labels_def)
  have m: "pem_text h f der @ rest = h @ [0x0A] @ ?b @ f @ [0x0A] @ rest" by (simp add: pem_text_def)
  have z1: "1 \<le> length rest" using z by (cases rest) auto
  have enc: "memcmp_eq (h @ [0x0A] @ ?b @ f @ [0x0A] @ rest) (length h + 1) (bytes_of ''Proc-Type: 4,ENCRYPTED'') = Some False"
    using not_encrypted [OF b5 b(2), of "f @ [0x0A] @ rest" "h @ [0x0A]"] b5 f15 z1 by simp
  have "take (length ?b) (drop (length h + 1) (h @ [0x0A] @ ?b @ f @ [0x0A] @ rest)) = ?b" by simp
  then show ?thesis
    unfolding mbedtls_pem_read_buffer_def m pem_locate_text [OF lab b z]
    using enc pem_payload_text [where E = E and ctx = ctx and w = w, OF assms(2,3) ok]
    by (simp add: pem_text_def Let_def)
qed

subsection \<open>Every input is read inside its memory\<close>

text \<open>\<open>m\<close> holds a string with \<open>f\<close> at \<open>s2\<close>; \<open>e\<close> is its terminator.\<close>

definition armoured :: "byte list \<Rightarrow> cstring \<Rightarrow> nat \<Rightarrow> nat \<Rightarrow> bool" where
  "armoured m f s2 e \<longleftrightarrow> e < length m \<and> m ! e = 0 \<and> s2 + length f \<le> e \<and> take (length f) (drop s2 m) = f"

definition footer_ok :: "cstring \<Rightarrow> bool" where
  "footer_ok f \<longleftrightarrow> 22 \<le> length f \<and> hd f = 0x2D \<and> list_all (\<lambda>s. clear_of f (bytes_of s))
     [''Proc-Type: 4,ENCRYPTED'', ''DEK-Info: DES-EDE3-CBC,'', ''DEK-Info: DES-CBC,'',
      ''DEK-Info: AES-128-CBC,'', ''DEK-Info: AES-192-CBC,'', ''DEK-Info: AES-256-CBC,'']"

definition header_ok :: "cstring \<Rightarrow> cstring \<Rightarrow> bool" where
  "header_ok h f \<longleftrightarrow> list_all (\<lambda>c. clear_of f (h @ [c])) [0x20, 0x0D, 0x0A]"

lemma crt_labels: "pem_labels crt_header crt_footer" "footer_ok crt_footer" "header_ok crt_header crt_footer"
  by code_simp+

lemma armoured_step:
  assumes "armoured m f s2 e" "footer_ok f" "s \<le> s2" "m ! s \<noteq> 0x2D"
  shows "s < length m" "Suc s \<le> s2"
proof -
  have "f \<noteq> []" using assms(2) by (auto simp: footer_ok_def)
  then have "m ! s2 = hd f" using assms(1) unfolding armoured_def
    by (metis add_leD1 hd_drop_conv_nth hd_take length_greater_0_conv less_trans order_le_less)
  then show "Suc s \<le> s2" using assms by (cases "s = s2") (auto simp: footer_ok_def)
  then show "s < length m" using assms(1) by (auto simp: armoured_def)
qed

lemma armoured_byte:
  "armoured m f s2 e \<Longrightarrow> s \<le> s2 \<Longrightarrow> byte_at m s = Some (m ! s)"
  by (auto simp: armoured_def)

lemma armoured_memcmp:
  assumes "armoured m f s2 e" "footer_ok f" "s \<le> s2" "length str \<le> 23"
  shows "memcmp_eq m s str = Some (take (length str) (drop s m) = str)"
  using assms by (auto simp: memcmp_eq_def armoured_def footer_ok_def)

lemma armoured_text:
  "armoured m f s2 e \<Longrightarrow> clear_of f str \<Longrightarrow> s \<le> s2 \<Longrightarrow> take (length str) (drop s m) = str \<Longrightarrow> s + length str \<le> s2"
  by (rule clear_of_skip) (auto simp: armoured_def)

lemma skip_line_end_armoured:
  assumes "armoured m f s2 e" "footer_ok f" "s \<le> s2"
  shows "\<exists>r. skip_line_end m s = Some r \<and> (\<forall>s'. r = Some s' \<longrightarrow> s' \<le> s2)"
  using assms(3) armoured_byte [OF assms(1)] armoured_step [OF assms(1,2)]
  by (auto simp: skip_line_end_def skip_if_def)

lemma pem_hex_digit_armoured: "pem_hex_digit c = Some j \<Longrightarrow> c \<noteq> 0x2D"
  by (auto simp: pem_hex_digit_def)

lemma pem_get_iv_armoured:
  assumes "armoured m f s2 e" "footer_ok f" "s \<le> s2"
  shows "\<exists>r iv'. pem_get_iv_loop g m s i iv = Some (r, iv') \<and> (r = 0 \<longrightarrow> s + g \<le> s2)"
  using assms(3)
proof (induction g arbitrary: s i iv)
  case (Suc g)
  show ?case
  proof (cases "pem_hex_digit (m ! s)")
    case None
    then show ?thesis using armoured_byte [OF assms(1) Suc.prems]
      by (simp add: MBEDTLS_ERR_PEM_INVALID_ENC_IV_def)
  next
    case (Some j)
    have "Suc s \<le> s2" using armoured_step [OF assms(1,2) Suc.prems pem_hex_digit_armoured [OF Some]] by simp
    from Suc.IH [OF this] show ?thesis
      using armoured_byte [OF assms(1) Suc.prems] Some by (simp add: Let_def)
  qed
qed simp

lemma pem_errors:
  "MBEDTLS_ERR_PEM_INVALID_DATA \<noteq> 0" "MBEDTLS_ERR_PEM_INVALID_ENC_IV \<noteq> 0"
  "MBEDTLS_ERR_PEM_UNKNOWN_ENC_ALG \<noteq> 0" "MBEDTLS_ERR_PEM_ALLOC_FAILED \<noteq> 0"
  "MBEDTLS_ERR_PEM_PASSWORD_REQUIRED \<noteq> 0" "MBEDTLS_ERR_PEM_NO_HEADER_FOOTER_PRESENT \<noteq> 0"
  by (simp_all add: MBEDTLS_ERR_PEM_INVALID_DATA_def MBEDTLS_ERR_PEM_INVALID_ENC_IV_def
      MBEDTLS_ERR_PEM_UNKNOWN_ENC_ALG_def MBEDTLS_ERR_PEM_ALLOC_FAILED_def
      MBEDTLS_ERR_PEM_PASSWORD_REQUIRED_def MBEDTLS_ERR_PEM_NO_HEADER_FOOTER_PRESENT_def)

definition within :: "nat \<Rightarrow> (int + 'a \<times> 'b \<times> nat) \<Rightarrow> bool" where
  "within s2 r \<longleftrightarrow> (case r of Inl q \<Rightarrow> q \<noteq> 0 | Inr (_, _, s) \<Rightarrow> s \<le> s2)"

lemma within_simps [simp]: "within s2 (Inl r) \<longleftrightarrow> r \<noteq> 0" "within s2 (Inr (a, b, s)) \<longleftrightarrow> s \<le> s2"
  by (simp_all add: within_def)

lemma dek_lengths:
  "length (bytes_of ''Proc-Type: 4,ENCRYPTED'') = 22" "length (bytes_of ''DEK-Info: DES-EDE3-CBC,'') = 23"
  "length (bytes_of ''DEK-Info: DES-CBC,'') = 18" "length (bytes_of ''DEK-Info: AES-'') = 14"
  "length (bytes_of ''DEK-Info: AES-128-CBC,'') = 22" "length (bytes_of ''DEK-Info: AES-192-CBC,'') = 22"
  "length (bytes_of ''DEK-Info: AES-256-CBC,'') = 22"
  by (simp_all add: bytes_of_def)

text \<open>A line \<open>str\<close> followed by an IV keeps the position before the footer.\<close>

lemma dek_line:
  assumes "armoured m f s2 e" "footer_ok f" "s \<le> s2" "clear_of f str" "take (length str) (drop s m) = str"
  obtains r iv where "pem_get_iv m (s + length str) n = Some (r, iv)" "r = 0 \<Longrightarrow> s + length str + n * 2 \<le> s2"
proof -
  have "s + length str \<le> s2" by (rule armoured_text [OF assms(1,4,3,5)])
  from pem_get_iv_armoured [OF assms(1,2) this, of "n * 2" 0 "replicate n 0"]
  show ?thesis using that by (auto simp: pem_get_iv_def)
qed

lemma pem_dek_des_armoured:
  assumes "armoured m f s2 e" "footer_ok f" "s \<le> s2"
  shows "\<exists>r. pem_dek_des m s = Some r \<and> within s2 r"
proof -
  let ?d3 = "bytes_of ''DEK-Info: DES-EDE3-CBC,''" and ?d = "bytes_of ''DEK-Info: DES-CBC,''"
  have c: "clear_of f ?d3" "clear_of f ?d" using assms(2) by (simp_all add: footer_ok_def)
  note l = dek_lengths
  have 3: "memcmp_eq m s ?d3 = Some (take 23 (drop s m) = ?d3)" "memcmp_eq m s ?d = Some (take 18 (drop s m) = ?d)"
    using armoured_memcmp [OF assms, of ?d3] armoured_memcmp [OF assms, of ?d] by (simp_all add: l)
  consider "take 23 (drop s m) = ?d3" | "take 23 (drop s m) \<noteq> ?d3" "take 18 (drop s m) = ?d"
    | "take 23 (drop s m) \<noteq> ?d3" "take 18 (drop s m) \<noteq> ?d" by blast
  then show ?thesis
  proof cases
    case 1
    obtain r iv where "pem_get_iv m (s + 23) 8 = Some (r, iv)" "r = 0 \<Longrightarrow> s + 23 + 8 * 2 \<le> s2"
      using dek_line [OF assms c(1), of 8] 1 unfolding l by blast
    then show ?thesis using 1 by (auto simp: pem_dek_des_def 3 pem_errors)
  next
    case 2
    obtain r iv where "pem_get_iv m (s + 18) 8 = Some (r, iv)" "r = 0 \<Longrightarrow> s + 18 + 8 * 2 \<le> s2"
      using dek_line [OF assms c(2), of 8] 2(2) unfolding l by blast
    then show ?thesis using 2 by (auto simp: pem_dek_des_def 3 pem_errors)
  next
    case 3
    then show ?thesis using assms(3) \<open>memcmp_eq m s ?d3 = _\<close> \<open>memcmp_eq m s ?d = _\<close> by (simp add: pem_dek_des_def)
  qed
qed

lemma pem_dek_aes_armoured:
  assumes "armoured m f s2 e" "footer_ok f" "within s2 (Inr x)"
  shows "\<exists>r. pem_dek_aes m x = Some r \<and> within s2 r"
proof -
  obtain alg iv0 s where x: "x = (alg, iv0, s)" by (cases x)
  have s: "s \<le> s2" using assms(3) by (simp add: x)
  let ?a = "bytes_of ''DEK-Info: AES-''"
  let ?a1 = "bytes_of ''DEK-Info: AES-128-CBC,''" and ?a2 = "bytes_of ''DEK-Info: AES-192-CBC,''"
    and ?a3 = "bytes_of ''DEK-Info: AES-256-CBC,''"
  have c: "clear_of f ?a1" "clear_of f ?a2" "clear_of f ?a3" using assms(2) by (simp_all add: footer_ok_def)
  note l = dek_lengths
  note mc = armoured_memcmp [OF assms(1,2) s]
  have m: "memcmp_eq m s ?a = Some (take 14 (drop s m) = ?a)" "memcmp_eq m s ?a1 = Some (take 22 (drop s m) = ?a1)"
      "memcmp_eq m s ?a2 = Some (take 22 (drop s m) = ?a2)" "memcmp_eq m s ?a3 = Some (take 22 (drop s m) = ?a3)"
    using mc [of ?a] mc [of ?a1] mc [of ?a2] mc [of ?a3] by (simp_all add: l)
  show ?thesis
  proof (cases "take 22 (drop s m) = ?a1 \<or> take 22 (drop s m) = ?a2 \<or> take 22 (drop s m) = ?a3")
    case True
    then obtain r iv where "pem_get_iv m (s + 22) 16 = Some (r, iv)" "r = 0 \<Longrightarrow> s + 22 + 16 * 2 \<le> s2"
      using dek_line [OF assms(1,2) s c(1), of 16] dek_line [OF assms(1,2) s c(2), of 16]
        dek_line [OF assms(1,2) s c(3), of 16] unfolding l by blast
    then show ?thesis using s by (auto simp: pem_dek_aes_def x m pem_errors Let_def)
  next
    case False
    then show ?thesis using s by (auto simp: pem_dek_aes_def x m pem_errors)
  qed
qed

lemma pem_enc_header_armoured:
  assumes "armoured m f s2 e" "footer_ok f" "s \<le> s2"
    and "take 22 (drop s m) = bytes_of ''Proc-Type: 4,ENCRYPTED''"
  shows "\<exists>r. pem_enc_header m s = Some r \<and> within s2 r"
proof -
  have "s + 22 \<le> s2"
    using armoured_text [OF assms(1) _ assms(3), of "bytes_of ''Proc-Type: 4,ENCRYPTED''"] assms(2,4)
    by (simp add: dek_lengths footer_ok_def)
  then obtain r where r: "skip_line_end m (s + 22) = Some r" "\<forall>s'. r = Some s' \<longrightarrow> s' \<le> s2"
    using skip_line_end_armoured [OF assms(1,2)] by blast
  show ?thesis
  proof (cases r)
    case None
    then show ?thesis using r(1) by (simp add: pem_enc_header_def pem_errors)
  next
    case (Some s1)
    then obtain d where d: "pem_dek_des m s1 = Some d" "within s2 d"
      using pem_dek_des_armoured [OF assms(1,2)] r(2) by blast
    show ?thesis
    proof (cases d)
      case (Inl e)
      then show ?thesis using r(1) Some d by (simp add: pem_enc_header_def pem_errors)
    next
      case (Inr x)
      then obtain a where a: "pem_dek_aes m x = Some a" "within s2 a"
        using pem_dek_aes_armoured [OF assms(1,2)] d(2) by blast
      show ?thesis
      proof (cases a)
        case (Inl e)
        then show ?thesis using r(1) Some d(1) Inr a by (simp add: pem_enc_header_def pem_errors)
      next
        case (Inr y)
        obtain alg iv s3 where y: "y = (alg, iv, s3)" by (cases y)
        obtain q where "skip_line_end m s3 = Some q" "\<forall>s'. q = Some s' \<longrightarrow> s' \<le> s2"
          using skip_line_end_armoured [OF assms(1,2), of s3] a(2) by (auto simp: Inr y)
        then show ?thesis using r(1) Some d(1) \<open>d = Inr x\<close> a(1) Inr
          by (cases q) (auto simp: pem_enc_header_def y pem_errors)
      qed
    qed
  qed
qed

lemma takeWhile_shorter: "0 \<in> set m \<Longrightarrow> length (takeWhile (\<lambda>c. c \<noteq> (0 :: byte)) m) < length m"
  by (induction m) auto

lemma c_strstr_Some:
  assumes "c_strstr m f = Some (Some s)"
  shows "armoured m f s (length (takeWhile (\<lambda>c. c \<noteq> 0) m))"
proof -
  let ?t = "takeWhile (\<lambda>c. c \<noteq> 0) m"
  have z: "0 \<in> set m" and f: "find_str ?t f = Some s"
    using assms by (auto simp: c_strstr_def split: if_splits)
  have n: "length ?t < length m" using z by (rule takeWhile_shorter)
  have "take (length f) (drop s ?t) = f" "s + length f \<le> length ?t" using find_str_Some [OF f] by auto
  moreover have "take (length ?t) m = ?t" by (rule takeWhile_eq_take [symmetric])
  then have "take (length f) (drop s ?t) = take (length f) (drop s (take (length ?t) m))" by simp
  then have "take (length f) (drop s m) = take (length f) (drop s ?t)"
    using \<open>s + length f \<le> length ?t\<close> by (simp add: drop_take min_absorb1)
  ultimately show ?thesis using n nth_length_takeWhile [OF n] by (simp add: armoured_def)
qed

lemma skip_if_string:
  assumes "e < length m" "m ! e = 0" "s \<le> e" "c \<noteq> 0"
  shows "\<exists>s'. skip_if c m s = Some s' \<and> s \<le> s' \<and> s' \<le> e \<and> s' \<le> Suc s \<and> (s' = Suc s \<longrightarrow> m ! s = c)"
  using assms by (cases "s = e") (auto simp: skip_if_def)

text \<open>The reader's landmarks: the text starts before the footer and \<open>*use_len\<close> stays in the string.\<close>

lemma pem_locate_in_bounds:
  assumes z: "0 \<in> set m" and ok: "header_ok h f" "footer_ok f"
  shows "\<exists>r. pem_locate h f m = Some r \<and>
    (\<forall>s1 s2 stop. r = Some (s1, s2, stop) \<longrightarrow> (\<exists>e. armoured m f s2 e \<and> s1 \<le> s2 \<and> 0 < stop \<and> stop \<le> e))"
proof -
  obtain hs fs where st: "c_strstr m h = Some hs" "c_strstr m f = Some fs" using z by (auto simp: c_strstr_def)
  show ?thesis
  proof (cases "\<exists>s1 s2. hs = Some s1 \<and> fs = Some s2 \<and> s1 < s2")
    case False
    have "pem_locate h f m = Some None"
    proof (cases hs)
      case None
      then show ?thesis by (simp add: pem_locate_def st)
    next
      case (Some s1)
      with False show ?thesis by (cases fs) (simp_all add: pem_locate_def st)
    qed
    then show ?thesis by simp
  next
    case True
    then obtain s1 s2 where hf: "hs = Some s1" "fs = Some s2" "s1 < s2" by blast
    define e where "e = length (takeWhile (\<lambda>c. c \<noteq> 0) m)"
    have ah: "armoured m h s1 e" and af: "armoured m f s2 e"
      using st hf c_strstr_Some by (simp_all add: e_def)
    have e: "e < length m" "m ! e = 0" "s2 + length f \<le> e" "s1 + length h \<le> e"
      using ah af by (simp_all add: armoured_def)
    \<comment> \<open>the footer cannot start inside the header line\<close>
    have past: "s1 + length h + 1 \<le> s2" if "m ! (s1 + length h) = c" "c \<in> {0x20, 0x0D, 0x0A}" for c
    proof -
      have "c \<noteq> 0" using that(2) by auto
      then have l: "s1 + length h < length m" using e that(1) by (cases "s1 + length h = e") auto
      have "take (length h) (drop s1 m) = h" using ah by (simp add: armoured_def)
      then have "take (length (h @ [c])) (drop s1 m) = h @ [c]"
        using l that(1) by (simp add: take_Suc_conv_app_nth add.commute)
      moreover have "clear_of f (h @ [c])" using ok(1) that(2) by (auto simp: header_ok_def)
      ultimately show ?thesis using clear_of_skip [of "h @ [c]" s1 m f s2] af hf(3) by (simp add: armoured_def)
    qed
    obtain a where a: "skip_if 0x20 m (s1 + length h) = Some a" "s1 + length h \<le> a" "a \<le> e"
        "a \<le> Suc (s1 + length h)" "a = Suc (s1 + length h) \<longrightarrow> m ! (s1 + length h) = 0x20"
      using skip_if_string [OF e(1,2,4), of "0x20"] by auto
    obtain b where b: "skip_if 0x0D m a = Some b" "a \<le> b" "b \<le> e" "b \<le> Suc a" "b = Suc a \<longrightarrow> m ! a = 0x0D"
      using skip_if_string [OF e(1,2) a(3), of "0x0D"] by auto
    have as2: "Suc b \<le> s2" if nl: "m ! b = 0x0A"
    proof -
      consider "a = Suc (s1 + length h)" | "a = s1 + length h" "b = Suc a" | "a = s1 + length h" "b = a"
        using a(2,4) b(2,4) by linarith
      then have "b \<le> s2 \<and> m ! b = 0x0A"
      proof cases
        case 1
        then have "a \<le> s2" using past [of "0x20"] a(5) by simp
        then show ?thesis using b(2,4,5) armoured_step(2) [OF af ok(2), of a] nl by (cases "b = a") auto
      next
        case 2
        then show ?thesis using past [of "0x0D"] b(5) nl by simp
      next
        case 3
        then show ?thesis using past [of "0x0A"] nl by simp
      qed
      then show ?thesis using armoured_step(2) [OF af ok(2), of b] by simp
    qed
    obtain c1 where c1: "skip_if 0x20 m (s2 + length f) = Some c1" "s2 + length f \<le> c1" "c1 \<le> e"
      using skip_if_string [OF e(1,2,3), of "0x20"] by auto
    obtain c2 where c2: "skip_if 0x0D m c1 = Some c2" "c1 \<le> c2" "c2 \<le> e"
      using skip_if_string [OF e(1,2) c1(3), of "0x0D"] by auto
    obtain c3 where c3: "skip_if 0x0A m c2 = Some c3" "c2 \<le> c3" "c3 \<le> e"
      using skip_if_string [OF e(1,2) c2(3), of "0x0A"] by auto
    have sk: "skip_line_end m a = Some (if m ! b = 0x0A then Some (Suc b) else None)"
      using b e by (simp add: skip_line_end_def)
    show ?thesis
    proof (cases "m ! b = 0x0A")
      case True
      then have "pem_locate h f m = Some (Some (Suc b, s2, c3))"
        using hf by (simp add: pem_locate_def st a(1) sk c1(1) c2(1) c3(1))
      moreover have "0 < c3" using hf(3) c1(2) c2(2) c3(2) by linarith
      ultimately show ?thesis using af as2 [OF True] c3(3) by blast
    next
      case False
      then have "pem_locate h f m = Some None" using hf by (simp add: pem_locate_def st a(1) sk)
      then show ?thesis by simp
    qed
  qed
qed

lemma pem_payload_total:
  assumes "length body < 2 ^ 61"
  shows "\<exists>r c w'. pem_payload E body enc None ctx w = Some (r, c, w') \<and> (r = 0 \<longrightarrow> pem_buf c \<noteq> None)"
proof -
  obtain q n where q: "mbedtls_base64_decode None (junk E w) body = Some (q, None, n)"
    using decode_total(2) [OF assms, of "[]" "junk E w"] by auto
  obtain ok w' where c: "calloc E n w = (ok, w')" by force
  define dst where "dst = (replicate (unat n) 0 :: byte list)"
  have "length dst < 2 ^ 64" using unat_less_2p [of n] by (simp add: dst_def)
  from decode_total(1) [OF assms this, of n]
  obtain res where res: "mbedtls_base64_decode (Some dst) n body = Some res" "decode_outcome dst n body res" by blast
  obtain r d l where x: "res = (r, d, l)" by (cases res)
  then obtain buf where d: "d = Some buf" using res(2) by (auto simp: decode_outcome_def split: option.splits)
  have r: "r = 0 \<or> r = MBEDTLS_ERR_BASE64_INVALID_CHARACTER \<or> r = MBEDTLS_ERR_BASE64_BUFFER_TOO_SMALL"
    using res(2) unfolding x d decode_outcome_def by (auto split: if_splits)
  show ?thesis
    using r by (auto simp: pem_payload_def q c res(1) [unfolded dst_def] x d MBEDTLS_ERR_PEM_INVALID_DATA_def
        MBEDTLS_ERR_PEM_ALLOC_FAILED_def MBEDTLS_ERR_PEM_PASSWORD_REQUIRED_def
        MBEDTLS_ERR_BASE64_INVALID_CHARACTER_def MBEDTLS_ERR_BASE64_BUFFER_TOO_SMALL_def Let_def split: option.splits)
qed

text \<open>The reader on any string: it returns, and a reported \<open>*use_len\<close> is progress inside the string.\<close>

lemma pem_read_total:
  assumes z: "0 \<in> set m" "last m = 0" and ok: "header_ok h f" "footer_ok f" and l: "length m < 2 ^ 61"
  shows "\<exists>r c n w'. mbedtls_pem_read_buffer E (Some ctx) h f m None use_len w = Some (r, Some c, n, w') \<and>
    (r = 0 \<longrightarrow> pem_buf c \<noteq> None) \<and>
    (r \<noteq> MBEDTLS_ERR_PEM_NO_HEADER_FOOTER_PRESENT \<longrightarrow> 0 < unat n \<and> unat n < length m)"
proof -
  obtain loc where loc: "pem_locate h f m = Some loc"
      "\<forall>s1 s2 stop. loc = Some (s1, s2, stop) \<longrightarrow> (\<exists>e. armoured m f s2 e \<and> s1 \<le> s2 \<and> 0 < stop \<and> stop \<le> e)"
    using pem_locate_in_bounds [OF z(1) ok] by blast
  show ?thesis
  proof (cases loc)
    case None
    then show ?thesis using loc(1)
      by (simp add: mbedtls_pem_read_buffer_def pem_errors)
  next
    case (Some t)
    obtain s1 s2 stop where t: "t = (s1, s2, stop)" by (cases t)
    obtain e where e: "armoured m f s2 e" "s1 \<le> s2" "0 < stop" "stop \<le> e"
      using loc(2) Some unfolding t by blast
    have "stop < length m" using e by (auto simp: armoured_def)
    then have u: "unat (of_nat stop :: size_t) = stop" using l by (simp add: unat_of_nat)
    let ?p = "bytes_of ''Proc-Type: 4,ENCRYPTED''"
    have mc: "memcmp_eq m s1 ?p = Some (take 22 (drop s1 m) = ?p)"
      using armoured_memcmp [OF e(1) ok(2) e(2), of ?p] by (simp add: dek_lengths)
    define en where "en = (take 22 (drop s1 m) = ?p)"
    define hd where "hd = (if en then pem_enc_header m s1 else Some (Inr (CIPHER_NONE, [], s1)))"
    obtain x where x: "hd = Some x" "within s2 x"
      using pem_enc_header_armoured [OF e(1) ok(2) e(2)] e(2)
      by (cases en) (auto simp: hd_def en_def)
    have eq: "mbedtls_pem_read_buffer E (Some ctx) h f m None use_len w =
        (case x of Inl r \<Rightarrow> Some (r, Some ctx, of_nat stop, w)
         | Inr (alg, iv, s1) \<Rightarrow> if s2 < s1 then None else do {
             (r, ctx, w) \<leftarrow> pem_payload E (take (s2 - s1) (drop s1 m))
               (if en then Some (alg, iv) else None) None ctx w;
             Some (r, Some ctx, of_nat stop, w) })"
      by (simp add: mbedtls_pem_read_buffer_def loc(1) Some t mc [folded en_def] x(1) [unfolded hd_def] Let_def)
    show ?thesis
    proof (cases x)
      case (Inl r)
      then show ?thesis using x(2) u e(3) \<open>stop < length m\<close> by (simp add: eq)
    next
      case (Inr y)
      obtain alg iv s3 where y: "y = (alg, iv, s3)" by (cases y)
      have s3: "s3 \<le> s2" using x(2) by (simp add: Inr y)
      have "length (take (s2 - s3) (drop s3 m)) < 2 ^ 61" using l by simp
      from pem_payload_total [OF this, of E "if en then Some (alg, iv) else None" ctx w]
      obtain r c w' where "pem_payload E (take (s2 - s3) (drop s3 m))
            (if en then Some (alg, iv) else None) None ctx w = Some (r, c, w')"
          "r = 0 \<longrightarrow> pem_buf c \<noteq> None" by blast
      then show ?thesis using u e(3) \<open>stop < length m\<close> s3 by (simp add: eq Inr y del: if_split_asm)
    qed
  qed
qed

subsection \<open>The file loader\<close>

text \<open>
  On a buffer that ends in a terminator the loop runs at most once per byte, never leaves the buffer
  and returns.
\<close>

lemma crt_loop_ends:
  assumes "buf \<noteq> []" "last buf = 0" "length buf \<le> fuel" "length buf < 2 ^ 61"
  shows "\<exists>r. crt_loop fuel E buf success first_error total_failed w = Done r"
  using assms
proof (induction fuel arbitrary: buf success first_error total_failed w)
  case (Suc fuel)
  have z: "0 \<in> set buf" using Suc.prems(1,2) by (metis last_in_set)
  obtain r c n w1 where rd: "mbedtls_pem_read_buffer E (Some mbedtls_pem_init) crt_header crt_footer buf None 0 w =
        Some (r, Some c, n, w1)" "r = 0 \<longrightarrow> pem_buf c \<noteq> None"
      "r \<noteq> MBEDTLS_ERR_PEM_NO_HEADER_FOOTER_PRESENT \<longrightarrow> 0 < unat n \<and> unat n < length buf"
    using pem_read_total [OF z Suc.prems(2) crt_labels(3,2) Suc.prems(4), of E mbedtls_pem_init 0 w]
    by (elim exE conjE) (rule that)
  have rec: "\<exists>q. crt_loop fuel E (drop (unat n) buf) s fe tf v = Done q"
    if "r \<noteq> MBEDTLS_ERR_PEM_NO_HEADER_FOOTER_PRESENT" for s fe tf v
  proof (rule Suc.IH)
    show "length (drop (unat n) buf) \<le> fuel" using rd(3) that Suc.prems(3) unfolding length_drop by linarith
  qed (use rd(3) that Suc.prems in simp_all)
  show ?case
  proof (cases "length buf \<le> 1")
    case True
    then show ?thesis by simp
  next
    case False
    note step = crt_loop.simps(2) [of fuel E buf success first_error total_failed w, unfolded rd(1)]
    show ?thesis
    proof (cases "r = 0")
      case True
      then obtain der where der: "pem_buf c = Some der" using rd(2) by auto
      obtain q w2 where q: "parse_der E (take (unat (pem_buflen c)) der) w1 = (q, w2)" by force
      have nh: "r \<noteq> MBEDTLS_ERR_PEM_NO_HEADER_FOOTER_PRESENT" using True pem_errors(6) by simp
      show ?thesis
        unfolding step using False True der rec [OF nh]
        by (simp only: if_False of_opt_simps bnd.simps split_conv Let_def Option.bind.simps option.sel q
            if_True split: if_split) simp
    next
      case 2: False
      show ?thesis
      proof (cases "r = MBEDTLS_ERR_PEM_NO_HEADER_FOOTER_PRESENT")
        case True
        then show ?thesis unfolding step using False 2 by simp
      next
        case nh: False
        then show ?thesis unfolding step using False 2 rec [OF nh] by simp
      qed
    qed
  qed
qed simp

lemma crt_parse_ends:
  assumes "length buf \<le> fuel" "length buf < 2 ^ 61"
  shows "\<exists>r. mbedtls_x509_crt_parse fuel E (Some buf) w = Done r"
proof (cases "buf \<noteq> [] \<and> last buf = 0")
  case True
  then have "0 \<in> set buf" by (metis last_in_set)
  then show ?thesis using crt_loop_ends [OF _ _ assms, of E] True
    by (simp add: mbedtls_x509_crt_parse_def c_strstr_def)
next
  case False
  then have "(if buf \<noteq> [] \<and> last buf = 0 then map_option (\<lambda>f. f \<noteq> None) (c_strstr buf crt_header) else Some False) =
      Some False" by (rule if_not_P)
  then show ?thesis by (simp only: mbedtls_x509_crt_parse_def option.case of_opt_simps bnd.simps) simp
qed

text \<open>What the loader makes of a bundle: its certificates, in order, to the DER parser.\<close>

primrec parse_bundle :: "'w pem_env \<Rightarrow> byte list list \<Rightarrow> bool \<Rightarrow> int \<Rightarrow> int \<Rightarrow> 'w \<Rightarrow> int \<times> 'w" where
  "parse_bundle E [] success first_error total_failed w = (crt_verdict success first_error total_failed, w)"
| "parse_bundle E (d # ds) success first_error total_failed w = (let (ret, w) = parse_der E d w in
     if ret = 0 then parse_bundle E ds True first_error total_failed w
     else if ret = MBEDTLS_ERR_X509_ALLOC_FAILED then (ret, w)
     else parse_bundle E ds success (if first_error = 0 then ret else first_error) (total_failed + 1) w)"

definition crt_bundle :: "byte list list \<Rightarrow> byte list" where
  "crt_bundle ders = concat (map (pem_text crt_header crt_footer) ders)"

lemma pem_text_length:
  "length (pem_text h f der) = length h + 1 + length (pem_body (base64_text der)) + length f + 1"
  by (simp add: pem_text_def)

lemma crt_label_lengths: "length crt_header = 27" "length crt_footer = 25"
  by (simp_all add: crt_header_def crt_footer_def bytes_of_def)

lemma crt_loop_bundle:
  assumes "\<forall>d\<in>set ders. d \<noteq> [] \<and> length d < 2 ^ 58" "length ders < fuel" and ok: "\<And>n w. calloc E n w = (True, w)"
  shows "crt_loop fuel E (crt_bundle ders @ [0]) success first_error total_failed w =
    Done (parse_bundle E ders success first_error total_failed w)"
  using assms(1,2)
proof (induction ders arbitrary: fuel success first_error total_failed w)
  case Nil
  then show ?case by (cases fuel) (simp_all add: crt_bundle_def)
next
  case (Cons d ds)
  obtain g where g: "fuel = Suc g" "length ds < g" using Cons.prems(2) by (cases fuel) auto
  let ?t = "pem_text crt_header crt_footer d"
  have d: "d \<noteq> []" "length d < 2 ^ 58" and ds: "\<forall>d\<in>set ds. d \<noteq> [] \<and> length d < 2 ^ 58"
    using Cons.prems(1) by simp_all
  have b: "crt_bundle (d # ds) @ [0] = ?t @ (crt_bundle ds @ [0])" by (simp add: crt_bundle_def)
  have l: "length ?t < 2 ^ 64" "1 < length ?t"
    using d(2) by (simp_all add: pem_text_length pem_body_length base64_text_length crt_label_lengths)
  have ne: "?t \<noteq> []" by (simp add: pem_text_def)
  have u: "unat (of_nat (length ?t) :: size_t) = length ?t" using l(1) by (simp add: unat_of_nat)
  have ud: "unat (of_nat (length d) :: size_t) = length d" using d(2) by (simp add: unat_of_nat)
  have rd: "mbedtls_pem_read_buffer E (Some mbedtls_pem_init) crt_header crt_footer (?t @ (crt_bundle ds @ [0])) None 0 w =
      Some (0, Some (mbedtls_pem_init\<lparr>pem_buf := Some d, pem_buflen := of_nat (length d)\<rparr>), of_nat (length ?t), w)"
    by (rule pem_read_text [OF crt_labels(1) d _ ok]) simp
  note IH = Cons.IH [OF ds g(2)]
  show ?case
    unfolding b g(1) using l(2) by (simp add: rd ne u ud IH Let_def split: prod.split)
qed

lemma crt_parse_bundle:
  assumes "ders \<noteq> []" "\<forall>d\<in>set ders. d \<noteq> [] \<and> length d < 2 ^ 58" "length ders < fuel"
    and ok: "\<And>n w. calloc E n w = (True, w)"
  shows "mbedtls_x509_crt_parse fuel E (Some (crt_bundle ders @ [0])) w = Done (parse_bundle E ders False 0 0 w)"
proof -
  obtain rest where "crt_bundle ders = crt_header @ rest"
    using assms(1) by (cases ders) (auto simp: crt_bundle_def pem_text_def)
  moreover have "\<forall>c\<in>set crt_header. c \<noteq> 0" using crt_labels(1) by (auto simp: pem_labels_def)
  ultimately have "takeWhile (\<lambda>c. c \<noteq> 0) (crt_bundle ders @ [0]) = crt_header @ takeWhile (\<lambda>c. c \<noteq> 0) (rest @ [0])"
    by (simp add: takeWhile_append2)
  then have "c_strstr (crt_bundle ders @ [0]) crt_header = Some (Some 0)"
    by (simp add: c_strstr_def find_str_prefix)
  then show ?thesis
    by (simp add: mbedtls_x509_crt_parse_def crt_loop_bundle [OF assms(2,3) ok])
qed

text \<open>
  An armoured file without a body: the size query leaves the local \<open>len\<close> unset, and the reader
  hands on a buffer of whatever length the uninitialised variable had.
\<close>

lemma pem_empty_body:
  assumes ok: "\<And>n w. calloc E n w = (True, w)"
  shows "mbedtls_pem_read_buffer E (Some ctx) crt_header crt_footer (crt_header @ [0x0A] @ crt_footer @ [0x0A, 0]) pwd use_len w =
    Some (0, Some (ctx\<lparr>pem_buf := Some (replicate (unat (junk E w)) 0), pem_buflen := junk E w\<rparr>), 54, w)"
proof -
  let ?m = "crt_header @ [0x0A] @ crt_footer @ [0x0A, 0]"
  have loc: "pem_locate crt_header crt_footer ?m = Some (Some (28, 28, 54))"
    using pem_locate_text [OF crt_labels(1), of "[]" "[0]"] by (simp add: crt_label_lengths)
  have enc: "memcmp_eq ?m 28 (bytes_of ''Proc-Type: 4,ENCRYPTED'') = Some False" by code_simp
  have "pem_payload E [] None pwd ctx w =
      Some (0, ctx\<lparr>pem_buf := Some (replicate (unat (junk E w)) 0), pem_buflen := junk E w\<rparr>, w)"
    by (simp add: pem_payload_def mbedtls_base64_decode_def decode_scan.simps ok
        MBEDTLS_ERR_BASE64_INVALID_CHARACTER_def)
  then show ?thesis by (simp add: mbedtls_pem_read_buffer_def loc [simplified] enc [simplified])
qed

subsection \<open>Properties\<close>

text \<open>
  C14. A credential written with \<open>mbedtls_pem_write_buffer\<close> is read back by
  \<open>mbedtls_pem_read_buffer\<close>: same bytes, exact length, and \<open>*use_len\<close> is the length of the text.
\<close>

theorem pem_round_trip:
  assumes "pem_labels h f" and "der \<noteq> []" and "length der < 2 ^ 58"
    and "length h + 1 < 2 ^ 58" and "length f + 1 < 2 ^ 58" and "length buf < 2 ^ 64"
    and "\<And>n w. calloc E n w = (True, w)"
    and "mbedtls_pem_write_buffer E (h @ [0x0A]) (f @ [0x0A]) der buf n w = Some (0, out, olen, w)"
  shows "mbedtls_pem_read_buffer E (Some mbedtls_pem_init) h f (take (unat olen) out) pwd use_len w =
    Some (0, Some \<lparr>pem_buf = Some der, pem_buflen = of_nat (length der), pem_info = None\<rparr>, olen - 1, w)"
proof -
  let ?t = "pem_text h f der" and ?o = "(h @ [0x0A]) @ pem_body (base64_text der) @ (f @ [0x0A]) @ [0]"
  have o: "?o = ?t @ [0]" by (simp add: pem_text_def)
  have lh: "length (h @ [0x0A]) < 2 ^ 58" "length (f @ [0x0A]) < 2 ^ 58" using assms(4,5) by simp_all
  have w: "out = (?t @ [0]) @ drop (length (?t @ [0])) buf" "olen = of_nat (length (?t @ [0]))"
    using assms(8) unfolding pem_write_exact(1) [OF assms(2,3) lh assms(6,7)] o
    by (auto simp: MBEDTLS_ERR_BASE64_BUFFER_TOO_SMALL_def split: if_splits)
  have "length (?t @ [0]) < 2 ^ 64"
    using assms(3-5) by (simp add: pem_text_length pem_body_length base64_text_length)
  then have u: "unat olen = length (?t @ [0])" unfolding w(2) by (simp only: unat_of_nat) simp
  have "take (unat olen) out = ?t @ [0]" unfolding u w(1) by simp
  moreover have "olen - 1 = of_nat (length ?t)" by (simp add: w(2))
  ultimately show ?thesis
    using pem_read_text [OF assms(1-3) _ assms(7), of "[0]" mbedtls_pem_init pwd use_len w]
    by (simp add: mbedtls_pem_init_def)
qed

definition sample_env :: "byte list list pem_env" where
  "sample_env = \<lparr>calloc = (\<lambda>n w. (True, w)), md5 = (\<lambda>b. b), cbc_decrypt = (\<lambda>a k i b. b),
     parse_der = (\<lambda>b w. if b = [7] then (- 0x2180, w) else (0, w @ [b])),
     read_file = (\<lambda>p w. (Some (crt_bundle [[1, 2], [7], [3]]), w)), junk = (\<lambda>w. 0)\<rparr>"

lemma sample_calloc: "calloc sample_env n w = (True, w)"
  by (simp add: sample_env_def)

lemma pem_round_trip_witness:
  "mbedtls_pem_read_buffer sample_env (Some mbedtls_pem_init) crt_header crt_footer
     (crt_header @ [0x0A] @ bytes_of ''SGk='' @ [0x0A] @ crt_footer @ [0x0A, 0]) None 0 [] =
   Some (0, Some \<lparr>pem_buf = Some [72, 105], pem_buflen = 2, pem_info = None\<rparr>, 59, [])"
proof -
  have w: "mbedtls_pem_write_buffer sample_env (crt_header @ [0x0A]) (crt_footer @ [0x0A]) [72, 105] (replicate 62 9) 0 [] =
      Some (0, (crt_header @ [0x0A] @ bytes_of ''SGk='' @ [0x0A] @ crt_footer @ [0x0A, 0]) @ [9, 9], 60, [])"
    by code_simp
  show ?thesis
    using pem_round_trip [OF crt_labels(1) _ _ _ _ _ sample_calloc w, of None 0]
    by (simp add: crt_label_lengths bytes_of_def)
qed

text \<open>
  C37. Whatever bytes a credential file holds and whatever the allocator and the DER parser answer,
  the certificate loader stays inside its buffer and returns, after at most one round per byte.
\<close>

theorem crt_parse_returns:
  assumes "length buf < 2 ^ 61" and "length buf \<le> fuel"
  shows "\<exists>r w'. mbedtls_x509_crt_parse fuel E (Some buf) w = Done (r, w')"
  using crt_parse_ends [OF assms(2,1), of E w] by auto

lemma crt_parse_returns_witness:
  "\<exists>r w'. mbedtls_x509_crt_parse 60 sample_env (Some (crt_header @ [0x0A, 0])) [] = Done (r, w')"
  by (rule crt_parse_returns) (simp_all add: crt_label_lengths)

text \<open>
  C16. A file of concatenated PEM certificates is loaded as a whole: every certificate reaches the DER
  parser once, with its exact bytes and in file order, a failing one does not stop the rest, and the
  result is 0, the number of failures, or the first error when none was good.
\<close>

theorem crt_file_bundle:
  assumes "ders \<noteq> []" and "\<forall>d\<in>set ders. d \<noteq> [] \<and> length d < 2 ^ 58" and "length (crt_bundle ders) < 2 ^ 61"
    and "length ders < fuel" and "\<And>n w. calloc E n w = (True, w)"
    and "read_file E path w = (Some (crt_bundle ders), w)"
  shows "mbedtls_x509_crt_parse_file fuel E path w = Done (parse_bundle E ders False 0 0 w)"
proof -
  obtain rest where b: "crt_bundle ders = bytes_of ''-----BEGIN '' @ rest"
    using assms(1) by (cases ders) (auto simp: crt_bundle_def pem_text_def crt_header_def bytes_of_def)
  have "takeWhile (\<lambda>c. c \<noteq> 0) (crt_bundle ders @ [0]) =
      bytes_of ''-----BEGIN '' @ takeWhile (\<lambda>c. c \<noteq> 0) (rest @ [0])"
    unfolding b by (simp add: bytes_of_def)
  then have s: "c_strstr (crt_bundle ders @ [0]) (bytes_of ''-----BEGIN '') = Some (Some 0)"
    by (simp add: c_strstr_def find_str_prefix)
  have "(of_nat (length (crt_bundle ders)) :: size_t) + 1 = of_nat (Suc (length (crt_bundle ders)))" by simp
  also have "\<dots> \<noteq> 0" using assms(3) by (simp add: word_unat_eq_iff unat_of_nat del: of_nat_Suc)
  finally have n: "(of_nat (length (crt_bundle ders)) :: size_t) + 1 \<noteq> 0" .
  have "mbedtls_pk_load_file E path w = Some (Inr (crt_bundle ders @ [0], length (crt_bundle ders) + 1), w)"
    using n by (simp add: mbedtls_pk_load_file_def assms(5,6) Let_def s)
  then show ?thesis
    using crt_parse_bundle [OF assms(1,2,4,5), of w] by (simp add: mbedtls_x509_crt_parse_file_def)
qed

lemma crt_file_bundle_witness:
  "mbedtls_x509_crt_parse_file 4 sample_env [] [] = Done (1, [[1, 2], [3]])"
proof -
  have "length (crt_bundle [[1, 2], [7], [3]]) = 177" by code_simp
  moreover have "parse_bundle sample_env [[1, 2], [7], [3]] False 0 0 [] = (1, [[1, 2], [3]])" by code_simp
  moreover have "read_file sample_env [] [] = (Some (crt_bundle [[1, 2], [7], [3]]), [])"
    by (simp add: sample_env_def)
  ultimately show ?thesis
    using crt_file_bundle [of "[[1, 2], [7], [3]]" 4 sample_env "[]" "[]", OF _ _ _ _ sample_calloc] by simp
qed

end
