(* ===== verification/Mbedtls_Asn1.thy ===== *)
theory Mbedtls_Asn1
  imports Prelude
begin

unbundle bit_operations_syntax

text \<open>
  The DER primitives of the bundled mbedTLS, through which certificates and keys are taken apart and
  put together: src/external_libs/mbedTLS/library/asn1parse.c and asn1write.c (the MPI functions,
  which need the bignum library, left out).

  A parser gets a memory \<open>m\<close> and two indices, \<open>p\<close> and \<open>end\<close>, and yields the return code, the moved
  \<open>*p\<close> and its output variables; a read outside \<open>m\<close> is \<open>None\<close>. The writers run backwards: a cursor
  \<open>(b, p)\<close> whose \<open>p\<close> decreases towards \<open>start\<close>. Shown: the parsers never leave \<open>[p, end)\<close> (with the
  one exception of an empty INTEGER), and what the writers write is the DER encoding and is parsed back.
\<close>

subsection \<open>Constants\<close>

definition ASN1_OUT_OF_DATA :: int where "ASN1_OUT_OF_DATA = - 0x60"
definition ASN1_UNEXPECTED_TAG :: int where "ASN1_UNEXPECTED_TAG = - 0x62"
definition ASN1_INVALID_LENGTH :: int where "ASN1_INVALID_LENGTH = - 0x64"
definition ASN1_LENGTH_MISMATCH :: int where "ASN1_LENGTH_MISMATCH = - 0x66"
definition ASN1_INVALID_DATA :: int where "ASN1_INVALID_DATA = - 0x68"
definition ASN1_ALLOC_FAILED :: int where "ASN1_ALLOC_FAILED = - 0x6A"
definition ASN1_BUF_TOO_SMALL :: int where "ASN1_BUF_TOO_SMALL = - 0x6C"

definition ASN1_BOOLEAN :: byte where "ASN1_BOOLEAN = 0x01"
definition ASN1_INTEGER :: byte where "ASN1_INTEGER = 0x02"
definition ASN1_BIT_STRING :: byte where "ASN1_BIT_STRING = 0x03"
definition ASN1_OCTET_STRING :: byte where "ASN1_OCTET_STRING = 0x04"
definition ASN1_NULL :: byte where "ASN1_NULL = 0x05"
definition ASN1_OID :: byte where "ASN1_OID = 0x06"
definition ASN1_PRINTABLE_STRING :: byte where "ASN1_PRINTABLE_STRING = 0x13"
definition ASN1_IA5_STRING :: byte where "ASN1_IA5_STRING = 0x16"
definition ASN1_SEQUENCE_CONSTRUCTED :: byte where "ASN1_SEQUENCE_CONSTRUCTED = 0x20 OR 0x10"

named_theorems asn1_codes \<open>the return codes and tags as numbers\<close>

lemmas asn1_code_defs [asn1_codes] = ASN1_OUT_OF_DATA_def ASN1_UNEXPECTED_TAG_def ASN1_INVALID_LENGTH_def
  ASN1_LENGTH_MISMATCH_def ASN1_INVALID_DATA_def ASN1_ALLOC_FAILED_def ASN1_BUF_TOO_SMALL_def

subsection \<open>Parsing\<close>

text \<open>The long forms: \<open>n\<close> length bytes behind the first byte, most significant first.\<close>

primrec length_bytes :: "nat \<Rightarrow> byte list \<Rightarrow> nat \<Rightarrow> size_t \<Rightarrow> size_t option" where
  "length_bytes 0 m p acc = Some acc"
| "length_bytes (Suc n) m p acc = do { b \<leftarrow> byte_at m p; length_bytes n m (Suc p) (push_bit 8 acc OR ucast b) }"

definition mbedtls_asn1_get_len :: "byte list \<Rightarrow> nat \<Rightarrow> nat \<Rightarrow> size_t \<Rightarrow> (int \<times> nat \<times> size_t) option" where
  "mbedtls_asn1_get_len m p end len =
     (if end < p + 1 then Some (ASN1_OUT_OF_DATA, p, len)
      else do {
        c \<leftarrow> byte_at m p;
        let fin = (\<lambda>p len. if of_nat (end - p) < len then Some (ASN1_OUT_OF_DATA, p, len) else Some (0, p, len));
        if c AND 0x80 = 0 then fin (p + 1) (ucast c)
        else let n = unat (c AND 0x7F) in
        if n = 0 \<or> 4 < n then Some (ASN1_INVALID_LENGTH, p, len)
        else if end < p + n + 1 then Some (ASN1_OUT_OF_DATA, p, len)
        else do { len \<leftarrow> length_bytes n m (p + 1) 0; fin (p + n + 1) len } })"

definition mbedtls_asn1_get_tag :: "byte list \<Rightarrow> nat \<Rightarrow> nat \<Rightarrow> size_t \<Rightarrow> byte \<Rightarrow> (int \<times> nat \<times> size_t) option" where
  "mbedtls_asn1_get_tag m p end len tag =
     (if end < p + 1 then Some (ASN1_OUT_OF_DATA, p, len)
      else do {
        c \<leftarrow> byte_at m p;
        if c \<noteq> tag then Some (ASN1_UNEXPECTED_TAG, p, len)
        else mbedtls_asn1_get_len m (p + 1) end len })"

definition mbedtls_asn1_get_bool :: "byte list \<Rightarrow> nat \<Rightarrow> nat \<Rightarrow> u32 \<Rightarrow> (int \<times> nat \<times> u32) option" where
  "mbedtls_asn1_get_bool m p end val = do {
     (ret, p, len) \<leftarrow> mbedtls_asn1_get_tag m p end 0 ASN1_BOOLEAN;
     if ret \<noteq> 0 then Some (ret, p, val)
     else if len \<noteq> 1 then Some (ASN1_INVALID_LENGTH, p, val)
     else do { c \<leftarrow> byte_at m p; Some (0, p + 1, if c \<noteq> 0 then 1 else 0) } }"

primrec get_int_loop :: "nat \<Rightarrow> byte list \<Rightarrow> nat \<Rightarrow> u32 \<Rightarrow> (nat \<times> u32) option" where
  "get_int_loop 0 m p val = Some (p, val)"
| "get_int_loop (Suc n) m p val = do {
     c \<leftarrow> byte_at m p; get_int_loop n m (p + 1) (push_bit 8 val OR ucast c) }"

definition mbedtls_asn1_get_int :: "byte list \<Rightarrow> nat \<Rightarrow> nat \<Rightarrow> u32 \<Rightarrow> (int \<times> nat \<times> u32) option" where
  "mbedtls_asn1_get_int m p end val = do {
     (ret, p, len) \<leftarrow> mbedtls_asn1_get_tag m p end 0 ASN1_INTEGER;
     if ret \<noteq> 0 then Some (ret, p, val)
     else if 4 < len then Some (ASN1_INVALID_LENGTH, p, val)
     else do {
       c \<leftarrow> byte_at m p;
       if c AND 0x80 \<noteq> 0 then Some (ASN1_INVALID_LENGTH, p, val)
       else do { (p, val) \<leftarrow> get_int_loop (unat len) m p 0; Some (0, p, val) } } }"

record asn1_bitstring =
  bs_len :: size_t
  bs_unused_bits :: byte
  bs_p :: nat

definition mbedtls_asn1_get_bitstring ::
    "byte list \<Rightarrow> nat \<Rightarrow> nat \<Rightarrow> asn1_bitstring \<Rightarrow> (int \<times> nat \<times> asn1_bitstring) option" where
  "mbedtls_asn1_get_bitstring m p end bs = do {
     (ret, p, len) \<leftarrow> mbedtls_asn1_get_tag m p end (bs_len bs) ASN1_BIT_STRING;
     let bs = bs\<lparr>bs_len := len\<rparr>;
     if ret \<noteq> 0 then Some (ret, p, bs)
     else if len < 1 then Some (ASN1_OUT_OF_DATA, p, bs)
     else do {
       c \<leftarrow> byte_at m p;
       let bs = bs\<lparr>bs_len := len - 1, bs_unused_bits := c\<rparr>;
       if 7 < c then Some (ASN1_INVALID_LENGTH, p, bs)
       else let bs = bs\<lparr>bs_p := p + 1\<rparr>; p = p + 1 + unat (len - 1) in
         Some (if p \<noteq> end then ASN1_LENGTH_MISMATCH else 0, p, bs) } }"

definition mbedtls_asn1_get_bitstring_null :: "byte list \<Rightarrow> nat \<Rightarrow> nat \<Rightarrow> size_t \<Rightarrow> (int \<times> nat \<times> size_t) option" where
  "mbedtls_asn1_get_bitstring_null m p end len = do {
     (ret, p, len) \<leftarrow> mbedtls_asn1_get_tag m p end len ASN1_BIT_STRING;
     if ret \<noteq> 0 then Some (ret, p, len)
     else if len < 2 then Some (ASN1_INVALID_DATA, p, len - 1)
     else do { c \<leftarrow> byte_at m p; Some (if c \<noteq> 0 then ASN1_INVALID_DATA else 0, p + 1, len - 1) } }"

record asn1_buf =
  buf_tag :: byte
  buf_len :: size_t
  buf_p :: nat

text \<open>
  The loop of \<open>mbedtls_asn1_get_sequence_of\<close>; \<open>alloc k\<close> tells whether the \<open>k\<close>-th allocation of a list
  node succeeds. The result carries the completed entries, in order. Each round moves \<open>*p\<close> by the tag
  and length bytes at least, so \<open>end - p\<close> rounds are enough.
\<close>

primrec sequence_loop :: "nat \<Rightarrow> (nat \<Rightarrow> bool) \<Rightarrow> byte list \<Rightarrow> nat \<Rightarrow> nat \<Rightarrow> byte \<Rightarrow> asn1_buf list \<Rightarrow>
    (int \<times> nat \<times> asn1_buf list) run" where
  "sequence_loop 0 alloc m p end tag acc = NoFuel"
| "sequence_loop (Suc fuel) alloc m p end tag acc =
     (if end \<le> p then Done (if p \<noteq> end then ASN1_LENGTH_MISMATCH else 0, p, acc)
      else bnd (of_opt (do { c \<leftarrow> byte_at m p; r \<leftarrow> mbedtls_asn1_get_tag m p end 0 tag; Some (c, r) }))
        (\<lambda>(c, ret, p, len).
          if ret \<noteq> 0 then Done (ret, p, acc)
          else let acc = acc @ [\<lparr>buf_tag = c, buf_len = len, buf_p = p\<rparr>]; p = p + unat len in
            if p < end \<and> \<not> alloc (length acc) then Done (ASN1_ALLOC_FAILED, p, acc)
            else sequence_loop fuel alloc m p end tag acc))"

definition mbedtls_asn1_get_sequence_of ::
    "(nat \<Rightarrow> bool) \<Rightarrow> byte list \<Rightarrow> nat \<Rightarrow> nat \<Rightarrow> byte \<Rightarrow> (int \<times> nat \<times> asn1_buf list) run" where
  "mbedtls_asn1_get_sequence_of alloc m p end tag =
     bnd (of_opt (mbedtls_asn1_get_tag m p end 0 ASN1_SEQUENCE_CONSTRUCTED)) (\<lambda>(ret, p, len).
       if ret \<noteq> 0 then Done (ret, p, [])
       else if p + unat len \<noteq> end then Done (ASN1_LENGTH_MISMATCH, p, [])
       else sequence_loop (end - p + 1) alloc m p end tag [])"

definition mbedtls_asn1_get_alg ::
    "byte list \<Rightarrow> nat \<Rightarrow> nat \<Rightarrow> asn1_buf \<Rightarrow> asn1_buf \<Rightarrow> (int \<times> nat \<times> asn1_buf \<times> asn1_buf) option" where
  "mbedtls_asn1_get_alg m p end alg params = do {
     (ret, p, len) \<leftarrow> mbedtls_asn1_get_tag m p end 0 ASN1_SEQUENCE_CONSTRUCTED;
     if ret \<noteq> 0 then Some (ret, p, alg, params)
     else if end < p + 1 then Some (ASN1_OUT_OF_DATA, p, alg, params)
     else do {
       c \<leftarrow> byte_at m p;
       let alg = alg\<lparr>buf_tag := c\<rparr>;
       let end = p + unat len;
       (ret, p, n) \<leftarrow> mbedtls_asn1_get_tag m p end (buf_len alg) ASN1_OID;
       let alg = alg\<lparr>buf_len := n\<rparr>;
       if ret \<noteq> 0 then Some (ret, p, alg, params)
       else let alg = alg\<lparr>buf_p := p\<rparr>; p = p + unat n in
       if p = end then Some (0, p, alg, \<lparr>buf_tag = 0, buf_len = 0, buf_p = 0\<rparr>)
       else do {
         c \<leftarrow> byte_at m p;
         let params = params\<lparr>buf_tag := c\<rparr>;
         (ret, p, n) \<leftarrow> mbedtls_asn1_get_len m (p + 1) end (buf_len params);
         let params = params\<lparr>buf_len := n\<rparr>;
         if ret \<noteq> 0 then Some (ret, p, alg, params)
         else let params = params\<lparr>buf_p := p\<rparr>; p = p + unat n in
           Some (if p \<noteq> end then ASN1_LENGTH_MISMATCH else 0, p, alg, params) } } }"

definition mbedtls_asn1_get_alg_null ::
    "byte list \<Rightarrow> nat \<Rightarrow> nat \<Rightarrow> asn1_buf \<Rightarrow> (int \<times> nat \<times> asn1_buf) option" where
  "mbedtls_asn1_get_alg_null m p end alg = do {
     (ret, p, alg, params) \<leftarrow> mbedtls_asn1_get_alg m p end alg \<lparr>buf_tag = 0, buf_len = 0, buf_p = 0\<rparr>;
     if ret \<noteq> 0 then Some (ret, p, alg)
     else if buf_tag params \<noteq> ASN1_NULL \<and> buf_tag params \<noteq> 0 \<or> buf_len params \<noteq> 0
     then Some (ASN1_INVALID_DATA, p, alg) else Some (0, p, alg) }"

subsection \<open>Named data\<close>

text \<open>
  The list of (OID, value) entries of a distinguished name. An entry's \<open>val.p\<close> is the memory block it
  owns, \<open>val.len\<close> the recorded length. \<open>Freed\<close> is a node whose memory has been given back while the
  list still links it; looking at it is undefined.
\<close>

datatype named_data = Named (nd_oid: "byte list") (nd_val_len: nat) (nd_val: "byte list") | Freed

fun mbedtls_asn1_find_named_data :: "named_data list \<Rightarrow> byte list \<Rightarrow> nat option option" where
  "mbedtls_asn1_find_named_data [] oid = Some None"
| "mbedtls_asn1_find_named_data (Freed # ns) oid = None"
| "mbedtls_asn1_find_named_data (Named o' l v # ns) oid =
     (if o' = oid then Some (Some 0) else map_option (map_option Suc) (mbedtls_asn1_find_named_data ns oid))"

text \<open>\<open>node\<close>, \<open>blk\<close> tell whether the allocations of the node and of the value block succeed (\<open>oidb\<close>
  of the OID block). The result is the list and the index of the entry, or \<open>None\<close> for NULL.\<close>

definition mbedtls_asn1_store_named_data ::
    "bool \<Rightarrow> bool \<Rightarrow> bool \<Rightarrow> named_data list \<Rightarrow> byte list \<Rightarrow> byte list option \<Rightarrow> nat \<Rightarrow>
       (named_data list \<times> nat option) option" where
  "mbedtls_asn1_store_named_data node oidb blk ns oid val val_len = do {
     found \<leftarrow> mbedtls_asn1_find_named_data ns oid;
     let copy = (\<lambda>ns i. case val of
         None \<Rightarrow> Some (ns, Some i)
       | Some v \<Rightarrow> (case ns ! i of
           Named o' l b \<Rightarrow>
             if length v < val_len \<or> length b < val_len then None
             else Some (ns[i := Named o' l (take val_len v @ drop val_len b)], Some i)
         | Freed \<Rightarrow> None));
     (case found of
       None \<Rightarrow>
         if \<not> node \<or> \<not> oidb \<or> \<not> blk then Some (ns, None)
         else copy (Named oid val_len (replicate val_len 0) # ns) 0
     | Some i \<Rightarrow>
         if nd_val_len (ns ! i) < val_len then
           if blk then copy (ns[i := Named (nd_oid (ns ! i)) val_len (replicate val_len 0)]) i
           else Some (ns[i := Freed], None)
         else copy ns i) }"

subsection \<open>Writing\<close>

text \<open>\<open>n\<close> bytes stored in front of the cursor, \<open>*p - start\<close>, and \<open>MBEDTLS_ASN1_CHK_ADD\<close>.\<close>

definition push :: "byte list \<Rightarrow> cursor \<Rightarrow> cursor option" where
  "push bs bp = (let b = fst bp; p = snd bp in
     if length bs \<le> p \<and> p \<le> length b then Some (take (p - length bs) b @ bs @ drop p b, p - length bs) else None)"

type_synonym writer = "nat \<Rightarrow> cursor \<Rightarrow> (int \<times> cursor) option"

definition room :: "nat \<Rightarrow> cursor \<Rightarrow> int" where
  "room start bp = int (snd bp) - int start"

definition to_int :: "size_t \<Rightarrow> int" where
  "to_int len = sint (ucast len :: u32)"

definition chk_add :: "size_t \<Rightarrow> (int \<times> cursor) option \<Rightarrow> (size_t \<Rightarrow> cursor \<Rightarrow> (int \<times> cursor) option) \<Rightarrow> (int \<times> cursor) option" where
  "chk_add len f k = do { (ret, bp) \<leftarrow> f; if ret < 0 then Some (ret, bp) else k (len + of_int ret) bp }"

definition mbedtls_asn1_write_len :: "size_t \<Rightarrow> writer" where
  "mbedtls_asn1_write_len len start bp =
     (if len < 0x80 then
        if room start bp < 1 then Some (ASN1_BUF_TOO_SMALL, bp)
        else do { bp \<leftarrow> push [ucast len] bp; Some (1, bp) }
      else if len \<le> 0xFF then
        if room start bp < 2 then Some (ASN1_BUF_TOO_SMALL, bp)
        else do { bp \<leftarrow> push [0x81, ucast len] bp; Some (2, bp) }
      else if room start bp < 3 then Some (ASN1_BUF_TOO_SMALL, bp)
      else do { bp \<leftarrow> push [0x82, ucast (len div 256 mod 256), ucast (len mod 256)] bp; Some (3, bp) })"

definition mbedtls_asn1_write_tag :: "byte \<Rightarrow> writer" where
  "mbedtls_asn1_write_tag tag start bp =
     (if room start bp < 1 then Some (ASN1_BUF_TOO_SMALL, bp)
      else do { bp \<leftarrow> push [tag] bp; Some (1, bp) })"

definition mbedtls_asn1_write_raw_buffer :: "byte list \<Rightarrow> writer" where
  "mbedtls_asn1_write_raw_buffer buf start bp = (let size = of_nat (length buf) in
     if room start bp < to_int size then Some (ASN1_BUF_TOO_SMALL, bp)
     else do { bp \<leftarrow> push buf bp; Some (to_int size, bp) })"

text \<open>The two calls every writer ends with, and \<open>return( (int) len )\<close>.\<close>

definition write_header :: "byte \<Rightarrow> size_t \<Rightarrow> nat \<Rightarrow> cursor \<Rightarrow> (int \<times> cursor) option" where
  "write_header tag len start bp =
     chk_add len (mbedtls_asn1_write_len len start bp) (\<lambda>len bp.
     chk_add len (mbedtls_asn1_write_tag tag start bp) (\<lambda>len bp. Some (to_int len, bp)))"

definition write_string :: "byte \<Rightarrow> byte list \<Rightarrow> writer" where
  "write_string tag s start bp =
     chk_add 0 (mbedtls_asn1_write_raw_buffer s start bp) (\<lambda>len bp. write_header tag len start bp)"

definition mbedtls_asn1_write_null :: writer where
  "mbedtls_asn1_write_null start bp = write_header ASN1_NULL 0 start bp"

definition mbedtls_asn1_write_oid :: "byte list \<Rightarrow> writer" where
  "mbedtls_asn1_write_oid oid = write_string ASN1_OID oid"

definition mbedtls_asn1_write_algorithm_identifier :: "byte list \<Rightarrow> size_t \<Rightarrow> writer" where
  "mbedtls_asn1_write_algorithm_identifier oid par_len start bp =
     (let rest = (\<lambda>len bp. chk_add len (mbedtls_asn1_write_oid oid start bp) (\<lambda>len bp.
        write_header ASN1_SEQUENCE_CONSTRUCTED len start bp)) in
      if par_len = 0 then chk_add 0 (mbedtls_asn1_write_null start bp) rest else rest par_len bp)"

definition mbedtls_asn1_write_bool :: "bool \<Rightarrow> writer" where
  "mbedtls_asn1_write_bool boolean start bp =
     (if room start bp < 1 then Some (ASN1_BUF_TOO_SMALL, bp)
      else do { bp \<leftarrow> push [if boolean then 1 else 0] bp; write_header ASN1_BOOLEAN 1 start bp })"

definition mbedtls_asn1_write_int :: "u32 \<Rightarrow> writer" where
  "mbedtls_asn1_write_int val start bp =
     (if room start bp < 1 then Some (ASN1_BUF_TOO_SMALL, bp)
      else do {
        bp \<leftarrow> push [ucast val] bp;
        if 0 < sint val \<and> (ucast val :: byte) AND 0x80 \<noteq> 0 then
          if room start bp < 1 then Some (ASN1_BUF_TOO_SMALL, bp)
          else do { bp \<leftarrow> push [0] bp; write_header ASN1_INTEGER 2 start bp }
        else write_header ASN1_INTEGER 1 start bp })"

definition mbedtls_asn1_write_printable_string :: "byte list \<Rightarrow> writer" where
  "mbedtls_asn1_write_printable_string s = write_string ASN1_PRINTABLE_STRING s"

definition mbedtls_asn1_write_ia5_string :: "byte list \<Rightarrow> writer" where
  "mbedtls_asn1_write_ia5_string s = write_string ASN1_IA5_STRING s"

definition mbedtls_asn1_write_octet_string :: "byte list \<Rightarrow> writer" where
  "mbedtls_asn1_write_octet_string s = write_string ASN1_OCTET_STRING s"

text \<open>\<open>buf\<close> is the memory the bits are copied from.\<close>

definition mbedtls_asn1_write_bitstring :: "byte list \<Rightarrow> size_t \<Rightarrow> writer" where
  "mbedtls_asn1_write_bitstring buf bits start bp =
     (let size = bits div 8 + (if bits mod 8 \<noteq> 0 then 1 else 0) in
      if room start bp < to_int size + 1 then Some (ASN1_BUF_TOO_SMALL, bp)
      else if length buf < unat size then None
      else do {
        bp \<leftarrow> push (take (unat size) buf) bp;
        bp \<leftarrow> push [ucast (size * 8 - bits)] bp;
        write_header ASN1_BIT_STRING (size + 1) start bp })"

subsection \<open>The parsers stay between \<open>*p\<close> and \<open>end\<close>\<close>

lemma unat_of_nat_le: "unat (of_nat n :: 'a::len word) \<le> n"
  by (simp add: unat_of_nat)

lemma length_bytes_total: "p + n \<le> length m \<Longrightarrow> \<exists>len. length_bytes n m p acc = Some len"
  by (induction n arbitrary: p acc) auto

text \<open>What a successful call leaves: the element's content lies before \<open>end\<close>.\<close>

definition content :: "nat \<Rightarrow> nat \<Rightarrow> (int \<times> nat \<times> size_t) option \<Rightarrow> bool" where
  "content p end r \<longleftrightarrow> (case r of None \<Rightarrow> False | Some (ret, p', len) \<Rightarrow>
     p \<le> p' \<and> p' \<le> end \<and> (ret = 0 \<longrightarrow> p < p' \<and> p' + unat len \<le> end))"

lemma contentE:
  assumes "content p end r"
  obtains ret p' len where "r = Some (ret, p', len)" "p \<le> p'" "p' \<le> end"
    "ret = 0 \<longrightarrow> p < p'" "ret = 0 \<longrightarrow> p' + unat len \<le> end"
  using assms by (auto simp: content_def split: option.splits)

lemma content_mono: "content p end r \<Longrightarrow> q \<le> p \<Longrightarrow> content q end r"
  by (auto simp: content_def split: option.splits)

lemma not_less_content:
  assumes "\<not> (of_nat (end - p) :: size_t) < len" "p \<le> end"
  shows "p + unat len \<le> end"
  using assms unat_of_nat_le [of "end - p", where 'a = 64] by (simp add: not_less word_le_nat_alt)

lemma get_len_content:
  assumes "p \<le> end" "end \<le> length m"
  shows "content p end (mbedtls_asn1_get_len m p end len)"
proof (cases "p < end")
  case True
  have fin: "content p end (if of_nat (end - q) < l then Some (ASN1_OUT_OF_DATA, q, l) else Some (0, q, l))"
    if "p < q" "q \<le> end" for q l
    using that not_less_content [of "end" q l] by (auto simp: content_def asn1_codes)
  define c where "c = m ! p"
  have c: "byte_at m p = Some c" using True assms by (simp add: c_def)
  show ?thesis
  proof (cases "c AND 0x80 = 0")
    case c0: True
    then show ?thesis using True c fin [of "p + 1"] by (simp add: mbedtls_asn1_get_len_def)
  next
    case c1: False
    define n where "n = unat (c AND 0x7F)"
    show ?thesis
    proof (cases "n = 0 \<or> 4 < n \<or> end < p + n + 1")
      case True
      then show ?thesis using \<open>p < end\<close> c c1
        by (auto simp: mbedtls_asn1_get_len_def content_def asn1_codes Let_def n_def [symmetric])
    next
      case False
      then obtain l where "length_bytes n m (p + 1) 0 = Some l"
        using length_bytes_total [of "p + 1" n m 0] assms by auto
      then show ?thesis using \<open>p < end\<close> c c1 False fin [of "p + n + 1" l]
        by (simp add: mbedtls_asn1_get_len_def Let_def n_def [symmetric])
    qed
  qed
next
  case False
  then show ?thesis using assms by (simp add: mbedtls_asn1_get_len_def content_def asn1_codes)
qed

lemma get_tag_content:
  assumes "p \<le> end" "end \<le> length m"
  shows "content p end (mbedtls_asn1_get_tag m p end len tag)"
proof (cases "p < end \<and> m ! p = tag")
  case True
  then have "mbedtls_asn1_get_tag m p end len tag = mbedtls_asn1_get_len m (p + 1) end len"
    using assms by (simp add: mbedtls_asn1_get_tag_def)
  then show ?thesis using get_len_content [of "p + 1" "end" m len] True assms by (auto intro: content_mono)
next
  case False
  then show ?thesis using assms by (auto simp: mbedtls_asn1_get_tag_def content_def asn1_codes)
qed

text \<open>Any parser: it returns, and \<open>*p\<close> stays in the element's range.\<close>

definition in_range :: "nat \<Rightarrow> nat \<Rightarrow> (int \<times> nat \<times> 'a) option \<Rightarrow> bool" where
  "in_range p end r \<longleftrightarrow> (case r of None \<Rightarrow> False | Some (ret, p', x) \<Rightarrow> p \<le> p' \<and> p' \<le> end)"

lemma content_in_range: "content p end r \<Longrightarrow> in_range p end r"
  by (auto simp: content_def in_range_def split: option.splits)

lemma get_bool_range:
  assumes "p \<le> end" "end \<le> length m"
  shows "in_range p end (mbedtls_asn1_get_bool m p end val)"
proof -
  from get_tag_content [OF assms, of 0 ASN1_BOOLEAN] obtain ret q len where
    t: "mbedtls_asn1_get_tag m p end 0 ASN1_BOOLEAN = Some (ret, q, len)" "p \<le> q" "q \<le> end"
    "ret = 0 \<longrightarrow> p < q" "ret = 0 \<longrightarrow> q + unat len \<le> end" by (rule contentE)
  then show ?thesis using assms by (auto simp: mbedtls_asn1_get_bool_def in_range_def)
qed

lemma get_bitstring_range:
  assumes "p \<le> end" "end \<le> length m"
  shows "in_range p end (mbedtls_asn1_get_bitstring m p end bs)"
proof -
  from get_tag_content [OF assms, of "bs_len bs" ASN1_BIT_STRING] obtain ret q len where
    t: "mbedtls_asn1_get_tag m p end (bs_len bs) ASN1_BIT_STRING = Some (ret, q, len)" "p \<le> q" "q \<le> end"
    "ret = 0 \<longrightarrow> p < q" "ret = 0 \<longrightarrow> q + unat len \<le> end" by (rule contentE)
  show ?thesis
  proof (cases "ret = 0 \<and> \<not> len < 1")
    case True
    then have "0 < unat len" by (simp add: word_less_nat_alt)
    moreover have "unat (len - 1) = unat len - 1" using True by (intro unat_minus_one) auto
    ultimately show ?thesis using t True assms by (auto simp: mbedtls_asn1_get_bitstring_def in_range_def Let_def)
  next
    case False
    then show ?thesis using t by (auto simp: mbedtls_asn1_get_bitstring_def in_range_def Let_def)
  qed
qed

lemma get_bitstring_null_range:
  assumes "p \<le> end" "end \<le> length m"
  shows "in_range p end (mbedtls_asn1_get_bitstring_null m p end len)"
proof -
  from get_tag_content [OF assms, of len ASN1_BIT_STRING] obtain ret q n where
    t: "mbedtls_asn1_get_tag m p end len ASN1_BIT_STRING = Some (ret, q, n)" "p \<le> q" "q \<le> end"
    "ret = 0 \<longrightarrow> p < q" "ret = 0 \<longrightarrow> q + unat n \<le> end" by (rule contentE)
  have "\<not> n < 2 \<Longrightarrow> 2 \<le> unat n" by (simp add: word_less_nat_alt)
  then show ?thesis using t assms by (auto simp: mbedtls_asn1_get_bitstring_null_def in_range_def)
qed

lemma get_int_loop_total: "p + n \<le> length m \<Longrightarrow> \<exists>v. get_int_loop n m p val = Some (p + n, v)"
  by (induction n arbitrary: p val) (auto simp flip: add_Suc)

text \<open>\<open>mbedtls_asn1_get_int\<close> looks at the first content byte before the length: one byte behind \<open>end\<close> must exist.\<close>

lemma get_int_range:
  assumes "p \<le> end" "end < length m"
  shows "in_range p end (mbedtls_asn1_get_int m p end val)"
proof -
  from get_tag_content [OF assms(1) less_imp_le [OF assms(2)], of 0 ASN1_INTEGER] obtain ret q n where
    t: "mbedtls_asn1_get_tag m p end 0 ASN1_INTEGER = Some (ret, q, n)" "p \<le> q" "q \<le> end"
    "ret = 0 \<longrightarrow> p < q" "ret = 0 \<longrightarrow> q + unat n \<le> end" by (rule contentE)
  show ?thesis
  proof (cases "ret = 0")
    case True
    then obtain v where "get_int_loop (unat n) m q 0 = Some (q + unat n, v)"
      using get_int_loop_total [of q "unat n" m 0] t(5) True assms by auto
    then show ?thesis using t True assms by (auto simp: mbedtls_asn1_get_int_def in_range_def)
  next
    case False
    then show ?thesis using t by (simp add: mbedtls_asn1_get_int_def in_range_def)
  qed
qed

lemma get_alg_range:
  assumes "p \<le> end" "end \<le> length m"
  shows "in_range p end (mbedtls_asn1_get_alg m p end alg params)"
proof -
  from get_tag_content [OF assms, of 0 ASN1_SEQUENCE_CONSTRUCTED] obtain ret q len where
    t: "mbedtls_asn1_get_tag m p end 0 ASN1_SEQUENCE_CONSTRUCTED = Some (ret, q, len)" "p \<le> q" "q \<le> end"
    "ret = 0 \<longrightarrow> p < q" "ret = 0 \<longrightarrow> q + unat len \<le> end" by (rule contentE)
  show ?thesis
  proof (cases "ret = 0 \<and> q < end")
    case True
    define e where "e = q + unat len"
    have e: "q \<le> e" "e \<le> end" "e \<le> length m" using t(5) True assms by (simp_all add: e_def)
    have b: "byte_at m q = Some (m ! q)" using True assms by simp
    from get_tag_content [OF e(1,3), of "buf_len alg" ASN1_OID] obtain ret2 q2 n where
      t2: "mbedtls_asn1_get_tag m q e (buf_len alg) ASN1_OID = Some (ret2, q2, n)" "q \<le> q2" "q2 \<le> e"
      "ret2 = 0 \<longrightarrow> q < q2" "ret2 = 0 \<longrightarrow> q2 + unat n \<le> e" by (rule contentE)
    show ?thesis
    proof (cases "ret2 = 0 \<and> q2 + unat n \<noteq> e")
      case T2: True
      then have lt: "q2 + unat n < e" using t2(5) by simp
      then have b2: "byte_at m (q2 + unat n) = Some (m ! (q2 + unat n))" using e by simp
      have le: "q2 + unat n + 1 \<le> e" using lt by simp
      from get_len_content [OF le e(3), of "buf_len params"] obtain ret3 q3 k where
        t3: "mbedtls_asn1_get_len m (q2 + unat n + 1) e (buf_len params) = Some (ret3, q3, k)"
        "q2 + unat n + 1 \<le> q3" "q3 \<le> e"
        "ret3 = 0 \<longrightarrow> q2 + unat n + 1 < q3" "ret3 = 0 \<longrightarrow> q3 + unat k \<le> e" by (rule contentE)
      show ?thesis using t(1,2) t2(1,2) t3 True T2 b b2 e(2)
        by (auto simp: mbedtls_asn1_get_alg_def in_range_def Let_def e_def [symmetric])
    next
      case False
      then show ?thesis using t(1,2) t2 True b e(2)
        by (auto simp: mbedtls_asn1_get_alg_def in_range_def Let_def e_def [symmetric])
    qed
  next
    case False
    then show ?thesis using t by (auto simp: mbedtls_asn1_get_alg_def in_range_def)
  qed
qed

lemma get_alg_null_range:
  assumes "p \<le> end" "end \<le> length m"
  shows "in_range p end (mbedtls_asn1_get_alg_null m p end alg)"
  using get_alg_range [OF assms, of alg "\<lparr>buf_tag = 0, buf_len = 0, buf_p = 0\<rparr>"]
  by (auto simp: mbedtls_asn1_get_alg_null_def in_range_def split: option.splits if_splits)

lemma sequence_loop_range:
  assumes "p \<le> end" "end \<le> length m" "end - p < fuel"
  shows "ends (sequence_loop fuel alloc m p end tag acc) (\<lambda>(ret, p', es). p \<le> p' \<and> p' \<le> end)"
  using assms(1,3)
proof (induction fuel arbitrary: p acc)
  case (Suc fuel)
  show ?case
  proof (cases "p < end")
    case True
    from get_tag_content [OF Suc.prems(1) assms(2), of 0 tag] obtain ret q n where
      t: "mbedtls_asn1_get_tag m p end 0 tag = Some (ret, q, n)" "p \<le> q" "q \<le> end"
      "ret = 0 \<longrightarrow> p < q" "ret = 0 \<longrightarrow> q + unat n \<le> end" by (rule contentE)
    have b: "byte_at m p = Some (m ! p)" using True assms(2) by simp
    show ?thesis
    proof (cases "ret = 0")
      case r: True
      have "ends (sequence_loop fuel alloc m (q + unat n) end tag es) (\<lambda>(ret, p', es). p \<le> p' \<and> p' \<le> end)" for es
      proof (rule ends_mono [OF Suc.IH])
        show "q + unat n \<le> end" "end - (q + unat n) < fuel" using t(4,5) r Suc.prems(2) by simp_all
      qed (use t(2) in auto)
      then show ?thesis using t(1,2,5) r b True by (simp add: Let_def)
    next
      case False
      then show ?thesis using t b True by simp
    qed
  next
    case False
    then show ?thesis using Suc.prems by simp
  qed
qed simp

lemma get_sequence_of_range:
  assumes "p \<le> end" "end \<le> length m"
  shows "ends (mbedtls_asn1_get_sequence_of alloc m p end tag) (\<lambda>(ret, p', es). p \<le> p' \<and> p' \<le> end)"
proof -
  from get_tag_content [OF assms, of 0 ASN1_SEQUENCE_CONSTRUCTED] obtain ret q len where
    t: "mbedtls_asn1_get_tag m p end 0 ASN1_SEQUENCE_CONSTRUCTED = Some (ret, q, len)" "p \<le> q" "q \<le> end"
    "ret = 0 \<longrightarrow> p < q" "ret = 0 \<longrightarrow> q + unat len \<le> end" by (rule contentE)
  have "ends (sequence_loop (end - q + 1) alloc m q end tag []) (\<lambda>(ret, p', es). p \<le> p' \<and> p' \<le> end)"
    by (rule ends_mono [OF sequence_loop_range [OF t(3) assms(2)]]) (use t(2) in auto)
  then show ?thesis using t by (simp add: mbedtls_asn1_get_sequence_of_def del: sequence_loop.simps)
qed

subsection \<open>The DER encoding\<close>

text \<open>Length octets (up to 65535) and a tag-length-value element.\<close>

definition der_len :: "nat \<Rightarrow> byte list" where
  "der_len n = (if n < 128 then [of_nat n] else if n < 256 then [0x81, of_nat n]
     else [0x82, of_nat (n div 256), of_nat (n mod 256)])"

definition tlv :: "byte \<Rightarrow> byte list \<Rightarrow> byte list" where
  "tlv tag v = tag # der_len (length v) @ v"

lemma length_tlv: "length (tlv tag v) = 1 + length (der_len (length v)) + length v"
  by (simp add: tlv_def)

lemma der_len_length: "1 \<le> length (der_len n)" "length (der_len n) \<le> 3"
  by (auto simp: der_len_def)

lemma ucast_of_nat_byte: "k < 256 \<Longrightarrow> (ucast (of_nat k :: byte) :: size_t) = of_nat k"
  by (rule word_unat_eq_iff [THEN iffD2]) (simp add: unat_of_nat unsigned_ucast_eq take_bit_eq_mod)

lemma two_length_bytes:
  assumes "n < 65536"
  shows "push_bit 8 (ucast (of_nat (n div 256) :: byte)) OR ucast (of_nat (n mod 256) :: byte) = (of_nat n :: size_t)"
proof -
  have "push_bit 8 (ucast (of_nat (n div 256) :: byte)) OR ucast (of_nat (n mod 256) :: byte) =
      (push_bit 8 (ucast (of_nat (n div 256) :: byte)) + ucast (of_nat (n mod 256) :: byte) :: size_t)"
    by (rule disjunctive_add [symmetric]) (auto simp: bit_simps dest!: bit_imp_le_length)
  also have "\<dots> = of_nat (n div 256) * 256 + of_nat (n mod 256)"
    using assms by (simp add: ucast_of_nat_byte push_bit_eq_mult)
  also have "\<dots> = of_nat (n div 256 * 256 + n mod 256)" by (simp only: of_nat_add of_nat_mult of_nat_numeral)
  finally show ?thesis by (simp only: div_mult_mod_eq)
qed

lemma byte_at_here: "byte_at (pre @ c # cs) (length pre) = Some c"
  by (simp add: byte_at_append)

lemma short_length: "n < 128 \<Longrightarrow> (of_nat n :: byte) AND 0x80 = 0"
proof -
  have "list_all (\<lambda>n. (of_nat n :: byte) AND 0x80 = 0) [0..<128]" by code_simp
  then show "n < 128 \<Longrightarrow> ?thesis" by (simp add: list_all_iff)
qed

lemma length_bytes_1: "length_bytes 1 m p acc = Option.bind (byte_at m p) (\<lambda>b. Some (push_bit 8 acc OR ucast b))"
  by simp

lemma length_bytes_2: "length_bytes 2 m p acc = Option.bind (byte_at m p) (\<lambda>b. Option.bind (byte_at m (Suc p))
    (\<lambda>c. Some (push_bit 8 (push_bit 8 acc OR ucast b) OR ucast c)))"
  by (simp add: numeral_2_eq_2)

text \<open>The first length byte of the two long forms.\<close>

lemma long_form_bits: "(0x81 :: byte) AND 0x80 \<noteq> 0" "(0x82 :: byte) AND 0x80 \<noteq> 0"
  "unat ((0x81 :: byte) AND 0x7F) = 1" "unat ((0x82 :: byte) AND 0x7F) = 2"
  by code_simp+

text \<open>The parser reads the length octets and the element.\<close>

lemma get_len_der:
  assumes "n < 65536" "length pre + length (der_len n) + n \<le> end" "end < 2 ^ 64"
  shows "mbedtls_asn1_get_len (pre @ der_len n @ rest) (length pre) end len =
    Some (0, length pre + length (der_len n), of_nat n)"
proof -
  have fin: "\<not> (of_nat (end - (length pre + length (der_len n))) :: size_t) < of_nat n"
    unfolding not_less word_le_nat_alt unat_of_nat using assms by simp
  consider "n < 128" | "128 \<le> n" "n < 256" | "256 \<le> n" by linarith
  then show ?thesis
  proof cases
    case 1
    have d: "der_len n = [of_nat n]" "length (der_len n) = 1" using 1 by (simp_all add: der_len_def)
    show ?thesis
      using assms(2) fin unfolding mbedtls_asn1_get_len_def d append.simps byte_at_here
      by (simp add: Let_def short_length [OF 1] ucast_of_nat_byte 1 less_trans [OF 1])
  next
    case 2
    have d: "der_len n = [0x81, of_nat n]" "length (der_len n) = 2" using 2 by (simp_all add: der_len_def)
    have b: "byte_at (pre @ 0x81 # of_nat n # rest) (length pre + 1) = Some (of_nat n)"
      using byte_at_here [of "pre @ [0x81]" "of_nat n" rest] by simp
    show ?thesis
      using assms(2) fin unfolding mbedtls_asn1_get_len_def d append.simps byte_at_here
      by (simp add: Let_def long_form_bits length_bytes_1 [simplified] b [simplified] ucast_of_nat_byte 2)
  next
    case 3
    let ?h = "of_nat (n div 256) :: byte" and ?l = "of_nat (n mod 256) :: byte"
    have d: "der_len n = [0x82, ?h, ?l]" "length (der_len n) = 3" using 3 by (simp_all add: der_len_def)
    have b: "byte_at (pre @ 0x82 # ?h # ?l # rest) (length pre + 1) = Some ?h"
        "byte_at (pre @ 0x82 # ?h # ?l # rest) (Suc (length pre + 1)) = Some ?l"
      using byte_at_here [of "pre @ [0x82]" ?h "?l # rest"] byte_at_here [of "pre @ [0x82, ?h]" ?l rest] by simp_all
    have l: "length_bytes 2 (pre @ 0x82 # ?h # ?l # rest) (length pre + 1) 0 = Some (of_nat n)"
      unfolding length_bytes_2 b Option.bind.simps using two_length_bytes [OF assms(1)] by simp
    show ?thesis
      using assms(2) fin unfolding mbedtls_asn1_get_len_def d append.simps byte_at_here
      by (simp add: Let_def long_form_bits l [simplified] del: of_nat_add)
  qed
qed

lemma get_tag_tlv:
  assumes "length v < 65536" "length pre + length (tlv tag v) \<le> end" "end < 2 ^ 64"
  shows "mbedtls_asn1_get_tag (pre @ tlv tag v @ rest) (length pre) end len tag =
    Some (0, length pre + length (tlv tag v) - length v, of_nat (length v))"
proof -
  have "mbedtls_asn1_get_len ((pre @ [tag]) @ der_len (length v) @ (v @ rest)) (length (pre @ [tag])) end len =
      Some (0, length (pre @ [tag]) + length (der_len (length v)), of_nat (length v))"
    using assms by (intro get_len_der) (simp_all add: length_tlv)
  then show ?thesis
    using assms(2) by (simp add: mbedtls_asn1_get_tag_def tlv_def byte_at_here)
qed

subsection \<open>The writers write the DER encoding\<close>

lemma push_push: "Option.bind (push ys bp) (push xs) = push (xs @ ys) bp"
proof (cases "length ys \<le> snd bp \<and> snd bp \<le> length (fst bp)")
  case True
  then have "take (snd bp - length ys - length xs) (take (snd bp - length ys) (fst bp)) =
      take (snd bp - length ys - length xs) (fst bp)" by (simp add: min_def)
  then show ?thesis using True
    by (auto simp: push_def Let_def min_absorb1 le_diff_conv2 add.commute diff_diff_left)
next
  case False
  then show ?thesis by (auto simp: push_def Let_def)
qed

lemma push_SomeD: "push bs bp = Some bp' \<Longrightarrow>
    length (fst bp') = length (fst bp) \<and> snd bp = snd bp' + length bs"
  by (auto simp: push_def Let_def split: if_splits)

lemma push_total: "length bs \<le> snd bp \<Longrightarrow> snd bp \<le> length (fst bp) \<Longrightarrow> \<exists>bp'. push bs bp = Some bp'"
  by (simp add: push_def Let_def)

lemma to_int_of_nat: "n < 2 ^ 31 \<Longrightarrow> to_int (of_nat n) = int n"
proof -
  assume "n < 2 ^ 31"
  then have "(ucast (of_nat n :: size_t) :: u32) = of_nat n"
    by (simp add: word_unat_eq_iff unsigned_ucast_eq unat_of_nat take_bit_eq_mod)
  then show "to_int (of_nat n) = int n"
    using \<open>n < 2 ^ 31\<close> by (simp add: to_int_def signed_of_nat signed_take_bit_int_eq_self)
qed

text \<open>
  A writer that prepends \<open>bs\<close> when there is room between \<open>start\<close> and \<open>*p\<close> for all of it, and
  otherwise reports "buffer too small" without leaving the buffer.
\<close>

definition prepends :: "nat \<Rightarrow> (cursor \<Rightarrow> (int \<times> cursor) option) \<Rightarrow> nat \<Rightarrow> byte list \<Rightarrow> bool" where
  "prepends start f n bs \<longleftrightarrow> (\<forall>bp. start \<le> snd bp \<and> snd bp \<le> length (fst bp) \<longrightarrow>
     (if start + length bs \<le> snd bp then f bp = map_option (Pair (int n)) (push bs bp)
      else \<exists>bp'. f bp = Some (ASN1_BUF_TOO_SMALL, bp')))"

lemma prependsD:
  assumes "prepends start f n bs" "start \<le> snd bp" "snd bp \<le> length (fst bp)"
  shows "start + length bs \<le> snd bp \<Longrightarrow> f bp = map_option (Pair (int n)) (push bs bp)"
    and "\<not> start + length bs \<le> snd bp \<Longrightarrow> \<exists>bp'. f bp = Some (ASN1_BUF_TOO_SMALL, bp')"
  using assms(1) [unfolded prepends_def, rule_format, of bp] assms(2,3) by simp_all

lemma prepends_chk_add:
  assumes f: "prepends start f k bs" and g: "prepends start (g (len + of_nat k)) n cs"
  shows "prepends start (\<lambda>bp. chk_add len (f bp) g) n (cs @ bs)"
  unfolding prepends_def
proof (intro allI impI, elim conjE)
  fix bp :: cursor assume b: "start \<le> snd bp" "snd bp \<le> length (fst bp)"
  show "if start + length (cs @ bs) \<le> snd bp then chk_add len (f bp) g = map_option (Pair (int n)) (push (cs @ bs) bp)
     else \<exists>bp'. chk_add len (f bp) g = Some (ASN1_BUF_TOO_SMALL, bp')"
  proof (cases "start + length bs \<le> snd bp")
    case True
    then have fb: "f bp = map_option (Pair (int k)) (push bs bp)" by (rule prependsD(1) [OF f b])
    obtain bp1 where bp1: "push bs bp = Some bp1" using push_total [of bs bp] True b by auto
    have p1: "length (fst bp1) = length (fst bp)" "snd bp = snd bp1 + length bs" using push_SomeD [OF bp1] by simp_all
    have b1: "start \<le> snd bp1" "snd bp1 \<le> length (fst bp1)" using True b p1 by simp_all
    have c: "chk_add len (f bp) g = g (len + of_nat k) bp1" by (simp add: chk_add_def fb bp1)
    have pp: "push (cs @ bs) bp = push cs bp1" using push_push [of bs bp cs] bp1 by simp
    show ?thesis
    proof (cases "start + length cs \<le> snd bp1")
      case True
      then show ?thesis unfolding c pp using prependsD(1) [OF g b1 True] p1 by simp
    next
      case False
      then show ?thesis unfolding c pp using prependsD(2) [OF g b1 False] p1 by simp
    qed
  next
    case False
    then obtain bp' where "f bp = Some (ASN1_BUF_TOO_SMALL, bp')" using prependsD(2) [OF f b] by blast
    then show ?thesis using False by (simp add: chk_add_def ASN1_BUF_TOO_SMALL_def)
  qed
qed

lemma prepends_return: "prepends start (\<lambda>bp. Some (int n, bp)) n []"
  by (auto simp: prepends_def push_def Let_def prod_eq_iff)

lemma write_tag_prepends: "prepends start (mbedtls_asn1_write_tag tag start) 1 [tag]"
  by (auto simp: prepends_def mbedtls_asn1_write_tag_def room_def push_def Let_def)

lemma ucast_of_nat_mod: "(ucast (of_nat k :: size_t) :: byte) = of_nat k"
  by (simp add: word_unat_eq_iff unsigned_ucast_eq unat_of_nat take_bit_eq_mod mod_mod_cancel)

lemma write_len_prepends:
  assumes "n < 65536"
  shows "prepends start (mbedtls_asn1_write_len (of_nat n) start) (length (der_len n)) (der_len n)"
proof -
  have l: "(of_nat n :: size_t) < 0x80 \<longleftrightarrow> n < 128" "(of_nat n :: size_t) \<le> 0xFF \<longleftrightarrow> n < 256"
    using assms by (auto simp: word_less_nat_alt word_le_nat_alt unat_of_nat)
  have d: "(of_nat n :: size_t) div 256 mod 256 = of_nat (n div 256)" "(of_nat n :: size_t) mod 256 = of_nat (n mod 256)"
    using assms by (simp_all add: word_unat_eq_iff unat_div unat_mod unat_of_nat)
  show ?thesis
    by (auto simp: prepends_def mbedtls_asn1_write_len_def der_len_def l d ucast_of_nat_mod room_def push_def Let_def)
qed

lemma write_header_prepends:
  assumes "n < 65536"
  shows "prepends start (write_header tag (of_nat n) start) (n + length (der_len n) + 1) (tag # der_len n)"
proof -
  have l: "n + length (der_len n) + 1 < 2 ^ 31" using assms der_len_length(2) [of n] by simp
  have e: "of_nat n + of_nat (length (der_len n)) + of_nat 1 = (of_nat (n + length (der_len n) + 1) :: size_t)" by simp
  have r: "prepends start (\<lambda>bp. Some (to_int (of_nat n + of_nat (length (der_len n)) + of_nat 1), bp))
      (n + length (der_len n) + 1) []"
    unfolding e to_int_of_nat [OF l] by (rule prepends_return)
  have t: "prepends start (\<lambda>bp. chk_add (of_nat n + of_nat (length (der_len n))) (mbedtls_asn1_write_tag tag start bp)
      (\<lambda>len bp. Some (to_int len, bp))) (n + length (der_len n) + 1) ([] @ [tag])"
    by (rule prepends_chk_add [OF write_tag_prepends]) (rule r)
  have "prepends start (\<lambda>bp. chk_add (of_nat n) (mbedtls_asn1_write_len (of_nat n) start bp) (\<lambda>len bp.
     chk_add len (mbedtls_asn1_write_tag tag start bp) (\<lambda>len bp. Some (to_int len, bp))))
     (n + length (der_len n) + 1) (([] @ [tag]) @ der_len n)"
    by (rule prepends_chk_add [OF write_len_prepends [OF assms]]) (rule t)
  then show ?thesis unfolding write_header_def [abs_def] by simp
qed

lemma write_raw_prepends:
  assumes "length s < 65536"
  shows "prepends start (mbedtls_asn1_write_raw_buffer s start) (length s) s"
  using assms by (auto simp: prepends_def mbedtls_asn1_write_raw_buffer_def to_int_of_nat room_def push_def Let_def)

lemma write_string_prepends:
  assumes "length s < 65536"
  shows "prepends start (write_string tag s start) (length (tlv tag s)) (tlv tag s)"
proof -
  have n: "length (tlv tag s) = length s + length (der_len (length s)) + 1" by (simp add: length_tlv)
  have "prepends start (\<lambda>bp. chk_add 0 (mbedtls_asn1_write_raw_buffer s start bp) (\<lambda>len bp. write_header tag len start bp))
      (length (tlv tag s)) ((tag # der_len (length s)) @ s)"
    unfolding n by (rule prepends_chk_add [OF write_raw_prepends [OF assms]])
      (use write_header_prepends [OF assms] in \<open>simp only: add_0\<close>)
  then show ?thesis by (simp add: write_string_def [abs_def] tlv_def)
qed

lemma write_null_prepends: "prepends start (mbedtls_asn1_write_null start) 2 (tlv ASN1_NULL [])"
  using write_header_prepends [of 0 start ASN1_NULL]
  by (simp add: mbedtls_asn1_write_null_def [abs_def] tlv_def der_len_def numeral_2_eq_2)

text \<open>\<open>AlgorithmIdentifier\<close> with absent parameters: a SEQUENCE of the OID and NULL.\<close>

definition der_alg :: "byte list \<Rightarrow> byte list" where
  "der_alg oid = tlv ASN1_SEQUENCE_CONSTRUCTED (tlv ASN1_OID oid @ tlv ASN1_NULL [])"

lemma write_alg_prepends:
  assumes "length oid < 65000"
  shows "prepends start (mbedtls_asn1_write_algorithm_identifier oid 0 start) (length (der_alg oid)) (der_alg oid)"
proof -
  let ?v = "tlv ASN1_OID oid @ tlv ASN1_NULL []"
  have l: "length ?v < 65536" "length oid < 65536"
    using assms der_len_length(2) [of "length oid"] by (simp_all add: length_tlv der_len_def)
  have n: "length (der_alg oid) = length ?v + length (der_len (length ?v)) + 1" by (simp add: der_alg_def length_tlv)
  have nn: "length (tlv ASN1_NULL []) = 2" by (simp add: tlv_def der_len_def)
  have e: "0 + of_nat 2 + of_nat (length (tlv ASN1_OID oid)) = (of_nat (length ?v) :: size_t)" by (simp add: nn)
  have h: "prepends start (write_header ASN1_SEQUENCE_CONSTRUCTED (0 + of_nat 2 + of_nat (length (tlv ASN1_OID oid))) start)
      (length (der_alg oid)) (ASN1_SEQUENCE_CONSTRUCTED # der_len (length ?v))"
    unfolding e n by (rule write_header_prepends [OF l(1)])
  have o: "prepends start (mbedtls_asn1_write_oid oid start) (length (tlv ASN1_OID oid)) (tlv ASN1_OID oid)"
    unfolding mbedtls_asn1_write_oid_def by (rule write_string_prepends [OF l(2)])
  have "prepends start (\<lambda>bp. chk_add 0 (mbedtls_asn1_write_null start bp) (\<lambda>len bp.
      chk_add len (mbedtls_asn1_write_oid oid start bp) (\<lambda>len bp. write_header ASN1_SEQUENCE_CONSTRUCTED len start bp)))
      (length (der_alg oid)) (((ASN1_SEQUENCE_CONSTRUCTED # der_len (length ?v)) @ tlv ASN1_OID oid) @ tlv ASN1_NULL [])"
    by (rule prepends_chk_add [OF write_null_prepends prepends_chk_add [OF o]]) (rule h)
  then show ?thesis
    by (simp add: mbedtls_asn1_write_algorithm_identifier_def [abs_def] Let_def der_alg_def tlv_def [of ASN1_SEQUENCE_CONSTRUCTED])
qed

text \<open>A byte written in front, then the header.\<close>

lemma push_then_prepends:
  assumes g: "prepends start g n cs"
  shows "prepends start (\<lambda>bp. if room start bp < 1 then Some (ASN1_BUF_TOO_SMALL, bp)
     else Option.bind (push [c] bp) g) n (cs @ [c])"
proof -
  have "prepends start (\<lambda>bp. chk_add 0 (mbedtls_asn1_write_tag c start bp) (\<lambda>_. g)) n (cs @ [c])"
    by (rule prepends_chk_add [OF write_tag_prepends]) (rule g)
  moreover have "chk_add 0 (mbedtls_asn1_write_tag c start bp) (\<lambda>_. g) =
      (if room start bp < 1 then Some (ASN1_BUF_TOO_SMALL, bp) else Option.bind (push [c] bp) g)" for bp
    by (simp add: chk_add_def mbedtls_asn1_write_tag_def ASN1_BUF_TOO_SMALL_def Option.bind_assoc)
  ultimately show ?thesis by simp
qed

lemma write_bool_prepends:
  "prepends start (mbedtls_asn1_write_bool v start) 3 (tlv ASN1_BOOLEAN [if v then 1 else 0])"
  using push_then_prepends [OF write_header_prepends [of 1 start ASN1_BOOLEAN], of "if v then 1 else 0"]
  by (cases v) (simp_all add: mbedtls_asn1_write_bool_def [abs_def] tlv_def der_len_def numeral_3_eq_3 cong: if_cong)

text \<open>A value that fits the low byte: with a leading zero when its top bit is set.\<close>

lemma write_int_prepends:
  assumes "n < 256"
  shows "prepends start (mbedtls_asn1_write_int (of_nat n) start) (if n < 128 then 3 else 4)
    (tlv ASN1_INTEGER (if n < 128 then [of_nat n] else [0, of_nat n]))"
proof -
  have "list_all (\<lambda>n. ((of_nat n :: byte) AND 0x80 = 0) = (n < 128)) [0..<256]" by code_simp
  then have top: "(of_nat n :: byte) AND 0x80 = 0 \<longleftrightarrow> n < 128" using assms by (simp add: list_all_iff)
  have v: "(ucast (of_nat n :: u32) :: byte) = of_nat n"
    using assms by (simp add: word_unat_eq_iff unsigned_ucast_eq unat_of_nat take_bit_eq_mod)
  have s: "sint (of_nat n :: u32) = int n" using assms by (simp add: signed_of_nat signed_take_bit_int_eq_self)
  show ?thesis
  proof (cases "n < 128")
    case True
    then show ?thesis
      using push_then_prepends [OF write_header_prepends [of 1 start ASN1_INTEGER], of "of_nat n"] top
      by (simp add: mbedtls_asn1_write_int_def [abs_def] v tlv_def der_len_def numeral_3_eq_3 cong: if_cong)
  next
    case False
    then show ?thesis
      using push_then_prepends [OF push_then_prepends [OF write_header_prepends [of 2 start ASN1_INTEGER], of 0], of "of_nat n"] top s
      by (simp add: mbedtls_asn1_write_int_def [abs_def] v tlv_def der_len_def cong: if_cong)
  qed
qed

subsection \<open>Parsing what was written\<close>

text \<open>The bytes an \<open>mbedtls_asn1_buf\<close> points to.\<close>

definition buf_bytes :: "byte list \<Rightarrow> asn1_buf \<Rightarrow> byte list" where
  "buf_bytes m e = take (unat (buf_len e)) (drop (buf_p e) m)"

lemma unat_of_nat_16: "n < 65536 \<Longrightarrow> unat (of_nat n :: size_t) = n"
  by (simp add: unat_of_nat)

text \<open>A buffer after a successful writer: the encoding, between the new and the old position.\<close>

lemma prepends_written:
  assumes "prepends start f n bs" "f (b, p) = Some (r, (b', p'))" "0 \<le> r" "start \<le> p" "p \<le> length b"
  obtains pre where "b' = pre @ bs @ drop p b" "length pre = p'" "p = p' + length bs" "r = int n" "length b' = length b"
proof -
  have "start + length bs \<le> p"
    using prependsD(2) [OF assms(1), of "(b, p)"] assms(2-5) by (force simp: ASN1_BUF_TOO_SMALL_def)
  then have "push bs (b, p) = Some (b', p')" "r = int n"
    using prependsD(1) [OF assms(1), of "(b, p)"] assms(2,4,5) by (cases "push bs (b, p)"; auto)+
  then have "b' = take p' b @ bs @ drop p b" "p = p' + length bs" "r = int n"
    by (auto simp: push_def Let_def split: if_splits)
  moreover have "length (take p' b) = p'" "length b' = length b" using \<open>p = p' + length bs\<close> assms(5)
    \<open>b' = take p' b @ bs @ drop p b\<close> by simp_all
  ultimately show ?thesis using that by blast
qed

lemma get_alg_steps:
  assumes "mbedtls_asn1_get_tag m p end 0 ASN1_SEQUENCE_CONSTRUCTED = Some (0, q, len)" "q < end"
    and "byte_at m q = Some c" "mbedtls_asn1_get_tag m q (q + unat len) (buf_len alg) ASN1_OID = Some (0, q2, n)"
    and "q2 + unat n \<noteq> q + unat len" "byte_at m (q2 + unat n) = Some d"
    and "mbedtls_asn1_get_len m (q2 + unat n + 1) (q + unat len) (buf_len ps) = Some (0, q3, k)"
    and "q3 + unat k = q + unat len"
  shows "mbedtls_asn1_get_alg m p end alg ps = Some (0, q + unat len,
    alg\<lparr>buf_tag := c, buf_len := n, buf_p := q2\<rparr>, ps\<lparr>buf_tag := d, buf_len := k, buf_p := q3\<rparr>)"
  using assms by (simp add: mbedtls_asn1_get_alg_def Let_def)

lemma get_alg_null_der:
  assumes "length oid < 65000" "e = length pre + length (der_alg oid)" "e < 2 ^ 64"
  shows "\<exists>alg'. mbedtls_asn1_get_alg_null (pre @ der_alg oid @ rest) (length pre) e alg = Some (0, e, alg') \<and>
    buf_tag alg' = ASN1_OID \<and> buf_bytes (pre @ der_alg oid @ rest) alg' = oid"
proof -
  let ?o = "tlv ASN1_OID oid" and ?n = "tlv ASN1_NULL []"
  let ?v = "?o @ ?n" and ?h = "ASN1_SEQUENCE_CONSTRUCTED # der_len (length (tlv ASN1_OID oid @ tlv ASN1_NULL []))"
  define m where "m = pre @ der_alg oid @ rest"
  define q where "q = length pre + length (der_alg oid) - length ?v"
  define d where "d = length ?o - length oid"
  have lo: "length oid < 65536" and lv: "length ?v < 65536"
    using assms(1) der_len_length(2) [of "length oid"] by (simp_all add: length_tlv der_len_def)
  have m1: "m = (pre @ ?h) @ ?o @ (?n @ rest)" and m2: "m = ((pre @ ?h) @ ?o) @ ?n @ rest"
    and m0: "m = pre @ tlv ASN1_SEQUENCE_CONSTRUCTED ?v @ rest"
    by (simp_all add: m_def der_alg_def tlv_def)
  have la: "length (der_alg oid) = length ?h + length ?o + 2"
    by (simp add: der_alg_def tlv_def der_len_def [of 0])
  have ln: "length ?n = 2" by (simp add: tlv_def der_len_def)
  have q: "q = length (pre @ ?h)" by (simp add: q_def la) (simp add: tlv_def der_len_def [of 0])
  have lv2: "length ?v = length ?o + 2" by (simp add: length_tlv der_len_def)
  have e: "e = q + length ?v" using assms(2) by (simp add: q la ln)
  have t0: "mbedtls_asn1_get_tag m (length pre) e 0 ASN1_SEQUENCE_CONSTRUCTED = Some (0, q, of_nat (length ?v))"
    unfolding m0 q_def using get_tag_tlv [OF lv, of pre ASN1_SEQUENCE_CONSTRUCTED e] assms(2,3) by (simp add: der_alg_def)
  have t1: "mbedtls_asn1_get_tag m q e n ASN1_OID = Some (0, q + length ?o - length oid, of_nat (length oid))" for n
    unfolding m1 q using get_tag_tlv [OF lo, of "pre @ ?h" ASN1_OID e] assms(3) e by (simp add: q lv2)
  have lo2: "q + length ?o - length oid + length oid = q + length ?o" by (simp add: length_tlv)
  have "m = (pre @ ?h) @ ASN1_OID # (der_len (length oid) @ oid @ ?n @ rest)"
    unfolding m1 tlv_def [of ASN1_OID oid] by simp
  then have b0: "byte_at m q = Some ASN1_OID" unfolding q by (simp only: byte_at_here)
  have "m = ((pre @ ?h) @ ?o) @ ASN1_NULL # (der_len 0 @ rest)"
    unfolding m2 tlv_def [of ASN1_NULL] by simp
  then have "byte_at m (length ((pre @ ?h) @ ?o)) = Some ASN1_NULL" by (simp only: byte_at_here)
  then have b1: "byte_at m (q + length ?o) = Some ASN1_NULL" unfolding q by (simp only: length_append)
  have t2: "mbedtls_asn1_get_len m (q + length ?o + 1) e n = Some (0, e, 0)" for n
  proof -
    define r where "r = ((pre @ ?h) @ ?o) @ [ASN1_NULL]"
    have lr: "length r = q + length ?o + 1" unfolding r_def q by (simp only: length_append list.size add_0)
    have dl: "length (der_len 0) = 1" by (simp add: der_len_def)
    have er: "e = length r + length (der_len 0)" using e by (simp add: lr ln dl)
    have "m = r @ der_len 0 @ rest" unfolding m2 r_def tlv_def [of ASN1_NULL] by simp
    then show ?thesis
      using get_len_der [of 0 r e rest n] assms(3) unfolding lr [symmetric] by (simp add: er)
  qed
  have uo: "unat (of_nat (length oid) :: size_t) = length oid" "unat (of_nat (length ?v) :: size_t) = length ?v"
    using unat_of_nat_16 lo lv by blast+
  have alg: "mbedtls_asn1_get_alg m (length pre) e alg ps = Some (0, e,
      alg\<lparr>buf_tag := ASN1_OID, buf_len := of_nat (length oid), buf_p := q + length ?o - length oid\<rparr>,
      ps\<lparr>buf_tag := ASN1_NULL, buf_len := 0, buf_p := e\<rparr>)" for ps
  proof -
    have v: "q + unat (of_nat (length ?v) :: size_t) = e" "q + length ?o - length oid + unat (of_nat (length oid) :: size_t) = q + length ?o"
      by (simp_all only: uo e lo2)
    have ne: "q + length ?o \<noteq> e" "q < e" using e by (simp_all add: ln)
    show ?thesis
      using get_alg_steps [OF t0 ne(2) b0, of alg, unfolded v, OF t1, unfolded v, OF ne(1) b1 t2, of ps] by simp
  qed
  have "buf_bytes m (alg\<lparr>buf_tag := ASN1_OID, buf_len := of_nat (length oid), buf_p := q + length ?o - length oid\<rparr>) = oid"
  proof -
    have "q + length ?o - length oid = length (pre @ ?h @ ASN1_OID # der_len (length oid))"
      by (simp add: q length_tlv)
    moreover have "m = (pre @ ?h @ ASN1_OID # der_len (length oid)) @ oid @ (?n @ rest)" by (simp add: m1 tlv_def)
    ultimately show ?thesis by (simp add: buf_bytes_def uo)
  qed
  then show ?thesis unfolding m_def [symmetric]
    by (simp add: mbedtls_asn1_get_alg_null_def alg)
qed

text \<open>The content of a parsed element, in the shape the typed parsers need.\<close>

lemma get_tag_content_at:
  assumes "length v < 65536" "e = length pre + length (tlv tag v)" "e < 2 ^ 64"
  obtains q where "mbedtls_asn1_get_tag (pre @ tlv tag v @ rest) (length pre) e len tag = Some (0, q, of_nat (length v))"
    "q + length v = e" "pre @ tlv tag v @ rest = (pre @ tag # der_len (length v)) @ v @ rest"
    "length (pre @ tag # der_len (length v)) = q"
proof -
  have a: "mbedtls_asn1_get_tag (pre @ tlv tag v @ rest) (length pre) e len tag =
      Some (0, length pre + length (tlv tag v) - length v, of_nat (length v))"
    using assms by (intro get_tag_tlv) simp_all
  have b: "length pre + length (tlv tag v) - length v + length v = e" using assms(2) by (simp add: length_tlv)
  have c: "length (pre @ tag # der_len (length v)) = length pre + length (tlv tag v) - length v" by (simp add: length_tlv)
  show ?thesis by (rule that [OF a b _ c]) (simp add: tlv_def)
qed

lemma get_bool_der:
  assumes "e = length pre + length (tlv ASN1_BOOLEAN [c])" "e < 2 ^ 64"
  shows "mbedtls_asn1_get_bool (pre @ tlv ASN1_BOOLEAN [c] @ rest) (length pre) e val = Some (0, e, if c \<noteq> 0 then 1 else 0)"
proof -
  define m where "m = pre @ tlv ASN1_BOOLEAN [c] @ rest"
  have l: "length [c] < 65536" by simp
  obtain q where q: "mbedtls_asn1_get_tag m (length pre) e 0 ASN1_BOOLEAN = Some (0, q, of_nat (length [c]))"
      "q + length [c] = e" "m = (pre @ ASN1_BOOLEAN # der_len (length [c])) @ [c] @ rest"
      "length (pre @ ASN1_BOOLEAN # der_len (length [c])) = q"
    unfolding m_def by (rule get_tag_content_at [OF l assms, where len = 0 and rest = rest])
  have "byte_at m q = Some c"
    unfolding q(3) q(4) [symmetric] by (simp only: append_Cons append_Nil byte_at_here)
  then show ?thesis using q(1,2) unfolding m_def [symmetric] by (simp add: mbedtls_asn1_get_bool_def)
qed

lemma get_int_der:
  assumes "e = length pre + length (tlv ASN1_INTEGER v)" "e < 2 ^ 64" "n < 256"
    and v: "v = (if n < 128 then [of_nat n] else [0, of_nat n])"
  shows "mbedtls_asn1_get_int (pre @ tlv ASN1_INTEGER v @ rest) (length pre) e val = Some (0, e, of_nat n)"
proof -
  have l: "length v < 65536" by (simp add: v)
  define m where "m = pre @ tlv ASN1_INTEGER v @ rest"
  obtain q where q: "mbedtls_asn1_get_tag m (length pre) e 0 ASN1_INTEGER = Some (0, q, of_nat (length v))"
      "q + length v = e" "m = (pre @ ASN1_INTEGER # der_len (length v)) @ v @ rest"
      "length (pre @ ASN1_INTEGER # der_len (length v)) = q"
    unfolding m_def by (rule get_tag_content_at [OF l assms(1,2), where len = 0 and rest = rest])
  have u: "ucast (of_nat n :: byte) = (of_nat n :: u32)"
    using assms(3) by (simp add: word_unat_eq_iff unsigned_ucast_eq unat_of_nat take_bit_eq_mod)
  show ?thesis
  proof (cases "n < 128")
    case True
    have "byte_at m q = Some (of_nat n)"
      unfolding q(3) q(4) [symmetric] using True by (simp only: v if_True append_Cons append_Nil byte_at_here)
    then show ?thesis unfolding m_def [symmetric]
      using q(1,2) True short_length [OF True] by (simp add: mbedtls_asn1_get_int_def v u)
  next
    case False
    let ?h = "pre @ ASN1_INTEGER # der_len (length v)"
    have m: "m = ?h @ 0 # of_nat n # rest" using q(3) False by (simp add: v)
    then have m': "m = (?h @ [0]) @ of_nat n # rest" by simp
    have "byte_at m q = Some 0" unfolding m q(4) [symmetric] by (rule byte_at_here)
    moreover have "length (?h @ [0]) = Suc q" using q(4) by simp
    then have "byte_at m (Suc q) = Some (of_nat n)" unfolding m' by (metis byte_at_here)
    ultimately have "get_int_loop 2 m q 0 = Some (q + 2, of_nat n)"
      using u by (simp add: numeral_2_eq_2)
    with \<open>byte_at m q = Some 0\<close> show ?thesis unfolding m_def [symmetric]
      using q(1,2) False by (simp add: mbedtls_asn1_get_int_def v)
  qed
qed

text \<open>A SEQUENCE OF elements with one tag: the list has their contents, in order.\<close>

lemma sequence_loop_elements:
  assumes "\<forall>v\<in>set vs. length v < 65536" "e = length pre + length (concat (map (tlv tag) vs))" "e < 2 ^ 64"
    and "length vs < fuel" "\<And>k. alloc k"
    and m: "m = pre @ concat (map (tlv tag) vs) @ rest"
  shows "\<exists>es. sequence_loop fuel alloc m (length pre) e tag acc = Done (0, e, acc @ es) \<and>
    map (buf_bytes m) es = vs \<and> list_all (\<lambda>b. buf_tag b = tag) es"
  using assms(1,2,4) m
proof (induction vs arbitrary: pre fuel acc)
  case Nil
  then show ?case by (cases fuel) simp_all
next
  case (Cons v vs)
  obtain g where g: "fuel = Suc g" "length vs < g" using Cons.prems(3) by (cases fuel) auto
  let ?c = "concat (map (tlv tag) vs)"
  have m1: "m = pre @ tlv tag v @ (?c @ rest)" and m2: "m = (pre @ tlv tag v) @ ?c @ rest"
    using Cons.prems(4) by simp_all
  have lv: "length v < 65536" and le: "length pre + length (tlv tag v) \<le> e" using Cons.prems(1,2) by simp_all
  define q where "q = length pre + length (tlv tag v) - length v"
  have q: "mbedtls_asn1_get_tag m (length pre) e 0 tag = Some (0, q, of_nat (length v))"
    unfolding m1 q_def by (rule get_tag_tlv [OF lv le assms(3)])
  have n: "q + length v = length (pre @ tlv tag v)" by (simp add: q_def length_tlv)
  have b: "byte_at m (length pre) = Some tag" unfolding m1 tlv_def [of tag v] by (simp add: byte_at_here)
  have lt: "length pre < e" using le by (simp add: length_tlv)
  have uv: "unat (of_nat (length v) :: size_t) = length v" by (rule unat_of_nat_16 [OF lv])
  define x where "x = \<lparr>buf_tag = tag, buf_len = (of_nat (length v) :: size_t), buf_p = q\<rparr>"
  have step: "sequence_loop fuel alloc m (length pre) e tag acc =
      sequence_loop g alloc m (length (pre @ tlv tag v)) e tag (acc @ [x])"
    using lt unfolding g(1) by (simp add: b q assms(5) uv n [simplified] x_def Let_def)
  have "e = length (pre @ tlv tag v) + length ?c" using Cons.prems(2) by simp
  from Cons.IH [OF _ this g(2) m2, of "acc @ [x]"] Cons.prems(1) obtain es where
    es: "sequence_loop g alloc m (length (pre @ tlv tag v)) e tag (acc @ [x]) = Done (0, e, (acc @ [x]) @ es)"
      "map (buf_bytes m) es = vs" "list_all (\<lambda>b. buf_tag b = tag) es" by auto
  have "q = length (pre @ tag # der_len (length v))" by (simp add: q_def length_tlv)
  then have "buf_bytes m x = v" unfolding m1 buf_bytes_def x_def by (simp add: uv tlv_def)
  then show ?case unfolding step using es by (intro exI [of _ "x # es"]) (simp add: x_def)
qed

lemma get_sequence_of_elements:
  assumes "\<forall>v\<in>set vs. length v < 65536" "length (concat (map (tlv tag) vs)) < 65536" "\<And>k. alloc k"
    and "e = length pre + length (tlv ASN1_SEQUENCE_CONSTRUCTED (concat (map (tlv tag) vs)))" "e < 2 ^ 64"
    and m: "m = pre @ tlv ASN1_SEQUENCE_CONSTRUCTED (concat (map (tlv tag) vs)) @ rest"
  shows "\<exists>es. mbedtls_asn1_get_sequence_of alloc m (length pre) e tag = Done (0, e, es) \<and>
    map (buf_bytes m) es = vs \<and> list_all (\<lambda>b. buf_tag b = tag) es"
proof -
  let ?c = "concat (map (tlv tag) vs)"
  obtain q where q: "mbedtls_asn1_get_tag m (length pre) e 0 ASN1_SEQUENCE_CONSTRUCTED = Some (0, q, of_nat (length ?c))"
      "q + length ?c = e" "m = (pre @ ASN1_SEQUENCE_CONSTRUCTED # der_len (length ?c)) @ ?c @ rest"
      "length (pre @ ASN1_SEQUENCE_CONSTRUCTED # der_len (length ?c)) = q"
    unfolding m by (rule get_tag_content_at [OF assms(2,4,5), where len = 0 and rest = rest])
  have "length vs \<le> length ?c" by (induction vs) (simp_all add: length_tlv)
  then have f: "length vs < e - q + 1" using q(2) by simp
  have u: "unat (of_nat (length ?c) :: size_t) = length ?c" by (rule unat_of_nat_16 [OF assms(2)])
  have e: "e = length (pre @ ASN1_SEQUENCE_CONSTRUCTED # der_len (length ?c)) + length ?c" using q(2,4) by linarith
  from sequence_loop_elements [where alloc = alloc and acc = "[]", OF assms(1) e assms(5) f assms(3) q(3), unfolded q(4)]
  obtain es where es: "sequence_loop (e - q + 1) alloc m q e tag [] = Done (0, e, [] @ es)"
      "map (buf_bytes m) es = vs" "list_all (\<lambda>b. buf_tag b = tag) es" by (elim exE conjE) (rule that)
  show ?thesis
    unfolding mbedtls_asn1_get_sequence_of_def q(1) of_opt_simps bnd.simps split_conv u
    using q(2) es by simp
qed

subsection \<open>What the comments in the writer concede, and two slips\<close>

text \<open>Lengths above 65535 are written modulo 65536, integers modulo 256 (the source says as much).\<close>

lemma write_len_wraps:
  "mbedtls_asn1_write_len 65536 0 ([9, 9, 9, 9], 4) = Some (3, ([9, 0x82, 0, 0], 1))"
  by code_simp

lemma write_int_wraps:
  "mbedtls_asn1_write_int 256 0 ([9, 9, 9, 9], 4) = Some (3, ([9, 2, 1, 0], 1))"
  by code_simp

text \<open>An INTEGER of length 0 at the end of the input makes the parser look one byte behind it.\<close>

lemma get_int_reads_behind: "mbedtls_asn1_get_int [2, 0] 0 2 val = None"
  by (simp add: mbedtls_asn1_get_int_def mbedtls_asn1_get_tag_def mbedtls_asn1_get_len_def byte_at_def
      ASN1_INTEGER_def Let_def)

text \<open>
  Replacing a value by a shorter one keeps the recorded length and the old tail; when enlarging a
  value fails, the node is freed but stays linked, and the next lookup reads it.
\<close>

lemma store_shorter_keeps_length:
  "mbedtls_asn1_store_named_data True True True [Named [1] 3 [7, 8, 9]] [1] (Some [5]) 1 =
     Some ([Named [1] 3 [5, 8, 9]], Some 0)"
  by code_simp

lemma store_failure_dangles:
  "mbedtls_asn1_store_named_data True True False [Named [1] 1 [7]] [1] (Some [5, 6]) 2 = Some ([Freed], None)"
  "mbedtls_asn1_find_named_data [Freed] [1] = None"
  by code_simp+

subsection \<open>Properties\<close>

text \<open>
  C15. Every DER parser is total on every input: it returns with \<open>*p\<close> between its old value and
  \<open>end\<close> and reads nothing at or behind \<open>end\<close>; only the INTEGER parser needs one readable byte more.
\<close>

theorem asn1_parsers_in_bounds:
  assumes "p \<le> end" and "end \<le> length m"
  shows "in_range p end (mbedtls_asn1_get_len m p end len) \<and> in_range p end (mbedtls_asn1_get_tag m p end len tag) \<and>
    in_range p end (mbedtls_asn1_get_bool m p end val) \<and> in_range p end (mbedtls_asn1_get_bitstring m p end bs) \<and>
    in_range p end (mbedtls_asn1_get_bitstring_null m p end len) \<and>
    in_range p end (mbedtls_asn1_get_alg m p end alg params) \<and> in_range p end (mbedtls_asn1_get_alg_null m p end alg) \<and>
    ends (mbedtls_asn1_get_sequence_of alloc m p end tag) (\<lambda>(ret, p', es). p \<le> p' \<and> p' \<le> end) \<and>
    (end < length m \<longrightarrow> in_range p end (mbedtls_asn1_get_int m p end val))"
  using content_in_range [OF get_len_content [OF assms]] content_in_range [OF get_tag_content [OF assms]]
    get_bool_range [OF assms] get_bitstring_range [OF assms] get_bitstring_null_range [OF assms]
    get_alg_range [OF assms] get_alg_null_range [OF assms] get_sequence_of_range [OF assms] get_int_range [OF assms(1)]
  by (intro conjI impI)

lemma asn1_parsers_in_bounds_witness:
  "in_range 0 4 (mbedtls_asn1_get_tag [0x30, 0x83, 0xFF, 0xFF] 0 4 0 0x30)"
  using asn1_parsers_in_bounds [of 0 4 "[0x30, 0x83, 0xFF, 0xFF]"] by simp

text \<open>
  C38. An AlgorithmIdentifier written in front of \<open>p\<close> is parsed back: the code is the number of bytes
  written, the parser consumes exactly them, and the OID it points at is the one written.
\<close>

theorem asn1_algorithm_round_trip:
  assumes "length oid < 65000" and "p \<le> length b" and "length b < 2 ^ 64" and "start \<le> p"
    and "mbedtls_asn1_write_algorithm_identifier oid 0 start (b, p) = Some (r, (b', p'))" and "0 \<le> r"
  shows "r = int (p - p') \<and> start \<le> p' \<and> (\<exists>alg'. mbedtls_asn1_get_alg_null b' p' p alg = Some (0, p, alg') \<and>
    buf_tag alg' = ASN1_OID \<and> buf_bytes b' alg' = oid)"
proof -
  note w = write_alg_prepends [OF assms(1), of start]
  obtain pre where pre: "b' = pre @ der_alg oid @ drop p b" "length pre = p'" "p = p' + length (der_alg oid)"
      "r = int (length (der_alg oid))"
    by (rule prepends_written [OF w assms(5,6,4,2)])
  have "start + length (der_alg oid) \<le> p"
    using prependsD(2) [OF w, of "(b, p)"] assms(2,4-6) by (force simp: ASN1_BUF_TOO_SMALL_def)
  moreover have "p < 2 ^ 64" using assms(2,3) by simp
  ultimately show ?thesis
    using get_alg_null_der [OF assms(1), of p pre "drop p b" alg] pre by simp
qed

lemma asn1_algorithm_round_trip_witness:
  "\<exists>alg'. mbedtls_asn1_get_alg_null [9, 0x30, 7, 6, 3, 42, 3, 4, 5, 0] 1 10 \<lparr>buf_tag = 0, buf_len = 0, buf_p = 0\<rparr> =
     Some (0, 10, alg') \<and> buf_bytes [9, 0x30, 7, 6, 3, 42, 3, 4, 5, 0] alg' = [42, 3, 4]"
proof -
  have w: "mbedtls_asn1_write_algorithm_identifier [42, 3, 4] 0 0 (replicate 10 9, 10) =
      Some (9, ([9, 0x30, 7, 6, 3, 42, 3, 4, 5, 0], 1))" by code_simp
  show ?thesis using asn1_algorithm_round_trip [OF _ _ _ _ w] by auto
qed

text \<open>
  The primitive types round trip: an octet string of up to 65535 bytes, a boolean, and an
  integer below 256 (with its sign byte from 128 on) come back from the bytes their writer produced.
\<close>

theorem asn1_primitives_round_trip:
  assumes "p \<le> length b" and "length b < 2 ^ 64" and "start \<le> p" and "0 \<le> r"
  shows "(length s < 65536 \<and> mbedtls_asn1_write_octet_string s start (b, p) = Some (r, (b', p')) \<longrightarrow>
      (\<exists>q. mbedtls_asn1_get_tag b' p' p n ASN1_OCTET_STRING = Some (0, q, of_nat (length s)) \<and>
         q + length s = p \<and> take (length s) (drop q b') = s)) \<and>
    (mbedtls_asn1_write_bool v start (b, p) = Some (r, (b', p')) \<longrightarrow>
      mbedtls_asn1_get_bool b' p' p i = Some (0, p, if v then 1 else 0)) \<and>
    (k < 256 \<and> mbedtls_asn1_write_int (of_nat k) start (b, p) = Some (r, (b', p')) \<longrightarrow>
      mbedtls_asn1_get_int b' p' p i = Some (0, p, of_nat k))"
proof (intro conjI impI; (elim conjE)?)
  have p64: "p < 2 ^ 64" using assms(1,2) by simp
  show "\<exists>q. mbedtls_asn1_get_tag b' p' p n ASN1_OCTET_STRING = Some (0, q, of_nat (length s)) \<and>
         q + length s = p \<and> take (length s) (drop q b') = s"
    if l: "length s < 65536" and w: "mbedtls_asn1_write_octet_string s start (b, p) = Some (r, (b', p'))"
  proof -
    obtain pre where pre: "b' = pre @ tlv ASN1_OCTET_STRING s @ drop p b" "length pre = p'"
        "p = p' + length (tlv ASN1_OCTET_STRING s)"
      by (rule prepends_written [OF write_string_prepends [OF l] w [unfolded mbedtls_asn1_write_octet_string_def]
            assms(4,3,1)])
    have e: "p = length pre + length (tlv ASN1_OCTET_STRING s)" using pre by simp
    obtain q where "mbedtls_asn1_get_tag b' p' p n ASN1_OCTET_STRING = Some (0, q, of_nat (length s))"
        "q + length s = p" "b' = (pre @ ASN1_OCTET_STRING # der_len (length s)) @ s @ drop p b"
        "length (pre @ ASN1_OCTET_STRING # der_len (length s)) = q"
      unfolding pre(1) pre(2) [symmetric]
      by (rule get_tag_content_at [OF l e p64, where len = n and rest = "drop p b"])
    then show ?thesis by (intro exI [of _ q]) auto
  qed
  show "mbedtls_asn1_get_bool b' p' p i = Some (0, p, if v then 1 else 0)"
    if w: "mbedtls_asn1_write_bool v start (b, p) = Some (r, (b', p'))"
  proof -
    obtain pre where pre: "b' = pre @ tlv ASN1_BOOLEAN [if v then 1 else 0] @ drop p b" "length pre = p'"
        "p = p' + length (tlv ASN1_BOOLEAN [if v then 1 else 0])"
      by (rule prepends_written [OF write_bool_prepends w assms(4,3,1)])
    have e: "p = length pre + length (tlv ASN1_BOOLEAN [if v then 1 else 0])" using pre by simp
    show ?thesis unfolding pre(1) pre(2) [symmetric] by (subst get_bool_der [OF e p64]) simp
  qed
  show "mbedtls_asn1_get_int b' p' p i = Some (0, p, of_nat k)"
    if k: "k < 256" and w: "mbedtls_asn1_write_int (of_nat k) start (b, p) = Some (r, (b', p'))"
  proof -
    let ?v = "if k < 128 then [of_nat k] else [0, of_nat k]"
    obtain pre where pre: "b' = pre @ tlv ASN1_INTEGER ?v @ drop p b" "length pre = p'"
        "p = p' + length (tlv ASN1_INTEGER ?v)"
      by (rule prepends_written [OF write_int_prepends [OF k] w assms(4,3,1)])
    have e: "p = length pre + length (tlv ASN1_INTEGER ?v)" using pre by simp
    show ?thesis unfolding pre(1) pre(2) [symmetric] by (rule get_int_der [OF e p64 k refl])
  qed
qed

lemma asn1_primitives_round_trip_witness:
  "mbedtls_asn1_get_int [9, 2, 2, 0, 200] 1 5 77 = Some (0, 5, 200)"
proof -
  have w: "mbedtls_asn1_write_int (of_nat 200) 0 (replicate 5 9, 5) = Some (4, ([9, 2, 2, 0, 200], 1))" by code_simp
  show ?thesis
    using asn1_primitives_round_trip [of 5 "replicate 5 9" 0 4 _ "[9, 2, 2, 0, 200]" 1 _ _ 77 200] w by simp
qed

text \<open>
  C39. A SEQUENCE OF elements with one tag is split into exactly its elements, in order, when every
  list node can be allocated.
\<close>

theorem asn1_sequence_split:
  assumes "\<forall>v\<in>set vs. length v < 65536" and "length (concat (map (tlv tag) vs)) < 65536" and "\<And>k. alloc k"
    and "e = length pre + length (tlv ASN1_SEQUENCE_CONSTRUCTED (concat (map (tlv tag) vs)))" and "e < 2 ^ 64"
    and "m = pre @ tlv ASN1_SEQUENCE_CONSTRUCTED (concat (map (tlv tag) vs)) @ rest"
  shows "\<exists>es. mbedtls_asn1_get_sequence_of alloc m (length pre) e tag = Done (0, e, es) \<and>
    map (buf_bytes m) es = vs \<and> list_all (\<lambda>b. buf_tag b = tag) es"
  by (rule get_sequence_of_elements [where alloc = alloc, OF assms])

lemma asn1_sequence_split_witness:
  "\<exists>es. mbedtls_asn1_get_sequence_of (\<lambda>_. True) [0x30, 5, 2, 0, 2, 1, 7] 0 7 2 = Done (0, 7, es) \<and>
     map (buf_bytes [0x30, 5, 2, 0, 2, 1, 7]) es = [[], [7]] \<and> list_all (\<lambda>b. buf_tag b = 2) es"
proof -
  let ?c = "concat (map (tlv 2) [[], [7]])"
  have c: "\<forall>v\<in>set [[], [7 :: byte]]. length v < 65536" "length ?c < 65536" by (simp_all add: tlv_def der_len_def)
  have e: "7 = length ([] :: byte list) + length (tlv ASN1_SEQUENCE_CONSTRUCTED ?c)" by code_simp
  have m: "[0x30, 5, 2, 0, 2, 1, 7] = [] @ tlv ASN1_SEQUENCE_CONSTRUCTED ?c @ []" by code_simp
  have "(7 :: nat) < 2 ^ 64" by simp
  from asn1_sequence_split [where alloc = "\<lambda>_. True", OF c TrueI e this m]
  show ?thesis by (simp only: list.size)
qed

end
