(* ===== verification/Mbedtls_Sha256.thy ===== *)
theory Mbedtls_Sha256
  imports Prelude
begin

unbundle bit_operations_syntax

text \<open>
  The SHA-256 / SHA-224 implementation of the bundled mbedTLS
  (src/external_libs/mbedTLS/library/sha256.c), the hash under the certificate signatures and the
  TLS handshake. The unrolled compression function is modelled as written (arrays as lists, the
  macro \<open>P\<close> with its eight rotating indices, \<open>R\<close> filling the schedule on the way); the buffering
  of \<open>mbedtls_sha256_update\<close> with its 32-bit counters and the padding of \<open>mbedtls_sha256_finish\<close>
  likewise. The reference is FIPS 180-4: rounds on a tuple, the message schedule, padding by the
  message length, blocks folded from the left. Shown: any sequence of updates hashes the
  concatenated message.
\<close>

subsection \<open>The program\<close>

record sha256_context =
  sha_total :: "u32 \<times> u32"
  sha_state :: "u32 list"
  sha_buffer :: "byte list"
  sha_is224 :: int

definition GET_UINT32_BE :: "byte list \<Rightarrow> nat \<Rightarrow> u32" where
  "GET_UINT32_BE b i = push_bit 24 (ucast (b ! i)) OR push_bit 16 (ucast (b ! (i + 1)))
     OR push_bit 8 (ucast (b ! (i + 2))) OR ucast (b ! (i + 3))"

definition PUT_UINT32_BE :: "u32 \<Rightarrow> byte list" where
  "PUT_UINT32_BE n = [ucast (drop_bit 24 n), ucast (drop_bit 16 n), ucast (drop_bit 8 n), ucast n]"

definition mbedtls_sha256_init :: sha256_context where
  "mbedtls_sha256_init = \<lparr>sha_total = (0, 0), sha_state = replicate 8 0, sha_buffer = replicate 64 0, sha_is224 = 0\<rparr>"

definition mbedtls_sha256_clone :: "sha256_context \<Rightarrow> sha256_context \<Rightarrow> sha256_context" where
  "mbedtls_sha256_clone dst src = src"

definition sha256_initial :: "int \<Rightarrow> u32 list" where
  "sha256_initial is224 = (if is224 = 0
     then [0x6A09E667, 0xBB67AE85, 0x3C6EF372, 0xA54FF53A, 0x510E527F, 0x9B05688C, 0x1F83D9AB, 0x5BE0CD19]
     else [0xC1059ED8, 0x367CD507, 0x3070DD17, 0xF70E5939, 0xFFC00B31, 0x68581511, 0x64F98FA7, 0xBEFA4FA4])"

definition mbedtls_sha256_starts :: "sha256_context \<Rightarrow> int \<Rightarrow> sha256_context" where
  "mbedtls_sha256_starts ctx is224 = ctx\<lparr>sha_total := (0, 0), sha_state := sha256_initial is224, sha_is224 := is224\<rparr>"

definition sha256_K :: "u32 list" where
  "sha256_K = [
    0x428A2F98, 0x71374491, 0xB5C0FBCF, 0xE9B5DBA5, 0x3956C25B, 0x59F111F1, 0x923F82A4, 0xAB1C5ED5,
    0xD807AA98, 0x12835B01, 0x243185BE, 0x550C7DC3, 0x72BE5D74, 0x80DEB1FE, 0x9BDC06A7, 0xC19BF174,
    0xE49B69C1, 0xEFBE4786, 0x0FC19DC6, 0x240CA1CC, 0x2DE92C6F, 0x4A7484AA, 0x5CB0A9DC, 0x76F988DA,
    0x983E5152, 0xA831C66D, 0xB00327C8, 0xBF597FC7, 0xC6E00BF3, 0xD5A79147, 0x06CA6351, 0x14292967,
    0x27B70A85, 0x2E1B2138, 0x4D2C6DFC, 0x53380D13, 0x650A7354, 0x766A0ABB, 0x81C2C92E, 0x92722C85,
    0xA2BFE8A1, 0xA81A664B, 0xC24B8B70, 0xC76C51A3, 0xD192E819, 0xD6990624, 0xF40E3585, 0x106AA070,
    0x19A4C116, 0x1E376C08, 0x2748774C, 0x34B0BCB5, 0x391C0CB3, 0x4ED8AA4A, 0x5B9CCA4F, 0x682E6FF3,
    0x748F82EE, 0x78A5636F, 0x84C87814, 0x8CC70208, 0x90BEFFFA, 0xA4506CEB, 0xBEF9A3F7, 0xC67178F2]"

definition SHR :: "u32 \<Rightarrow> nat \<Rightarrow> u32" where "SHR x n = drop_bit n (x AND 0xFFFFFFFF)"
definition ROTR :: "u32 \<Rightarrow> nat \<Rightarrow> u32" where "ROTR x n = SHR x n OR push_bit (32 - n) x"
definition S0 :: "u32 \<Rightarrow> u32" where "S0 x = ROTR x 7 XOR ROTR x 18 XOR SHR x 3"
definition S1 :: "u32 \<Rightarrow> u32" where "S1 x = ROTR x 17 XOR ROTR x 19 XOR SHR x 10"
definition S2 :: "u32 \<Rightarrow> u32" where "S2 x = ROTR x 2 XOR ROTR x 13 XOR ROTR x 22"
definition S3 :: "u32 \<Rightarrow> u32" where "S3 x = ROTR x 6 XOR ROTR x 11 XOR ROTR x 25"
definition F0 :: "u32 \<Rightarrow> u32 \<Rightarrow> u32 \<Rightarrow> u32" where "F0 x y z = (x AND y) OR (z AND (x OR y))"
definition F1 :: "u32 \<Rightarrow> u32 \<Rightarrow> u32 \<Rightarrow> u32" where "F1 x y z = z XOR (x AND (y XOR z))"

definition sha_R :: "nat \<Rightarrow> u32 list \<Rightarrow> u32 list" where
  "sha_R t W = W[t := S1 (W ! (t - 2)) + W ! (t - 7) + S0 (W ! (t - 15)) + W ! (t - 16)]"

text \<open>The macro \<open>P\<close> on the array \<open>A\<close>; its arguments \<open>a\<close> to \<open>h\<close> are indices.\<close>

definition sha_P :: "nat \<Rightarrow> nat \<Rightarrow> nat \<Rightarrow> nat \<Rightarrow> nat \<Rightarrow> nat \<Rightarrow> nat \<Rightarrow> nat \<Rightarrow> u32 \<Rightarrow> u32 \<Rightarrow> u32 list \<Rightarrow> u32 list" where
  "sha_P a b c d e f g h x k A =
     (let temp1 = A ! h + S3 (A ! e) + F1 (A ! e) (A ! f) (A ! g) + k + x;
          temp2 = S2 (A ! a) + F0 (A ! a) (A ! b) (A ! c);
          A = A[d := A ! d + temp1] in
      A[h := temp1 + temp2])"

text \<open>The bodies of the two unrolled loops.\<close>

definition sha_rounds :: "nat \<Rightarrow> u32 list \<Rightarrow> u32 list \<Rightarrow> u32 list" where
  "sha_rounds i W A =
     (let A = sha_P 0 1 2 3 4 5 6 7 (W ! (i + 0)) (sha256_K ! (i + 0)) A;
          A = sha_P 7 0 1 2 3 4 5 6 (W ! (i + 1)) (sha256_K ! (i + 1)) A;
          A = sha_P 6 7 0 1 2 3 4 5 (W ! (i + 2)) (sha256_K ! (i + 2)) A;
          A = sha_P 5 6 7 0 1 2 3 4 (W ! (i + 3)) (sha256_K ! (i + 3)) A;
          A = sha_P 4 5 6 7 0 1 2 3 (W ! (i + 4)) (sha256_K ! (i + 4)) A;
          A = sha_P 3 4 5 6 7 0 1 2 (W ! (i + 5)) (sha256_K ! (i + 5)) A;
          A = sha_P 2 3 4 5 6 7 0 1 (W ! (i + 6)) (sha256_K ! (i + 6)) A in
      sha_P 1 2 3 4 5 6 7 0 (W ! (i + 7)) (sha256_K ! (i + 7)) A)"

definition sha_rounds_R :: "nat \<Rightarrow> u32 list \<times> u32 list \<Rightarrow> u32 list \<times> u32 list" where
  "sha_rounds_R i = (\<lambda>(W, A).
     let W = sha_R (i + 0) W; A = sha_P 0 1 2 3 4 5 6 7 (W ! (i + 0)) (sha256_K ! (i + 0)) A;
         W = sha_R (i + 1) W; A = sha_P 7 0 1 2 3 4 5 6 (W ! (i + 1)) (sha256_K ! (i + 1)) A;
         W = sha_R (i + 2) W; A = sha_P 6 7 0 1 2 3 4 5 (W ! (i + 2)) (sha256_K ! (i + 2)) A;
         W = sha_R (i + 3) W; A = sha_P 5 6 7 0 1 2 3 4 (W ! (i + 3)) (sha256_K ! (i + 3)) A;
         W = sha_R (i + 4) W; A = sha_P 4 5 6 7 0 1 2 3 (W ! (i + 4)) (sha256_K ! (i + 4)) A;
         W = sha_R (i + 5) W; A = sha_P 3 4 5 6 7 0 1 2 (W ! (i + 5)) (sha256_K ! (i + 5)) A;
         W = sha_R (i + 6) W; A = sha_P 2 3 4 5 6 7 0 1 (W ! (i + 6)) (sha256_K ! (i + 6)) A;
         W = sha_R (i + 7) W; A = sha_P 1 2 3 4 5 6 7 0 (W ! (i + 7)) (sha256_K ! (i + 7)) A in
     (W, A))"

text \<open>
  \<open>mbedtls_sha256_process\<close>; the part of \<open>W\<close> that is not loaded is uninitialised and written before
  it is read.
\<close>

definition mbedtls_sha256_process :: "sha256_context \<Rightarrow> byte list \<Rightarrow> sha256_context" where
  "mbedtls_sha256_process ctx data =
     (let A = sha_state ctx;
          W = map (\<lambda>i. GET_UINT32_BE data (4 * i)) [0..<16] @ replicate 48 0;
          A = fold (\<lambda>i. sha_rounds i W) [0, 8] A;
          (W, A) = fold sha_rounds_R [16, 24, 32, 40, 48, 56] (W, A) in
      ctx\<lparr>sha_state := map2 (+) (sha_state ctx) A\<rparr>)"

text \<open>\<open>memcpy( buffer + left, input, n )\<close> with all of \<open>bs\<close>; it stays inside when the length is kept.\<close>

definition copy_at :: "nat \<Rightarrow> byte list \<Rightarrow> byte list \<Rightarrow> byte list" where
  "copy_at left bs buf = take left buf @ bs @ drop (left + length bs) buf"

function update_loop :: "sha256_context \<Rightarrow> byte list \<Rightarrow> sha256_context \<times> byte list" where
  "update_loop ctx input =
     (if 64 \<le> length input then update_loop (mbedtls_sha256_process ctx (take 64 input)) (drop 64 input)
      else (ctx, input))"
  by pat_completeness auto
termination by (relation "measure (\<lambda>(ctx, input). length input)") auto

declare update_loop.simps [simp del]

definition mbedtls_sha256_update :: "sha256_context \<Rightarrow> byte list \<Rightarrow> sha256_context" where
  "mbedtls_sha256_update ctx input =
     (let ilen = of_nat (length input) :: size_t in
      if ilen = 0 then ctx
      else
        let left = fst (sha_total ctx) AND 0x3F;
            fill = unat (64 - ucast left :: size_t);
            total0 = (fst (sha_total ctx) + ucast ilen) AND 0xFFFFFFFF;
            total1 = (if total0 < ucast ilen then snd (sha_total ctx) + 1 else snd (sha_total ctx));
            ctx = ctx\<lparr>sha_total := (total0, total1)\<rparr>;
            (ctx, input, left) =
              (if left \<noteq> 0 \<and> fill \<le> length input then
                 let ctx = ctx\<lparr>sha_buffer := copy_at (unat left) (take fill input) (sha_buffer ctx)\<rparr> in
                 (mbedtls_sha256_process ctx (sha_buffer ctx), drop fill input, 0)
               else (ctx, input, left));
            (ctx, input) = update_loop ctx input in
        if 0 < length input then ctx\<lparr>sha_buffer := copy_at (unat left) input (sha_buffer ctx)\<rparr> else ctx)"

definition sha256_padding :: "byte list" where
  "sha256_padding = 0x80 # replicate 63 0"

definition mbedtls_sha256_finish :: "sha256_context \<Rightarrow> byte list \<Rightarrow> sha256_context \<times> byte list" where
  "mbedtls_sha256_finish ctx output =
     (let (total0, total1) = sha_total ctx;
          high = drop_bit 29 total0 OR push_bit 3 total1;
          low = push_bit 3 total0;
          msglen = PUT_UINT32_BE high @ PUT_UINT32_BE low;
          last = total0 AND 0x3F;
          padn = (if last < 56 then 56 - last else 120 - last);
          ctx = mbedtls_sha256_update ctx (take (unat padn) sha256_padding);
          ctx = mbedtls_sha256_update ctx msglen;
          out = concat (map (\<lambda>i. PUT_UINT32_BE (sha_state ctx ! i)) [0..<7]);
          out = (if sha_is224 ctx = 0 then out @ PUT_UINT32_BE (sha_state ctx ! 7) else out) in
      (ctx, copy_at 0 out output))"

definition mbedtls_sha256 :: "byte list \<Rightarrow> byte list \<Rightarrow> int \<Rightarrow> byte list" where
  "mbedtls_sha256 input output is224 =
     (let ctx = mbedtls_sha256_starts mbedtls_sha256_init is224;
          ctx = mbedtls_sha256_update ctx input in
      snd (mbedtls_sha256_finish ctx output))"

subsection \<open>The reference: FIPS 180-4\<close>

definition Ch :: "u32 \<Rightarrow> u32 \<Rightarrow> u32 \<Rightarrow> u32" where "Ch x y z = (x AND y) XOR (NOT x AND z)"
definition Maj :: "u32 \<Rightarrow> u32 \<Rightarrow> u32 \<Rightarrow> u32" where "Maj x y z = (x AND y) XOR (x AND z) XOR (y AND z)"
definition Sum0 :: "u32 \<Rightarrow> u32" where "Sum0 x = word_rotr 2 x XOR word_rotr 13 x XOR word_rotr 22 x"
definition Sum1 :: "u32 \<Rightarrow> u32" where "Sum1 x = word_rotr 6 x XOR word_rotr 11 x XOR word_rotr 25 x"
definition sig0 :: "u32 \<Rightarrow> u32" where "sig0 x = word_rotr 7 x XOR word_rotr 18 x XOR drop_bit 3 x"
definition sig1 :: "u32 \<Rightarrow> u32" where "sig1 x = word_rotr 17 x XOR word_rotr 19 x XOR drop_bit 10 x"

text \<open>The schedule \<open>W\<^sub>0 \<dots>\<close> of a block of 16 words, extended by \<open>n\<close> words.\<close>

primrec schedule :: "nat \<Rightarrow> u32 list \<Rightarrow> u32 list" where
  "schedule 0 M = M"
| "schedule (Suc n) M = (let W = schedule n M; t = n + 16 in
     W @ [sig1 (W ! (t - 2)) + W ! (t - 7) + sig0 (W ! (t - 15)) + W ! (t - 16)])"

fun fips_round :: "u32 \<Rightarrow> u32 \<Rightarrow> u32 list \<Rightarrow> u32 list" where
  "fips_round w k [a, b, c, d, e, f, g, h] =
     (let T1 = h + Sum1 e + Ch e f g + k + w; T2 = Sum0 a + Maj a b c in
      [T1 + T2, a, b, c, d + T1, e, f, g])"
| "fips_round w k xs = xs"

definition fips_compress :: "u32 list \<Rightarrow> byte list \<Rightarrow> u32 list" where
  "fips_compress H block =
     (let W = schedule 48 (map (\<lambda>i. GET_UINT32_BE block (4 * i)) [0..<16]) in
      map2 (+) H (fold (\<lambda>t. fips_round (W ! t) (sha256_K ! t)) [0..<64] H))"

text \<open>The complete blocks of \<open>m\<close> folded into \<open>H\<close>, with the incomplete rest.\<close>

function absorb :: "u32 list \<Rightarrow> byte list \<Rightarrow> u32 list \<times> byte list" where
  "absorb H m = (if 64 \<le> length m then absorb (fips_compress H (take 64 m)) (drop 64 m) else (H, m))"
  by pat_completeness auto
termination by (relation "measure (\<lambda>(H, m). length m)") auto

declare absorb.simps [simp del]

text \<open>Padding: one bit, zeros up to 448 modulo 512 bits, the length in bits as 64 bits.\<close>

definition fips_pad :: "byte list \<Rightarrow> byte list" where
  "fips_pad m = m @ [0x80] @ replicate ((119 - length m mod 64) mod 64) 0 @
     PUT_UINT32_BE (of_nat (8 * length m div 2 ^ 32)) @ PUT_UINT32_BE (of_nat (8 * length m))"

definition fips_sha256 :: "byte list \<Rightarrow> byte list" where
  "fips_sha256 m = concat (map PUT_UINT32_BE (fst (absorb (sha256_initial 0) (fips_pad m))))"

definition fips_sha224 :: "byte list \<Rightarrow> byte list" where
  "fips_sha224 m = concat (map PUT_UINT32_BE (take 7 (fst (absorb (sha256_initial 1) (fips_pad m)))))"

subsection \<open>The macros are the functions of the standard\<close>

lemma F0_Maj: "F0 x y z = Maj x y z"
  by (rule bit_word_eqI) (auto simp: F0_def Maj_def bit_simps)

lemma F1_Ch: "F1 x y z = Ch x y z"
  by (rule bit_word_eqI) (auto simp: F1_def Ch_def bit_simps)

lemma SHR_drop: "SHR x n = drop_bit n x"
proof -
  have "x AND 0xFFFFFFFF = x AND mask 32" by (simp add: mask_eq_exp_minus_1)
  also have "\<dots> = x" by (simp add: take_bit_eq_mask [symmetric] take_bit_word_eq_self)
  finally show ?thesis by (simp add: SHR_def)
qed

lemma ROTR_rotr: "0 < n \<Longrightarrow> n < 32 \<Longrightarrow> ROTR x n = word_rotr n x"
  unfolding ROTR_def SHR_drop
proof (rule bit_word_eqI)
  fix k assume "0 < n" "n < 32" "k < LENGTH(32)"
  have l: "LENGTH(32) = (32 :: nat)" by simp
  have r: "bit (word_rotr n x) k = bit x ((k + n) mod 32)" using \<open>k < LENGTH(32)\<close> unfolding bit_word_rotr_iff l by simp
  have d: "bit (drop_bit n x OR push_bit (32 - n) x) k \<longleftrightarrow> bit x (n + k) \<or> 32 - n \<le> k \<and> bit x (k - (32 - n))"
    using \<open>k < LENGTH(32)\<close> unfolding l by (auto simp: bit_or_iff bit_drop_bit_eq bit_push_bit_iff)
  show "bit (drop_bit n x OR push_bit (32 - n) x) k = bit (word_rotr n x) k"
  proof (cases "k + n < 32")
    case True
    then have "\<not> 32 - n \<le> k" by linarith
    then show ?thesis using True unfolding r d by (simp add: add.commute)
  next
    case False
    have "\<not> bit x (n + k)" using False bit_imp_le_length [of x "n + k"] unfolding l by auto
    moreover have "(k + n) mod 32 = k - (32 - n)" using False \<open>n < 32\<close> \<open>k < LENGTH(32)\<close> unfolding l
      by (simp add: mod_if)
    moreover have "32 - n \<le> k" using False by linarith
    ultimately show ?thesis unfolding r d by simp
  qed
qed

lemma macro_functions: "S0 = sig0" "S1 = sig1" "S2 = Sum0" "S3 = Sum1"
  by (auto simp: fun_eq_iff S0_def S1_def S2_def S3_def sig0_def sig1_def Sum0_def Sum1_def ROTR_rotr SHR_drop)

subsection \<open>The unrolled rounds\<close>

text \<open>The array \<open>A\<close> as the standard's \<open>a, \<dots>, h\<close> after \<open>j\<close> rounds of a group of eight.\<close>

definition view :: "nat \<Rightarrow> u32 list \<Rightarrow> u32 list" where
  "view j A = map (\<lambda>i. A ! ((i + 8 - j) mod 8)) [0..<8]"

lemma list_8:
  assumes "length A = 8"
  obtains a b c d e f g h where "A = [a, b, c, d, e, f, g, h]"
  using assms by (auto simp: numeral_eq_Suc length_Suc_conv)

lemma view_0: "length A = 8 \<Longrightarrow> view 0 A = A" and view_8: "length A = 8 \<Longrightarrow> view 8 A = A"
  by (erule list_8, simp add: view_def upt_rec)+

lemma sha_P_length [simp]: "length (sha_P a b c d e f g h x k A) = length A"
  by (simp add: sha_P_def Let_def)

text \<open>Each line of the loop body is one round, seen from the rotated view.\<close>

lemma sha_P_view:
  assumes "length A = 8"
  shows "view 1 (sha_P 0 1 2 3 4 5 6 7 x k A) = fips_round x k (view 0 A)"
    and "view 2 (sha_P 7 0 1 2 3 4 5 6 x k A) = fips_round x k (view 1 A)"
    and "view 3 (sha_P 6 7 0 1 2 3 4 5 x k A) = fips_round x k (view 2 A)"
    and "view 4 (sha_P 5 6 7 0 1 2 3 4 x k A) = fips_round x k (view 3 A)"
    and "view 5 (sha_P 4 5 6 7 0 1 2 3 x k A) = fips_round x k (view 4 A)"
    and "view 6 (sha_P 3 4 5 6 7 0 1 2 x k A) = fips_round x k (view 5 A)"
    and "view 7 (sha_P 2 3 4 5 6 7 0 1 x k A) = fips_round x k (view 6 A)"
    and "view 8 (sha_P 1 2 3 4 5 6 7 0 x k A) = fips_round x k (view 7 A)"
  using assms by (elim list_8, simp add: view_def upt_rec sha_P_def Let_def macro_functions F0_Maj F1_Ch)+

lemma fips_round_length [simp]: "length (fips_round w k A) = length A"
  by (cases "(w, k, A)" rule: fips_round.cases) (simp_all add: Let_def)

text \<open>A group of eight rounds.\<close>

definition eight_rounds :: "nat \<Rightarrow> u32 list \<Rightarrow> u32 list \<Rightarrow> u32 list" where
  "eight_rounds i W = fold (\<lambda>t. fips_round (W ! t) (sha256_K ! t)) [i..<i + 8]"

lemma upt_8: "[i..<i + 8] = [i + 0, i + 1, i + 2, i + 3, i + 4, i + 5, i + 6, i + 7]"
  by (simp add: upt_rec)

lemma eight_rounds_cong: "take (i + 8) W = take (i + 8) V \<Longrightarrow> eight_rounds i W A = eight_rounds i V A"
  unfolding eight_rounds_def
proof (rule fold_cong [OF refl refl])
  fix t assume "take (i + 8) W = take (i + 8) V" "t \<in> set [i..<i + 8]"
  then have "take (i + 8) W ! t = take (i + 8) V ! t" "t < i + 8" by simp_all
  then have "W ! t = V ! t" by simp
  then show "fips_round (W ! t) (sha256_K ! t) = fips_round (V ! t) (sha256_K ! t)" by simp
qed

lemma sha_rounds_eight:
  assumes "length A = 8"
  shows "sha_rounds i W A = eight_rounds i W A"
proof -
  have l: "length (sha_rounds i W A) = 8" using assms by (simp add: sha_rounds_def Let_def)
  have "view 8 (sha_rounds i W A) = eight_rounds i W (view 0 A)"
    unfolding eight_rounds_def upt_8 using assms
    by (simp only: sha_rounds_def Let_def sha_P_view sha_P_length fold.simps comp_apply id_apply)
  then show ?thesis using assms l by (simp add: view_0 view_8)
qed

subsection \<open>The schedule, filled on the way\<close>

lemma schedule_length [simp]: "length (schedule n M) = length M + n"
  by (induction n) (simp_all add: Let_def)

lemma schedule_take: "n \<le> k \<Longrightarrow> take (length M + n) (schedule k M) = schedule n M"
proof (induction k)
  case (Suc k)
  then show ?case by (cases "n = Suc k") (simp_all add: Let_def)
qed simp

text \<open>\<open>W\<close> holds the first \<open>t\<close> words of the schedule of \<open>M\<close>.\<close>

definition filled :: "u32 list \<Rightarrow> nat \<Rightarrow> u32 list \<Rightarrow> bool" where
  "filled M t W \<longleftrightarrow> length W = 64 \<and> take t W = schedule (t - 16) M"

lemma sha_R_filled:
  assumes "filled M t W" "length M = 16" "16 \<le> t" "t < 64"
  shows "filled M (Suc t) (sha_R t W)"
proof -
  have w: "length W = 64" "take t W = schedule (t - 16) M" using assms(1) by (simp_all add: filled_def)
  have n: "schedule (t - 16) M ! j = W ! j" if "j < t" for j using that w(2) by (metis nth_take)
  have s: "Suc t - 16 = Suc (t - 16)" using assms(3) by simp
  have "take (Suc t) (sha_R t W) = take t W @ [sha_R t W ! t]"
    using assms(4) w(1) by (simp add: take_Suc_conv_app_nth sha_R_def)
  also have "sha_R t W ! t = sig1 (W ! (t - 2)) + W ! (t - 7) + sig0 (W ! (t - 15)) + W ! (t - 16)"
    using assms(4) w(1) by (simp add: sha_R_def macro_functions)
  also have "take t W @ [\<dots>] = schedule (Suc t - 16) M"
    unfolding s using assms(3) by (simp add: Let_def w(2) n)
  finally show ?thesis using w(1) by (simp add: filled_def sha_R_def)
qed

lemma filled_take: "filled M t W \<Longrightarrow> s \<le> t \<Longrightarrow> 16 \<le> s \<Longrightarrow> length M = 16 \<Longrightarrow> filled M s W"
  unfolding filled_def using schedule_take [of "s - 16" "t - 16" M]
  by (metis le_add_diff_inverse diff_le_mono min.absorb1 take_take)

text \<open>The lines read words that are already in place, so filling first and running the rounds after is the same.\<close>

lemma sha_R_before: "j < t \<Longrightarrow> sha_R t W ! j = W ! j"
  by (simp add: sha_R_def)

lemma sha_R_length [simp]: "length (sha_R t W) = length W"
  by (simp add: sha_R_def)

lemma sha_rounds_R_split:
  "sha_rounds_R i (W, A) = (let V = fold sha_R [i + 0, i + 1, i + 2, i + 3, i + 4, i + 5, i + 6, i + 7] W in
     (V, sha_rounds i V A))"
  by (simp add: sha_rounds_R_def sha_rounds_def Let_def sha_R_before)

lemma fold_sha_R_filled:
  "filled M i W \<Longrightarrow> length M = 16 \<Longrightarrow> 16 \<le> i \<Longrightarrow> i + n \<le> 64 \<Longrightarrow> filled M (i + n) (fold sha_R [i..<i + n] W)"
  by (induction n) (use sha_R_filled in auto)

lemma sha_rounds_R_step:
  assumes "filled M i W" "length M = 16" "16 \<le> i" "i + 8 \<le> 64" "length A = 8"
  obtains V where "sha_rounds_R i (W, A) = (V, eight_rounds i V A)" "filled M (i + 8) V"
proof -
  have "sha_rounds_R i (W, A) = (fold sha_R [i..<i + 8] W, eight_rounds i (fold sha_R [i..<i + 8] W) A)"
    unfolding sha_rounds_R_split upt_8 Let_def using sha_rounds_eight [OF assms(5)] by simp
  then show ?thesis using that fold_sha_R_filled [OF assms(1-4)] by blast
qed

lemma eight_rounds_length [simp]: "length (eight_rounds i W A) = length A"
  unfolding eight_rounds_def by (rule fold_invariant [of _ "\<lambda>_. True" "\<lambda>B. length B = length A"]) simp_all

lemma filled_rounds: "filled M t W \<Longrightarrow> length M = 16 \<Longrightarrow> 16 \<le> i + 8 \<Longrightarrow> i + 8 \<le> t \<Longrightarrow> t \<le> 64 \<Longrightarrow>
    eight_rounds i W A = eight_rounds i (schedule 48 M) A"
proof (rule eight_rounds_cong)
  assume a: "filled M t W" "length M = 16" "16 \<le> i + 8" "i + 8 \<le> t" "t \<le> 64"
  have "take (i + 8) W = take (i + 8) (take t W)" using a(4) by (simp add: min_absorb1)
  also have "take t W = take t (schedule 48 M)"
    using a schedule_take [of "t - 16" 48 M] by (simp add: filled_def)
  finally show "take (i + 8) W = take (i + 8) (schedule 48 M)" using a(4) by (simp add: min_absorb1)
qed

text \<open>The second loop from the state before it, and the whole of the function.\<close>

lemma second_loop:
  assumes "filled M i W" "length M = 16" "length A = 8" "list_all (\<lambda>i. 16 \<le> i \<and> i + 8 \<le> 64) is"
    and "is = map (\<lambda>j. i + 8 * j) [0..<length is]"
  shows "snd (fold sha_rounds_R is (W, A)) = fold (\<lambda>i. eight_rounds i (schedule 48 M)) is A"
  using assms
proof (induction "is" arbitrary: i W A)
  case (Cons k ks)
  have "((\<lambda>j. i + 8 * j) \<circ> Suc) = (\<lambda>j. i + 8 + 8 * j)" by (simp add: fun_eq_iff)
  then have k: "k = i" "ks = map (\<lambda>j. (i + 8) + 8 * j) [0..<length ks]"
    using Cons.prems(5) by (auto simp: upt_conv_Cons map_Suc_upt [symmetric] simp del: upt_Suc)
  obtain V where V: "sha_rounds_R i (W, A) = (V, eight_rounds i V A)" "filled M (i + 8) V"
    using sha_rounds_R_step [OF Cons.prems(1,2)] Cons.prems(3,4) k(1) by auto
  have "eight_rounds i V A = eight_rounds i (schedule 48 M) A"
    by (rule filled_rounds [OF V(2) Cons.prems(2)]) (use Cons.prems(4) k(1) in auto)
  then show ?case using Cons.IH [OF V(2) Cons.prems(2) _ _ k(2)] Cons.prems(3,4) by (simp add: k(1) V(1))
qed simp

lemma all_rounds: "[0..<64] = concat (map (\<lambda>i. [i..<i + 8]) [0, 8, 16, 24, 32, 40, 48, 56])"
  by (simp add: upt_rec)

lemma process_compress:
  assumes "length (sha_state ctx) = 8"
  shows "mbedtls_sha256_process ctx data = ctx\<lparr>sha_state := fips_compress (sha_state ctx) data\<rparr>"
proof -
  let ?M = "map (\<lambda>i. GET_UINT32_BE data (4 * i)) [0..<16]"
  let ?W = "?M @ replicate 48 0" and ?S = "schedule 48 ?M" and ?H = "sha_state ctx"
  have l: "length ?M = 16" by simp
  have f: "filled ?M 16 ?W" by (simp add: filled_def)
  define A where "A = fold (\<lambda>i. sha_rounds i ?W) [0, 8] ?H"
  have "A = eight_rounds 8 ?W (eight_rounds 0 ?W ?H)"
    using assms by (simp add: A_def sha_rounds_eight)
  also have "\<dots> = eight_rounds 8 ?S (eight_rounds 0 ?S ?H)"
  proof -
    have "take 8 ?W = take 8 (take 16 ?S)" using schedule_take [of 0 48 ?M] by simp
    then have "take (0 + 8) ?W = take (0 + 8) ?S" by (simp only: take_take add_0) simp
    then show ?thesis using filled_rounds [OF f l, of 8] eight_rounds_cong [of 0 ?W ?S] by simp
  qed
  finally have A: "A = eight_rounds 8 ?S (eight_rounds 0 ?S ?H)" .
  have "snd (fold sha_rounds_R [16, 24, 32, 40, 48, 56] (?W, A)) =
      fold (\<lambda>i. eight_rounds i ?S) [16, 24, 32, 40, 48, 56] A"
    by (rule second_loop [OF f l]) (simp_all add: A assms upt_rec)
  also have "\<dots> = fold (\<lambda>i. eight_rounds i ?S) [0, 8, 16, 24, 32, 40, 48, 56] ?H" by (simp add: A)
  also have "\<dots> = fold (\<lambda>t. fips_round (?S ! t) (sha256_K ! t)) [0..<64] ?H"
    unfolding all_rounds eight_rounds_def by (simp only: list.map concat.simps fold_append fold.simps comp_apply id_apply append_Nil2)
  finally have "snd (fold sha_rounds_R [16, 24, 32, 40, 48, 56] (?W, A)) =
      fold (\<lambda>t. fips_round (?S ! t) (sha256_K ! t)) [0..<64] ?H" .
  then show ?thesis
    unfolding mbedtls_sha256_process_def fips_compress_def Let_def A_def by (simp only: case_prod_beta)
qed

subsection \<open>Buffering\<close>

lemma fips_compress_length [simp]: "length (fips_compress H b) = length H"
proof -
  have "length (fold (\<lambda>t. fips_round (W ! t) (sha256_K ! t)) ts H) = length H" for W ts
    by (rule fold_invariant [of _ "\<lambda>_. True" "\<lambda>B. length B = length H"]) simp_all
  then show ?thesis by (simp add: fips_compress_def Let_def)
qed

lemma absorb_length: "length (fst (absorb H m)) = length H"
  by (induction H m rule: absorb.induct) (subst absorb.simps, simp)

lemma absorb_rest: "length (snd (absorb H m)) = length m mod 64"
proof (induction H m rule: absorb.induct)
  case (1 H m)
  show ?case
  proof (cases "64 \<le> length m")
    case True
    then show ?thesis using 1 by (subst absorb.simps) (simp add: le_mod_geq)
  next
    case False
    then show ?thesis by (subst absorb.simps) simp
  qed
qed

lemma absorb_short: "length m < 64 \<Longrightarrow> absorb H m = (H, m)"
  by (subst absorb.simps) simp

lemma absorb_long: "64 \<le> length m \<Longrightarrow> absorb H m = absorb (fips_compress H (take 64 m)) (drop 64 m)"
  by (subst absorb.simps) simp

lemma absorb_append: "absorb H (m @ x) = absorb (fst (absorb H m)) (snd (absorb H m) @ x)"
proof (induction H m rule: absorb.induct)
  case (1 H m)
  show ?case
  proof (cases "64 \<le> length m")
    case True
    then show ?thesis using 1 by (simp add: absorb_long [of m] absorb_long [of "m @ x"])
  next
    case False
    then show ?thesis by (simp add: absorb_short [of m])
  qed
qed

lemma absorb_block: "length r + length x = 64 \<Longrightarrow> absorb H (r @ x @ y) = absorb (fips_compress H (r @ x)) y"
  by (subst absorb_long) simp_all

text \<open>The invariant: the context has read \<open>m\<close>.\<close>

definition well_formed :: "sha256_context \<Rightarrow> bool" where
  "well_formed ctx \<longleftrightarrow> length (sha_state ctx) = 8 \<and> length (sha_buffer ctx) = 64"

definition has_read :: "sha256_context \<Rightarrow> byte list \<Rightarrow> bool" where
  "has_read ctx m \<longleftrightarrow> well_formed ctx \<and>
     sha_total ctx = (of_nat (length m), of_nat (length m div 2 ^ 32)) \<and>
     absorb (sha256_initial (sha_is224 ctx)) m = (sha_state ctx, take (length m mod 64) (sha_buffer ctx))"

lemma update_loop_absorb:
  "length (sha_state ctx) = 8 \<Longrightarrow> update_loop ctx x =
     (ctx\<lparr>sha_state := fst (absorb (sha_state ctx) x)\<rparr>, snd (absorb (sha_state ctx) x))"
proof (induction ctx x rule: update_loop.induct)
  case (1 ctx x)
  show ?case
  proof (cases "64 \<le> length x")
    case True
    then show ?thesis using 1
      by (simp add: update_loop.simps [of ctx x] absorb_long [of x] process_compress)
  next
    case False
    then show ?thesis by (simp add: update_loop.simps [of ctx x] absorb_short [of x])
  qed
qed

lemma copy_at_length: "left + length bs \<le> length buf \<Longrightarrow> length (copy_at left bs buf) = length buf"
  by (simp add: copy_at_def)

lemma copy_at_take: "left + length bs \<le> length buf \<Longrightarrow> take (left + length bs) (copy_at left bs buf) = take left buf @ bs"
  by (simp add: copy_at_def)

text \<open>The 32-bit counters: the carry is taken when, and only when, the low word wraps.\<close>

lemma low_word_and: "(x :: u32) AND 0xFFFFFFFF = x"
  using SHR_drop [of x 0] by (simp add: SHR_def)

lemma low_bits_and: "unat ((of_nat n :: u32) AND 0x3F) = n mod 64"
proof -
  have "(of_nat n :: u32) AND 0x3F = take_bit 6 (of_nat n)" by (simp add: take_bit_eq_mask mask_eq_exp_minus_1)
  then have "unat ((of_nat n :: u32) AND 0x3F) = take_bit 6 (unat (of_nat n :: u32))"
    by (simp only: unsigned_take_bit_eq)
  also have "\<dots> = n mod 64" unfolding unat_of_nat take_bit_eq_mod by (simp add: mod_mod_cancel)
  finally show ?thesis .
qed

lemma counter_carry:
  assumes "n < 2 ^ 64" "l < 2 ^ 32" "n + l < 2 ^ 64"
  shows "(if (of_nat (n + l) :: u32) < of_nat l then of_nat (n div 2 ^ 32) + 1 else of_nat (n div 2 ^ 32)) =
    (of_nat ((n + l) div 2 ^ 32) :: u32)"
proof -
  define q r where "q = n div 2 ^ 32" and "r = n mod 2 ^ 32"
  have n: "n = q * 2 ^ 32 + r" "r < 2 ^ 32" by (simp_all add: q_def r_def)
  have lt: "(of_nat (n + l) :: u32) < of_nat l \<longleftrightarrow> (r + l) mod 2 ^ 32 < l"
    using assms(2) by (simp add: word_less_nat_alt unat_of_nat r_def mod_add_left_eq del: of_nat_add)
  show ?thesis
  proof (cases "r + l < 2 ^ 32")
    case True
    then have "(n + l) div 2 ^ 32 = q" unfolding n(1) by simp
    then show ?thesis using True lt by (simp add: q_def)
  next
    case False
    have "n + l = (q + 1) * 2 ^ 32 + (r + l - 2 ^ 32)" using False n(1) by simp
    moreover have "r + l - 2 ^ 32 < 2 ^ 32" using n(2) assms(2) by simp
    ultimately have d: "(n + l) div 2 ^ 32 = q + 1" by (metis div_mult_self3 div_less add.right_neutral add.commute power_not_zero zero_neq_numeral)
    have "(r + l) mod 2 ^ 32 = r + l - 2 ^ 32" using False n(2) assms(2) by (simp add: mod_if)
    then have "(r + l) mod 2 ^ 32 < l" using n(2) False by simp
    then show ?thesis using lt d by (simp add: q_def)
  qed
qed


lemma update_has_read:
  assumes "has_read ctx m" "length x < 2 ^ 32" "length (m @ x) < 2 ^ 64"
  shows "has_read (mbedtls_sha256_update ctx x) (m @ x)" and
    "sha_is224 (mbedtls_sha256_update ctx x) = sha_is224 ctx"
proof -
  let ?iv = "sha256_initial (sha_is224 ctx)" and ?l = "length m mod 64"
  have wf: "length (sha_state ctx) = 8" "length (sha_buffer ctx) = 64"
    and tot: "sha_total ctx = (of_nat (length m), of_nat (length m div 2 ^ 32))"
    and ab: "absorb ?iv m = (sha_state ctx, take ?l (sha_buffer ctx))"
    using assms(1) by (simp_all add: has_read_def well_formed_def)
  have app: "absorb ?iv (m @ x) = absorb (sha_state ctx) (take ?l (sha_buffer ctx) @ x)"
    using absorb_append [of ?iv m x] ab by simp
  have il: "(of_nat (length x) :: size_t) = 0 \<longleftrightarrow> x = []" "ucast (of_nat (length x) :: size_t) = (of_nat (length x) :: u32)"
    using assms(2) by (auto simp: word_unat_eq_iff unat_of_nat unsigned_ucast_eq take_bit_eq_mod mod_mod_cancel)
  define left where "left = ((of_nat (length m) :: u32) AND 0x3F)"
  have ul: "unat left = ?l" unfolding left_def by (rule low_bits_and)
  have l0: "left = 0 \<longleftrightarrow> ?l = 0" using ul by (metis unat_eq_zero)
  have fill: "unat (64 - ucast left :: size_t) = 64 - ?l"
  proof -
    have "ucast left = (of_nat ?l :: size_t)" 
      by (rule word_unat_eq_iff [THEN iffD2]) (simp add: unsigned_ucast_eq ul unat_of_nat take_bit_eq_mod)
    then have "64 - ucast left = (of_nat (64 - ?l) :: size_t)" by (simp add: of_nat_diff)
    then show ?thesis by (simp only: unat_of_nat) simp
  qed
  define t where "t = (of_nat (length (m @ x)) :: u32, of_nat (length (m @ x) div 2 ^ 32) :: u32)"
  have t: "(of_nat (length m) + of_nat (length x)) AND 0xFFFFFFFF = fst t"
      "(if fst t < of_nat (length x) then of_nat (length m div 2 ^ 32) + 1 else of_nat (length m div 2 ^ 32)) = snd t"
    using counter_carry [of "length m" "length x"] assms(2,3) by (simp_all add: t_def low_word_and)
  have upd: "mbedtls_sha256_update ctx x = (if x = [] then ctx else
      let ctx = ctx\<lparr>sha_total := t\<rparr>;
          (ctx, input, left) =
            (if ?l \<noteq> 0 \<and> 64 - ?l \<le> length x then
               let ctx = ctx\<lparr>sha_buffer := copy_at ?l (take (64 - ?l) x) (sha_buffer ctx)\<rparr> in
               (mbedtls_sha256_process ctx (sha_buffer ctx), drop (64 - ?l) x, 0)
             else (ctx, x, left));
          (ctx, input) = update_loop ctx input in
      if 0 < length input then ctx\<lparr>sha_buffer := copy_at (unat left) input (sha_buffer ctx)\<rparr> else ctx)"
    by (simp only: mbedtls_sha256_update_def Let_def il tot fst_conv snd_conv left_def [symmetric] t l0 fill ul prod.collapse)
  have mod: "length (m @ x) mod 64 = (?l + length x) mod 64" by (simp add: mod_add_left_eq)
  have bl: "length (take ?l (sha_buffer ctx)) = ?l" using wf(2) by (simp add: min_def)
  have r64: "length (snd (absorb (sha_state ctx) (take ?l (sha_buffer ctx) @ x))) = length (m @ x) mod 64"
    unfolding absorb_rest mod using bl by simp
  have *: "has_read (mbedtls_sha256_update ctx x) (m @ x) \<and> sha_is224 (mbedtls_sha256_update ctx x) = sha_is224 ctx"
  proof (cases "x = []")
    case True
    then show ?thesis using assms(1) upd by simp
  next
    case ne: False
    show ?thesis
    proof (cases "?l \<noteq> 0 \<and> 64 - ?l \<le> length x")
      case True
      define b1 where "b1 = copy_at ?l (take (64 - ?l) x) (sha_buffer ctx)"
      define y where "y = drop (64 - ?l) x"
      have lx: "length (take (64 - ?l) x) = 64 - ?l" using True by (simp add: min_absorb2)
      have b1: "b1 = take ?l (sha_buffer ctx) @ take (64 - ?l) x" "length b1 = 64"
        unfolding b1_def copy_at_def using wf(2) lx by simp_all
      have a: "absorb (sha_state ctx) (take ?l (sha_buffer ctx) @ x) = absorb (fips_compress (sha_state ctx) b1) y"
        using absorb_block [of "take ?l (sha_buffer ctx)" "take (64 - ?l) x" "sha_state ctx" y] bl lx
        by (simp add: b1(1) y_def)
      obtain H r where Hr: "absorb (fips_compress (sha_state ctx) b1) y = (H, r)" by force
      have lr: "length r = length (m @ x) mod 64" using r64 unfolding a Hr by simp
      have lH: "length H = 8" using absorb_length [of "fips_compress (sha_state ctx) b1" y] wf(1) by (simp add: Hr)
      have "mbedtls_sha256_update ctx x = ctx\<lparr>sha_total := t, sha_state := H,
          sha_buffer := if 0 < length r then copy_at 0 r b1 else b1\<rparr>"
        unfolding upd if_not_P [OF ne] using True wf(1)
        by (simp add: Let_def process_compress update_loop_absorb b1_def [symmetric] y_def [symmetric] Hr)
      moreover have "take (length r) (if 0 < length r then copy_at 0 r b1 else b1) = r"
        by (simp add: copy_at_def)
      moreover have "length (if 0 < length r then copy_at 0 r b1 else b1) = 64"
        using b1(2) lr by (simp add: copy_at_length)
      ultimately show ?thesis using lH app a Hr lr by (simp add: has_read_def well_formed_def t_def)
    next
      case False
      then have sh: "?l = 0 \<or> ?l + length x < 64" by linarith
      obtain H r where Hr: "absorb (sha_state ctx) x = (H, r)" by force
      have lH: "length H = 8" using absorb_length [of "sha_state ctx" x] wf(1) by (simp add: Hr)
      have lr: "length r = length x mod 64" using absorb_rest [of "sha_state ctx" x] by (simp add: Hr)
      have sr: "?l \<noteq> 0 \<Longrightarrow> H = sha_state ctx \<and> r = x"
        using sh absorb_short [of x "sha_state ctx"] Hr by auto
      have fits: "?l + length r < 64" using sh lr sr by (cases "?l = 0") auto
      have u: "mbedtls_sha256_update ctx x = ctx\<lparr>sha_total := t, sha_state := H,
          sha_buffer := if 0 < length r then copy_at ?l r (sha_buffer ctx) else sha_buffer ctx\<rparr>"
        unfolding upd if_not_P [OF ne] if_not_P [OF False] using wf(1)
        by (simp add: Let_def update_loop_absorb Hr ul)
      have tk: "take (?l + length r) (if 0 < length r then copy_at ?l r (sha_buffer ctx) else sha_buffer ctx) =
          take ?l (sha_buffer ctx) @ r"
        using fits wf(2) by (simp add: copy_at_take)
      have lb: "length (if 0 < length r then copy_at ?l r (sha_buffer ctx) else sha_buffer ctx) = 64"
        using fits wf(2) by (simp add: copy_at_length)
      have "absorb (sha_state ctx) (take ?l (sha_buffer ctx) @ x) = (H, take ?l (sha_buffer ctx) @ r)"
      proof (cases "?l = 0")
        case True
        then show ?thesis using Hr by simp
      next
        case False
        then show ?thesis using sr fits bl by (simp add: absorb_short)
      qed
      moreover have "length (m @ x) mod 64 = ?l + length r"
      proof (cases "?l = 0")
        case True
        then show ?thesis unfolding mod by (simp add: lr)
      next
        case False
        then show ?thesis unfolding mod using sr fits by simp
      qed
      ultimately show ?thesis unfolding u using app lH lb tk by (simp add: has_read_def well_formed_def t_def)
    qed
  qed
  then show "has_read (mbedtls_sha256_update ctx x) (m @ x)"
    "sha_is224 (mbedtls_sha256_update ctx x) = sha_is224 ctx" by auto
qed

subsection \<open>Finishing\<close>

lemma u32_power: "(2 :: u32) ^ 32 = 0"
  by simp

text \<open>The length in bits, from the byte counters.\<close>

lemma length_words:
  assumes "n < 2 ^ 61"
  shows "drop_bit 29 (of_nat n :: u32) OR push_bit 3 (of_nat (n div 2 ^ 32)) = of_nat (8 * n div 2 ^ 32)"
    and "push_bit 3 (of_nat n :: u32) = of_nat (8 * n)"
proof -
  show "push_bit 3 (of_nat n :: u32) = of_nat (8 * n)" by (simp add: push_bit_eq_mult mult.commute)
  have b: "bit (drop_bit 29 (of_nat n :: u32)) k \<Longrightarrow> k < 3" for k
    using bit_imp_le_length [of "of_nat n :: u32" "29 + k"] by (auto simp: bit_drop_bit_eq)
  have d: "drop_bit 29 (of_nat n :: u32) = of_nat (n mod 2 ^ 32 div 2 ^ 29)"
    by (simp add: drop_bit_eq_div word_unat_eq_iff unat_div unat_of_nat)
  have "drop_bit 29 (of_nat n :: u32) OR push_bit 3 (of_nat (n div 2 ^ 32)) =
      drop_bit 29 (of_nat n) + push_bit 3 (of_nat (n div 2 ^ 32))"
    by (rule disjunctive_add [symmetric]) (use b in \<open>force simp: bit_push_bit_iff\<close>)
  also have "\<dots> = of_nat (n mod 2 ^ 32 div 2 ^ 29 + n div 2 ^ 32 * 8)"
    unfolding d by (simp add: push_bit_eq_mult)
  also have "n mod 2 ^ 32 div 2 ^ 29 + n div 2 ^ 32 * 8 = 8 * n div 2 ^ 32"
  proof -
    define q r where "q = n div 2 ^ 32" and "r = n mod 2 ^ 32"
    have "n = q * 2 ^ 32 + r" by (simp add: q_def r_def)
    then have "8 * n = (8 * q) * 2 ^ 32 + 8 * r" by simp
    then have "8 * n div 2 ^ 32 = 8 * q + 8 * r div 2 ^ 32" by simp
    also have "8 * r div 2 ^ 32 = r div 2 ^ 29" by simp
    finally show ?thesis by (simp add: q_def r_def)
  qed
  finally show "drop_bit 29 (of_nat n :: u32) OR push_bit 3 (of_nat (n div 2 ^ 32)) = of_nat (8 * n div 2 ^ 32)" .
qed

lemma PUT_length [simp]: "length (PUT_UINT32_BE w) = 4"
  by (simp add: PUT_UINT32_BE_def)

lemma padding_take: "0 < n \<Longrightarrow> n \<le> 64 \<Longrightarrow> take n sha256_padding = 0x80 # replicate (n - 1) 0"
  by (cases n) (simp_all add: sha256_padding_def min_def)

lemma zeros_short: "(r :: nat) < 56 \<Longrightarrow> (119 - r) mod 64 = 55 - r" and zeros_long: "56 \<le> r \<Longrightarrow> (119 - r) mod 64 = 119 - r"
proof -
  assume "r < 56"
  then have "119 - r = (55 - r) + 64" by simp
  then show "(119 - r) mod 64 = 55 - r" by (simp only: mod_add_self2) simp
qed simp

lemma pad_zeros: "(r :: nat) < 64 \<Longrightarrow> (r + (9 + (119 - r) mod 64)) mod 64 = 0"
  by (cases "r < 56") (simp_all add: zeros_short zeros_long)

lemma fips_pad_length: "length (fips_pad m) mod 64 = 0"
proof -
  have "length (fips_pad m) = length m + (9 + (119 - length m mod 64) mod 64)" by (simp add: fips_pad_def)
  moreover have "(n + (9 + (119 - n mod 64) mod 64)) mod 64 = 0" for n :: nat
  proof -
    have "(n + (9 + (119 - n mod 64) mod 64)) mod 64 = (n mod 64 + (9 + (119 - n mod 64) mod 64)) mod 64"
      by (simp only: mod_add_left_eq)
    also have "\<dots> = 0" by (rule pad_zeros) simp
    finally show ?thesis .
  qed
  ultimately show ?thesis by simp
qed

lemma finish_reads_pad:
  assumes "has_read ctx m" "length m < 2 ^ 61"
  defines "lastb \<equiv> (of_nat (length m) :: u32) AND 0x3F"
  defines "ctx1 \<equiv> mbedtls_sha256_update ctx (take (unat (if lastb < 56 then 56 - lastb else 120 - lastb)) sha256_padding)"
  shows "has_read (mbedtls_sha256_update ctx1 (PUT_UINT32_BE (of_nat (8 * length m div 2 ^ 32)) @ PUT_UINT32_BE (of_nat (8 * length m)))) (fips_pad m)"
    and "sha_is224 (mbedtls_sha256_update ctx1 (PUT_UINT32_BE (of_nat (8 * length m div 2 ^ 32)) @ PUT_UINT32_BE (of_nat (8 * length m)))) = sha_is224 ctx"
proof -
  let ?l = "length m mod 64" and ?w = "PUT_UINT32_BE (of_nat (8 * length m div 2 ^ 32)) @ PUT_UINT32_BE (of_nat (8 * length m))"
  have ul: "unat lastb = ?l" unfolding lastb_def by (rule low_bits_and)
  have lw: "lastb = of_nat ?l" by (rule word_unat_eq_iff [THEN iffD2]) (simp add: ul unat_of_nat)
  define n where "n = (if ?l < 56 then 56 - ?l else 120 - ?l)"
  have l64: "?l < 64" by simp
  have n: "0 < n" "n \<le> 64" "n - 1 = (119 - ?l) mod 64"
    using l64 unfolding n_def by (cases "?l < 56"; simp add: zeros_short zeros_long)+
  have "unat (if lastb < 56 then 56 - lastb else 120 - lastb) = n"
  proof (cases "?l < 56")
    case True
    then have "lastb < 56" by (simp add: word_less_nat_alt ul)
    moreover have "56 - lastb = (of_nat (56 - ?l) :: u32)" using True by (simp add: lw of_nat_diff)
    then have "unat (56 - lastb) = 56 - ?l" by (simp only: unat_of_nat) simp
    ultimately show ?thesis using True by (simp add: n_def)
  next
    case False
    then have "\<not> lastb < 56" by (simp add: word_less_nat_alt ul)
    moreover have "120 - lastb = (of_nat (120 - ?l) :: u32)" by (simp add: lw of_nat_diff)
    then have "unat (120 - lastb) = 120 - ?l" by (simp only: unat_of_nat) simp
    ultimately show ?thesis using False by (simp add: n_def)
  qed
  then have p: "take (unat (if lastb < 56 then 56 - lastb else 120 - lastb)) sha256_padding = 0x80 # replicate ((119 - ?l) mod 64) 0"
    using padding_take [OF n(1,2)] n(3) by simp
  let ?p = "(0x80 :: byte) # replicate ((119 - ?l) mod 64) 0"
  have lp: "length ?p \<le> 64" by (simp add: Suc_le_eq)
  have m2: "length (m @ ?p) < 2 ^ 64" "length ((m @ ?p) @ ?w) < 2 ^ 64" using lp assms(2) by simp_all
  have p32: "length ?p < 2 ^ 32" using lp by (rule order.strict_trans1) simp
  have 1: "has_read ctx1 (m @ ?p)" "sha_is224 ctx1 = sha_is224 ctx"
    unfolding ctx1_def p by (rule update_has_read [OF assms(1) p32 m2(1)])+
  have f: "fips_pad m = (m @ ?p) @ ?w" by (simp add: fips_pad_def)
  have w32: "length ?w < 2 ^ 32" by simp
  show "has_read (mbedtls_sha256_update ctx1 ?w) (fips_pad m)" "sha_is224 (mbedtls_sha256_update ctx1 ?w) = sha_is224 ctx"
    unfolding f using update_has_read [OF 1(1) w32 m2(2)] 1(2) by simp_all
qed

text \<open>What is put into the output.\<close>

definition digest :: "int \<Rightarrow> byte list \<Rightarrow> byte list" where
  "digest is224 m = concat (map PUT_UINT32_BE (take (if is224 = 0 then 8 else 7)
     (fst (absorb (sha256_initial is224) (fips_pad m)))))"

lemma digest_fips: "digest 0 m = fips_sha256 m" "digest 1 m = fips_sha224 m"
proof -
  have "length (fst (absorb (sha256_initial 0) (fips_pad m))) = 8"
    by (simp add: absorb_length) (simp add: sha256_initial_def)
  then show "digest 0 m = fips_sha256 m" by (simp add: digest_def fips_sha256_def)
  show "digest 1 m = fips_sha224 m" by (simp add: digest_def fips_sha224_def)
qed

lemma finish_digest:
  assumes "has_read ctx m" "length m < 2 ^ 61" "length output = 32"
  shows "snd (mbedtls_sha256_finish ctx output) =
    digest (sha_is224 ctx) m @ drop (length (digest (sha_is224 ctx) m)) output"
    and "well_formed (fst (mbedtls_sha256_finish ctx output))"
proof -
  define c2 where "c2 = mbedtls_sha256_update (mbedtls_sha256_update ctx (take (unat (if (of_nat (length m) :: u32) AND 0x3F < 56
      then 56 - ((of_nat (length m) :: u32) AND 0x3F) else 120 - ((of_nat (length m) :: u32) AND 0x3F))) sha256_padding))
      (PUT_UINT32_BE (of_nat (8 * length m div 2 ^ 32)) @ PUT_UINT32_BE (of_nat (8 * length m)))"
  note c = finish_reads_pad [OF assms(1,2), folded c2_def]
  have tot: "sha_total ctx = (of_nat (length m), of_nat (length m div 2 ^ 32))" using assms(1) by (simp add: has_read_def)
  have st: "fst (absorb (sha256_initial (sha_is224 ctx)) (fips_pad m)) = sha_state c2" "length (sha_state c2) = 8"
    "well_formed c2"
    using c by (auto simp: has_read_def well_formed_def)
  have s7: "map (\<lambda>i. PUT_UINT32_BE (sha_state c2 ! i)) [0..<7] = map PUT_UINT32_BE (take 7 (sha_state c2))"
    using st(2) by (intro nth_equalityI) simp_all
  have s8: "take 7 (sha_state c2) @ [sha_state c2 ! 7] = sha_state c2"
    using st(2) by (simp add: take_Suc_conv_app_nth [symmetric])
  have d: "digest (sha_is224 ctx) m = (if sha_is224 ctx = 0
      then concat (map PUT_UINT32_BE (take 7 (sha_state c2))) @ PUT_UINT32_BE (sha_state c2 ! 7)
      else concat (map PUT_UINT32_BE (take 7 (sha_state c2))))"
  proof (cases "sha_is224 ctx = 0")
    case True
    have "concat (map PUT_UINT32_BE (take 7 (sha_state c2))) @ PUT_UINT32_BE (sha_state c2 ! 7) =
        concat (map PUT_UINT32_BE (take 7 (sha_state c2) @ [sha_state c2 ! 7]))" by simp
    then show ?thesis unfolding digest_def st(1) s8 using True st(2) by simp
  next
    case False
    then show ?thesis unfolding digest_def st(1) by simp
  qed
  have "mbedtls_sha256_finish ctx output = (c2, copy_at 0 (digest (sha_is224 ctx) m) output)"
    unfolding mbedtls_sha256_finish_def tot Let_def split_conv length_words [OF assms(2)] c2_def [symmetric] s7 d c(2) ..
  then show "snd (mbedtls_sha256_finish ctx output) =
      digest (sha_is224 ctx) m @ drop (length (digest (sha_is224 ctx) m)) output"
    "well_formed (fst (mbedtls_sha256_finish ctx output))"
    using st(3) by (simp_all add: copy_at_def)
qed

lemma starts_has_read: "length (sha_buffer ctx) = 64 \<Longrightarrow> has_read (mbedtls_sha256_starts ctx is224) []"
  by (simp add: has_read_def well_formed_def mbedtls_sha256_starts_def absorb_short) (simp add: sha256_initial_def)

lemma updates_has_read:
  assumes "has_read ctx m" "\<forall>x\<in>set xs. length x < 2 ^ 32" "length (m @ concat xs) < 2 ^ 64"
  shows "has_read (foldl mbedtls_sha256_update ctx xs) (m @ concat xs)"
    and "sha_is224 (foldl mbedtls_sha256_update ctx xs) = sha_is224 ctx"
proof -
  have "has_read (foldl mbedtls_sha256_update ctx xs) (m @ concat xs) \<and>
      sha_is224 (foldl mbedtls_sha256_update ctx xs) = sha_is224 ctx"
    using assms
  proof (induction xs arbitrary: ctx m)
    case (Cons x xs)
    have "length (m @ x) < 2 ^ 64" "length x < 2 ^ 32" using Cons.prems by simp_all
    note u = update_has_read [OF Cons.prems(1) this(2,1)]
    show ?case using Cons.IH [OF u(1)] Cons.prems(2,3) u(2) by simp
  qed simp
  then show "has_read (foldl mbedtls_sha256_update ctx xs) (m @ concat xs)"
    "sha_is224 (foldl mbedtls_sha256_update ctx xs) = sha_is224 ctx" by simp_all
qed

text \<open>Every operation keeps the shape of the context, whatever it is given: eight words of state and a
  64-byte buffer that \<open>memcpy\<close> never overruns.\<close>

lemma process_well_formed: "well_formed ctx \<Longrightarrow> well_formed (mbedtls_sha256_process ctx data)"
  by (simp add: well_formed_def process_compress)

lemma update_well_formed:
  assumes "well_formed ctx"
  shows "well_formed (mbedtls_sha256_update ctx x)"
proof -
  define left where "left = fst (sha_total ctx) AND 0x3F"
  have "left = of_nat (unat (fst (sha_total ctx))) AND 0x3F" by (simp add: left_def)
  then have ul: "unat left < 64" by (simp only: low_bits_and)
  have l: "ucast left = (of_nat (unat left) :: size_t)" by simp
  have fill: "unat (64 - ucast left :: size_t) = 64 - unat left"
  proof -
    have "64 - ucast left = (of_nat (64 - unat left) :: size_t)" unfolding l using ul by (simp add: of_nat_diff)
    then show ?thesis by (simp only: unat_of_nat) simp
  qed
  have tail: "well_formed (let (c, y) = update_loop c x in
      if 0 < length y then c\<lparr>sha_buffer := copy_at (unat k) y (sha_buffer c)\<rparr> else c)"
    if c: "well_formed c" and k: "k = 0 \<or> unat k + length x < 64" for c x and k :: u32
  proof -
    have "snd (absorb (sha_state c) x) = x" if "length x < 64" using that by (simp add: absorb_short)
    moreover have "length (snd (absorb (sha_state c) x)) < 64" by (simp add: absorb_rest)
    ultimately have f: "unat k + length (snd (absorb (sha_state c) x)) < 64" using k by (cases "k = 0") auto
    then have "length (copy_at (unat k) (snd (absorb (sha_state c) x)) (sha_buffer c)) = 64"
      using c by (subst copy_at_length) (simp_all add: well_formed_def)
    then show ?thesis using c by (simp add: well_formed_def update_loop_absorb absorb_length)
  qed
  define t where "t = (let ilen = of_nat (length x) :: size_t; t0 = (fst (sha_total ctx) + ucast ilen) AND 0xFFFFFFFF in
      (t0, if t0 < ucast ilen then snd (sha_total ctx) + 1 else snd (sha_total ctx)))"
  define b where "b = copy_at (unat left) (take (64 - unat left) x) (sha_buffer ctx)"
  have eq: "mbedtls_sha256_update ctx x = (if (of_nat (length x) :: size_t) = 0 then ctx
      else if left \<noteq> 0 \<and> 64 - unat left \<le> length x then
        let (c, y) = update_loop (mbedtls_sha256_process (ctx\<lparr>sha_total := t, sha_buffer := b\<rparr>) b) (drop (64 - unat left) x) in
        if 0 < length y then c\<lparr>sha_buffer := copy_at (unat (0 :: u32)) y (sha_buffer c)\<rparr> else c
      else
        let (c, y) = update_loop (ctx\<lparr>sha_total := t\<rparr>) x in
        if 0 < length y then c\<lparr>sha_buffer := copy_at (unat left) y (sha_buffer c)\<rparr> else c)"
  proof (cases "left \<noteq> 0 \<and> 64 - unat left \<le> length x")
    case True
    show ?thesis unfolding mbedtls_sha256_update_def left_def [symmetric] Let_def fill t_def b_def if_P [OF True] split_conv
      by simp
  next
    case False
    show ?thesis unfolding mbedtls_sha256_update_def left_def [symmetric] Let_def fill t_def b_def if_not_P [OF False] split_conv
      by simp
  qed
  show ?thesis
  proof (cases "left \<noteq> 0 \<and> 64 - unat left \<le> length x")
    case True
    have "length b = 64" using True assms ul unfolding b_def by (subst copy_at_length) (simp_all add: well_formed_def)
    then have "well_formed (mbedtls_sha256_process (ctx\<lparr>sha_total := t, sha_buffer := b\<rparr>) b)"
      using assms by (intro process_well_formed) (simp add: well_formed_def)
    from tail [OF this, of 0] show ?thesis unfolding eq if_P [OF True] using assms by simp
  next
    case False
    have "well_formed (ctx\<lparr>sha_total := t\<rparr>)" using assms by (simp add: well_formed_def)
    moreover have "left = 0 \<or> unat left + length x < 64" using False by linarith
    ultimately show ?thesis unfolding eq if_not_P [OF False] using assms tail [of "ctx\<lparr>sha_total := t\<rparr>" left x] by simp
  qed
qed

text \<open>A single call with 4 GiB is not counted: the length is truncated to 32 bits before it is added.\<close>

lemma update_truncates_length:
  assumes "length x = 2 ^ 32"
  shows "sha_total (mbedtls_sha256_update ctx x) = sha_total ctx"
proof -
  have u: "ucast (of_nat (length x) :: size_t) = (0 :: u32)" "(of_nat (length x) :: size_t) \<noteq> 0"
    by (simp_all add: assms)
  have lp: "sha_total (fst (update_loop c y)) = sha_total c" for c y
    by (induction c y rule: update_loop.induct)
      (subst update_loop.simps, simp add: mbedtls_sha256_process_def Let_def case_prod_beta)
  show ?thesis
    unfolding mbedtls_sha256_update_def Let_def u
    using lp u(2) by (simp add: low_word_and case_prod_beta mbedtls_sha256_process_def Let_def split: if_splits)
qed

subsection \<open>Properties\<close>

text \<open>
  C13. However a message is cut into updates (each below 4 GiB), the hash is the one of FIPS 180-4 of
  the whole message, for SHA-256 and SHA-224; the 28-byte digest leaves the rest of the output alone.
\<close>

theorem sha256_any_updates:
  assumes "\<forall>x\<in>set xs. length x < 2 ^ 32" and "length (concat xs) < 2 ^ 61"
    and "length (sha_buffer ctx) = 64" and "length output = 32"
  shows "snd (mbedtls_sha256_finish (foldl mbedtls_sha256_update (mbedtls_sha256_starts ctx 0) xs) output) =
      fips_sha256 (concat xs) \<and>
    snd (mbedtls_sha256_finish (foldl mbedtls_sha256_update (mbedtls_sha256_starts ctx 1) xs) output) =
      fips_sha224 (concat xs) @ drop 28 output"
proof -
  have l: "length ([] @ concat xs) < 2 ^ 64" using assms(2) by simp
  have d: "snd (mbedtls_sha256_finish (foldl mbedtls_sha256_update (mbedtls_sha256_starts ctx i) xs) output) =
      digest i (concat xs) @ drop (length (digest i (concat xs))) output" for i
  proof -
    note u = updates_has_read [OF starts_has_read [OF assms(3)] assms(1) l, of i]
    have "sha_is224 (mbedtls_sha256_starts ctx i) = i" by (simp add: mbedtls_sha256_starts_def)
    then show ?thesis using finish_digest(1) [OF u(1) _ assms(4)] u(2) assms(2) by simp
  qed
  have len: "length (concat (map PUT_UINT32_BE ws)) = 4 * length ws" for ws by (induction ws) simp_all
  have h: "length (fst (absorb (sha256_initial i) m)) = 8" for i m by (simp add: absorb_length) (simp add: sha256_initial_def)
  have "length (digest 0 (concat xs)) = 32" "length (digest 1 (concat xs)) = 28"
    by (simp_all add: digest_def len h)
  then show ?thesis using d [of 0] d [of 1] assms(4) by (simp add: digest_fips)
qed

lemma sha256_any_updates_witness:
  "snd (mbedtls_sha256_finish (foldl mbedtls_sha256_update (mbedtls_sha256_starts mbedtls_sha256_init 0)
     [bytes_of ''a'', bytes_of ''bc'']) (replicate 32 0)) = fips_sha256 (bytes_of ''abc'')"
  using sha256_any_updates [of "[bytes_of ''a'', bytes_of ''bc'']" mbedtls_sha256_init "replicate 32 0"]
  by (simp add: mbedtls_sha256_init_def bytes_of_def)



end
