(* ===== verification/Spec2Isabelle.thy ===== *)
theory Spec2Isabelle
  imports Packet_Codec Timers Topic_Match Mqtt_Serialize Network_Mbedtls Mqtt_Client Mqtt_Transport Tls_Client
    Mqtt_Lifecycle Mqtt_Progress Shadow_Requests Thread_Interleaving Tirtos_Network Feed_App
    Mbedtls_Pem Mbedtls_Asn1 Mbedtls_Sha256
begin

text \<open>
  A verification development of the AWS IoT device SDK for embedded C (version 2.1.1, in the fork of
  Paasmer): an MQTT 3.1.1 client over TLS and, on top of it, the client of the Thing Shadow service.

  \<^bold>\<open>The program.\<close> An application calls the functions of src/src/aws_iot_mqtt_client*.c on a client
  object. They serialise packets into the client's transmit buffer, hand them to the network
  functions stored in the client, wait for the reply by reading packets into the receive buffer, and
  deliver received messages to the handlers in the client's table. The network functions are those of
  src/platform/linux/mbedtls/network_mbedtls_wrapper.c over the mbedTLS library; time comes from
  src/platform/linux/common/timer.c. The shadow functions (src/src/aws_iot_shadow*.c) build and read JSON documents with
  the tokeniser src/external_libs/jsmn/jsmn.c, send them with the MQTT functions, and keep tables of the
  requests that wait for an acknowledgement. Built with thread support, the client guards its state and its two
  directions of traffic by mutexes (src/platform/linux/pthread). A second platform (src/platform/tirtos) provides
  timer and network for TI-RTOS. The Paasmer application (src/samples/linux/subscribe_publish_sample) keeps a linked list
  of feeds, each a pin of the board, switches them when messages arrive and publishes their values.

  \<^bold>\<open>The model.\<close> One theory per component, each definition named after the function it translates:

  \<^item> \<open>Prelude\<close>: machine integers, memory as byte lists with stores through a moving pointer, runs with
    fuel. A list access outside its bounds is undefined behaviour and is the value \<open>None\<close> or \<open>Fault\<close>.
  \<^item> \<open>Iot_Error\<close>: the error codes (include/aws_iot_error.h).
  \<^item> \<open>Packet_Codec\<close>: header byte, remaining length, integers and strings on the wire.
  \<^item> \<open>Mqtt_Serialize\<close>: the writers and readers of all packets.
  \<^item> \<open>Timers\<close>: the Linux timer; the locale \<open>timer_interface\<close> is its contract.
  \<^item> \<open>Topic_Match\<close>: matching of topic names with subscription filters.
  \<^item> \<open>Mqtt_Types\<close>, \<open>Mqtt_Client\<close>: the client object, its configuration, its accessors, its invariant
    \<open>wf_client\<close>, and the environment \<open>Env\<close> of clock, network and callbacks on an abstract world.
  \<^item> \<open>Network_Mbedtls\<close>: the TLS layer over the calls of the library, a record \<open>Mbedtls\<close> of functions.
  \<^item> \<open>Mqtt_Transport\<close>: sending, receiving, delivering, waiting. The locale \<open>client_relation\<close> collects the frame
    conditions of these routines.
  \<^item> \<open>Mqtt_Ops\<close>, \<open>Mqtt_Session\<close>: connect, publish, subscribe, unsubscribe, resubscribe, reconnect, keep-alive,
    yield, disconnect; the locales \<open>operation_relation\<close>, \<open>busy_operation\<close> and \<open>connect_relation\<close> carry their
    shared contracts.
  \<^item> \<open>Mqtt_Api\<close>, \<open>Tls_Client\<close>: the interface as a state machine (\<open>session\<close>) and the client on the TLS layer.
  \<^item> \<open>Mqtt_Lifecycle\<close>: an abstract machine of five phases that the client implements.
  \<^item> \<open>Mqtt_Progress\<close>: why every call returns: the locale \<open>responsive\<close> says what it needs of the environment,
    \<open>live_library\<close> what the TLS layer needs of the library to provide it.
  \<^item> \<open>Mqtt_World\<close>: invariants of the world that all client operations keep (locale \<open>world_invariant\<close>).
  \<^item> \<open>Jsmn\<close>, \<open>Json_Utils\<close>, \<open>Shadow_Json\<close>, \<open>Shadow_Token\<close>: the tokeniser, the value parsers, the document
    writers and readers, and the documents of requests.
  \<^item> \<open>Shadow_Records\<close>, \<open>Shadow\<close>: the tables of the shadow layer, its message handlers, its actions and its
    interface. Its variables are part of the world of the MQTT client (\<open>shadow_env\<close>), so handlers that run inside
    an operation, and inside each other, are modelled as they run.
  \<^item> \<open>Shadow_Invariant\<close>, \<open>Shadow_Requests\<close>: the properties of the shadow layer.
  \<^item> \<open>Threads\<close>, \<open>Thread_Interleaving\<close>: the build with thread support. The functions that take a mutex (suffix \<open>_mt\<close>) over
    POSIX mutexes (locale \<open>posix_mutexes\<close>), and threads that change the client state step by step under a schedule.
  \<^item> \<open>Tirtos_Timer\<close>, \<open>Tirtos_Network\<close>: the TI-RTOS platform, over the calls of the operating system.
  \<^item> \<open>Feed_List\<close>, \<open>Feed_App\<close>: the Paasmer application: the feed list on a heap, the pins, the callbacks, the reports
    and \<open>main\<close>.

  \<^bold>\<open>What is shown.\<close>

  \<^item> Wire format: the writers produce exactly the MQTT packets or refuse and leave the buffer alone; reading
    what was written gives it back; the readers stay inside the packet, with the exceptions stated.
  \<^item> Transport: packets are sent whole and received whole; a received message reaches exactly the handlers whose
    filter matches and is acknowledged; a reply is accepted only if it is the awaited packet.
  \<^item> Operations: when each is refused and with which code, the state each leaves, their effect on the
    handler table, the reconnect delays and the keep-alive rule; between any two calls of a session the
    client invariant holds and the client rests in one of five states, which it changes only as the abstract
    life cycle allows; every call returns within its time-outs.
  \<^item> TLS layer: a connection needs a verified handshake; the read and write loops end before their timer.
  \<^item> JSON: the tokeniser never reads outside a terminated text and its tokens are well nested; documents that fit are
    built exactly; printed values are read back.
  \<^item> Shadow layer: its invariant holds after every sequence of calls; the received version never decreases;
    an acknowledgement is dispatched to the request that carries its token; and the situations in
    which the code leaves its arrays or loses an entry, each as a theorem.
  \<^item> Threads: no call keeps a mutex; the mutex makes changes of the client state atomic under every schedule, all of them
    return, and of competing threads one wins; an assignment without the mutex can be lost.
  \<^item> TI-RTOS: the timer is right across a wrap-around of its counter; the handles the network holds after connecting
    and disconnecting.
  \<^item> Application: the linked list holds exactly the configured feeds; the callback switches exactly the addressed feed;
    reports are exact and when they fit; the main loop keeps the client invariant.

  \<^bold>\<open>Conventions and bounds.\<close> The build is that of the Linux sample: \<open>size_t\<close> has 64 bits, \<open>int\<close> 32, bytes are stored
  low byte first, \<open>REVERSED\<close> is not defined, the sizes are those of the sample's aws_iot_config.h.
  \<open>_ENABLE_THREAD_SUPPORT_\<close> is not defined except in the two theories on threads. Loops that depend on network and clock take fuel; theorems that say such a
  loop completes name enough fuel (each turn of a loop uses one unit), and theorems about results hold for
  every amount. Uninitialised locals are an arbitrary byte of the environment. Library code (mbedTLS, the C
  library's floating point conversions, the application's callbacks) is a parameter.
  The handler table keeps the bytes of a topic where the code keeps a pointer to them.

  In \<open>Mqtt_Progress\<close> the fuel of an operation is one unit for every microsecond of its time-out and every
  byte still to come, since every turn of a loop reads the clock or takes a byte.

  \<^bold>\<open>Not modelled.\<close> Logging and the function \<open>print\<close> of the application (output only); the mbedTLS library itself
  (third-party, a parameter here); the CC3200 sample, whose board set-up calls vendor code that is not in the
  repository; the tests.
\<close>

end
